(* ===== verification/Prelude.thy ===== *)
theory Prelude
  imports Complex_Main "HOL-Library.AList" "HOL-Library.Multiset" "HOL-Library.List_Lexorder"
    "HOL-Library.Char_ord"
begin

text \<open>
  What the components share: Go's clock and duration arithmetic, the wrap-around of \<open>int64\<close>,
  byte strings and the functions of package \<open>strings\<close> the router calls, maps as association
  lists with distinct keys, and \<open>sort.SliceStable\<close>.

  \<^item> A \<open>time.Time\<close> is the number of nanoseconds since Go's zero time (1 January of year 1, UTC),
    so \<open>IsZero\<close> is equality with \<open>0\<close> and \<open>Truncate\<close>, which Go defines relative to the zero time,
    is plain integer arithmetic. Monotonic clock readings are not represented.
  \<^item> A \<open>time.Duration\<close> and every other \<open>int64\<close> is an \<open>int\<close>; where an operation can leave the
    64-bit range the definitions apply \<open>wrap64\<close>.
  \<^item> A Go map is a list of key/value pairs; the order of the list is one possible iteration order.
  \<^item> Strings are lists of bytes; case folding and trimming are those of ASCII.
\<close>

named_theorems map_simps \<open>lookup after an update or a deletion\<close>
named_theorems time_simps \<open>unfolding of the clock operations\<close>

section \<open>Time and durations\<close>

type_synonym go_time = int
type_synonym duration = int

definition zero_time :: go_time where
  [time_simps]: "zero_time = 0"

definition is_zero :: "go_time \<Rightarrow> bool" where
  [time_simps]: "is_zero t \<longleftrightarrow> t = zero_time"

definition after :: "go_time \<Rightarrow> go_time \<Rightarrow> bool" where
  [time_simps]: "after t u \<longleftrightarrow> u < t"

definition before :: "go_time \<Rightarrow> go_time \<Rightarrow> bool" where
  [time_simps]: "before t u \<longleftrightarrow> t < u"

definition add_dur :: "go_time \<Rightarrow> duration \<Rightarrow> go_time" where
  [time_simps]: "add_dur t d = t + d"

definition max_int64 :: int where
  "max_int64 = 9223372036854775807"

definition min_int64 :: int where
  "min_int64 = -9223372036854775808"

text \<open>\<open>Time.Sub\<close> saturates at the ends of the \<open>Duration\<close> range.\<close>

definition sub_time :: "go_time \<Rightarrow> go_time \<Rightarrow> duration" where
  "sub_time t u = max min_int64 (min max_int64 (t - u))"

abbreviation (input) nanosecond :: duration where "nanosecond \<equiv> 1"
abbreviation (input) millisecond :: duration where "millisecond \<equiv> 1000000"
abbreviation (input) second :: duration where "second \<equiv> 1000000000"
abbreviation (input) minute :: duration where "minute \<equiv> 60000000000"
abbreviation (input) hour :: duration where "hour \<equiv> 3600000000000"
abbreviation (input) day :: duration where "day \<equiv> 86400000000000"

definition truncate_time :: "go_time \<Rightarrow> duration \<Rightarrow> go_time" where
  "truncate_time t d = t - t mod d"

lemma truncate_le: "0 < d \<Longrightarrow> truncate_time t d \<le> t \<and> t < truncate_time t d + d"
  by (auto simp: truncate_time_def)

lemma sub_time_pos_iff: "0 < sub_time t u \<longleftrightarrow> u < t"
  by (auto simp: sub_time_def min_int64_def max_int64_def)

lemma sub_time_range: "min_int64 \<le> sub_time t u \<and> sub_time t u \<le> max_int64"
  by (auto simp: sub_time_def min_int64_def max_int64_def)

section \<open>64-bit signed integers\<close>

definition wrap64 :: "int \<Rightarrow> int" where
  "wrap64 n = (n + 9223372036854775808) mod 18446744073709551616 - 9223372036854775808"

definition int64_ok :: "int \<Rightarrow> bool" where
  "int64_ok n \<longleftrightarrow> min_int64 \<le> n \<and> n \<le> max_int64"

lemma wrap64_id [simp]: "int64_ok n \<Longrightarrow> wrap64 n = n"
  by (simp add: wrap64_def int64_ok_def min_int64_def max_int64_def)

lemma wrap64_ok [simp]: "int64_ok (wrap64 n)"
  by (simp add: wrap64_def int64_ok_def min_int64_def max_int64_def)

lemma int64_ok_nonneg: "0 \<le> n \<Longrightarrow> n \<le> max_int64 \<Longrightarrow> int64_ok n"
  by (simp add: int64_ok_def min_int64_def)

lemma wrap64_eq_id: "0 \<le> n \<Longrightarrow> n \<le> max_int64 \<Longrightarrow> wrap64 n = n"
  by (rule wrap64_id) (rule int64_ok_nonneg)

text \<open>Adding two non-negative \<open>int64\<close> overflows exactly when the wrapped sum is negative.\<close>

lemma wrap64_add_neg_iff:
  assumes "0 \<le> a" "a \<le> max_int64" "0 \<le> b" "b \<le> max_int64"
  shows "wrap64 (a + b) < 0 \<longleftrightarrow> max_int64 < a + b"
proof (cases "a + b \<le> max_int64")
  case True
  with assms show ?thesis by (simp add: wrap64_eq_id)
next
  case False
  let ?x = "a + b + 9223372036854775808"
  from False assms have "?x mod 18446744073709551616 = (?x - 18446744073709551616) mod 18446744073709551616"
    by (intro mod_pos_geq) (simp_all add: max_int64_def)
  also from False assms have "\<dots> = ?x - 18446744073709551616"
    by (intro mod_pos_pos_trivial) (simp_all add: max_int64_def)
  finally have "?x mod 18446744073709551616 = ?x - 18446744073709551616" .
  with False assms show ?thesis by (simp add: wrap64_def max_int64_def)
qed

section \<open>Byte strings\<close>

definition is_space :: "char \<Rightarrow> bool" where
  "is_space c \<longleftrightarrow> c \<in> {CHR 0x09, CHR 0x0A, CHR 0x0B, CHR 0x0C, CHR 0x0D, CHR '' ''}"

definition trim_space :: "string \<Rightarrow> string" where
  "trim_space s = rev (dropWhile is_space (rev (dropWhile is_space s)))"

definition char_lower :: "char \<Rightarrow> char" where
  "char_lower c = (let n = (of_char c :: nat) in if 65 \<le> n \<and> n \<le> 90 then char_of (n + 32) else c)"

definition to_lower :: "string \<Rightarrow> string" where
  "to_lower s = map char_lower s"

definition equal_fold :: "string \<Rightarrow> string \<Rightarrow> bool" where
  "equal_fold s t \<longleftrightarrow> to_lower s = to_lower t"

definition has_prefix :: "string \<Rightarrow> string \<Rightarrow> bool" where
  "has_prefix s p \<longleftrightarrow> take (length p) s = p"

definition has_suffix :: "string \<Rightarrow> string \<Rightarrow> bool" where
  "has_suffix s t \<longleftrightarrow> length t \<le> length s \<and> drop (length s - length t) s = t"

fun contains :: "string \<Rightarrow> string \<Rightarrow> bool" where
  "contains [] p \<longleftrightarrow> p = []"
| "contains (c # s) p \<longleftrightarrow> has_prefix (c # s) p \<or> contains s p"

fun index_byte :: "string \<Rightarrow> char \<Rightarrow> nat option" where
  "index_byte [] c = None"
| "index_byte (x # xs) c = (if x = c then Some 0 else map_option Suc (index_byte xs c))"

fun join :: "string \<Rightarrow> string list \<Rightarrow> string" where
  "join sep [] = []"
| "join sep [x] = x"
| "join sep (x # y # ys) = x @ sep @ join sep (y # ys)"

lemma dropWhile_idem [simp]: "dropWhile P (dropWhile P xs) = dropWhile P xs"
  by (induction xs) auto

lemma contains_iff: "contains s p \<longleftrightarrow> (\<exists>u v. s = u @ p @ v)"
proof (induction s)
  case Nil
  then show ?case by auto
next
  case (Cons c s)
  have "has_prefix (c # s) p \<longleftrightarrow> (\<exists>v. c # s = p @ v)"
    by (metis append_eq_conv_conj append_take_drop_id has_prefix_def)
  with Cons.IH show ?case
    by (auto simp: append_eq_Cons_conv Cons_eq_append_conv)
qed

section \<open>Maps\<close>

text \<open>A Go map: an association list; \<open>m_get\<close>, \<open>m_set\<close> and \<open>m_del\<close> are \<open>m[k]\<close>, \<open>m[k] = v\<close> and
  \<open>delete(m, k)\<close>.\<close>

type_synonym ('k, 'v) gomap = "('k \<times> 'v) list"

abbreviation m_get :: "('k, 'v) gomap \<Rightarrow> 'k \<Rightarrow> 'v option" where
  "m_get m k \<equiv> map_of m k"

abbreviation m_set :: "'k \<Rightarrow> 'v \<Rightarrow> ('k, 'v) gomap \<Rightarrow> ('k, 'v) gomap" where
  "m_set k v m \<equiv> AList.update k v m"

abbreviation m_del :: "'k \<Rightarrow> ('k, 'v) gomap \<Rightarrow> ('k, 'v) gomap" where
  "m_del k m \<equiv> AList.delete k m"

abbreviation m_keys :: "('k, 'v) gomap \<Rightarrow> 'k list" where
  "m_keys m \<equiv> map fst m"

abbreviation m_wf :: "('k, 'v) gomap \<Rightarrow> bool" where
  "m_wf m \<equiv> distinct (map fst m)"

definition m_get_or :: "'v \<Rightarrow> ('k, 'v) gomap \<Rightarrow> 'k \<Rightarrow> 'v" where
  "m_get_or d m k = (case map_of m k of None \<Rightarrow> d | Some v \<Rightarrow> v)"

lemma m_get_set [map_simps, simp]: "m_get (m_set k v m) j = (if j = k then Some v else m_get m j)"
  by (simp add: update_conv')

lemma m_get_del [map_simps, simp]: "m_get (m_del k m) j = (if j = k then None else m_get m j)"
  by (simp add: delete_conv')

lemma m_get_or_set [map_simps, simp]:
  "m_get_or d (m_set k v m) j = (if j = k then v else m_get_or d m j)"
  by (simp add: m_get_or_def)

lemma m_wf_set [simp]: "m_wf m \<Longrightarrow> m_wf (m_set k v m)"
  by (rule distinct_update)

lemma m_wf_del [simp]: "m_wf m \<Longrightarrow> m_wf (m_del k m)"
  by (rule distinct_delete)

lemma m_wf_filter [simp]: "m_wf m \<Longrightarrow> m_wf (filter P m)"
  by (rule distinct_map_filter)

lemma list_all_m_set [simp]: "list_all P m \<Longrightarrow> P (k, v) \<Longrightarrow> list_all P (m_set k v m)"
  by (induction m) auto

lemma list_all_m_del [simp]: "list_all P m \<Longrightarrow> list_all P (m_del k m)"
  by (induction m) auto

lemma list_all_getD: "list_all P m \<Longrightarrow> m_get m k = Some v \<Longrightarrow> P (k, v)"
  by (auto simp: list_all_iff dest: map_of_SomeD)

lemma m_set_fresh: "m_get m k = None \<Longrightarrow> m_set k v m = m @ [(k, v)]"
  by (induction m) (auto split: if_splits)

lemma m_del_set_fresh: "m_get m k = None \<Longrightarrow> m_del k (m_set k v m) = m"
  by (simp add: delete_update_same map_of_eq_None_iff)

lemma m_get_filter:
  "m_wf m \<Longrightarrow> m_get (filter (\<lambda>(k, v). P k v) m) k =
     (case m_get m k of None \<Rightarrow> None | Some v \<Rightarrow> if P k v then Some v else None)"
  by (induction m) (auto split: option.splits simp: map_of_eq_None_iff image_iff)

section \<open>Stable sorting\<close>

text \<open>
  \<open>sort.SliceStable\<close> sorts blocks of twenty elements by insertion and merges them. The slices
  the router sorts have fewer elements than one block, so the sort is the insertion sort of one
  block, written out here: the next element moves left while it is less than its left neighbour.
  The accumulator is the sorted prefix from right to left.
\<close>

fun insert_left :: "('a \<Rightarrow> 'a \<Rightarrow> bool) \<Rightarrow> 'a \<Rightarrow> 'a list \<Rightarrow> 'a list" where
  "insert_left lt x [] = [x]"
| "insert_left lt x (y # ys) = (if lt x y then y # insert_left lt x ys else x # y # ys)"

definition slice_stable :: "('a \<Rightarrow> 'a \<Rightarrow> bool) \<Rightarrow> 'a list \<Rightarrow> 'a list" where
  "slice_stable lt xs = rev (foldl (\<lambda>acc x. insert_left lt x acc) [] xs)"

lemma mset_insert_left [simp]: "mset (insert_left lt x ys) = add_mset x (mset ys)"
  by (induction ys) auto

lemma mset_slice_stable [simp]: "mset (slice_stable lt xs) = mset xs"
proof -
  have "mset (foldl (\<lambda>acc x. insert_left lt x acc) ys xs) = mset ys + mset xs" for ys
    by (induction xs arbitrary: ys) auto
  then show ?thesis by (simp add: slice_stable_def)
qed

lemma set_slice_stable [simp]: "set (slice_stable lt xs) = set xs"
  by (metis mset_slice_stable set_mset_mset)

lemma length_slice_stable [simp]: "length (slice_stable lt xs) = length xs"
  by (metis mset_slice_stable size_mset)

lemma slice_stable_Nil_iff [simp]: "slice_stable lt xs = [] \<longleftrightarrow> xs = []"
  by (metis length_0_conv length_slice_stable)

text \<open>When the comparison is that of a key in a linear order, the result is the library's stable sort.\<close>

lemma insert_left_sorted:
  fixes f :: "'a \<Rightarrow> 'b :: linorder"
  assumes "sorted (map f (rev ys))"
  shows "sorted (map f (rev (insert_left (\<lambda>a b. f a < f b) x ys)))"
  using assms
proof (induction ys)
  case Nil
  then show ?case by simp
next
  case (Cons y ys)
  have set: "set (insert_left (\<lambda>a b. f a < f b) x ys) = insert x (set ys)"
    by (metis mset_insert_left set_mset_add_mset_insert set_mset_mset)
  show ?case
  proof (cases "f x < f y")
    case True
    with Cons set show ?thesis by (auto simp: sorted_append)
  next
    case False
    with Cons.prems show ?thesis by (force simp: sorted_append)
  qed
qed

lemma sorted_slice_stable:
  fixes f :: "'a \<Rightarrow> 'b :: linorder"
  shows "sorted (map f (slice_stable (\<lambda>a b. f a < f b) xs))"
proof -
  have "sorted (map f (rev (foldl (\<lambda>acc x. insert_left (\<lambda>a b. f a < f b) x acc) ys xs)))"
    if "sorted (map f (rev ys))" for ys
    using that
  proof (induction xs arbitrary: ys)
    case Nil
    then show ?case by simp
  next
    case (Cons x xs)
    then show ?case using insert_left_sorted [of f ys x] by simp
  qed
  then show ?thesis by (simp add: slice_stable_def)
qed

lemma filter_insert_left:
  fixes f :: "'a \<Rightarrow> 'b :: linorder"
  assumes "sorted (map f (rev ys))"
  shows "filter (\<lambda>a. f a = k) (insert_left (\<lambda>a b. f a < f b) x ys)
       = filter (\<lambda>a. f a = k) (x # ys)"
  using assms by (induction ys) (auto simp: sorted_append split: if_splits)

text \<open>Stability: elements with equal keys keep their order.\<close>

lemma slice_stable_stable:
  fixes f :: "'a \<Rightarrow> 'b :: linorder"
  shows "filter (\<lambda>a. f a = k) (slice_stable (\<lambda>a b. f a < f b) xs) = filter (\<lambda>a. f a = k) xs"
proof -
  have "filter (\<lambda>a. f a = k) (rev (foldl (\<lambda>acc x. insert_left (\<lambda>a b. f a < f b) x acc) ys xs))
      = filter (\<lambda>a. f a = k) (rev ys @ xs)"
    if "sorted (map f (rev ys))" for ys
    using that
  proof (induction xs arbitrary: ys)
    case Nil
    then show ?case by simp
  next
    case (Cons x xs)
    have "filter (\<lambda>a. f a = k) (rev (insert_left (\<lambda>a b. f a < f b) x ys))
        = filter (\<lambda>a. f a = k) (rev (x # ys))"
      using filter_insert_left [OF Cons.prems, of k x] by (simp only: rev_filter [symmetric])
    with Cons insert_left_sorted [of f ys x] show ?case by simp
  qed
  then show ?thesis by (simp add: slice_stable_def)
qed

lemma slice_stable_sort_key:
  fixes f :: "'a \<Rightarrow> 'b :: linorder"
  shows "slice_stable (\<lambda>a b. f a < f b) xs = sort_key f xs"
proof (rule properties_for_sort_key [symmetric])
  show "filter (\<lambda>x. f k = f x) (slice_stable (\<lambda>a b. f a < f b) xs) = filter (\<lambda>x. f k = f x) xs" for k
    using slice_stable_stable [of f "f k" xs] by (simp add: eq_commute)
qed (simp_all add: sorted_slice_stable)

end
