(* ===== verification/Host_Breaker.thy ===== *)
theory Host_Breaker
  imports Prelude
begin

text \<open>
  \<open>GlobalBreakerTransport\<close> of \<open>src/internal/router/router_breaker.go\<close>: a circuit breaker per
  upstream host around the HTTP transport. \<open>RoundTrip\<close> takes the lock twice, before the request
  goes out (\<open>admit\<close>) and after it came back (\<open>resolve\<close>); between the two any number of other
  requests run. The step relation interleaves these parts, with the requests in flight as a
  multiset.
\<close>

section \<open>Definitions\<close>

record hostBreakerState =
  hb_failures :: int
  hb_openUntil :: go_time
  hb_probeUntil :: go_time

record GlobalBreakerTransport =
  gt_FailureThreshold :: int
  gt_Cooldown :: duration
  gt_hosts :: "(string, hostBreakerState) gomap"

definition zeroHost :: hostBreakerState where
  "zeroHost = \<lparr>hb_failures = 0, hb_openUntil = zero_time, hb_probeUntil = zero_time\<rparr>"

text \<open>\<open>hostState\<close> creates the entry when it is missing, then the caller changes it.\<close>

definition hostState :: "string \<Rightarrow> GlobalBreakerTransport \<Rightarrow> hostBreakerState" where
  "hostState host t = m_get_or zeroHost (gt_hosts t) host"

definition put_host :: "string \<Rightarrow> hostBreakerState \<Rightarrow> GlobalBreakerTransport \<Rightarrow> GlobalBreakerTransport" where
  "put_host host hb t = t\<lparr>gt_hosts := m_set host hb (gt_hosts t)\<rparr>"

text \<open>The verdict of the first locked section: the two error messages, or go ahead, as the probe or
  as an ordinary request.\<close>

datatype admission = CircuitOpen | ProbeInFlight | Admitted (is_probe: bool)

definition admit_host :: "duration \<Rightarrow> go_time \<Rightarrow> hostBreakerState \<Rightarrow> hostBreakerState \<times> admission" where
  "admit_host cooldown now hb =
     (if before now (hb_openUntil hb) then (hb, CircuitOpen)
      else if \<not> is_zero (hb_openUntil hb)
      then if before now (hb_probeUntil hb) then (hb, ProbeInFlight)
           else let ttl = (if cooldown < 60 * second then 60 * second else cooldown)
                in (hb\<lparr>hb_probeUntil := add_dur now ttl\<rparr>, Admitted True)
      else (hb, Admitted False))"

definition admit :: "go_time \<Rightarrow> string \<Rightarrow> GlobalBreakerTransport \<Rightarrow> GlobalBreakerTransport \<times> admission" where
  "admit now host t =
     (let (hb, verdict) = admit_host (gt_Cooldown t) now (hostState host t)
      in (put_host host hb t, verdict))"

text \<open>What came back: a transport error (with whether the error or the request's context says it was
  cancelled) or a response status.\<close>

datatype round_trip = Failed (was_cancelled: bool) | Responded (resp_status: int)

definition resolve_host ::
  "int \<Rightarrow> duration \<Rightarrow> go_time \<Rightarrow> bool \<Rightarrow> round_trip \<Rightarrow> hostBreakerState \<Rightarrow> hostBreakerState" where
  "resolve_host threshold cooldown now probing out hb =
     (let hb = hb\<lparr>hb_probeUntil := zero_time\<rparr>
      in case out of
           Failed c \<Rightarrow>
             if c then hb
             else let hb = hb\<lparr>hb_failures := wrap64 (hb_failures hb + 1)\<rparr>
                  in if hb_failures hb \<ge> threshold
                     then hb\<lparr>hb_openUntil := add_dur now cooldown\<rparr> else hb
         | Responded code \<Rightarrow>
             if code \<ge> 500 \<and> probing then hb\<lparr>hb_openUntil := add_dur now cooldown\<rparr>
             else if code = 429 \<or> code \<ge> 500 then hb
             else hb\<lparr>hb_failures := 0, hb_openUntil := zero_time\<rparr>)"

definition resolve ::
  "go_time \<Rightarrow> string \<Rightarrow> bool \<Rightarrow> round_trip \<Rightarrow> GlobalBreakerTransport \<Rightarrow> GlobalBreakerTransport" where
  "resolve now host probing out t =
     put_host host (resolve_host (gt_FailureThreshold t) (gt_Cooldown t) now probing out (hostState host t)) t"

text \<open>\<open>RoundTrip\<close> with nothing in between: the verdict, and the transport afterwards.\<close>

definition RoundTrip ::
  "go_time \<Rightarrow> go_time \<Rightarrow> string \<Rightarrow> round_trip \<Rightarrow> GlobalBreakerTransport \<Rightarrow> GlobalBreakerTransport \<times> admission" where
  "RoundTrip now1 now2 host out t =
     (case admit now1 host t of
        (t, Admitted p) \<Rightarrow> (resolve now2 host p out t, Admitted p)
      | (t, refusal) \<Rightarrow> (t, refusal))"

section \<open>Interleavings\<close>

record transport_run =
  tr_transport :: GlobalBreakerTransport
  tr_inflight :: "(string \<times> bool) multiset"

inductive transport_step :: "transport_run \<Rightarrow> transport_run \<Rightarrow> bool" where
  refused: "admit now host (tr_transport r) = (t, v) \<Longrightarrow> v \<in> {CircuitOpen, ProbeInFlight} \<Longrightarrow>
    transport_step r (r\<lparr>tr_transport := t\<rparr>)"
| started: "admit now host (tr_transport r) = (t, Admitted p) \<Longrightarrow>
    transport_step r \<lparr>tr_transport = t, tr_inflight = add_mset (host, p) (tr_inflight r)\<rparr>"
| finished: "(host, p) \<in># tr_inflight r \<Longrightarrow>
    transport_step r \<lparr>tr_transport = resolve now host p out (tr_transport r),
      tr_inflight = tr_inflight r - {#(host, p)#}\<rparr>"

inductive_cases transport_stepE: "transport_step r r'"

section \<open>Facts\<close>

lemma hostState_put [simp]:
  "hostState h' (put_host h hb t) = (if h' = h then hb else hostState h' t)"
  "gt_FailureThreshold (put_host h hb t) = gt_FailureThreshold t"
  "gt_Cooldown (put_host h hb t) = gt_Cooldown t"
  by (simp_all add: hostState_def put_host_def)

lemma admit_host_cases:
  "admit_host cooldown now hb =
    (if now < hb_openUntil hb then (hb, CircuitOpen)
     else if hb_openUntil hb = 0 then (hb, Admitted False)
     else if now < hb_probeUntil hb then (hb, ProbeInFlight)
     else (hb\<lparr>hb_probeUntil := now + max cooldown (60 * second)\<rparr>, Admitted True))"
  by (auto simp: admit_host_def time_simps max_def Let_def)

fun admissions :: "duration \<Rightarrow> go_time list \<Rightarrow> hostBreakerState \<Rightarrow> admission list" where
  "admissions cooldown [] hb = []"
| "admissions cooldown (t # ts) hb =
     (let (hb', v) = admit_host cooldown t hb in v # admissions cooldown ts hb')"

lemma admissions_while_probing:
  assumes "hb_openUntil hb \<noteq> 0" "\<forall>t \<in> set ts. hb_openUntil hb \<le> t \<and> t < hb_probeUntil hb"
  shows "admissions cooldown ts hb = replicate (length ts) ProbeInFlight"
  using assms by (induction ts) (auto simp: admit_host_cases)

section \<open>Histories\<close>

text \<open>What happens to a transport as a list of events: a request for a host asks for admission, or comes
  back, having been let in as the probe or not.\<close>

datatype host_event = Asked (ev_time: go_time) (ev_host: string)
  | Back (ev_time: go_time) (ev_host: string) (ev_probe: bool) (ev_out: round_trip)

definition host_event :: "host_event \<Rightarrow> GlobalBreakerTransport \<Rightarrow> GlobalBreakerTransport" where
  "host_event ev t = (case ev of Asked now h \<Rightarrow> fst (admit now h t) | Back now h p out \<Rightarrow> resolve now h p out t)"

definition host_events :: "host_event list \<Rightarrow> GlobalBreakerTransport \<Rightarrow> GlobalBreakerTransport" where
  "host_events evs t = fold host_event evs t"

definition fresh_transport :: "int \<Rightarrow> duration \<Rightarrow> GlobalBreakerTransport" where
  "fresh_transport n d = \<lparr>gt_FailureThreshold = n, gt_Cooldown = d, gt_hosts = []\<rparr>"

text \<open>What the history says of a host, without the state of its circuit. An answer that is neither a
  server error nor a 429 shows the host healthy; what came back since the last such answer counts.\<close>

definition healthy :: "round_trip \<Rightarrow> bool" where
  "healthy out \<longleftrightarrow> (case out of Failed c \<Rightarrow> False | Responded code \<Rightarrow> code < 500 \<and> code \<noteq> 429)"

definition is_back :: "string \<Rightarrow> host_event \<Rightarrow> bool" where
  "is_back h ev \<longleftrightarrow> (case ev of Asked now h' \<Rightarrow> False | Back now h' p out \<Rightarrow> h' = h)"

definition back_since_healthy :: "string \<Rightarrow> host_event list \<Rightarrow> host_event list" where
  "back_since_healthy h evs = rev (takeWhile (\<lambda>ev. \<not> healthy (ev_out ev)) (rev (filter (is_back h) evs)))"

definition failure_count :: "host_event list \<Rightarrow> nat" where
  "failure_count evs = length (filter (\<lambda>ev. ev_out ev = Failed False) evs)"

text \<open>The instants at which the circuit opened: transport failures that made the count reach the
  threshold, and probes answered with a server error.\<close>

definition openings :: "int \<Rightarrow> host_event list \<Rightarrow> go_time list" where
  "openings n evs = map (\<lambda>i. ev_time (evs ! i)) (filter (\<lambda>i.
     ev_out (evs ! i) = Failed False \<and> n \<le> int (failure_count (take (Suc i) evs)) \<or>
     ev_probe (evs ! i) \<and> (\<exists>code \<ge> 500. ev_out (evs ! i) = Responded code)) [0..<length evs])"

definition opened_until :: "int \<Rightarrow> duration \<Rightarrow> string \<Rightarrow> host_event list \<Rightarrow> go_time" where
  "opened_until n d h evs = (let ts = openings n (back_since_healthy h evs) in if ts = [] then 0 else last ts + d)"

text \<open>A probe was let in at \<open>t\<close> and nothing of the host came back since.\<close>

definition probe_claimed :: "int \<Rightarrow> duration \<Rightarrow> string \<Rightarrow> host_event list \<Rightarrow> go_time \<Rightarrow> bool" where
  "probe_claimed n d h evs t \<longleftrightarrow> (\<exists>pre post. evs = pre @ Asked t h # post \<and> (\<forall>ev \<in> set post. \<not> is_back h ev) \<and>
     snd (admit t h (host_events pre (fresh_transport n d))) = Admitted True)"

lemma host_events_snoc [simp]:
  "host_events [] t = t" "host_events (evs @ [ev]) t = host_event ev (host_events evs t)"
  by (simp_all add: host_events_def)

lemma host_event_sel [simp]:
  "gt_FailureThreshold (host_event ev t) = gt_FailureThreshold t" "gt_Cooldown (host_event ev t) = gt_Cooldown t"
  by (auto simp: host_event_def admit_def resolve_def split: host_event.split prod.split)

lemma host_events_sel [simp]:
  "gt_FailureThreshold (host_events evs t) = gt_FailureThreshold t" "gt_Cooldown (host_events evs t) = gt_Cooldown t"
  by (induction evs rule: rev_induct) simp_all

lemma fresh_transport_sel [simp]:
  "gt_FailureThreshold (fresh_transport n d) = n" "gt_Cooldown (fresh_transport n d) = d"
  "hostState h (fresh_transport n d) = zeroHost"
  by (simp_all add: fresh_transport_def hostState_def m_get_or_def)

lemma back_since_healthy_snoc:
  "back_since_healthy h (evs @ [ev]) =
     (if \<not> is_back h ev then back_since_healthy h evs
      else if healthy (ev_out ev) then [] else back_since_healthy h evs @ [ev])"
  by (simp add: back_since_healthy_def)

lemma failure_count_snoc [simp]:
  "failure_count [] = 0" "failure_count (evs @ [ev]) = failure_count evs + (if ev_out ev = Failed False then 1 else 0)"
  by (simp_all add: failure_count_def)

lemma openings_snoc [simp]:
  "openings n [] = []"
  "openings n (evs @ [ev]) = openings n evs @
     (if ev_out ev = Failed False \<and> n \<le> int (failure_count evs) + 1 \<or> ev_probe ev \<and> (\<exists>code \<ge> 500. ev_out ev = Responded code)
      then [ev_time ev] else [])"
proof -
  show "openings n [] = []" by (simp add: openings_def)
  have "openings n evs = map (\<lambda>i. ev_time ((evs @ [ev]) ! i)) (filter (\<lambda>i.
     ev_out ((evs @ [ev]) ! i) = Failed False \<and> n \<le> int (failure_count (take (Suc i) (evs @ [ev]))) \<or>
     ev_probe ((evs @ [ev]) ! i) \<and> (\<exists>code \<ge> 500. ev_out ((evs @ [ev]) ! i) = Responded code)) [0..<length evs])"
    unfolding openings_def by (rule map_cong [OF filter_cong]) (auto simp: nth_append)
  then show "openings n (evs @ [ev]) = openings n evs @
     (if ev_out ev = Failed False \<and> n \<le> int (failure_count evs) + 1 \<or> ev_probe ev \<and> (\<exists>code \<ge> 500. ev_out ev = Responded code)
      then [ev_time ev] else [])"
    by (auto simp: openings_def add.commute)
qed

text \<open>The state of a circuit is what its history says.\<close>

lemma failure_count_le: "failure_count (back_since_healthy h evs) \<le> length evs"
  by (induction evs rule: rev_induct) (auto simp: back_since_healthy_snoc, simp add: back_since_healthy_def)

lemma host_history:
  assumes "int (length evs) \<le> max_int64"
  shows "hb_failures (hostState h (host_events evs (fresh_transport n d))) = int (failure_count (back_since_healthy h evs)) \<and>
    hb_openUntil (hostState h (host_events evs (fresh_transport n d))) = opened_until n d h evs"
  using assms
proof (induction evs rule: rev_induct)
  case Nil
  then show ?case by (simp add: back_since_healthy_def opened_until_def zeroHost_def time_simps)
next
  case (snoc ev evs)
  let ?t = "host_events evs (fresh_transport n d)"
  have w: "wrap64 (int (failure_count (back_since_healthy h evs)) + 1) = int (failure_count (back_since_healthy h evs)) + 1"
    using failure_count_le [of h evs] snoc.prems by (intro wrap64_eq_id) auto
  show ?case
  proof (cases ev)
    case (Asked now h')
    with snoc show ?thesis
      by (auto simp: host_event_def admit_def admit_host_cases back_since_healthy_snoc is_back_def opened_until_def)
  next
    case (Back now h' p out)
    with snoc w show ?thesis
      by (cases out) (auto simp: host_event_def resolve_def resolve_host_def Let_def time_simps
          back_since_healthy_snoc is_back_def opened_until_def healthy_def)
  qed
qed

lemma probe_claimed_snoc:
  "probe_claimed n d h (evs @ [ev]) t \<longleftrightarrow>
     (ev = Asked t h \<and> snd (admit t h (host_events evs (fresh_transport n d))) = Admitted True) \<or>
     \<not> is_back h ev \<and> probe_claimed n d h evs t"
proof
  assume "probe_claimed n d h (evs @ [ev]) t"
  then obtain pre post where e: "evs @ [ev] = pre @ Asked t h # post" "\<forall>ev \<in> set post. \<not> is_back h ev"
    "snd (admit t h (host_events pre (fresh_transport n d))) = Admitted True" by (auto simp: probe_claimed_def)
  show "(ev = Asked t h \<and> snd (admit t h (host_events evs (fresh_transport n d))) = Admitted True) \<or>
     \<not> is_back h ev \<and> probe_claimed n d h evs t"
    using e by (cases post rule: rev_cases) (auto simp: probe_claimed_def)
next
  assume "(ev = Asked t h \<and> snd (admit t h (host_events evs (fresh_transport n d))) = Admitted True) \<or>
     \<not> is_back h ev \<and> probe_claimed n d h evs t"
  then show "probe_claimed n d h (evs @ [ev]) t"
  proof (elim disjE conjE)
    assume "\<not> is_back h ev" "probe_claimed n d h evs t"
    then obtain pre post where "evs = pre @ Asked t h # post" "\<forall>ev \<in> set post. \<not> is_back h ev"
      "snd (admit t h (host_events pre (fresh_transport n d))) = Admitted True" by (auto simp: probe_claimed_def)
    with \<open>\<not> is_back h ev\<close> show ?thesis
      unfolding probe_claimed_def by (intro exI [of _ pre] exI [of _ "post @ [ev]"]) auto
  qed (unfold probe_claimed_def, fastforce)
qed

lemma probe_history:
  "let u = hb_probeUntil (hostState h (host_events evs (fresh_transport n d))); ttl = max d (60 * second) in
   (u = 0 \<or> probe_claimed n d h evs (u - ttl)) \<and> (\<forall>t. probe_claimed n d h evs t \<longrightarrow> t + ttl \<le> u)"
proof (induction evs rule: rev_induct)
  case Nil
  then show ?case by (simp add: zeroHost_def probe_claimed_def time_simps)
next
  case (snoc ev evs)
  show ?case
  proof (cases ev)
    case (Asked now h')
    with snoc show ?thesis
      by (auto simp: Let_def probe_claimed_snoc is_back_def host_event_def admit_def admit_host_cases)
  next
    case (Back now h' p out)
    with snoc show ?thesis
      by (cases out) (auto simp: Let_def probe_claimed_snoc is_back_def host_event_def resolve_def resolve_host_def time_simps)
  qed
qed

section \<open>Properties\<close>

text \<open>C14. A host's circuit follows from the host's own history, whatever happens to other hosts in between:
  its failure count is the number of transport failures nobody cancelled since the host last
  answered healthily; it is open for the cooldown after the last opening since then, an opening being
  a failure that brings that number to the threshold or a probe answered with a server error; a
  request is refused as long as it is open, goes ahead as an ordinary one if the circuit never opened
  since, and after the cooldown is refused exactly while a probe let in since the host last came
  back is within its lifetime (the cooldown, at least sixty seconds), and is the probe otherwise.\<close>

theorem host_circuit_history:
  assumes "int (length evs) \<le> max_int64" "0 \<le> now"
  shows "let t = host_events evs (fresh_transport n d); hb = hostState h t; u = opened_until n d h evs in
    hb_failures hb = int (failure_count (back_since_healthy h evs)) \<and> hb_openUntil hb = u \<and>
    snd (admit now h t) = (if now < u then CircuitOpen else if u = 0 then Admitted False
      else if \<exists>t0. probe_claimed n d h evs t0 \<and> now < t0 + max d (60 * second) then ProbeInFlight
      else Admitted True)"
proof -
  let ?t = "host_events evs (fresh_transport n d)"
  let ?u = "hb_probeUntil (hostState h ?t)" and ?ttl = "max d (60 * second)"
  have probe: "?u = 0 \<or> probe_claimed n d h evs (?u - ?ttl)" "\<And>t. probe_claimed n d h evs t \<Longrightarrow> t + ?ttl \<le> ?u"
    using probe_history [of h evs n d] by (simp_all add: Let_def)
  have "now < ?u \<longleftrightarrow> (\<exists>t0. probe_claimed n d h evs t0 \<and> now < t0 + ?ttl)" (is "?L \<longleftrightarrow> ?R")
  proof
    assume "now < ?u"
    with probe(1) assms(2) have "probe_claimed n d h evs (?u - ?ttl) \<and> now < (?u - ?ttl) + ?ttl" by auto
    then show ?R by blast
  next
    assume ?R
    then obtain t0 where t0: "probe_claimed n d h evs t0" "now < t0 + ?ttl" by blast
    then show ?L using probe(2) [OF t0(1)] by linarith
  qed
  then show ?thesis
    using host_history [OF assms(1), of h n d] by (auto simp: Let_def admit_def admit_host_cases case_prod_beta)
qed

theorem host_circuit_history_witness:
  "snd (admit 9 ''a'' (host_events [Asked 1 ''a'', Asked 2 ''b'', Back 3 ''a'' False (Failed False)] (fresh_transport 1 7))) = CircuitOpen"
proof -
  have "opened_until 1 7 ''a'' [Asked 1 ''a'', Asked 2 ''b'', Back 3 ''a'' False (Failed False)] = 10"
    by (simp add: opened_until_def openings_def back_since_healthy_def healthy_def is_back_def failure_count_def)
  with host_circuit_history [of "[Asked 1 ''a'', Asked 2 ''b'', Back 3 ''a'' False (Failed False)]" 9 1 7 "''a''"]
  show ?thesis by (simp add: Let_def max_int64_def)
qed

text \<open>A late answer to a request from before the circuit opened ends the single flight: it clears the
  claim of the probe that is still out, and a second probe goes ahead beside it.\<close>

lemma straggler_admits_second_probe:
  "snd (admit 100 ''a'' (host_events [Asked 1 ''a'', Asked 1 ''a'', Back 2 ''a'' False (Failed False)] (fresh_transport 1 7))) = Admitted True"
  "snd (admit 102 ''a'' (host_events [Asked 1 ''a'', Asked 1 ''a'', Back 2 ''a'' False (Failed False), Asked 100 ''a'',
     Back 101 ''a'' False (Failed True)] (fresh_transport 1 7))) = Admitted True"
  by (simp_all add: host_events_def host_event_def admit_def admit_host_cases resolve_def resolve_host_def Let_def
      zeroHost_def wrap64_def time_simps)

text \<open>While a host's circuit is open every request fails fast; once the cooldown has passed, of the
  requests that ask before the probe resolves exactly the first is let through, for at least sixty
  seconds.\<close>

theorem host_probe_single_flight:
  assumes "hb_openUntil hb \<noteq> 0" "hb_openUntil hb \<le> t0" "hb_probeUntil hb \<le> t0"
    "\<forall>t \<in> set early. t < hb_openUntil hb"
    "\<forall>t \<in> set ts. t0 \<le> t \<and> t < t0 + max cooldown (60 * second)"
  shows "admissions cooldown (early @ t0 # ts) hb =
    replicate (length early) CircuitOpen @ Admitted True # replicate (length ts) ProbeInFlight"
  using assms(4)
proof (induction early)
  case Nil
  have "admissions cooldown ts (hb\<lparr>hb_probeUntil := t0 + max cooldown (60 * second)\<rparr>)
      = replicate (length ts) ProbeInFlight"
    using assms by (intro admissions_while_probing) auto
  with assms show ?case by (simp add: admit_host_cases)
next
  case (Cons t early)
  then show ?case by (simp add: admit_host_cases)
qed

theorem host_probe_single_flight_witness:
  "admissions (30 * second) [10, 200, 300, 400] \<lparr>hb_failures = 5, hb_openUntil = 100, hb_probeUntil = 0\<rparr>
    = [CircuitOpen, Admitted True, ProbeInFlight, ProbeInFlight]"
  using host_probe_single_flight [of "\<lparr>hb_failures = 5, hb_openUntil = 100, hb_probeUntil = 0\<rparr>" 200 "[10]" "[300, 400]" "30 * second"]
  by (simp add: numeral_2_eq_2)

text \<open>In every interleaving of requests a probe claim is recorded only on a host whose circuit is
  not closed, and the failure count of a host stays a Go integer.\<close>

theorem transport_run_invariant:
  assumes "transport_step\<^sup>*\<^sup>* \<lparr>tr_transport = \<lparr>gt_FailureThreshold = n, gt_Cooldown = d, gt_hosts = []\<rparr>,
      tr_inflight = {#}\<rparr> r"
  shows "(hb_probeUntil (hostState h (tr_transport r)) \<noteq> 0 \<longrightarrow> hb_openUntil (hostState h (tr_transport r)) \<noteq> 0) \<and>
    int64_ok (hb_failures (hostState h (tr_transport r)))"
  using assms
proof (induction rule: rtranclp_induct)
  case base
  then show ?case by (simp add: hostState_def m_get_or_def zeroHost_def time_simps int64_ok_def min_int64_def max_int64_def)
next
  case (step r r')
  from step(2) step.IH show ?case
    by (cases rule: transport_step.cases)
      (auto simp: admit_def admit_host_cases resolve_def resolve_host_def Let_def time_simps
        int64_ok_def min_int64_def max_int64_def wrap64_def split: if_splits round_trip.splits prod.splits)
qed

theorem transport_run_invariant_witness:
  "int64_ok (hb_failures (hostState ''a'' \<lparr>gt_FailureThreshold = 5, gt_Cooldown = 7, gt_hosts = []\<rparr>))"
  using transport_run_invariant [OF rtranclp.rtrancl_refl, of "''a''" 5 7] by simp

end
