(* ===== verification/Quota_Ledger.thy ===== *)
theory Quota_Ledger
  imports Prelude "HOL-Library.Word"
begin

text \<open>
  The quota ledger of \<open>src/internal/router/router_quota.go\<close>: what the providers say is left of each
  quota bucket, and the proxy's own reservations against it.

  Go keeps the buckets behind pointers: a ticket's hold points at the bucket it was charged to,
  and an observation or a reset may meanwhile put another bucket under the same key. The model has
  the same indirection, a heap from addresses to buckets, \<open>ql_buckets\<close> from keys to addresses, and
  holds that keep an address. Addresses from \<open>ql_next\<close> on are not allocated yet.

  Every method body is one step of the model because it runs under \<open>l.mu\<close>; a method that changes
  the ledger returns the new ledger with its results. The \<open>l == nil\<close> guards of the methods have no
  counterpart: the model has no nil ledger.
\<close>

section \<open>Data\<close>

type_synonym QuotaDimension = string
type_synonym QuotaWindow = string
type_synonym QuotaSource = string
type_synonym QuotaConfidence = string

record QuotaBucketKey =
  qk_Provider :: string
  qk_Scope :: string
  qk_ModelOrPool :: string
  qk_Dimension :: QuotaDimension
  qk_Window :: QuotaWindow

definition QuotaDimensionRequests :: QuotaDimension where
  "QuotaDimensionRequests = ''requests''"
definition QuotaDimensionTokens :: QuotaDimension where
  "QuotaDimensionTokens = ''tokens''"

definition QuotaWindowMinute :: QuotaWindow where
  "QuotaWindowMinute = ''minute''"
definition QuotaWindowHour :: QuotaWindow where
  "QuotaWindowHour = ''hour''"
definition QuotaWindowDay :: QuotaWindow where
  "QuotaWindowDay = ''day''"

definition QuotaSourceProviderHeader :: QuotaSource where
  "QuotaSourceProviderHeader = ''provider_header''"
definition QuotaSourceProviderBody :: QuotaSource where
  "QuotaSourceProviderBody = ''provider_body''"
definition QuotaSourceConfig :: QuotaSource where
  "QuotaSourceConfig = ''config''"
definition QuotaSourceLocalEstimate :: QuotaSource where
  "QuotaSourceLocalEstimate = ''local_estimate''"

definition QuotaConfidenceAuthoritative :: QuotaConfidence where
  "QuotaConfidenceAuthoritative = ''authoritative''"
definition QuotaConfidenceEstimated :: QuotaConfidence where
  "QuotaConfidenceEstimated = ''estimated''"

record QuotaObservation =
  qo_Limit :: int
  qo_Remaining :: int
  qo_ResetAt :: go_time
  qo_Source :: QuotaSource
  qo_Confidence :: QuotaConfidence
  qo_ObservedAt :: go_time

definition zeroObservation :: QuotaObservation where
  "zeroObservation = \<lparr>qo_Limit = 0, qo_Remaining = 0, qo_ResetAt = zero_time, qo_Source = [],
     qo_Confidence = [], qo_ObservedAt = zero_time\<rparr>"

record QuotaSnapshot =
  qs_Observation :: QuotaObservation
  qs_Key :: QuotaBucketKey
  qs_Reserved :: int
  qs_Available :: int
  qs_ProbeSettled :: bool

record QuotaReservation =
  qr_Key :: QuotaBucketKey
  qr_Cost :: int

record QuotaEstimate =
  qe_Requests :: int
  qe_Tokens :: int
  qe_InputTokens :: int
  qe_OutputTokens :: int
  qe_OutputExplicit :: bool

record QuotaSettlement =
  st_Key :: QuotaBucketKey
  st_Actual :: int
  st_Observation :: "QuotaObservation option"

text \<open>A ticket's ledger pointer is the ledger's identity number, \<open>None\<close> for nil.\<close>

record QuotaTicket =
  qt_ledger :: "nat option"
  qt_id :: "64 word"

record quotaBucket =
  qb_observation :: QuotaObservation
  qb_reserved :: int
  qb_probeSettled :: bool

record quotaHold =
  qh_key :: QuotaBucketKey
  qh_cost :: int
  qh_bucket :: "nat option"

record quotaTicketState =
  ts_holds :: "(QuotaBucketKey, quotaHold) gomap"

record QuotaLedger =
  ql_self :: nat
  ql_heap :: "nat \<Rightarrow> quotaBucket"
  ql_next :: nat
  ql_buckets :: "(QuotaBucketKey, nat) gomap"
  ql_tickets :: "(64 word, quotaTicketState) gomap"
  ql_nextTicketID :: "64 word"

definition newBucket :: quotaBucket where
  "newBucket = \<lparr>qb_observation = zeroObservation, qb_reserved = 0, qb_probeSettled = False\<rparr>"

definition noTicket :: QuotaTicket where
  "noTicket = \<lparr>qt_ledger = None, qt_id = 0\<rparr>"

definition Valid :: "QuotaTicket \<Rightarrow> bool" where
  "Valid t \<longleftrightarrow> qt_ledger t \<noteq> None \<and> qt_id t \<noteq> 0"

definition NewQuotaLedger :: "nat \<Rightarrow> QuotaLedger" where
  "NewQuotaLedger self = \<lparr>ql_self = self, ql_heap = (\<lambda>_. newBucket), ql_next = 0,
     ql_buckets = [], ql_tickets = [], ql_nextTicketID = 0\<rparr>"

section \<open>Helpers\<close>

definition quotaKeyString :: "QuotaBucketKey \<Rightarrow> string" where
  "quotaKeyString key = qk_Provider key @ [CHR 0x00] @ qk_Scope key @ [CHR 0x00] @
     qk_ModelOrPool key @ [CHR 0x00] @ qk_Dimension key @ [CHR 0x00] @ qk_Window key"

definition validQuotaKey :: "QuotaBucketKey \<Rightarrow> bool" where
  "validQuotaKey key \<longleftrightarrow> qk_Provider key \<noteq> [] \<and> qk_Scope key \<noteq> [] \<and> qk_ModelOrPool key \<noteq> [] \<and>
     qk_Dimension key \<noteq> [] \<and> qk_Window key \<noteq> []"

definition minInt64 :: "int \<Rightarrow> int \<Rightarrow> int" where
  "minInt64 left right = (if left < right then left else right)"

definition normaliseQuotaObservation :: "QuotaObservation \<Rightarrow> go_time \<Rightarrow> QuotaObservation" where
  "normaliseQuotaObservation obs now =
     (let obs = (if is_zero (qo_ObservedAt obs) then obs\<lparr>qo_ObservedAt := now\<rparr> else obs)
      in if qo_Remaining obs > qo_Limit obs then obs\<lparr>qo_Remaining := qo_Limit obs\<rparr> else obs)"

text \<open>The condition under which both \<open>Observe\<close> and the purge drop an observation.\<close>

definition obs_expired :: "QuotaObservation \<Rightarrow> go_time \<Rightarrow> bool" where
  "obs_expired obs now \<longleftrightarrow> \<not> is_zero (qo_ResetAt obs) \<and> \<not> after (qo_ResetAt obs) now"

text \<open>The loop of \<open>aggregateReservations\<close>: \<open>None\<close> is its \<open>nil, false\<close>.\<close>

fun aggregate_loop ::
  "(QuotaBucketKey, int) gomap \<Rightarrow> QuotaReservation list \<Rightarrow> (QuotaBucketKey, int) gomap option" where
  "aggregate_loop amounts [] = Some amounts"
| "aggregate_loop amounts (r # rs) =
     (if \<not> validQuotaKey (qr_Key r) \<or> qr_Cost r < 0 then None
      else if qr_Cost r = 0 then aggregate_loop amounts rs
      else let total = wrap64 (m_get_or 0 amounts (qr_Key r) + qr_Cost r)
           in if total < 0 then None
              else aggregate_loop (m_set (qr_Key r) total amounts) rs)"

definition aggregateReservations ::
  "QuotaReservation list \<Rightarrow> (QuotaBucketKey, int) gomap option" where
  "aggregateReservations reservations = aggregate_loop [] reservations"

definition ReservationsForEstimate ::
  "QuotaBucketKey \<Rightarrow> QuotaBucketKey \<Rightarrow> QuotaEstimate \<Rightarrow> QuotaReservation list" where
  "ReservationsForEstimate requestBucket tokenBucket estimate =
     (if qe_Requests estimate > 0
      then [\<lparr>qr_Key = requestBucket, qr_Cost = qe_Requests estimate\<rparr>] else []) @
     (if qe_Tokens estimate > 0
      then [\<lparr>qr_Key = tokenBucket, qr_Cost = qe_Tokens estimate\<rparr>] else [])"

section \<open>Operations\<close>

definition upd_bucket :: "nat \<Rightarrow> (quotaBucket \<Rightarrow> quotaBucket) \<Rightarrow> QuotaLedger \<Rightarrow> QuotaLedger" where
  "upd_bucket a f l = l\<lparr>ql_heap := (ql_heap l)(a := f (ql_heap l a))\<rparr>"

definition purgeExpiredLocked :: "go_time \<Rightarrow> QuotaLedger \<Rightarrow> QuotaLedger" where
  "purgeExpiredLocked now l = l\<lparr>ql_buckets :=
     filter (\<lambda>(k, a). \<not> obs_expired (qb_observation (ql_heap l a)) now) (ql_buckets l)\<rparr>"

text \<open>\<open>l.buckets[key]\<close>, allocated when it is nil: the tail that \<open>Observe\<close> and \<open>Reconcile\<close> share.\<close>

definition store_observation :: "QuotaBucketKey \<Rightarrow> QuotaObservation \<Rightarrow> QuotaLedger \<Rightarrow> QuotaLedger" where
  "store_observation key obs l = (case m_get (ql_buckets l) key of
       Some a \<Rightarrow> upd_bucket a (\<lambda>b. b\<lparr>qb_observation := obs\<rparr>) l
     | None \<Rightarrow> l\<lparr>ql_heap := (ql_heap l)(ql_next l := newBucket\<lparr>qb_observation := obs\<rparr>),
                 ql_next := Suc (ql_next l),
                 ql_buckets := m_set key (ql_next l) (ql_buckets l)\<rparr>)"

definition Observe ::
  "QuotaLedger \<Rightarrow> QuotaBucketKey \<Rightarrow> QuotaObservation \<Rightarrow> go_time \<Rightarrow> QuotaLedger \<times> bool" where
  "Observe l key obs now =
     (if \<not> validQuotaKey key \<or> qo_Limit obs < 0 \<or> qo_Remaining obs < 0 then (l, False)
      else
        let obs = (if is_zero (qo_ObservedAt obs) then obs\<lparr>qo_ObservedAt := now\<rparr> else obs)
        in if obs_expired obs now
           then let l = purgeExpiredLocked now l
                in (l\<lparr>ql_buckets := m_del key (ql_buckets l)\<rparr>, False)
           else
             let obs = (if qo_Remaining obs > qo_Limit obs
                        then obs\<lparr>qo_Remaining := qo_Limit obs\<rparr> else obs)
             in (store_observation key obs (purgeExpiredLocked now l), True))"

definition Snapshot ::
  "QuotaLedger \<Rightarrow> QuotaBucketKey \<Rightarrow> go_time \<Rightarrow> QuotaLedger \<times> QuotaSnapshot option" where
  "Snapshot l key now =
     (let l = purgeExpiredLocked now l
      in case m_get (ql_buckets l) key of
           None \<Rightarrow> (l, None)
         | Some a \<Rightarrow>
             let bucket = ql_heap l a; obs = qb_observation bucket
             in if qk_Window key = QuotaWindowMinute \<and> is_zero (qo_ResetAt obs) \<and>
                   \<not> is_zero (qo_ObservedAt obs) \<and>
                   after (truncate_time now minute) (truncate_time (qo_ObservedAt obs) minute)
                then (l\<lparr>ql_buckets := m_del key (ql_buckets l)\<rparr>, None)
                else
                  let available = wrap64 (qo_Remaining obs - qb_reserved bucket);
                      available = (if available < 0 then 0 else available)
                  in (l, Some \<lparr>qs_Observation = obs, qs_Key = key, qs_Reserved = qb_reserved bucket,
                               qs_Available = available,
                               qs_ProbeSettled = qb_probeSettled bucket\<rparr>))"

text \<open>The guard of the first loop of \<open>ReserveAll\<close>: the bucket is unknown, or has the balance, or
  is an estimate whose one bootstrap probe is still to be spent.\<close>

definition fits :: "QuotaLedger \<Rightarrow> QuotaBucketKey \<Rightarrow> int \<Rightarrow> bool" where
  "fits l key cost = (case m_get (ql_buckets l) key of
       None \<Rightarrow> True
     | Some a \<Rightarrow>
         let b = ql_heap l a
         in wrap64 (qo_Remaining (qb_observation b) - qb_reserved b) \<ge> cost \<or>
            (qo_Confidence (qb_observation b) = QuotaConfidenceEstimated \<and>
             qb_reserved b = 0 \<and> \<not> qb_probeSettled b))"

text \<open>The second loop: charge the bucket when there is one, and record the hold.\<close>

fun reserve_loop ::
  "(QuotaBucketKey, int) gomap \<Rightarrow> QuotaLedger \<Rightarrow> (QuotaBucketKey, quotaHold) gomap \<Rightarrow>
   QuotaLedger \<times> (QuotaBucketKey, quotaHold) gomap" where
  "reserve_loop [] l holds = (l, holds)"
| "reserve_loop ((key, cost) # amounts) l holds =
     (let bucket = m_get (ql_buckets l) key;
          l' = (case bucket of None \<Rightarrow> l
                | Some a \<Rightarrow> upd_bucket a (\<lambda>b. b\<lparr>qb_reserved := wrap64 (qb_reserved b + cost)\<rparr>) l)
      in reserve_loop amounts l'
           (m_set key \<lparr>qh_key = key, qh_cost = cost, qh_bucket = bucket\<rparr> holds))"

text \<open>
  \<open>newTicketIDLocked\<close> steps a \<open>uint64\<close> counter until it meets an id that is neither zero nor in
  use. The fuel counts iterations; \<open>length tickets + 2\<close> of them are always enough (lemma
  \<open>ticket_id_loop_enough\<close>), so \<open>None\<close> does not occur.
\<close>

fun ticket_id_loop :: "nat \<Rightarrow> (64 word, quotaTicketState) gomap \<Rightarrow> 64 word \<Rightarrow> 64 word option" where
  "ticket_id_loop 0 tickets n = None"
| "ticket_id_loop (Suc fuel) tickets n =
     (let n' = n + 1
      in if n' = 0 then ticket_id_loop fuel tickets n'
         else if m_get tickets n' \<noteq> None then ticket_id_loop fuel tickets n'
         else Some n')"

definition newTicketIDLocked :: "QuotaLedger \<Rightarrow> (64 word \<times> QuotaLedger) option" where
  "newTicketIDLocked l =
     (case ticket_id_loop (length (ql_tickets l) + 2) (ql_tickets l) (ql_nextTicketID l) of
        None \<Rightarrow> None
      | Some n \<Rightarrow> Some (n, l\<lparr>ql_nextTicketID := n\<rparr>))"

definition ReserveAll ::
  "QuotaLedger \<Rightarrow> QuotaReservation list \<Rightarrow> go_time \<Rightarrow> QuotaLedger \<times> QuotaTicket \<times> bool" where
  "ReserveAll l reservations now =
     (case aggregateReservations reservations of
        None \<Rightarrow> (l, noTicket, False)
      | Some amounts \<Rightarrow>
          let l = purgeExpiredLocked now l
          in if \<not> list_all (\<lambda>(key, cost). fits l key cost) amounts then (l, noTicket, False)
             else
               let (l, holds) = reserve_loop amounts l []
               in case newTicketIDLocked l of
                    None \<Rightarrow> (l, noTicket, False)
                  | Some (ticketID, l) \<Rightarrow>
                      (l\<lparr>ql_tickets := m_set ticketID \<lparr>ts_holds = holds\<rparr> (ql_tickets l)\<rparr>,
                       \<lparr>qt_ledger = Some (ql_self l), qt_id = ticketID\<rparr>, True))"

definition Reserve ::
  "QuotaLedger \<Rightarrow> QuotaBucketKey \<Rightarrow> int \<Rightarrow> go_time \<Rightarrow> QuotaLedger \<times> QuotaTicket \<times> bool" where
  "Reserve l key cost now = ReserveAll l [\<lparr>qr_Key = key, qr_Cost = cost\<rparr>] now"

definition ticket_mine :: "QuotaLedger \<Rightarrow> QuotaTicket \<Rightarrow> bool" where
  "ticket_mine l ticket \<longleftrightarrow> qt_ledger ticket = Some (ql_self l) \<and> qt_id ticket \<noteq> 0"

definition Reservations :: "QuotaLedger \<Rightarrow> QuotaTicket \<Rightarrow> QuotaReservation list" where
  "Reservations l ticket =
     (if \<not> ticket_mine l ticket then []
      else case m_get (ql_tickets l) (qt_id ticket) of
             None \<Rightarrow> []
           | Some state \<Rightarrow>
               sort_key (\<lambda>r. quotaKeyString (qr_Key r))
                 (map (\<lambda>(key, hold). \<lparr>qr_Key = key, qr_Cost = qh_cost hold\<rparr>) (ts_holds state)))"

definition consumeTicketLocked ::
  "QuotaTicket \<Rightarrow> QuotaLedger \<Rightarrow> QuotaLedger \<times> quotaTicketState option" where
  "consumeTicketLocked ticket l =
     (case m_get (ql_tickets l) (qt_id ticket) of
        None \<Rightarrow> (l, None)
      | Some state \<Rightarrow> (l\<lparr>ql_tickets := m_del (qt_id ticket) (ql_tickets l)\<rparr>, Some state))"

definition release_hold :: "quotaHold \<Rightarrow> QuotaLedger \<Rightarrow> QuotaLedger" where
  "release_hold hold l = (case qh_bucket hold of
       None \<Rightarrow> l
     | Some a \<Rightarrow> upd_bucket a
         (\<lambda>b. b\<lparr>qb_reserved := qb_reserved b - minInt64 (qb_reserved b) (qh_cost hold)\<rparr>) l)"

definition releaseHoldsLocked :: "quotaTicketState \<Rightarrow> QuotaLedger \<Rightarrow> QuotaLedger" where
  "releaseHoldsLocked state l = fold (\<lambda>(key, hold). release_hold hold) (ts_holds state) l"

definition Release :: "QuotaLedger \<Rightarrow> QuotaTicket \<Rightarrow> go_time \<Rightarrow> QuotaLedger \<times> bool" where
  "Release l ticket now =
     (if \<not> ticket_mine l ticket then (l, False)
      else
        let l = purgeExpiredLocked now l
        in case consumeTicketLocked ticket l of
             (l, None) \<Rightarrow> (l, False)
           | (l, Some state) \<Rightarrow> (releaseHoldsLocked state l, True))"

text \<open>The validation loop of \<open>Reconcile\<close>: \<open>None\<close> is its early \<open>return false\<close>.\<close>

fun settlements_by_key ::
  "(QuotaBucketKey, QuotaSettlement) gomap \<Rightarrow> QuotaSettlement list \<Rightarrow>
   (QuotaBucketKey, QuotaSettlement) gomap option" where
  "settlements_by_key byKey [] = Some byKey"
| "settlements_by_key byKey (s # ss) =
     (if \<not> validQuotaKey (st_Key s) \<or> st_Actual s < 0 then None
      else if m_get byKey (st_Key s) \<noteq> None then None
      else if (case st_Observation s of None \<Rightarrow> False
               | Some obs \<Rightarrow> qo_Limit obs < 0 \<or> qo_Remaining obs < 0) then None
      else settlements_by_key (m_set (st_Key s) s byKey) ss)"

text \<open>One iteration of the settling loop.\<close>

definition settle_bucket :: "quotaHold \<Rightarrow> QuotaLedger \<Rightarrow> QuotaLedger" where
  "settle_bucket hold l = (case qh_bucket hold of
       None \<Rightarrow> l
     | Some a \<Rightarrow> upd_bucket a
         (\<lambda>b. b\<lparr>qb_reserved := qb_reserved b - minInt64 (qb_reserved b) (qh_cost hold),
                qb_probeSettled := True\<rparr>) l)"

definition charge_bucket :: "quotaHold \<Rightarrow> int \<Rightarrow> QuotaLedger \<Rightarrow> QuotaLedger" where
  "charge_bucket hold actual l = (case qh_bucket hold of
       None \<Rightarrow> l
     | Some a \<Rightarrow> upd_bucket a
         (\<lambda>b. b\<lparr>qb_observation := (qb_observation b)\<lparr>qo_Remaining :=
                  qo_Remaining (qb_observation b) -
                  minInt64 (qo_Remaining (qb_observation b)) actual\<rparr>\<rparr>) l)"

definition reconcile_hold ::
  "(QuotaBucketKey, QuotaSettlement) gomap \<Rightarrow> go_time \<Rightarrow> QuotaBucketKey \<times> quotaHold \<Rightarrow>
   QuotaLedger \<Rightarrow> QuotaLedger" where
  "reconcile_hold byKey now kh l =
     (let (key, hold) = kh; l = settle_bucket hold l
      in case m_get byKey key of
           None \<Rightarrow> charge_bucket hold (qh_cost hold) l
         | Some settlement \<Rightarrow>
             (case st_Observation settlement of
                None \<Rightarrow> charge_bucket hold (st_Actual settlement) l
              | Some o1 \<Rightarrow>
                  let obs = normaliseQuotaObservation o1 now
                  in if obs_expired obs now
                     then l\<lparr>ql_buckets := m_del key (ql_buckets l)\<rparr>
                     else store_observation key obs l))"

definition Reconcile ::
  "QuotaLedger \<Rightarrow> QuotaTicket \<Rightarrow> QuotaSettlement list \<Rightarrow> go_time \<Rightarrow> QuotaLedger \<times> bool" where
  "Reconcile l ticket settlements now =
     (if \<not> ticket_mine l ticket then (l, False)
      else case settlements_by_key [] settlements of
             None \<Rightarrow> (l, False)
           | Some byKey \<Rightarrow>
               let l = purgeExpiredLocked now l
               in case m_get (ql_tickets l) (qt_id ticket) of
                    None \<Rightarrow> (l, False)
                  | Some state \<Rightarrow>
                      if \<not> list_all (\<lambda>(key, _). m_get (ts_holds state) key \<noteq> None) byKey
                      then (l, False)
                      else (fold (reconcile_hold byKey now) (ts_holds state)
                              (l\<lparr>ql_tickets := m_del (qt_id ticket) (ql_tickets l)\<rparr>), True))"

definition Keys :: "QuotaLedger \<Rightarrow> go_time \<Rightarrow> QuotaLedger \<times> QuotaBucketKey list" where
  "Keys l now =
     (let l = purgeExpiredLocked now l
      in (l, sort_key quotaKeyString (m_keys (ql_buckets l))))"

section \<open>Outstanding claims and the ledger invariant\<close>

text \<open>What a list of holds, and all tickets together, claim from the bucket at an address.\<close>

definition hold_claim :: "nat \<Rightarrow> quotaHold \<Rightarrow> int" where
  "hold_claim a h = (if qh_bucket h = Some a then qh_cost h else 0)"

definition holds_claim :: "nat \<Rightarrow> (QuotaBucketKey, quotaHold) gomap \<Rightarrow> int" where
  "holds_claim a hs = sum_list (map (\<lambda>(k, h). hold_claim a h) hs)"

definition tickets_claim :: "nat \<Rightarrow> (64 word, quotaTicketState) gomap \<Rightarrow> int" where
  "tickets_claim a ts = sum_list (map (\<lambda>(i, s). holds_claim a (ts_holds s)) ts)"

definition obs_ok :: "QuotaObservation \<Rightarrow> bool" where
  "obs_ok obs \<longleftrightarrow> 0 \<le> qo_Remaining obs \<and> qo_Remaining obs \<le> qo_Limit obs \<and> qo_Limit obs \<le> max_int64"

text \<open>A hold sits under its own key, costs something, and points at an allocated bucket that is
  live, if at all, under the same key.\<close>

definition hold_ok :: "QuotaLedger \<Rightarrow> QuotaBucketKey \<times> quotaHold \<Rightarrow> bool" where
  "hold_ok l kh = (case kh of (k, h) \<Rightarrow>
     qh_key h = k \<and> 0 < qh_cost h \<and> qh_cost h \<le> max_int64 \<and>
     (case qh_bucket h of None \<Rightarrow> True
      | Some a \<Rightarrow> a < ql_next l \<and> list_all (\<lambda>(k', a'). a' = a \<longrightarrow> k' = k) (ql_buckets l)))"

definition holds_ok :: "QuotaLedger \<Rightarrow> (QuotaBucketKey, quotaHold) gomap \<Rightarrow> bool" where
  "holds_ok l hs \<longleftrightarrow> m_wf hs \<and> list_all (hold_ok l) hs"

definition buckets_ok :: "QuotaLedger \<Rightarrow> bool" where
  "buckets_ok l \<longleftrightarrow> m_wf (ql_buckets l) \<and> distinct (map snd (ql_buckets l)) \<and>
     list_all (\<lambda>(k, a). validQuotaKey k \<and> a < ql_next l) (ql_buckets l)"

definition tickets_ok :: "QuotaLedger \<Rightarrow> bool" where
  "tickets_ok l \<longleftrightarrow> m_wf (ql_tickets l) \<and>
     list_all (\<lambda>(i, s). i \<noteq> 0 \<and> holds_ok l (ts_holds s)) (ql_tickets l)"

definition bucket_ok :: "(QuotaBucketKey, quotaHold) gomap \<Rightarrow> QuotaLedger \<Rightarrow> nat \<Rightarrow> bool" where
  "bucket_ok pending l a \<longleftrightarrow>
     obs_ok (qb_observation (ql_heap l a)) \<and>
     tickets_claim a (ql_tickets l) + holds_claim a pending \<le> max_int64 \<and>
     qb_reserved (ql_heap l a) = tickets_claim a (ql_tickets l) + holds_claim a pending"

definition heap_ok :: "(QuotaBucketKey, quotaHold) gomap \<Rightarrow> QuotaLedger \<Rightarrow> bool" where
  "heap_ok pending l \<longleftrightarrow> (\<forall>a < ql_next l. bucket_ok pending l a)"

text \<open>
  The invariant, with the holds a method has taken off a ticket or not yet put on one: what a
  bucket has reserved is what the outstanding holds claim from it, to the unit.
\<close>

definition ledger_inv_with :: "(QuotaBucketKey, quotaHold) gomap \<Rightarrow> QuotaLedger \<Rightarrow> bool" where
  "ledger_inv_with pending l \<longleftrightarrow>
     buckets_ok l \<and> tickets_ok l \<and> holds_ok l pending \<and> heap_ok pending l"

definition ledger_inv :: "QuotaLedger \<Rightarrow> bool" where
  "ledger_inv l \<longleftrightarrow> ledger_inv_with [] l"

lemma holds_claim_simps [simp]:
  "holds_claim a [] = 0"
  "holds_claim a ((k, h) # hs) = hold_claim a h + holds_claim a hs"
  "holds_claim a (hs @ hs') = holds_claim a hs + holds_claim a hs'"
  by (simp_all add: holds_claim_def)

lemma tickets_claim_simps [simp]:
  "tickets_claim a [] = 0"
  "tickets_claim a ((i, s) # ts) = holds_claim a (ts_holds s) + tickets_claim a ts"
  "tickets_claim a (ts @ ts') = tickets_claim a ts + tickets_claim a ts'"
  by (simp_all add: tickets_claim_def)

lemma tickets_claim_del:
  "m_wf ts \<Longrightarrow> m_get ts i = Some s \<Longrightarrow>
   tickets_claim a ts = holds_claim a (ts_holds s) + tickets_claim a (m_del i ts)"
  by (induction ts) (auto simp: map_of_eq_None_iff split: if_splits)

lemma hold_claim_nonneg: "hold_ok l (k, h) \<Longrightarrow> 0 \<le> hold_claim a h"
  by (simp add: hold_ok_def hold_claim_def)

lemma holds_claim_nonneg: "list_all (hold_ok l) hs \<Longrightarrow> 0 \<le> holds_claim a hs"
  by (induction hs) (auto dest!: hold_claim_nonneg [where a = a])

lemma tickets_claim_nonneg: "tickets_ok l \<Longrightarrow> 0 \<le> tickets_claim a (ql_tickets l)"
proof -
  have "list_all (\<lambda>(i, s). i \<noteq> 0 \<and> holds_ok l (ts_holds s)) ts \<Longrightarrow> 0 \<le> tickets_claim a ts" for ts
    by (induction ts) (auto simp: holds_ok_def dest: holds_claim_nonneg intro!: add_nonneg_nonneg)
  then show "tickets_ok l \<Longrightarrow> 0 \<le> tickets_claim a (ql_tickets l)" by (simp add: tickets_ok_def)
qed

lemma holds_claim_unallocated:
  "list_all (hold_ok l) hs \<Longrightarrow> ql_next l \<le> a \<Longrightarrow> holds_claim a hs = 0"
  by (induction hs) (auto simp: hold_ok_def hold_claim_def split: option.splits)

lemma tickets_claim_unallocated: "tickets_ok l \<Longrightarrow> ql_next l \<le> a \<Longrightarrow> tickets_claim a (ql_tickets l) = 0"
proof -
  have "list_all (\<lambda>(i, s). i \<noteq> 0 \<and> holds_ok l (ts_holds s)) ts \<Longrightarrow> ql_next l \<le> a \<Longrightarrow>
      tickets_claim a ts = 0" for ts
    by (induction ts) (auto simp: holds_ok_def holds_claim_unallocated)
  then show "tickets_ok l \<Longrightarrow> ql_next l \<le> a \<Longrightarrow> tickets_claim a (ql_tickets l) = 0"
    by (simp add: tickets_ok_def)
qed

lemma reserved_nonneg:
  assumes "ledger_inv_with pending l" "a < ql_next l"
  shows "0 \<le> qb_reserved (ql_heap l a)"
  using assms tickets_claim_nonneg [of l a] holds_claim_nonneg [of l pending a]
  by (auto simp: ledger_inv_with_def heap_ok_def bucket_ok_def holds_ok_def)

text \<open>A hold stays well-formed when buckets are dropped from the map or new ones allocated.\<close>

lemma hold_ok_mono:
  assumes "hold_ok l kh" "ql_next l \<le> ql_next l'"
    "\<And>k a. (k, a) \<in> set (ql_buckets l') \<Longrightarrow> a < ql_next l \<Longrightarrow> (k, a) \<in> set (ql_buckets l)"
  shows "hold_ok l' kh"
proof (cases kh)
  case (Pair k h)
  show ?thesis
  proof (cases "qh_bucket h")
    case None
    with Pair assms show ?thesis by (auto simp: hold_ok_def)
  next
    case (Some a)
    with Pair assms(1) have "a < ql_next l" "\<forall>(k', a') \<in> set (ql_buckets l). a' = a \<longrightarrow> k' = k"
      by (simp_all add: hold_ok_def list_all_iff)
    with assms(3) have "list_all (\<lambda>(k', a'). a' = a \<longrightarrow> k' = k) (ql_buckets l')"
      by (fastforce simp: list_all_iff)
    with Pair Some assms(1,2) show ?thesis by (simp add: hold_ok_def)
  qed
qed

lemma holds_ok_mono:
  assumes "holds_ok l hs" "ql_next l \<le> ql_next l'"
    "\<And>k a. (k, a) \<in> set (ql_buckets l') \<Longrightarrow> a < ql_next l \<Longrightarrow> (k, a) \<in> set (ql_buckets l)"
  shows "holds_ok l' hs"
  using assms(1) hold_ok_mono [OF _ assms(2,3)] by (auto simp: holds_ok_def list_all_iff)

lemma tickets_ok_mono:
  assumes "tickets_ok l" "ql_tickets l' = ql_tickets l" "ql_next l \<le> ql_next l'"
    "\<And>k a. (k, a) \<in> set (ql_buckets l') \<Longrightarrow> a < ql_next l \<Longrightarrow> (k, a) \<in> set (ql_buckets l)"
  shows "tickets_ok l'"
  using assms(1) holds_ok_mono [OF _ assms(3,4)] assms(2) by (auto simp: tickets_ok_def list_all_iff)

section \<open>Every operation keeps the invariant\<close>

lemma inv_drop_buckets:
  assumes "ledger_inv_with pending l" "m_wf bs" "set bs \<subseteq> set (ql_buckets l)" "distinct (map snd bs)"
  shows "ledger_inv_with pending (l\<lparr>ql_buckets := bs\<rparr>)"
  unfolding ledger_inv_with_def
proof (intro conjI)
  from assms show "buckets_ok (l\<lparr>ql_buckets := bs\<rparr>)"
    by (auto simp: ledger_inv_with_def buckets_ok_def list_all_iff)
  from assms show "heap_ok pending (l\<lparr>ql_buckets := bs\<rparr>)"
    by (simp add: ledger_inv_with_def heap_ok_def bucket_ok_def)
  show "tickets_ok (l\<lparr>ql_buckets := bs\<rparr>)"
    using assms by - (rule tickets_ok_mono [of l], auto simp: ledger_inv_with_def)
  show "holds_ok (l\<lparr>ql_buckets := bs\<rparr>) pending"
    using assms by - (rule holds_ok_mono [of l], auto simp: ledger_inv_with_def)
qed

lemma distinct_snd_filter: "distinct (map snd bs) \<Longrightarrow> distinct (map snd (filter P bs))"
  by (rule distinct_map_filter)

lemma inv_purge:
  "ledger_inv_with pending l \<Longrightarrow> ledger_inv_with pending (purgeExpiredLocked now l)"
  unfolding purgeExpiredLocked_def
  by (rule inv_drop_buckets)
    (auto simp: ledger_inv_with_def buckets_ok_def intro: distinct_map_filter)

lemma inv_delete_bucket:
  "ledger_inv_with pending l \<Longrightarrow>
   ledger_inv_with pending (l\<lparr>ql_buckets := m_del key (ql_buckets l)\<rparr>)"
  by (rule inv_drop_buckets) (auto simp: ledger_inv_with_def buckets_ok_def AList.delete_eq intro: distinct_map_filter)

lemma upd_bucket_sel [simp]:
  "ql_self (upd_bucket a f l) = ql_self l"
  "ql_next (upd_bucket a f l) = ql_next l"
  "ql_buckets (upd_bucket a f l) = ql_buckets l"
  "ql_tickets (upd_bucket a f l) = ql_tickets l"
  "ql_nextTicketID (upd_bucket a f l) = ql_nextTicketID l"
  "ql_heap (upd_bucket a f l) a' = (if a' = a then f (ql_heap l a) else ql_heap l a')"
  by (simp_all add: upd_bucket_def)

lemma inv_upd_bucket:
  assumes inv: "ledger_inv_with pending l"
    and obs: "obs_ok (qb_observation (f (ql_heap l a)))"
    and pend: "holds_ok l pending'" "\<And>a'. a' \<noteq> a \<Longrightarrow> holds_claim a' pending' = holds_claim a' pending"
    and res: "qb_reserved (f (ql_heap l a)) = tickets_claim a (ql_tickets l) + holds_claim a pending'"
      "tickets_claim a (ql_tickets l) + holds_claim a pending' \<le> max_int64"
  shows "ledger_inv_with pending' (upd_bucket a f l)"
  unfolding ledger_inv_with_def
proof (intro conjI)
  from inv show "buckets_ok (upd_bucket a f l)" by (simp add: ledger_inv_with_def buckets_ok_def)
  show "tickets_ok (upd_bucket a f l)"
    using inv by - (rule tickets_ok_mono [of l], auto simp: ledger_inv_with_def)
  show "holds_ok (upd_bucket a f l) pending'"
    using pend(1) by (rule holds_ok_mono) simp_all
  have "bucket_ok pending' (upd_bucket a f l) a' \<longleftrightarrow> a' = a \<or> bucket_ok pending l a'" for a'
    using obs pend(2) res by (cases "a' = a") (simp_all add: bucket_ok_def)
  with inv show "heap_ok pending' (upd_bucket a f l)"
    by (simp add: ledger_inv_with_def heap_ok_def)
qed

lemma inv_bucketD:
  assumes "ledger_inv_with pending l" "m_get (ql_buckets l) k = Some a"
  shows "a < ql_next l" "validQuotaKey k" "obs_ok (qb_observation (ql_heap l a))"
    "tickets_claim a (ql_tickets l) + holds_claim a pending \<le> max_int64"
    "qb_reserved (ql_heap l a) = tickets_claim a (ql_tickets l) + holds_claim a pending"
proof -
  from assms(2) have "(k, a) \<in> set (ql_buckets l)" by (rule map_of_SomeD)
  with assms(1) show "a < ql_next l" "validQuotaKey k"
    by (auto simp: ledger_inv_with_def buckets_ok_def list_all_iff)
  with assms(1) show "obs_ok (qb_observation (ql_heap l a))"
    "tickets_claim a (ql_tickets l) + holds_claim a pending \<le> max_int64"
    "qb_reserved (ql_heap l a) = tickets_claim a (ql_tickets l) + holds_claim a pending"
    by (auto simp: ledger_inv_with_def heap_ok_def bucket_ok_def)
qed

lemma inv_bucket_inj:
  assumes "ledger_inv_with pending l"
    "m_get (ql_buckets l) k = Some a" "m_get (ql_buckets l) k' = Some a"
  shows "k = k'"
proof -
  from assms have "inj_on snd (set (ql_buckets l))"
    by (simp add: ledger_inv_with_def buckets_ok_def distinct_map)
  from inj_onD [OF this _ map_of_SomeD [OF assms(2)] map_of_SomeD [OF assms(3)]] show ?thesis
    by simp
qed

lemma inv_pendingD: "ledger_inv_with pending l \<Longrightarrow> holds_ok l pending"
  by (simp add: ledger_inv_with_def)

lemma inv_store_observation:
  assumes inv: "ledger_inv_with pending l" and obs: "obs_ok obs" and key: "validQuotaKey key"
  shows "ledger_inv_with pending (store_observation key obs l)"
proof (cases "m_get (ql_buckets l) key")
  case (Some a)
  with inv obs inv_bucketD [OF inv Some] show ?thesis
    unfolding store_observation_def
    by (simp add: inv_upd_bucket [OF inv] inv_pendingD)
next
  case None
  let ?l = "store_observation key obs l"
  have l: "?l = l\<lparr>ql_heap := (ql_heap l)(ql_next l := newBucket\<lparr>qb_observation := obs\<rparr>),
      ql_next := Suc (ql_next l), ql_buckets := ql_buckets l @ [(key, ql_next l)]\<rparr>"
    using None by (simp add: store_observation_def m_set_fresh)
  have sets: "(k, a) \<in> set (ql_buckets ?l) \<Longrightarrow> a < ql_next l \<Longrightarrow> (k, a) \<in> set (ql_buckets l)" for k a
    by (auto simp: l)
  have next_le: "ql_next l \<le> ql_next ?l" by (simp add: l)
  have tick: "ql_tickets ?l = ql_tickets l" by (simp add: l)
  have b: "buckets_ok ?l"
    using inv key None
    by (auto simp: l ledger_inv_with_def buckets_ok_def list_all_iff map_of_eq_None_iff)
  have h: "heap_ok pending ?l"
    using inv obs tickets_claim_unallocated [of l "ql_next l"] holds_claim_unallocated [of l pending "ql_next l"]
    by (auto simp: l ledger_inv_with_def heap_ok_def bucket_ok_def
        newBucket_def less_Suc_eq max_int64_def holds_ok_def)
  show ?thesis
    unfolding ledger_inv_with_def
    using b h inv holds_ok_mono [OF _ next_le sets] tickets_ok_mono [OF _ tick next_le sets]
    by (auto simp: ledger_inv_with_def)
qed

lemma inv_Observe:
  assumes "ledger_inv l" "qo_Limit obs \<le> max_int64"
  shows "ledger_inv (fst (Observe l key obs now))"
  using assms inv_purge [of "[]" l now]
  by (auto simp: ledger_inv_def Observe_def Let_def obs_ok_def
      intro!: inv_store_observation inv_delete_bucket)

lemma inv_Snapshot: "ledger_inv l \<Longrightarrow> ledger_inv (fst (Snapshot l key now))"
  using inv_purge [of "[]" l now]
  by (auto simp: ledger_inv_def Snapshot_def Let_def split: option.splits intro!: inv_delete_bucket)

lemma inv_Keys: "ledger_inv l \<Longrightarrow> ledger_inv (fst (Keys l now))"
  using inv_purge [of "[]" l now] by (simp add: ledger_inv_def Keys_def Let_def)

subsection \<open>Releasing and settling holds\<close>

lemma holds_okD:
  assumes "holds_ok l ((k, h) # hs)"
  shows "holds_ok l hs" "hold_ok l (k, h)"
  using assms by (auto simp: holds_ok_def)

text \<open>Giving back the first pending hold; the subtraction never clips, because the bucket has at
  least the hold's cost reserved.\<close>

lemma inv_give_back:
  assumes inv: "ledger_inv_with ((k, h) # hs) l" and a: "qh_bucket h = Some a"
    and f: "\<And>b. qb_reserved (f b) = qb_reserved b - minInt64 (qb_reserved b) (qh_cost h)"
      "\<And>b. qb_observation (f b) = qb_observation b"
  shows "ledger_inv_with hs (upd_bucket a f l)"
proof -
  from inv have ok: "holds_ok l hs" "hold_ok l (k, h)"
    by (auto simp: ledger_inv_with_def dest: holds_okD)
  with a have alloc: "a < ql_next l" by (simp add: hold_ok_def)
  with inv have heap: "obs_ok (qb_observation (ql_heap l a))"
    "tickets_claim a (ql_tickets l) + holds_claim a ((k, h) # hs) \<le> max_int64"
    "qb_reserved (ql_heap l a) = tickets_claim a (ql_tickets l) + holds_claim a ((k, h) # hs)"
    by (auto simp: ledger_inv_with_def heap_ok_def bucket_ok_def)
  have nn: "0 \<le> tickets_claim a (ql_tickets l)" "0 \<le> holds_claim a hs"
    using inv ok tickets_claim_nonneg holds_claim_nonneg
    by (auto simp: ledger_inv_with_def holds_ok_def)
  from a have claim: "hold_claim a h = qh_cost h" by (simp add: hold_claim_def)
  from ok have cost: "0 < qh_cost h" by (simp add: hold_ok_def)
  show ?thesis
    by (rule inv_upd_bucket [OF inv])
      (use ok heap nn claim cost f a in
        \<open>auto simp: minInt64_def hold_claim_def\<close>)
qed

lemma inv_drop_unbound_hold:
  assumes "ledger_inv_with ((k, h) # hs) l" "qh_bucket h = None"
  shows "ledger_inv_with hs l"
  using assms
  by (auto simp: ledger_inv_with_def heap_ok_def bucket_ok_def hold_claim_def holds_ok_def)

lemma inv_release_hold:
  "ledger_inv_with ((k, h) # hs) l \<Longrightarrow> ledger_inv_with hs (release_hold h l)"
  by (auto simp: release_hold_def split: option.splits
      intro: inv_drop_unbound_hold inv_give_back)

lemma inv_settle_bucket:
  "ledger_inv_with ((k, h) # hs) l \<Longrightarrow> ledger_inv_with hs (settle_bucket h l)"
  by (auto simp: settle_bucket_def split: option.splits
      intro: inv_drop_unbound_hold inv_give_back)

lemma inv_releaseHoldsLocked:
  "ledger_inv_with (ts_holds state) l \<Longrightarrow> ledger_inv_with [] (releaseHoldsLocked state l)"
proof -
  have "ledger_inv_with hs l \<Longrightarrow> ledger_inv_with [] (fold (\<lambda>(key, hold). release_hold hold) hs l)"
    for hs l
    by (induction hs arbitrary: l) (auto dest: inv_release_hold)
  then show "ledger_inv_with (ts_holds state) l \<Longrightarrow>
      ledger_inv_with [] (releaseHoldsLocked state l)"
    by (simp add: releaseHoldsLocked_def)
qed

text \<open>Taking a ticket off the ledger makes its holds pending.\<close>

lemma inv_take_ticket:
  assumes inv: "ledger_inv_with [] l" and i: "m_get (ql_tickets l) i = Some state"
  shows "ledger_inv_with (ts_holds state) (l\<lparr>ql_tickets := m_del i (ql_tickets l)\<rparr>)"
proof -
  let ?l = "l\<lparr>ql_tickets := m_del i (ql_tickets l)\<rparr>"
  from map_of_SomeD [OF i] inv have state: "holds_ok l (ts_holds state)"
    by (auto simp: ledger_inv_with_def tickets_ok_def list_all_iff)
  have hold: "hold_ok ?l = hold_ok l" by (simp add: fun_eq_iff hold_ok_def split: option.splits)
  have "tickets_claim a (ql_tickets l)
      = holds_claim a (ts_holds state) + tickets_claim a (m_del i (ql_tickets l))" for a
    using inv i by (intro tickets_claim_del) (auto simp: ledger_inv_with_def tickets_ok_def)
  with inv state hold show ?thesis
    by (auto simp: ledger_inv_with_def buckets_ok_def tickets_ok_def holds_ok_def heap_ok_def
        bucket_ok_def list_all_iff AList.delete_eq distinct_map_filter algebra_simps)
qed

lemma inv_Release: "ledger_inv l \<Longrightarrow> ledger_inv (fst (Release l ticket now))"
  using inv_purge [of "[]" l now]
  by (auto simp: ledger_inv_def Release_def Let_def consumeTicketLocked_def
      split: option.splits intro!: inv_releaseHoldsLocked inv_take_ticket)

lemma inv_charge_bucket:
  assumes inv: "ledger_inv_with pending l" and h: "hold_ok l (k, h)" and actual: "0 \<le> actual"
  shows "ledger_inv_with pending (charge_bucket h actual l)"
proof (cases "qh_bucket h")
  case None
  with inv show ?thesis by (simp add: charge_bucket_def)
next
  case (Some a)
  with h have "a < ql_next l" by (simp add: hold_ok_def)
  with inv have "bucket_ok pending l a" by (simp add: ledger_inv_with_def heap_ok_def)
  then show ?thesis
    using actual inv_pendingD [OF inv] unfolding charge_bucket_def Some option.case
    by (intro inv_upd_bucket [OF inv]) (auto simp: bucket_ok_def obs_ok_def minInt64_def)
qed

lemma normalise_ok:
  assumes "0 \<le> qo_Limit obs" "0 \<le> qo_Remaining obs" "qo_Limit obs \<le> max_int64"
  shows "obs_ok (normaliseQuotaObservation obs now)"
  using assms by (auto simp: normaliseQuotaObservation_def Let_def obs_ok_def)

text \<open>What \<open>Reconcile\<close> has checked of a settlement when it reaches the settling loop; the bound on
  \<open>Limit\<close> is that of its Go type.\<close>

definition settlement_ok :: "QuotaSettlement \<Rightarrow> bool" where
  "settlement_ok s \<longleftrightarrow> validQuotaKey (st_Key s) \<and> 0 \<le> st_Actual s \<and>
     (case st_Observation s of None \<Rightarrow> True
      | Some obs \<Rightarrow> 0 \<le> qo_Limit obs \<and> 0 \<le> qo_Remaining obs)"

definition settlement_typed :: "QuotaSettlement \<Rightarrow> bool" where
  "settlement_typed s \<longleftrightarrow> (case st_Observation s of None \<Rightarrow> True | Some obs \<Rightarrow> qo_Limit obs \<le> max_int64)"

lemma settlements_by_key_ok:
  assumes "settlements_by_key byKey ss = Some byKey'"
    and "\<And>k s. m_get byKey k = Some s \<Longrightarrow> k = st_Key s \<and> settlement_ok s \<and> s \<in> S"
  shows "m_get byKey' k = Some s \<Longrightarrow> k = st_Key s \<and> settlement_ok s \<and> s \<in> S \<union> set ss"
  using assms
proof (induction byKey ss arbitrary: S rule: settlements_by_key.induct)
  case (1 byKey)
  then show ?case by auto
next
  case (2 byKey s' ss)
  have "k = st_Key s \<and> settlement_ok s \<and> s \<in> insert s' S \<union> set ss"
    by (rule "2.IH") (use "2.prems" in \<open>auto split: if_splits option.splits simp: settlement_ok_def\<close>)
  then show ?case by auto
qed

lemma store_observation_sel [simp]:
  "ql_tickets (store_observation k obs l) = ql_tickets l"
  "ql_self (store_observation k obs l) = ql_self l"
  by (auto simp: store_observation_def split: option.splits)

lemma settle_bucket_sel [simp]:
  "ql_buckets (settle_bucket h l) = ql_buckets l" "ql_next (settle_bucket h l) = ql_next l"
  "ql_tickets (settle_bucket h l) = ql_tickets l" "ql_self (settle_bucket h l) = ql_self l"
  by (auto simp: settle_bucket_def split: option.splits)

lemma release_hold_sel [simp]:
  "ql_buckets (release_hold h l) = ql_buckets l" "ql_next (release_hold h l) = ql_next l"
  "ql_tickets (release_hold h l) = ql_tickets l" "ql_self (release_hold h l) = ql_self l"
  "ql_nextTicketID (release_hold h l) = ql_nextTicketID l"
  by (auto simp: release_hold_def split: option.splits)

lemma charge_bucket_sel [simp]:
  "ql_buckets (charge_bucket h c l) = ql_buckets l" "ql_next (charge_bucket h c l) = ql_next l"
  "ql_tickets (charge_bucket h c l) = ql_tickets l" "ql_self (charge_bucket h c l) = ql_self l"
  by (auto simp: charge_bucket_def split: option.splits)

lemma hold_ok_settle [simp]: "hold_ok (settle_bucket h' l) kh = hold_ok l kh"
  by (simp add: hold_ok_def split: option.splits prod.splits)

lemma inv_reconcile_hold:
  assumes inv: "ledger_inv_with ((k, h) # hs) l"
    and s: "\<And>k s. m_get byKey k = Some s \<Longrightarrow> k = st_Key s \<and> settlement_ok s \<and> settlement_typed s"
  shows "ledger_inv_with hs (reconcile_hold byKey now (k, h) l)"
proof -
  have inv': "ledger_inv_with hs (settle_bucket h l)" using inv by (rule inv_settle_bucket)
  have h: "hold_ok (settle_bucket h l) (k, h)" "0 \<le> qh_cost h"
    using holds_okD(2) [OF inv_pendingD [OF inv]] by simp_all (simp add: hold_ok_def)
  show ?thesis
  proof (cases "m_get byKey k")
    case None
    with inv_charge_bucket [OF inv' h] show ?thesis by (simp add: reconcile_hold_def)
  next
    case (Some s)
    from assms(2) [OF this] show ?thesis
      using inv_charge_bucket [OF inv' h(1)] Some inv'
      by (auto simp: reconcile_hold_def Let_def settlement_ok_def settlement_typed_def normalise_ok
          split: option.splits intro!: inv_store_observation inv_delete_bucket [of hs "settle_bucket h l", simplified])
  qed
qed

lemma inv_Reconcile:
  assumes "ledger_inv l" "list_all settlement_typed settlements"
  shows "ledger_inv (fst (Reconcile l ticket settlements now))"
proof -
  have loop: "ledger_inv_with hs l \<Longrightarrow> ledger_inv_with [] (fold (reconcile_hold byKey now) hs l)"
    if "\<And>k s. m_get byKey k = Some s \<Longrightarrow> k = st_Key s \<and> settlement_ok s \<and> settlement_typed s" for byKey hs l
    using that by (induction hs arbitrary: l) (auto dest: inv_reconcile_hold)
  have typed: "k = st_Key s \<and> settlement_ok s \<and> settlement_typed s"
    if "settlements_by_key [] settlements = Some byKey" "m_get byKey k = Some s" for byKey k s
    using settlements_by_key_ok [OF that(1), of "{}" k s] that(2) assms(2) by (auto simp: list_all_iff)
  show ?thesis
    using assms(1) inv_purge [of "[]" l now]
    by (auto simp: ledger_inv_def Reconcile_def Let_def split: option.splits
        intro!: loop inv_take_ticket dest: typed)
qed

subsection \<open>Aggregating and reserving\<close>

definition cost_of :: "QuotaBucketKey \<Rightarrow> QuotaReservation list \<Rightarrow> int" where
  "cost_of k rs = sum_list (map qr_Cost (filter (\<lambda>r. qr_Key r = k) rs))"

definition reservation_ok :: "QuotaReservation \<Rightarrow> bool" where
  "reservation_ok r \<longleftrightarrow> validQuotaKey (qr_Key r) \<and> 0 \<le> qr_Cost r"

lemma cost_of_simps [simp]:
  "cost_of k [] = 0"
  "cost_of k (r # rs) = (if qr_Key r = k then qr_Cost r else 0) + cost_of k rs"
  by (simp_all add: cost_of_def)

lemma cost_of_nonneg: "list_all reservation_ok rs \<Longrightarrow> 0 \<le> cost_of k rs"
  by (induction rs) (auto simp: reservation_ok_def)

definition amounts_ok :: "(QuotaBucketKey, int) gomap \<Rightarrow> bool" where
  "amounts_ok am \<longleftrightarrow> m_wf am \<and> list_all (\<lambda>(k, c). validQuotaKey k \<and> 0 < c \<and> c \<le> max_int64) am"

lemma amounts_ok_set:
  "amounts_ok am \<Longrightarrow> validQuotaKey k \<Longrightarrow> 0 < c \<Longrightarrow> c \<le> max_int64 \<Longrightarrow> amounts_ok (m_set k c am)"
  by (simp add: amounts_ok_def)

lemma amounts_ok_get_or: "amounts_ok am \<Longrightarrow> 0 \<le> m_get_or 0 am k \<and> m_get_or 0 am k \<le> max_int64"
  by (auto simp: amounts_ok_def m_get_or_def list_all_iff max_int64_def split: option.splits
      dest!: map_of_SomeD)

lemma amounts_ok_bound:
  assumes "amounts_ok am" "list_all (\<lambda>r. qr_Cost r \<le> max_int64) (r # rs)" "0 \<le> qr_Cost r"
  shows "wrap64 (m_get_or 0 am (qr_Key r) + qr_Cost r) < 0 \<longleftrightarrow>
      max_int64 < m_get_or 0 am (qr_Key r) + qr_Cost r"
  using assms amounts_ok_get_or [OF assms(1), of "qr_Key r"] by (intro wrap64_add_neg_iff) auto

lemma aggregate_loop_ok:
  assumes "amounts_ok am" "list_all (\<lambda>r. qr_Cost r \<le> max_int64) rs"
    "aggregate_loop am rs = Some am'"
  shows "amounts_ok am' \<and> list_all reservation_ok rs \<and>
      (\<forall>k. m_get_or 0 am' k = m_get_or 0 am k + cost_of k rs)"
  using assms
proof (induction am rs rule: aggregate_loop.induct)
  case (1 am)
  then show ?case by simp
next
  case (2 am r rs)
  let ?c = "m_get_or 0 am (qr_Key r) + qr_Cost r"
  from "2.prems"(3) have ok: "reservation_ok r"
    by (auto simp: reservation_ok_def split: if_splits)
  show ?case
  proof (cases "qr_Cost r = 0")
    case True
    with 2 ok show ?thesis by (auto simp: reservation_ok_def)
  next
    case False
    with ok have pos: "0 < qr_Cost r" by (simp add: reservation_ok_def)
    with "2.prems" ok have le: "?c \<le> max_int64"
      using amounts_ok_bound [OF "2.prems"(1,2)] by (auto simp: reservation_ok_def Let_def split: if_splits)
    have nonneg: "0 < ?c" using amounts_ok_get_or [OF "2.prems"(1), of "qr_Key r"] pos by linarith
    with le have w: "wrap64 ?c = ?c" by (intro wrap64_eq_id) auto
    have "amounts_ok (m_set (qr_Key r) ?c am)"
      using "2.prems"(1) ok nonneg le by (intro amounts_ok_set) (auto simp: reservation_ok_def)
    with 2 ok w nonneg False show ?thesis
      by (auto simp: reservation_ok_def Let_def split: if_splits)
  qed
qed

lemma aggregate_loop_succeeds:
  assumes "amounts_ok am" "list_all (\<lambda>r. qr_Cost r \<le> max_int64) rs" "list_all reservation_ok rs"
    "\<And>k. m_get_or 0 am k + cost_of k rs \<le> max_int64"
  shows "aggregate_loop am rs \<noteq> None"
  using assms
proof (induction am rs rule: aggregate_loop.induct)
  case (1 am)
  then show ?case by simp
next
  case (2 am r rs)
  let ?c = "m_get_or 0 am (qr_Key r) + qr_Cost r"
  from "2.prems"(3) have ok: "reservation_ok r" and "0 \<le> cost_of (qr_Key r) rs"
    by (auto intro: cost_of_nonneg)
  with "2.prems"(4) [of "qr_Key r"] have le: "?c \<le> max_int64" by simp
  have bound: "m_get_or 0 am k + cost_of k (r # rs) \<le> max_int64" for k by (rule "2.prems"(4))
  show ?case
  proof (cases "qr_Cost r = 0")
    case True
    have "m_get_or 0 am k + cost_of k rs \<le> max_int64" for k
      using bound [of k] True by (simp split: if_splits)
    with True 2 ok show ?thesis by (simp add: reservation_ok_def)
  next
    case False
    with ok have nonneg: "0 < ?c"
      using amounts_ok_get_or [OF "2.prems"(1), of "qr_Key r"] by (auto simp: reservation_ok_def)
    with le have w: "wrap64 ?c = ?c" by (intro wrap64_eq_id) auto
    have set: "amounts_ok (m_set (qr_Key r) ?c am)"
      using "2.prems"(1) ok nonneg le by (intro amounts_ok_set) (auto simp: reservation_ok_def)
    have "m_get_or 0 (m_set (qr_Key r) ?c am) k + cost_of k rs \<le> max_int64" for k
      using bound [of k] by (simp split: if_splits)
    with 2 ok w nonneg False set show ?thesis
      by (simp add: reservation_ok_def Let_def)
  qed
qed

lemma aggregateReservations_ok:
  assumes "list_all (\<lambda>r. qr_Cost r \<le> max_int64) rs" "aggregateReservations rs = Some am"
  shows "amounts_ok am" "list_all reservation_ok rs" "m_get_or 0 am k = cost_of k rs"
  using aggregate_loop_ok [of "[]" rs am] assms
  by (auto simp: aggregateReservations_def amounts_ok_def m_get_or_def)

text \<open>The buckets, the tickets and the addresses stay as they are while the loop charges costs; a
  bucket gains what the amounts list asks under its key.\<close>

lemma reserve_loop_sel:
  assumes "reserve_loop am l holds = (l', holds')"
  shows "ql_buckets l' = ql_buckets l \<and> ql_next l' = ql_next l \<and> ql_tickets l' = ql_tickets l \<and>
    ql_self l' = ql_self l \<and> ql_nextTicketID l' = ql_nextTicketID l"
  using assms
  by (induction am l holds rule: reserve_loop.induct) (auto simp: Let_def split: option.splits)

lemma fits_room:
  assumes inv: "ledger_inv_with pending l" and "m_get (ql_buckets l) k = Some a" "fits l k c"
    "0 < c" "c \<le> max_int64"
  shows "qb_reserved (ql_heap l a) + c \<le> max_int64"
proof -
  note b = inv_bucketD [OF inv assms(2)]
  have r: "0 \<le> qb_reserved (ql_heap l a)" using inv b(1) by (rule reserved_nonneg)
  have "wrap64 (qo_Remaining (qb_observation (ql_heap l a)) - qb_reserved (ql_heap l a))
      = qo_Remaining (qb_observation (ql_heap l a)) - qb_reserved (ql_heap l a)"
    using b r by (intro wrap64_id) (auto simp: int64_ok_def obs_ok_def min_int64_def max_int64_def)
  with assms b r show ?thesis by (auto simp: fits_def Let_def obs_ok_def)
qed

lemma fits_upd_other:
  assumes "ledger_inv_with pending l" "m_get (ql_buckets l) k = Some a" "k' \<noteq> k"
  shows "fits (upd_bucket a f l) k' c = fits l k' c"
  using assms inv_bucket_inj [OF assms(1,2), of k'] by (auto simp: fits_def split: option.splits)

lemma inv_live_hold_ok:
  assumes inv: "ledger_inv_with pending l" and c: "0 < c" "c \<le> max_int64"
  shows "hold_ok l (k, \<lparr>qh_key = k, qh_cost = c, qh_bucket = m_get (ql_buckets l) k\<rparr>)"
proof (cases "m_get (ql_buckets l) k")
  case None
  with c show ?thesis by (simp add: hold_ok_def)
next
  case (Some a)
  have wf: "m_wf (ql_buckets l)" using inv by (simp add: ledger_inv_with_def buckets_ok_def)
  have "k' = k" if "(k', a) \<in> set (ql_buckets l)" for k'
    using inv_bucket_inj [OF inv map_of_is_SomeI [OF wf that] Some] .
  with Some c inv_bucketD(1) [OF inv Some] show ?thesis by (auto simp: hold_ok_def list_all_iff)
qed

lemma inv_reserve_step:
  fixes k c l
  defines "h \<equiv> \<lparr>qh_key = k, qh_cost = c, qh_bucket = m_get (ql_buckets l) k\<rparr>"
  assumes inv: "ledger_inv_with holds l" and k: "m_get holds k = None"
    and c: "0 < c" "c \<le> max_int64" and fit: "fits l k c"
  shows "ledger_inv_with (holds @ [(k, h)])
    (case m_get (ql_buckets l) k of None \<Rightarrow> l
     | Some a \<Rightarrow> upd_bucket a (\<lambda>b. b\<lparr>qb_reserved := wrap64 (qb_reserved b + c)\<rparr>) l)"
proof -
  have holds: "holds_ok l (holds @ [(k, h)])"
    using inv_pendingD [OF inv] inv_live_hold_ok [OF inv c] k
    by (auto simp: holds_ok_def h_def map_of_eq_None_iff)
  show ?thesis
  proof (cases "m_get (ql_buckets l) k")
    case None
    then have "holds_claim a (holds @ [(k, h)]) = holds_claim a holds" for a
      by (simp add: h_def hold_claim_def)
    with inv holds None show ?thesis
      by (simp add: ledger_inv_with_def heap_ok_def bucket_ok_def)
  next
    case (Some a)
    note b = inv_bucketD [OF inv Some]
    have le: "qb_reserved (ql_heap l a) + c \<le> max_int64" by (rule fits_room [OF inv Some fit c])
    moreover have "0 \<le> qb_reserved (ql_heap l a)" using inv b(1) by (rule reserved_nonneg)
    ultimately have "wrap64 (qb_reserved (ql_heap l a) + c) = qb_reserved (ql_heap l a) + c"
      using c by (intro wrap64_eq_id) auto
    with Some le b(3-5) holds show ?thesis
      by (auto intro!: inv_upd_bucket [OF inv] simp: h_def hold_claim_def)
  qed
qed

lemma inv_reserve_loop:
  assumes "ledger_inv_with holds l" "amounts_ok am" "\<And>k. k \<in> fst ` set am \<Longrightarrow> m_get holds k = None"
    "list_all (\<lambda>(k, c). fits l k c) am" "reserve_loop am l holds = (l', holds')"
  shows "ledger_inv_with holds' l'"
  using assms
proof (induction am l holds rule: reserve_loop.induct)
  case (1 l holds)
  then show ?case by simp
next
  case (2 k c am l holds)
  let ?b = "m_get (ql_buckets l) k"
  let ?l = "case ?b of None \<Rightarrow> l
     | Some a \<Rightarrow> upd_bucket a (\<lambda>b. b\<lparr>qb_reserved := wrap64 (qb_reserved b + c)\<rparr>) l"
  let ?holds = "m_set k \<lparr>qh_key = k, qh_cost = c, qh_bucket = ?b\<rparr> holds"
  from "2.prems"(2) have c: "0 < c" "c \<le> max_int64" and am: "amounts_ok am" "k \<notin> fst ` set am"
    by (auto simp: amounts_ok_def)
  from "2.prems"(3) have k: "m_get holds k = None" by simp
  have "ledger_inv_with ?holds ?l"
    using inv_reserve_step [OF "2.prems"(1) k c] "2.prems"(4) k by (simp add: m_set_fresh)
  moreover have "m_get ?holds k' = None" if "k' \<in> fst ` set am" for k'
    using that am(2) "2.prems"(3) by auto
  moreover have "list_all (\<lambda>(k, c). fits ?l k c) am"
  proof -
    have "fits ?l k' c' = fits l k' c'" if "(k', c') \<in> set am" for k' c'
      using that am(2) fits_upd_other [OF "2.prems"(1), of k] by (force split: option.splits)
    with "2.prems"(4) show ?thesis by (auto simp: list_all_iff)
  qed
  moreover have "reserve_loop am ?l ?holds = (l', holds')"
    using "2.prems"(5) by (simp add: Let_def)
  ultimately show ?case using "2.IH" [OF refl refl, of] am(1) by blast
qed

subsection \<open>Ticket ids\<close>

lemma ticket_id_loop_fresh:
  "ticket_id_loop fuel ts n = Some m \<Longrightarrow> m \<noteq> 0 \<and> m_get ts m = None"
  by (induction fuel ts n rule: ticket_id_loop.induct) (auto simp: Let_def split: if_splits)

lemma ticket_id_loop_None:
  "ticket_id_loop fuel ts n = None \<longleftrightarrow>
   (\<forall>i < fuel. n + 1 + of_nat i = 0 \<or> m_get ts (n + 1 + of_nat i) \<noteq> None)"
proof (induction fuel arbitrary: n)
  case 0
  then show ?case by simp
next
  case (Suc fuel)
  let ?bad = "\<lambda>m. m = 0 \<or> m_get ts m \<noteq> None"
  have "ticket_id_loop (Suc fuel) ts n = None \<longleftrightarrow> ?bad (n + 1) \<and> ticket_id_loop fuel ts (n + 1) = None"
    by (auto simp: Let_def)
  also have "\<dots> \<longleftrightarrow> ?bad (n + 1 + of_nat 0) \<and> (\<forall>i < fuel. ?bad (n + 1 + of_nat (Suc i)))"
    by (simp only: Suc.IH of_nat_Suc add.assoc) simp
  also have "\<dots> \<longleftrightarrow> (\<forall>i < Suc fuel. ?bad (n + 1 + of_nat i))"
    by (simp only: All_less_Suc2)
  finally show ?case .
qed

text \<open>The counter cannot meet only zero and used ids for \<open>length ts + 2\<close> steps.\<close>

lemma ticket_id_loop_enough:
  fixes n :: "64 word"
  assumes "length ts + 2 \<le> 2 ^ 64"
  shows "\<exists>m. ticket_id_loop (length ts + 2) ts n = Some m"
proof (rule ccontr)
  assume "\<nexists>m. ticket_id_loop (length ts + 2) ts n = Some m"
  then have "ticket_id_loop (length ts + 2) ts n = None" by simp
  from this [unfolded ticket_id_loop_None]
  have sub: "(\<lambda>i. n + 1 + of_nat i) ` {..<length ts + 2} \<subseteq> insert 0 (fst ` set ts)"
    by (auto simp: map_of_eq_None_iff)
  have "inj_on (\<lambda>i. n + 1 + of_nat i :: 64 word) {..<length ts + 2}"
  proof (rule inj_onI)
    fix i j :: nat
    assume "i \<in> {..<length ts + 2}" "j \<in> {..<length ts + 2}"
      and "n + 1 + of_nat i = (n + 1 + of_nat j :: 64 word)"
    then have "unat (of_nat i :: 64 word) = unat (of_nat j :: 64 word)"
      and "i < 2 ^ 64" "j < 2 ^ 64" using assms by auto
    then show "i = j" by (simp add: unat_of_nat)
  qed
  then have "length ts + 2 = card ((\<lambda>i. n + 1 + of_nat i :: 64 word) ` {..<length ts + 2})"
    by (simp add: card_image)
  also have "\<dots> \<le> card (insert 0 (fst ` set ts))" by (rule card_mono [OF _ sub]) simp
  also have "\<dots> \<le> Suc (card (fst ` set ts))" by (rule card_insert_le_m1) auto
  also have "\<dots> \<le> Suc (length ts)" using card_image_le [of "set ts" fst] card_length [of ts] by simp
  finally show False by simp
qed

declare ticket_id_loop.simps(2) [simp del]

text \<open>Putting the pending holds on a new ticket.\<close>

lemma inv_put_ticket:
  assumes inv: "ledger_inv_with holds l" and i: "i \<noteq> 0" "m_get (ql_tickets l) i = None"
  shows "ledger_inv_with [] (l\<lparr>ql_nextTicketID := n,
    ql_tickets := m_set i \<lparr>ts_holds = holds\<rparr> (ql_tickets l)\<rparr>)"
proof -
  let ?l = "l\<lparr>ql_nextTicketID := n, ql_tickets := m_set i \<lparr>ts_holds = holds\<rparr> (ql_tickets l)\<rparr>"
  have hold: "hold_ok ?l = hold_ok l" by (simp add: fun_eq_iff hold_ok_def split: option.splits)
  have "tickets_claim a (ql_tickets ?l) = tickets_claim a (ql_tickets l) + holds_claim a holds" for a
    using i by (simp add: m_set_fresh)
  moreover have "tickets_ok ?l"
    using inv i by (simp add: ledger_inv_with_def tickets_ok_def holds_ok_def hold)
  ultimately show ?thesis
    using inv by (simp add: ledger_inv_with_def heap_ok_def bucket_ok_def buckets_ok_def holds_ok_def)
qed

lemma inv_ReserveAll:
  assumes "ledger_inv l" "list_all (\<lambda>r. qr_Cost r \<le> max_int64) rs" "length (ql_tickets l) + 2 \<le> 2 ^ 64"
  shows "ledger_inv (fst (ReserveAll l rs now))"
proof (cases "aggregateReservations rs")
  case None
  with assms show ?thesis by (simp add: ReserveAll_def)
next
  case (Some am)
  let ?l = "purgeExpiredLocked now l"
  have inv: "ledger_inv_with [] ?l" using assms(1) by (auto simp: ledger_inv_def intro: inv_purge)
  show ?thesis
  proof (cases "list_all (\<lambda>(key, cost). fits ?l key cost) am")
    case False
    with Some inv show ?thesis by (simp add: ReserveAll_def Let_def ledger_inv_def)
  next
    case True
    obtain l' holds where loop: "reserve_loop am ?l [] = (l', holds)" by fastforce
    have inv': "ledger_inv_with holds l'"
      using inv_reserve_loop [OF inv aggregateReservations_ok(1) [OF assms(2) Some] _ True loop] by simp
    have "ql_tickets l' = ql_tickets l"
      using reserve_loop_sel [OF loop] by (simp add: purgeExpiredLocked_def)
    with assms(3) obtain n where
      n: "ticket_id_loop (length (ql_tickets l') + 2) (ql_tickets l') (ql_nextTicketID l') = Some n"
      using ticket_id_loop_enough [of "ql_tickets l'"] by metis
    from inv_put_ticket [OF inv', of n n] ticket_id_loop_fresh [OF n] show ?thesis
      using Some True loop n by (simp add: ReserveAll_def Let_def newTicketIDLocked_def ledger_inv_def)
  qed
qed

end
