(* ===== verification/Quota_Spec.thy ===== *)
theory Quota_Spec
  imports Quota_Ledger
begin

text \<open>
  What the quota ledger promises. An abstract ledger maps a live key to the provider's
  observation and the outstanding claims of the tickets on it; heap, pointers and the running
  \<open>reserved\<close> counters are gone. The methods of the concrete ledger refine its operations, and the
  counters agree with the claims in every reachable state.
\<close>

section \<open>Reachable ledgers\<close>

text \<open>
  A step is one call of a method by any goroutine; the lock makes the calls a sequence. The
  premises are the ranges of the Go types and that the ticket table is smaller than the id space.
\<close>

inductive ledger_step :: "QuotaLedger \<Rightarrow> QuotaLedger \<Rightarrow> bool" where
  observe: "qo_Limit obs \<le> max_int64 \<Longrightarrow> ledger_step l (fst (Observe l key obs now))"
| snapshot: "ledger_step l (fst (Snapshot l key now))"
| keys: "ledger_step l (fst (Keys l now))"
| reserve: "list_all (\<lambda>r. qr_Cost r \<le> max_int64) rs \<Longrightarrow> length (ql_tickets l) + 2 \<le> 2 ^ 64 \<Longrightarrow>
    ledger_step l (fst (ReserveAll l rs now))"
| release: "ledger_step l (fst (Release l ticket now))"
| reconcile: "list_all settlement_typed ss \<Longrightarrow> ledger_step l (fst (Reconcile l ticket ss now))"

inductive ledger_reachable :: "nat \<Rightarrow> QuotaLedger \<Rightarrow> bool" for self where
  init: "ledger_reachable self (NewQuotaLedger self)"
| step: "ledger_reachable self l \<Longrightarrow> ledger_step l l' \<Longrightarrow> ledger_reachable self l'"

section \<open>The abstract ledger\<close>

record abucket =
  ab_observation :: QuotaObservation
  ab_probeSettled :: bool
  ab_claims :: "64 word \<Rightarrow> int option"

type_synonym aledger = "QuotaBucketKey \<Rightarrow> abucket option"

text \<open>The cost ticket \<open>i\<close> holds on the bucket at address \<open>a\<close> under key \<open>k\<close>.\<close>

definition claim_of ::
  "(64 word, quotaTicketState) gomap \<Rightarrow> QuotaBucketKey \<Rightarrow> nat \<Rightarrow> 64 word \<Rightarrow> int option" where
  "claim_of ts k a i = (case m_get ts i of
       None \<Rightarrow> None
     | Some s \<Rightarrow> (case m_get (ts_holds s) k of
           None \<Rightarrow> None
         | Some h \<Rightarrow> if qh_bucket h = Some a then Some (qh_cost h) else None))"

definition abs_bucket :: "QuotaLedger \<Rightarrow> QuotaBucketKey \<Rightarrow> nat \<Rightarrow> abucket" where
  "abs_bucket l k a = \<lparr>ab_observation = qb_observation (ql_heap l a),
     ab_probeSettled = qb_probeSettled (ql_heap l a), ab_claims = claim_of (ql_tickets l) k a\<rparr>"

definition abs_ledger :: "QuotaLedger \<Rightarrow> aledger" where
  "abs_ledger l k = map_option (abs_bucket l k) (m_get (ql_buckets l) k)"

definition claimed :: "abucket \<Rightarrow> int" where
  "claimed b = (\<Sum>i \<in> dom (ab_claims b). the (ab_claims b i))"

definition spec_purge :: "go_time \<Rightarrow> aledger \<Rightarrow> aledger" where
  "spec_purge now A k = (case A k of None \<Rightarrow> None
     | Some b \<Rightarrow> if obs_expired (ab_observation b) now then None else Some b)"

definition spec_store :: "QuotaBucketKey \<Rightarrow> QuotaObservation \<Rightarrow> aledger \<Rightarrow> aledger" where
  "spec_store k obs A = A(k \<mapsto> (case A k of
       None \<Rightarrow> \<lparr>ab_observation = obs, ab_probeSettled = False, ab_claims = Map.empty\<rparr>
     | Some b \<Rightarrow> b\<lparr>ab_observation := obs\<rparr>))"

definition spec_fits :: "aledger \<Rightarrow> QuotaBucketKey \<Rightarrow> int \<Rightarrow> bool" where
  "spec_fits A k c = (case A k of None \<Rightarrow> True
     | Some b \<Rightarrow> claimed b + c \<le> qo_Remaining (ab_observation b) \<or>
         (qo_Confidence (ab_observation b) = QuotaConfidenceEstimated \<and>
          ab_claims b = Map.empty \<and> \<not> ab_probeSettled b))"

definition spec_reserve :: "64 word \<Rightarrow> QuotaReservation list \<Rightarrow> aledger \<Rightarrow> aledger" where
  "spec_reserve i rs A k = map_option (\<lambda>b. if cost_of k rs = 0 then b
     else b\<lparr>ab_claims := (ab_claims b)(i \<mapsto> cost_of k rs)\<rparr>) (A k)"

definition spec_release :: "64 word \<Rightarrow> aledger \<Rightarrow> aledger" where
  "spec_release i A k = map_option (\<lambda>b. b\<lparr>ab_claims := (ab_claims b)(i := None)\<rparr>) (A k)"

text \<open>Settling key \<open>k\<close> of ticket \<open>i\<close>: the claim goes and the probe is spent; an observation
  replaces the provider's view, otherwise the actual cost comes off the remaining balance. A claim
  on a bucket that is no longer live leaves the live one alone.\<close>

definition spec_settle_claim :: "64 word \<Rightarrow> abucket \<Rightarrow> abucket" where
  "spec_settle_claim i b = (if ab_claims b i = None then b
     else b\<lparr>ab_claims := (ab_claims b)(i := None), ab_probeSettled := True\<rparr>)"

definition spec_charge :: "int \<Rightarrow> abucket \<Rightarrow> abucket" where
  "spec_charge c b = b\<lparr>ab_observation := (ab_observation b)\<lparr>qo_Remaining :=
     max 0 (qo_Remaining (ab_observation b) - c)\<rparr>\<rparr>"

definition spec_settle_key ::
  "64 word \<Rightarrow> go_time \<Rightarrow> int \<Rightarrow> QuotaSettlement option \<Rightarrow> abucket option \<Rightarrow> abucket option" where
  "spec_settle_key i now cost settlement bo =
     (case settlement of
        Some s \<Rightarrow> (case st_Observation s of
            Some o1 \<Rightarrow>
              let obs = normaliseQuotaObservation o1 now
              in if obs_expired obs now then None
                 else Some (case bo of
                     None \<Rightarrow> \<lparr>ab_observation = obs, ab_probeSettled = False, ab_claims = Map.empty\<rparr>
                   | Some b \<Rightarrow> (spec_settle_claim i b)\<lparr>ab_observation := obs\<rparr>)
          | None \<Rightarrow> map_option (\<lambda>b. if ab_claims b i = None then b
                      else spec_charge (st_Actual s) (spec_settle_claim i b)) bo)
      | None \<Rightarrow> map_option (\<lambda>b. if ab_claims b i = None then b
                  else spec_charge cost (spec_settle_claim i b)) bo)"

definition spec_reconcile ::
  "64 word \<Rightarrow> go_time \<Rightarrow> (QuotaBucketKey \<Rightarrow> int option) \<Rightarrow> (QuotaBucketKey \<Rightarrow> QuotaSettlement option) \<Rightarrow>
   aledger \<Rightarrow> aledger" where
  "spec_reconcile i now held byKey A k = (case held k of None \<Rightarrow> A k
     | Some cost \<Rightarrow> spec_settle_key i now cost (byKey k) (A k))"

section \<open>The counters are the claims\<close>

lemma reachable_inv: "ledger_reachable self l \<Longrightarrow> ledger_inv l"
proof (induction rule: ledger_reachable.induct)
  case init
  show ?case
    by (simp add: ledger_inv_def ledger_inv_with_def buckets_ok_def tickets_ok_def holds_ok_def
        heap_ok_def NewQuotaLedger_def)
next
  case (step l l')
  from step(2) step.IH show ?case
    by cases (auto intro: inv_Observe inv_Snapshot inv_Keys inv_ReserveAll inv_Release inv_Reconcile)
qed

text \<open>Only the hold under the live key can point at the live bucket.\<close>

lemma holds_claim_live:
  assumes "holds_ok l hs" "m_get (ql_buckets l) k = Some a"
  shows "holds_claim a hs = (case m_get hs k of None \<Rightarrow> 0 | Some h \<Rightarrow> hold_claim a h)"
  using assms(1)
proof (induction hs)
  case Nil
  then show ?case by simp
next
  case (Cons kh hs)
  obtain k' h where kh: "kh = (k', h)" by fastforce
  have other: "hold_claim a h = 0" if "k' \<noteq> k"
    using Cons.prems that map_of_SomeD [OF assms(2)] kh
    by (auto simp: holds_ok_def hold_ok_def hold_claim_def list_all_iff split: option.splits)
  have rest: "holds_claim a hs = (case m_get hs k of None \<Rightarrow> 0 | Some h \<Rightarrow> hold_claim a h)"
    using Cons by (simp add: holds_ok_def)
  show ?case
  proof (cases "k' = k")
    case True
    with Cons.prems kh have "m_get hs k = None" by (simp add: holds_ok_def map_of_eq_None_iff)
    with True kh rest show ?thesis by simp
  next
    case False
    with kh rest other show ?thesis by simp
  qed
qed

lemma tickets_claim_live:
  assumes "tickets_ok l" "m_get (ql_buckets l) k = Some a"
  shows "tickets_claim a (ql_tickets l) = (\<Sum>i \<in> dom (claim_of (ql_tickets l) k a). the (claim_of (ql_tickets l) k a i))"
proof -
  define c where "c ts i = (case m_get ts i of None \<Rightarrow> (0::int) | Some s \<Rightarrow> holds_claim a (ts_holds s))"
    for ts :: "(64 word, quotaTicketState) gomap" and i
  have sum: "tickets_claim a ts = (\<Sum>i \<in> fst ` set ts. c ts i)" if "m_wf ts" for ts
    using that
  proof (induction ts)
    case Nil
    then show ?case by simp
  next
    case (Cons p ts)
    obtain i s where p: "p = (i, s)" by fastforce
    with Cons.prems have "(\<Sum>j \<in> fst ` set ts. c (p # ts) j) = (\<Sum>j \<in> fst ` set ts. c ts j)"
      by (intro sum.cong) (auto simp: c_def)
    with Cons p show ?case by (auto simp: c_def)
  qed
  have wf: "m_wf (ql_tickets l)" using assms(1) by (simp add: tickets_ok_def)
  have claim: "c (ql_tickets l) i = (case claim_of (ql_tickets l) k a i of None \<Rightarrow> 0 | Some x \<Rightarrow> x)" for i
    using assms holds_claim_live [OF _ assms(2)]
    by (auto simp: c_def claim_of_def hold_claim_def tickets_ok_def split: option.splits
        dest!: list_all_getD)
  have dom: "dom (claim_of (ql_tickets l) k a) \<subseteq> fst ` set (ql_tickets l)"
    by (auto simp: claim_of_def dom_def split: option.splits dest!: map_of_SomeD intro: rev_image_eqI)
  have "tickets_claim a (ql_tickets l)
      = (\<Sum>i \<in> fst ` set (ql_tickets l). case claim_of (ql_tickets l) k a i of None \<Rightarrow> 0 | Some x \<Rightarrow> x)"
    using sum [OF wf] by (simp add: claim)
  also have "\<dots> = (\<Sum>i \<in> dom (claim_of (ql_tickets l) k a). case claim_of (ql_tickets l) k a i of None \<Rightarrow> 0 | Some x \<Rightarrow> x)"
    using dom by (intro sum.mono_neutral_right) (auto simp: dom_def)
  also have "\<dots> = (\<Sum>i \<in> dom (claim_of (ql_tickets l) k a). the (claim_of (ql_tickets l) k a i))"
    by (intro sum.cong) auto
  finally show ?thesis .
qed

lemma reserved_is_claimed:
  assumes "ledger_inv l" "m_get (ql_buckets l) k = Some a"
  shows "qb_reserved (ql_heap l a) = claimed (abs_bucket l k a)"
  using inv_bucketD(5) [OF _ assms(2), of "[]"] tickets_claim_live [OF _ assms(2)] assms(1)
  by (simp add: ledger_inv_def claimed_def abs_bucket_def ledger_inv_with_def)

section \<open>Refinement\<close>

lemma abs_upd_bucket:
  "abs_ledger (upd_bucket a f l) k =
     (if m_get (ql_buckets l) k = Some a
      then Some \<lparr>ab_observation = qb_observation (f (ql_heap l a)),
        ab_probeSettled = qb_probeSettled (f (ql_heap l a)), ab_claims = claim_of (ql_tickets l) k a\<rparr>
      else abs_ledger l k)"
  by (cases "m_get (ql_buckets l) k") (auto simp: abs_ledger_def abs_bucket_def)

lemma abs_purge:
  assumes "ledger_inv_with pending l"
  shows "abs_ledger (purgeExpiredLocked now l) = spec_purge now (abs_ledger l)"
proof
  fix k
  have "m_wf (ql_buckets l)" using assms by (simp add: ledger_inv_with_def buckets_ok_def)
  then show "abs_ledger (purgeExpiredLocked now l) k = spec_purge now (abs_ledger l) k"
    by (cases "m_get (ql_buckets l) k")
      (simp_all add: abs_ledger_def spec_purge_def purgeExpiredLocked_def m_get_filter abs_bucket_def)
qed

lemma abs_delete_bucket:
  "abs_ledger (l\<lparr>ql_buckets := m_del k (ql_buckets l)\<rparr>) = (abs_ledger l)(k := None)"
  by (auto simp: abs_ledger_def abs_bucket_def [abs_def])

lemma claim_of_unallocated:
  assumes "ledger_inv_with pending l" "ql_next l \<le> a"
  shows "claim_of (ql_tickets l) k a = Map.empty"
proof
  fix i
  show "claim_of (ql_tickets l) k a i = None"
    using assms unfolding claim_of_def
    by (auto simp: ledger_inv_with_def tickets_ok_def holds_ok_def hold_ok_def split: option.splits
        dest!: list_all_getD)
qed

lemma abs_store_observation:
  assumes inv: "ledger_inv_with pending l"
  shows "abs_ledger (store_observation k obs l) = spec_store k obs (abs_ledger l)"
proof (cases "m_get (ql_buckets l) k")
  case (Some a)
  show ?thesis
  proof
    fix k'
    have "m_get (ql_buckets l) k' = Some a \<longleftrightarrow> k' = k" using inv_bucket_inj [OF inv _ Some] Some by blast
    then show "abs_ledger (store_observation k obs l) k' = spec_store k obs (abs_ledger l) k'"
      using Some by (auto simp: store_observation_def abs_upd_bucket spec_store_def)
        (simp add: abs_ledger_def abs_bucket_def)
  qed
next
  case None
  show ?thesis
  proof
    fix k'
    have "a < ql_next l" if "m_get (ql_buckets l) k' = Some a" for a by (rule inv_bucketD(1) [OF inv that])
    then show "abs_ledger (store_observation k obs l) k' = spec_store k obs (abs_ledger l) k'"
      using None claim_of_unallocated [OF inv, of "ql_next l" k]
      by (cases "m_get (ql_buckets l) k'")
        (auto simp: store_observation_def spec_store_def abs_ledger_def abs_bucket_def newBucket_def)
  qed
qed

lemma claim_of_del: "claim_of (m_del i ts) k a = (claim_of ts k a)(i := None)"
  by (auto simp: claim_of_def)

lemma claim_of_set:
  "claim_of (m_set i s ts) k a = (claim_of ts k a)(i := (case m_get (ts_holds s) k of None \<Rightarrow> None
     | Some h \<Rightarrow> if qh_bucket h = Some a then Some (qh_cost h) else None))"
  by (auto simp: claim_of_def)

lemma abs_take_ticket:
  "abs_ledger (l\<lparr>ql_tickets := m_del i (ql_tickets l)\<rparr>) = spec_release i (abs_ledger l)"
  by (auto simp: abs_ledger_def spec_release_def abs_bucket_def [abs_def] claim_of_del option.map_comp
      comp_def)

lemma abs_release_hold [simp]: "abs_ledger (release_hold h l) = abs_ledger l"
  by (auto simp: release_hold_def fun_eq_iff abs_upd_bucket split: option.splits)
    (auto simp: abs_ledger_def abs_bucket_def)

lemma abs_releaseHolds [simp]: "abs_ledger (releaseHoldsLocked state l) = abs_ledger l"
proof -
  have "abs_ledger (fold (\<lambda>(key, hold). release_hold hold) hs l) = abs_ledger l" for hs
    by (induction hs arbitrary: l) auto
  then show ?thesis by (simp add: releaseHoldsLocked_def)
qed

lemma purge_sel [simp]:
  "ql_tickets (purgeExpiredLocked now l) = ql_tickets l"
  "ql_self (purgeExpiredLocked now l) = ql_self l"
  "ql_heap (purgeExpiredLocked now l) = ql_heap l"
  "ql_next (purgeExpiredLocked now l) = ql_next l"
  "ql_nextTicketID (purgeExpiredLocked now l) = ql_nextTicketID l"
  by (simp_all add: purgeExpiredLocked_def)

subsection \<open>Reserving\<close>

lemma reserve_loop_holds:
  assumes "reserve_loop am l holds = (l', holds')" "m_wf am"
  shows "m_get holds' k = (case m_get am k of None \<Rightarrow> m_get holds k
    | Some c \<Rightarrow> Some \<lparr>qh_key = k, qh_cost = c, qh_bucket = m_get (ql_buckets l) k\<rparr>)"
  using assms
proof (induction am l holds rule: reserve_loop.induct)
  case (1 l holds)
  then show ?case by simp
next
  case (2 key cost am l holds)
  let ?l = "case m_get (ql_buckets l) key of None \<Rightarrow> l
     | Some a \<Rightarrow> upd_bucket a (\<lambda>b. b\<lparr>qb_reserved := wrap64 (qb_reserved b + cost)\<rparr>) l"
  have "ql_buckets ?l = ql_buckets l" by (simp split: option.splits)
  moreover have "m_get am key = None" using "2.prems"(2) by (simp add: map_of_eq_None_iff)
  ultimately show ?case using 2 by (auto simp: Let_def split: option.splits)
qed

lemma reserve_loop_abs:
  "reserve_loop am l holds = (l', holds') \<Longrightarrow> abs_ledger l' = abs_ledger l"
proof (induction am l holds rule: reserve_loop.induct)
  case (1 l holds)
  then show ?case by simp
next
  case (2 key cost am l holds)
  let ?l = "case m_get (ql_buckets l) key of None \<Rightarrow> l
     | Some a \<Rightarrow> upd_bucket a (\<lambda>b. b\<lparr>qb_reserved := wrap64 (qb_reserved b + cost)\<rparr>) l"
  have "abs_ledger ?l = abs_ledger l"
    by (auto simp: fun_eq_iff abs_upd_bucket split: option.splits)
      (auto simp: abs_ledger_def abs_bucket_def)
  with 2 show ?case by (auto simp: Let_def)
qed

lemma amounts_get:
  assumes "list_all (\<lambda>r. qr_Cost r \<le> max_int64) rs" "aggregateReservations rs = Some am"
  shows "m_get am k = (if cost_of k rs = 0 then None else Some (cost_of k rs))"
  using aggregateReservations_ok [OF assms]
  by (fastforce simp: amounts_ok_def m_get_or_def split: option.splits dest: list_all_getD)

text \<open>The successful branch taken apart: \<open>am\<close> the amounts, \<open>h\<close> the holds, \<open>n\<close> the ticket id.\<close>

lemma ReserveAll_success:
  assumes "ReserveAll l rs now = (l', t, True)"
  obtains am l1 h n where
    "aggregateReservations rs = Some am"
    "list_all (\<lambda>(key, cost). fits (purgeExpiredLocked now l) key cost) am"
    "reserve_loop am (purgeExpiredLocked now l) [] = (l1, h)"
    "n \<noteq> 0" "m_get (ql_tickets l) n = None"
    "l' = l1\<lparr>ql_nextTicketID := n, ql_tickets := m_set n \<lparr>ts_holds = h\<rparr> (ql_tickets l)\<rparr>"
    "t = \<lparr>qt_ledger = Some (ql_self l), qt_id = n\<rparr>"
proof -
  from assms obtain am where am: "aggregateReservations rs = Some am"
    by (auto simp: ReserveAll_def split: option.splits)
  with assms have fit: "list_all (\<lambda>(key, cost). fits (purgeExpiredLocked now l) key cost) am"
    by (auto simp: ReserveAll_def Let_def split: if_splits)
  obtain l1 h where loop: "reserve_loop am (purgeExpiredLocked now l) [] = (l1, h)" by fastforce
  note sel = reserve_loop_sel [OF loop]
  from assms am fit loop obtain n where
    n: "ticket_id_loop (length (ql_tickets l1) + 2) (ql_tickets l1) (ql_nextTicketID l1) = Some n"
    by (auto simp: ReserveAll_def Let_def newTicketIDLocked_def split: option.splits)
  with assms am fit loop sel
  have "l' = l1\<lparr>ql_nextTicketID := n, ql_tickets := m_set n \<lparr>ts_holds = h\<rparr> (ql_tickets l)\<rparr>"
    "t = \<lparr>qt_ledger = Some (ql_self l), qt_id = n\<rparr>"
    by (auto simp: ReserveAll_def Let_def newTicketIDLocked_def)
  with that [OF am fit loop, of n] ticket_id_loop_fresh [OF n] sel show thesis by simp
qed

lemma abs_put_ticket:
  assumes "m_get (ql_tickets l) n = None"
    "\<And>k. m_get h k = (if c k = 0 then None
        else Some \<lparr>qh_key = k, qh_cost = c k, qh_bucket = m_get (ql_buckets l) k\<rparr>)"
  shows "abs_ledger (l\<lparr>ql_nextTicketID := n, ql_tickets := m_set n \<lparr>ts_holds = h\<rparr> (ql_tickets l)\<rparr>) k
    = map_option (\<lambda>b. if c k = 0 then b else b\<lparr>ab_claims := (ab_claims b)(n \<mapsto> c k)\<rparr>) (abs_ledger l k)"
  using assms(2) [of k] by (cases "m_get (ql_buckets l) k")
    (auto simp: abs_ledger_def abs_bucket_def claim_of_set claim_of_def assms(1) fun_eq_iff)

lemma abs_ReserveAll:
  assumes inv: "ledger_inv l" and typed: "list_all (\<lambda>r. qr_Cost r \<le> max_int64) rs"
    and ok: "ReserveAll l rs now = (l', t, True)"
  shows "abs_ledger l' = spec_reserve (qt_id t) rs (spec_purge now (abs_ledger l))"
proof -
  from ok obtain am l1 h n where r: "aggregateReservations rs = Some am"
    "reserve_loop am (purgeExpiredLocked now l) [] = (l1, h)" "m_get (ql_tickets l) n = None"
    "l' = l1\<lparr>ql_nextTicketID := n, ql_tickets := m_set n \<lparr>ts_holds = h\<rparr> (ql_tickets l)\<rparr>"
    "t = \<lparr>qt_ledger = Some (ql_self l), qt_id = n\<rparr>"
    by (rule ReserveAll_success)
  note sel = reserve_loop_sel [OF r(2)]
  have wf: "m_wf am" using aggregateReservations_ok(1) [OF typed r(1)] by (simp add: amounts_ok_def)
  have holds: "m_get h k = (if cost_of k rs = 0 then None
      else Some \<lparr>qh_key = k, qh_cost = cost_of k rs, qh_bucket = m_get (ql_buckets l1) k\<rparr>)" for k
    using reserve_loop_holds [OF r(2) wf, of k] amounts_get [OF typed r(1), of k] sel by simp
  have "abs_ledger l1 = spec_purge now (abs_ledger l)"
    using reserve_loop_abs [OF r(2)] abs_purge [of "[]" l now] inv by (simp add: ledger_inv_def)
  with abs_put_ticket [of l1 n h "\<lambda>k. cost_of k rs", OF _ holds] r sel show ?thesis
    by (simp add: fun_eq_iff spec_reserve_def)
qed

lemma claims_positive:
  assumes "ledger_inv_with pending l"
  shows "claim_of (ql_tickets l) k a i = Some c \<Longrightarrow> 0 < c"
  using assms unfolding claim_of_def
  by (auto simp: ledger_inv_with_def tickets_ok_def holds_ok_def hold_ok_def split: option.splits if_splits
      dest!: list_all_getD)

lemma finite_claims: "finite (dom (claim_of ts k a))"
proof (rule finite_subset)
  show "dom (claim_of ts k a) \<subseteq> fst ` set ts"
    by (auto simp: claim_of_def dom_def split: option.splits dest!: map_of_SomeD intro: rev_image_eqI)
qed simp

lemma claimed_zero_iff:
  assumes "ledger_inv_with pending l"
  shows "claimed (abs_bucket l k a) = 0 \<longleftrightarrow> ab_claims (abs_bucket l k a) = Map.empty"
proof -
  let ?c = "claim_of (ql_tickets l) k a"
  have pos: "\<forall>i \<in> dom ?c. 0 < the (?c i)" using claims_positive [OF assms] by auto
  then have "(\<Sum>i \<in> dom ?c. the (?c i)) = 0 \<longleftrightarrow> (\<forall>i \<in> dom ?c. the (?c i) = 0)"
    by (intro sum_nonneg_eq_0_iff finite_claims) (auto intro: less_imp_le)
  also have "\<dots> \<longleftrightarrow> ?c = Map.empty" using pos by (auto simp: dom_def)
  finally show ?thesis by (simp add: claimed_def abs_bucket_def)
qed

lemma fits_iff_spec_fits:
  assumes inv: "ledger_inv l"
  shows "fits l k c \<longleftrightarrow> spec_fits (abs_ledger l) k c"
proof (cases "m_get (ql_buckets l) k")
  case None
  then show ?thesis by (simp add: fits_def spec_fits_def abs_ledger_def)
next
  case (Some a)
  have inv': "ledger_inv_with [] l" using inv by (simp add: ledger_inv_def)
  note b = inv_bucketD [OF inv' Some] and r = reserved_nonneg [OF inv' inv_bucketD(1) [OF inv' Some]]
  have res: "qb_reserved (ql_heap l a) = claimed (abs_bucket l k a)"
    using inv Some by (rule reserved_is_claimed)
  have "wrap64 (qo_Remaining (qb_observation (ql_heap l a)) - qb_reserved (ql_heap l a))
      = qo_Remaining (qb_observation (ql_heap l a)) - qb_reserved (ql_heap l a)"
    using b r by (intro wrap64_id) (auto simp: int64_ok_def obs_ok_def min_int64_def max_int64_def)
  with Some res claimed_zero_iff [OF inv', of k a] show ?thesis
    by (auto simp: fits_def spec_fits_def abs_ledger_def Let_def abs_bucket_def)
qed

lemma list_all_amounts:
  assumes "list_all (\<lambda>r. qr_Cost r \<le> max_int64) rs" "aggregateReservations rs = Some am"
  shows "list_all (\<lambda>(k, c). P k c) am \<longleftrightarrow> (\<forall>k. cost_of k rs \<noteq> 0 \<longrightarrow> P k (cost_of k rs))"
proof -
  have wf: "m_wf am" using aggregateReservations_ok(1) [OF assms] by (simp add: amounts_ok_def)
  have "list_all (\<lambda>(k, c). P k c) am \<longleftrightarrow> (\<forall>k c. m_get am k = Some c \<longrightarrow> P k c)"
    using map_of_is_SomeI [OF wf] by (auto simp: list_all_iff dest: map_of_SomeD)
  then show ?thesis by (auto simp: amounts_get [OF assms])
qed

lemma aggregate_Some_iff:
  assumes "list_all (\<lambda>r. qr_Cost r \<le> max_int64) rs"
  shows "(\<exists>am. aggregateReservations rs = Some am) \<longleftrightarrow>
    list_all reservation_ok rs \<and> (\<forall>k. cost_of k rs \<le> max_int64)"
proof
  assume "\<exists>am. aggregateReservations rs = Some am"
  then obtain am where am: "aggregateReservations rs = Some am" ..
  note ok = aggregateReservations_ok [OF assms am]
  then have "cost_of k rs \<le> max_int64" for k using amounts_ok_get_or [OF ok(1), of k] by simp
  with ok show "list_all reservation_ok rs \<and> (\<forall>k. cost_of k rs \<le> max_int64)" by simp
next
  assume "list_all reservation_ok rs \<and> (\<forall>k. cost_of k rs \<le> max_int64)"
  with assms have "aggregate_loop [] rs \<noteq> None"
    by (intro aggregate_loop_succeeds) (auto simp: amounts_ok_def m_get_or_def)
  then show "\<exists>am. aggregateReservations rs = Some am" by (auto simp: aggregateReservations_def)
qed

lemma ReserveAll_cases:
  assumes typed: "list_all (\<lambda>r. qr_Cost r \<le> max_int64) rs" and inv: "ledger_inv l"
    and room: "length (ql_tickets l) + 2 \<le> 2 ^ 64"
  shows "snd (snd (ReserveAll l rs now)) \<longleftrightarrow>
      (list_all reservation_ok rs \<and> (\<forall>k. cost_of k rs \<le> max_int64)) \<and>
      (\<forall>k. cost_of k rs \<noteq> 0 \<longrightarrow> spec_fits (spec_purge now (abs_ledger l)) k (cost_of k rs))"
    and "\<not> snd (snd (ReserveAll l rs now)) \<Longrightarrow>
      ReserveAll l rs now = ((if list_all reservation_ok rs \<and> (\<forall>k. cost_of k rs \<le> max_int64)
        then purgeExpiredLocked now l else l), noTicket, False)"
proof -
  let ?ok = "snd (snd (ReserveAll l rs now))"
  let ?valid = "list_all reservation_ok rs \<and> (\<forall>k. cost_of k rs \<le> max_int64)"
  let ?fit = "\<forall>k. cost_of k rs \<noteq> 0 \<longrightarrow> spec_fits (spec_purge now (abs_ledger l)) k (cost_of k rs)"
  let ?l = "purgeExpiredLocked now l"
  have inv': "ledger_inv ?l" using inv by (auto simp: ledger_inv_def intro: inv_purge)
  have abs: "abs_ledger ?l = spec_purge now (abs_ledger l)"
    using inv abs_purge [of "[]" l] by (simp add: ledger_inv_def)
  have "(?ok \<longleftrightarrow> ?valid \<and> ?fit) \<and> (\<not> ?ok \<longrightarrow>
      ReserveAll l rs now = ((if ?valid then ?l else l), noTicket, False))"
  proof (cases "aggregateReservations rs")
    case None
    with aggregate_Some_iff [OF typed] show ?thesis by (auto simp: ReserveAll_def)
  next
    case (Some am)
    then have vb: "?valid" using aggregate_Some_iff [OF typed] by blast
    have fit: "list_all (\<lambda>(key, cost). fits ?l key cost) am \<longleftrightarrow> ?fit"
      using list_all_amounts [OF typed Some, of "fits ?l"] fits_iff_spec_fits [OF inv'] abs by simp
    show ?thesis
    proof (cases ?fit)
      case False
      with fit Some vb show ?thesis by (auto simp: ReserveAll_def Let_def)
    next
      case True
      obtain l1 h where loop: "reserve_loop am ?l [] = (l1, h)" by fastforce
      from reserve_loop_sel [OF loop] room obtain n where
        "ticket_id_loop (length (ql_tickets l1) + 2) (ql_tickets l1) (ql_nextTicketID l1) = Some n"
        using ticket_id_loop_enough [of "ql_tickets l1"] by fastforce
      with True fit Some vb loop show ?thesis by (auto simp: ReserveAll_def Let_def newTicketIDLocked_def)
    qed
  qed
  then show "?ok \<longleftrightarrow> ?valid \<and> ?fit" "\<not> ?ok \<Longrightarrow>
    ReserveAll l rs now = ((if ?valid then purgeExpiredLocked now l else l), noTicket, False)"
    by blast+
qed

subsection \<open>Settling\<close>

text \<open>What one iteration does to the view of its key, the ticket being off the ledger already.\<close>

definition settle_view ::
  "bool \<Rightarrow> go_time \<Rightarrow> int \<Rightarrow> QuotaSettlement option \<Rightarrow> abucket option \<Rightarrow> abucket option" where
  "settle_view bound now cost settlement bo =
     (let bo = map_option (\<lambda>b. if bound then b\<lparr>ab_probeSettled := True\<rparr> else b) bo;
          charge = (\<lambda>c. map_option (\<lambda>b. if bound then spec_charge c b else b) bo)
      in case settlement of
           None \<Rightarrow> charge cost
         | Some s \<Rightarrow> (case st_Observation s of
             None \<Rightarrow> charge (st_Actual s)
           | Some o1 \<Rightarrow>
               let obs = normaliseQuotaObservation o1 now
               in if obs_expired obs now then None
                  else Some (case bo of
                      None \<Rightarrow> \<lparr>ab_observation = obs, ab_probeSettled = False, ab_claims = Map.empty\<rparr>
                    | Some b \<Rightarrow> b\<lparr>ab_observation := obs\<rparr>)))"

definition bound_to_live :: "QuotaLedger \<Rightarrow> QuotaBucketKey \<Rightarrow> quotaHold \<Rightarrow> bool" where
  "bound_to_live l k h \<longleftrightarrow> qh_bucket h \<noteq> None \<and> qh_bucket h = m_get (ql_buckets l) k"

lemma hold_elsewhere:
  assumes "hold_ok l (k, h)" "qh_bucket h = Some a" "m_get (ql_buckets l) k' = Some a"
  shows "k' = k"
  using assms map_of_SomeD [OF assms(3)] by (auto simp: hold_ok_def list_all_iff)

lemma abs_upd_hold:
  assumes "hold_ok l (k, h)" "qh_bucket h = Some a"
  shows "abs_ledger (upd_bucket a f l) = (abs_ledger l)(k :=
    (if bound_to_live l k h
     then Some \<lparr>ab_observation = qb_observation (f (ql_heap l a)),
       ab_probeSettled = qb_probeSettled (f (ql_heap l a)), ab_claims = claim_of (ql_tickets l) k a\<rparr>
     else abs_ledger l k))"
proof
  fix k'
  show "abs_ledger (upd_bucket a f l) k' = ((abs_ledger l)(k :=
    (if bound_to_live l k h
     then Some \<lparr>ab_observation = qb_observation (f (ql_heap l a)),
       ab_probeSettled = qb_probeSettled (f (ql_heap l a)), ab_claims = claim_of (ql_tickets l) k a\<rparr>
     else abs_ledger l k))) k'"
    using hold_elsewhere [OF assms, of k'] assms(2)
    by (cases "k' = k") (auto simp: abs_upd_bucket bound_to_live_def)
qed

lemma abs_bound:
  "bound_to_live l k h \<Longrightarrow> qh_bucket h = Some a \<Longrightarrow> abs_ledger l k = Some (abs_bucket l k a)"
  by (metis abs_ledger_def bound_to_live_def option.simps(9))

lemma abs_settle_bucket:
  assumes "hold_ok l (k, h)"
  shows "abs_ledger (settle_bucket h l) = (abs_ledger l)(k :=
    map_option (\<lambda>b. if bound_to_live l k h then b\<lparr>ab_probeSettled := True\<rparr> else b) (abs_ledger l k))"
proof (cases "qh_bucket h")
  case None
  then show ?thesis
    by (auto simp: settle_bucket_def bound_to_live_def option.map_ident)
next
  case (Some a)
  with abs_bound [OF _ Some] show ?thesis
    by (auto simp: settle_bucket_def abs_upd_hold [OF assms Some] option.map_ident)
      (simp add: abs_bucket_def)
qed

lemma abs_charge_bucket:
  assumes "hold_ok l (k, h)" "ledger_inv_with pending l" "0 \<le> c"
  shows "abs_ledger (charge_bucket h c l) = (abs_ledger l)(k :=
    map_option (\<lambda>b. if bound_to_live l k h then spec_charge c b else b) (abs_ledger l k))"
proof (cases "qh_bucket h")
  case None
  then show ?thesis
    by (auto simp: charge_bucket_def bound_to_live_def option.map_ident)
next
  case (Some a)
  have "0 \<le> qo_Remaining (qb_observation (ql_heap l a))" if "bound_to_live l k h"
    using inv_bucketD(3) [OF assms(2), of k a] that Some by (simp add: obs_ok_def bound_to_live_def)
  with abs_bound [OF _ Some] Some assms(3) show ?thesis
    by (auto simp: charge_bucket_def abs_upd_hold [OF assms(1) Some] option.map_ident)
      (simp add: abs_bucket_def spec_charge_def minInt64_def max_def)
qed

lemma bound_to_live_sel [simp]:
  "bound_to_live (settle_bucket h' l) k h = bound_to_live l k h"
  "bound_to_live (l\<lparr>ql_tickets := ts\<rparr>) k h = bound_to_live l k h"
  by (simp_all add: bound_to_live_def)

lemma abs_reconcile_hold:
  assumes inv: "ledger_inv_with ((k, h) # hs) l"
    and s: "\<And>k s. m_get byKey k = Some s \<Longrightarrow> k = st_Key s \<and> settlement_ok s \<and> settlement_typed s"
  shows "abs_ledger (reconcile_hold byKey now (k, h) l) = (abs_ledger l)(k :=
    settle_view (bound_to_live l k h) now (qh_cost h) (m_get byKey k) (abs_ledger l k))"
proof -
  let ?l = "settle_bucket h l"
  have h: "hold_ok l (k, h)" using holds_okD(2) [OF inv_pendingD [OF inv]] .
  then have h': "hold_ok ?l (k, h)" by simp
  have cost: "0 \<le> qh_cost h" using h by (simp add: hold_ok_def)
  have inv': "ledger_inv_with hs ?l" using inv by (rule inv_settle_bucket)
  note abs = abs_settle_bucket [OF h] abs_charge_bucket [OF h' inv'] abs_store_observation [OF inv']
    abs_delete_bucket [where l = ?l and k = k, simplified settle_bucket_sel]
  show ?thesis
  proof (cases "m_get byKey k")
    case None
    then show ?thesis by (simp add: reconcile_hold_def settle_view_def abs cost)
  next
    case (Some sm)
    with s have "0 \<le> st_Actual sm" by (auto simp: settlement_ok_def)
    with Some show ?thesis
      by (cases "st_Observation sm")
        (simp_all add: reconcile_hold_def settle_view_def abs Let_def spec_store_def fun_eq_iff)
  qed
qed

lemma reconcile_hold_buckets:
  assumes "k' \<noteq> k"
  shows "m_get (ql_buckets (reconcile_hold byKey now (k, h) l)) k' = m_get (ql_buckets l) k'"
  using assms
  by (auto simp: reconcile_hold_def Let_def store_observation_def split: option.splits)

lemma abs_reconcile_fold:
  assumes "ledger_inv_with hs l"
    and s: "\<And>k s. m_get byKey k = Some s \<Longrightarrow> k = st_Key s \<and> settlement_ok s \<and> settlement_typed s"
  shows "abs_ledger (fold (reconcile_hold byKey now) hs l) k = (case m_get hs k of None \<Rightarrow> abs_ledger l k
    | Some h \<Rightarrow> settle_view (bound_to_live l k h) now (qh_cost h) (m_get byKey k) (abs_ledger l k))"
  using assms(1)
proof (induction hs arbitrary: l)
  case Nil
  then show ?case by simp
next
  case (Cons kh hs)
  obtain k1 h1 where kh: "kh = (k1, h1)" by fastforce
  let ?l = "reconcile_hold byKey now (k1, h1) l"
  have inv: "ledger_inv_with ((k1, h1) # hs) l" using Cons.prems kh by simp
  have IH: "abs_ledger (fold (reconcile_hold byKey now) hs ?l) k = (case m_get hs k of None \<Rightarrow> abs_ledger ?l k
    | Some h \<Rightarrow> settle_view (bound_to_live ?l k h) now (qh_cost h) (m_get byKey k) (abs_ledger ?l k))"
    using Cons.IH [OF inv_reconcile_hold [OF inv s]] by blast
  show ?case
  proof (cases "k = k1")
    case True
    have "m_get hs k1 = None"
      using inv_pendingD [OF inv] by (simp add: holds_ok_def map_of_eq_None_iff)
    with True kh IH abs_reconcile_hold [OF inv s, where now = now] show ?thesis by simp
  next
    case False
    then have "bound_to_live ?l k h = bound_to_live l k h" for h
      using reconcile_hold_buckets [OF False] by (simp add: bound_to_live_def)
    with False kh IH abs_reconcile_hold [OF inv s, where now = now] show ?thesis
      by (simp split: option.splits)
  qed
qed

text \<open>On a ledger that still has the ticket, the view with the claim in place is the abstract
  settlement.\<close>

lemma settle_view_spec:
  assumes t: "m_get (ql_tickets l) i = Some state" and h: "m_get (ts_holds state) k = Some h"
  shows "settle_view (bound_to_live l k h) now (qh_cost h) s (spec_release i (abs_ledger l) k)
    = spec_settle_key i now (qh_cost h) s (abs_ledger l k)"
proof (cases "m_get (ql_buckets l) k")
  case None
  then show ?thesis
    by (simp add: settle_view_def spec_settle_key_def abs_ledger_def spec_release_def Let_def
        split: option.splits)
next
  case (Some a)
  have bound: "bound_to_live l k h \<longleftrightarrow> claim_of (ql_tickets l) k a i \<noteq> None"
    using Some t h by (auto simp: bound_to_live_def claim_of_def)
  show ?thesis
  proof (cases "bound_to_live l k h")
    case True
    with bound Some show ?thesis
      by (auto simp: settle_view_def spec_settle_key_def abs_ledger_def spec_release_def Let_def
          abs_bucket_def spec_settle_claim_def spec_charge_def split: option.splits)
  next
    case False
    with bound have "claim_of (ql_tickets l) k a i = None" by simp
    then have "(claim_of (ql_tickets l) k a)(i := None) = claim_of (ql_tickets l) k a" by auto
    with False bound Some show ?thesis
      by (auto simp: settle_view_def spec_settle_key_def abs_ledger_def spec_release_def Let_def
          abs_bucket_def spec_settle_claim_def split: option.splits)
  qed
qed

definition held_costs :: "QuotaLedger \<Rightarrow> 64 word \<Rightarrow> QuotaBucketKey \<Rightarrow> int option" where
  "held_costs l i k = (case m_get (ql_tickets l) i of None \<Rightarrow> None
     | Some s \<Rightarrow> map_option qh_cost (m_get (ts_holds s) k))"

lemma settlements_typed:
  assumes "settlements_by_key [] settlements = Some byKey" "m_get byKey k = Some s"
    "list_all settlement_typed settlements"
  shows "k = st_Key s \<and> settlement_ok s \<and> settlement_typed s"
  using settlements_by_key_ok [OF assms(1), of "{}" k s] assms(2,3) by (auto simp: list_all_iff)

lemma abs_Reconcile:
  assumes inv: "ledger_inv l" and typed: "list_all settlement_typed settlements"
    and ok: "Reconcile l ticket settlements now = (l', True)"
  shows "\<exists>byKey. settlements_by_key [] settlements = Some byKey \<and>
    abs_ledger l' = spec_reconcile (qt_id ticket) now (held_costs l (qt_id ticket)) (m_get byKey)
      (spec_purge now (abs_ledger l))"
proof -
  let ?l = "purgeExpiredLocked now l" and ?i = "qt_id ticket"
  from ok obtain byKey state where bk: "settlements_by_key [] settlements = Some byKey"
    and st: "m_get (ql_tickets ?l) ?i = Some state"
    and l': "l' = fold (reconcile_hold byKey now) (ts_holds state)
        (?l\<lparr>ql_tickets := m_del ?i (ql_tickets ?l)\<rparr>)"
    by (auto simp: Reconcile_def Let_def split: if_splits option.splits)
  let ?l1 = "?l\<lparr>ql_tickets := m_del ?i (ql_tickets ?l)\<rparr>"
  have inv': "ledger_inv_with [] ?l" using inv by (auto simp: ledger_inv_def intro: inv_purge)
  have inv1: "ledger_inv_with (ts_holds state) ?l1" using inv' st by (rule inv_take_ticket)
  have abs: "abs_ledger ?l = spec_purge now (abs_ledger l)"
    using inv abs_purge [of "[]" l] by (simp add: ledger_inv_def)
  have fold: "abs_ledger l' k = (case m_get (ts_holds state) k of None \<Rightarrow> abs_ledger ?l1 k
    | Some h \<Rightarrow> settle_view (bound_to_live ?l1 k h) now (qh_cost h) (m_get byKey k) (abs_ledger ?l1 k))"
    for k unfolding l' by (rule abs_reconcile_fold [OF inv1 settlements_typed [OF bk _ typed]])
  have "abs_ledger l' k = spec_reconcile ?i now (held_costs l ?i) (m_get byKey) (abs_ledger ?l) k" for k
  proof (cases "m_get (ts_holds state) k")
    case None
    have "claim_of (ql_tickets l) k a ?i = None" for a
      using st None by (simp add: claim_of_def)
    then have "(claim_of (ql_tickets l) k a)(?i := None) = claim_of (ql_tickets l) k a" for a by auto
    then have "spec_release ?i (abs_ledger ?l) k = abs_ledger ?l k"
      by (cases "m_get (ql_buckets ?l) k") (simp_all add: spec_release_def abs_ledger_def abs_bucket_def)
    with None st fold show ?thesis
      by (simp add: spec_reconcile_def held_costs_def abs_take_ticket [where l = ?l, simplified])
  next
    case (Some h)
    with st fold settle_view_spec [OF st Some] show ?thesis
      by (simp add: spec_reconcile_def held_costs_def abs_take_ticket [where l = ?l, simplified])
  qed
  then have "abs_ledger l' = spec_reconcile ?i now (held_costs l ?i) (m_get byKey) (abs_ledger ?l)" ..
  with bk abs show ?thesis by auto
qed

lemma abs_Release:
  assumes inv: "ledger_inv l" and ok: "Release l ticket now = (l', True)"
  shows "abs_ledger l' = spec_release (qt_id ticket) (spec_purge now (abs_ledger l))"
  using ok inv abs_purge [of "[]" l now] abs_take_ticket [of "qt_id ticket" "purgeExpiredLocked now l"]
  by (auto simp: Release_def Let_def consumeTicketLocked_def ledger_inv_def
      split: if_splits option.splits)

lemma abs_Observe:
  assumes inv: "ledger_inv l" and ok: "Observe l key obs now = (l', True)"
  shows "abs_ledger l' = spec_store key (normaliseQuotaObservation obs now) (spec_purge now (abs_ledger l))"
proof -
  have inv': "ledger_inv_with [] (purgeExpiredLocked now l)"
    using inv by (auto simp: ledger_inv_def intro: inv_purge)
  have "l' = store_observation key (normaliseQuotaObservation obs now) (purgeExpiredLocked now l)"
    using ok by (auto simp: Observe_def normaliseQuotaObservation_def Let_def split: if_splits)
  with abs_store_observation [OF inv'] abs_purge [of "[]" l now] inv show ?thesis
    by (simp add: ledger_inv_def)
qed

lemma Release_True_iff:
  "snd (Release l ticket now) \<longleftrightarrow> ticket_mine l ticket \<and> m_get (ql_tickets l) (qt_id ticket) \<noteq> None"
  by (auto simp: Release_def Let_def consumeTicketLocked_def split: option.splits)

lemma releaseHolds_sel [simp]:
  "ql_tickets (releaseHoldsLocked s l) = ql_tickets l"
  "ql_self (releaseHoldsLocked s l) = ql_self l"
  "ql_buckets (releaseHoldsLocked s l) = ql_buckets l"
  "ql_next (releaseHoldsLocked s l) = ql_next l"
  "ql_nextTicketID (releaseHoldsLocked s l) = ql_nextTicketID l"
proof -
  let ?f = "fold (\<lambda>(key :: QuotaBucketKey, hold). release_hold hold)"
  have "ql_tickets (?f hs l) = ql_tickets l \<and> ql_self (?f hs l) = ql_self l \<and>
    ql_buckets (?f hs l) = ql_buckets l \<and> ql_next (?f hs l) = ql_next l \<and>
    ql_nextTicketID (?f hs l) = ql_nextTicketID l" for hs
    by (induction hs arbitrary: l) auto
  then show "ql_tickets (releaseHoldsLocked s l) = ql_tickets l"
    "ql_self (releaseHoldsLocked s l) = ql_self l"
    "ql_buckets (releaseHoldsLocked s l) = ql_buckets l"
    "ql_next (releaseHoldsLocked s l) = ql_next l"
    "ql_nextTicketID (releaseHoldsLocked s l) = ql_nextTicketID l"
    by (simp_all add: releaseHoldsLocked_def)
qed

lemma reconcile_hold_sel [simp]:
  "ql_tickets (reconcile_hold byKey now kh l) = ql_tickets l"
  "ql_self (reconcile_hold byKey now kh l) = ql_self l"
  by (cases kh; auto simp: reconcile_hold_def Let_def split: option.splits)+

lemma reconcile_fold_sel [simp]:
  "ql_tickets (fold (reconcile_hold byKey now) hs l) = ql_tickets l"
  "ql_self (fold (reconcile_hold byKey now) hs l) = ql_self l"
  by (induction hs arbitrary: l) auto

text \<open>Both ways of settling a ticket take it off the ledger.\<close>

lemma settled_ticket_gone:
  assumes "(Release l ticket now = (l', True)) \<or> (Reconcile l ticket settlements now = (l', True))"
  shows "ql_tickets l' = m_del (qt_id ticket) (ql_tickets l) \<and> ql_self l' = ql_self l \<and> ticket_mine l ticket"
  using assms
  by (auto simp: Release_def Reconcile_def Let_def consumeTicketLocked_def split: if_splits option.splits)

lemma absent_ticket_noop:
  assumes "m_get (ql_tickets l) (qt_id ticket) = None"
  shows "Release l ticket now \<in> {(l, False), (purgeExpiredLocked now l, False)}"
    "Reconcile l ticket settlements now \<in> {(l, False), (purgeExpiredLocked now l, False)}"
  using assms
  by (auto simp: Release_def Reconcile_def Let_def consumeTicketLocked_def split: option.splits)

lemma foreign_ticket_noop:
  assumes "\<not> ticket_mine l ticket"
  shows "Release l ticket now = (l, False)" "Reconcile l ticket settlements now = (l, False)"
    "Reservations l ticket = []"
  using assms by (auto simp: Release_def Reconcile_def Reservations_def)

subsection \<open>Reserve, then release\<close>

lemma reserve_loop_heap:
  assumes "reserve_loop am l holds = (l', holds')"
  shows "(ql_heap l' a)\<lparr>qb_reserved := r\<rparr> = (ql_heap l a)\<lparr>qb_reserved := r\<rparr> \<and>
    (a \<notin> snd ` set (ql_buckets l) \<longrightarrow> ql_heap l' a = ql_heap l a)"
  using assms
proof (induction am l holds rule: reserve_loop.induct)
  case (1 l holds)
  then show ?case by simp
next
  case (2 key cost am l holds)
  let ?l = "case m_get (ql_buckets l) key of None \<Rightarrow> l
     | Some a \<Rightarrow> upd_bucket a (\<lambda>b. b\<lparr>qb_reserved := wrap64 (qb_reserved b + cost)\<rparr>) l"
  have b: "ql_buckets ?l = ql_buckets l" by (simp split: option.splits)
  have "(ql_heap ?l a)\<lparr>qb_reserved := r\<rparr> = (ql_heap l a)\<lparr>qb_reserved := r\<rparr> \<and>
    (a \<notin> snd ` set (ql_buckets l) \<longrightarrow> ql_heap ?l a = ql_heap l a)"
    by (auto split: option.splits dest!: map_of_SomeD intro: rev_image_eqI)
  with 2 b show ?case by (simp add: Let_def)
qed

lemma releaseHolds_heap:
  "(ql_heap (releaseHoldsLocked s l) a)\<lparr>qb_reserved := r\<rparr> = (ql_heap l a)\<lparr>qb_reserved := r\<rparr> \<and>
   (holds_ok l (ts_holds s) \<longrightarrow> ql_next l \<le> a \<longrightarrow> ql_heap (releaseHoldsLocked s l) a = ql_heap l a)"
proof -
  have "(ql_heap (fold (\<lambda>(key, hold). release_hold hold) hs l) a)\<lparr>qb_reserved := r\<rparr>
      = (ql_heap l a)\<lparr>qb_reserved := r\<rparr> \<and>
    (list_all (\<lambda>(k, h). \<forall>b. qh_bucket h = Some b \<longrightarrow> b < a) hs \<longrightarrow>
      ql_heap (fold (\<lambda>(key, hold). release_hold hold) hs l) a = ql_heap l a)"
    for hs :: "(QuotaBucketKey, quotaHold) gomap"
    by (induction hs arbitrary: l) (auto simp: release_hold_def split: option.splits)
  moreover have "list_all (\<lambda>(k, h). \<forall>b. qh_bucket h = Some b \<longrightarrow> b < a) (ts_holds s)"
    if "holds_ok l (ts_holds s)" "ql_next l \<le> a"
    using that by (fastforce simp: holds_ok_def hold_ok_def list_all_iff split: option.splits)
  ultimately show ?thesis by (simp add: releaseHoldsLocked_def)
qed

lemma bucket_eqI:
  "b\<lparr>qb_reserved := 0\<rparr> = b'\<lparr>qb_reserved := 0\<rparr> \<Longrightarrow> qb_reserved b = qb_reserved b' \<Longrightarrow> b = (b' :: quotaBucket)"
  by (cases b; cases b') simp

lemma reserve_release_heap:
  assumes inv: "ledger_inv l" and typed: "list_all (\<lambda>r. qr_Cost r \<le> max_int64) rs"
    and room: "length (ql_tickets l) + 2 \<le> 2 ^ 64"
    and ok: "ReserveAll l rs now = (l', t, True)" and rel: "Release l' t now = (l'', True)"
  shows "ql_heap l'' a = ql_heap l a"
proof -
  let ?l = "purgeExpiredLocked now l" and ?l' = "purgeExpiredLocked now l'"
  from ok obtain am l1 h n where r: "reserve_loop am ?l [] = (l1, h)" "m_get (ql_tickets l) n = None"
    "l' = l1\<lparr>ql_nextTicketID := n, ql_tickets := m_set n \<lparr>ts_holds = h\<rparr> (ql_tickets l)\<rparr>"
    "t = \<lparr>qt_ledger = Some (ql_self l), qt_id = n\<rparr>"
    by (rule ReserveAll_success)
  note sel = reserve_loop_sel [OF r(1)] and heap1 = reserve_loop_heap [OF r(1), where a = a and r = 0]
  have inv': "ledger_inv l'" using inv_ReserveAll [OF inv typed room, of now] ok by simp
  have inv'': "ledger_inv l''" using inv_Release [OF inv', of t now] rel by simp
  have take: "m_del n (ql_tickets l') = ql_tickets l"
    using r by (simp add: m_del_set_fresh)
  have l'': "l'' = releaseHoldsLocked \<lparr>ts_holds = h\<rparr> (?l'\<lparr>ql_tickets := ql_tickets l\<rparr>)"
    using rel r(3,4) take by (auto simp: Release_def Let_def consumeTicketLocked_def split: if_splits)
  note heap2 = releaseHolds_heap [where s = "\<lparr>ts_holds = h\<rparr>" and l = "?l'\<lparr>ql_tickets := ql_tickets l\<rparr>"
      and a = a and r = 0, folded l'']
  have nxt: "ql_next l'' = ql_next l" using l'' r(3) sel by simp
  have upd: "(ql_heap l'' a)\<lparr>qb_reserved := 0\<rparr> = (ql_heap l a)\<lparr>qb_reserved := 0\<rparr>"
    using heap1 heap2 r(3) by simp
  show ?thesis
  proof (cases "a < ql_next l")
    case True
    have "qb_reserved (ql_heap l'' a) = qb_reserved (ql_heap l a)"
      using inv inv'' True nxt l''
      by (simp add: ledger_inv_def ledger_inv_with_def heap_ok_def bucket_ok_def)
    with upd show ?thesis by (rule bucket_eqI)
  next
    case False
    have "holds_ok (?l'\<lparr>ql_tickets := ql_tickets l\<rparr>) h"
      using inv_pendingD [OF inv_take_ticket [of ?l' n "\<lparr>ts_holds = h\<rparr>"]] inv' r(3) take
      by (auto simp: ledger_inv_def intro: inv_purge)
    moreover have "a \<notin> snd ` set (ql_buckets ?l)"
      using False inv by (auto simp: ledger_inv_def ledger_inv_with_def buckets_ok_def list_all_iff
          purgeExpiredLocked_def)
    ultimately show ?thesis using heap1 heap2 r(3) False sel by simp
  qed
qed

section \<open>Properties\<close>

definition ex_key :: QuotaBucketKey where
  "ex_key = \<lparr>qk_Provider = ''groq'', qk_Scope = ''organization'', qk_ModelOrPool = ''m'',
     qk_Dimension = QuotaDimensionRequests, qk_Window = QuotaWindowDay\<rparr>"

definition ex_obs :: "int \<Rightarrow> QuotaConfidence \<Rightarrow> QuotaObservation" where
  "ex_obs remaining confidence = \<lparr>qo_Limit = 10, qo_Remaining = remaining, qo_ResetAt = zero_time,
     qo_Source = QuotaSourceProviderHeader, qo_Confidence = confidence, qo_ObservedAt = 5\<rparr>"

definition ex_ledger :: "int \<Rightarrow> QuotaConfidence \<Rightarrow> QuotaLedger" where
  "ex_ledger remaining confidence =
     fst (Observe (NewQuotaLedger 1) ex_key (ex_obs remaining confidence) 5)"

lemmas ex_defs = ex_key_def ex_obs_def ex_ledger_def

lemma ex_ledger_reachable: "remaining \<le> 10 \<Longrightarrow> ledger_reachable 1 (ex_ledger remaining confidence)"
  unfolding ex_ledger_def
  by (intro ledger_reachable.step [OF ledger_reachable.init] ledger_step.observe)
    (simp add: ex_obs_def max_int64_def)

lemma ex_ledger_eq:
  "ex_ledger 3 c = \<lparr>ql_self = 1, ql_heap = (\<lambda>_. newBucket)(0 := newBucket\<lparr>qb_observation := ex_obs 3 c\<rparr>),
     ql_next = 1, ql_buckets = [(ex_key, 0)], ql_tickets = [], ql_nextTicketID = 0\<rparr>"
  by (simp add: ex_defs Observe_def validQuotaKey_def QuotaDimensionRequests_def QuotaWindowDay_def
      NewQuotaLedger_def obs_expired_def time_simps store_observation_def purgeExpiredLocked_def Let_def
      fun_eq_iff)

text \<open>C1. In every ledger that method calls can reach, what a live bucket has reserved is the sum
  of the costs its outstanding tickets hold on it; the counter never leaves the \<open>int64\<close> range and
  the observed balance stays between zero and the limit.\<close>

theorem ledger_counters_exact:
  assumes "ledger_reachable self l" "m_get (ql_buckets l) k = Some a"
  shows "qb_reserved (ql_heap l a) = claimed (abs_bucket l k a) \<and>
    0 \<le> qb_reserved (ql_heap l a) \<and> qb_reserved (ql_heap l a) \<le> max_int64 \<and>
    0 \<le> qo_Remaining (qb_observation (ql_heap l a)) \<and>
    qo_Remaining (qb_observation (ql_heap l a)) \<le> qo_Limit (qb_observation (ql_heap l a))"
proof -
  have inv: "ledger_inv l" using assms(1) by (rule reachable_inv)
  then have inv': "ledger_inv_with [] l" by (simp add: ledger_inv_def)
  from inv_bucketD [OF inv' assms(2)] reserved_nonneg [OF inv' inv_bucketD(1) [OF inv' assms(2)]]
    reserved_is_claimed [OF inv assms(2)] show ?thesis
    by (auto simp: obs_ok_def)
qed

theorem ledger_counters_exact_witness:
  "qb_reserved (ql_heap (ex_ledger 3 QuotaConfidenceEstimated) 0)
    = claimed (abs_bucket (ex_ledger 3 QuotaConfidenceEstimated) ex_key 0)"
  using ledger_counters_exact [OF ex_ledger_reachable [of 3 QuotaConfidenceEstimated], of ex_key 0]
  by (simp add: ex_ledger_eq)

text \<open>C2. \<open>ReserveAll\<close> succeeds exactly when every reservation is valid, no bucket's total overflows
  \<open>int64\<close>, and every bucket asked for has the balance left beside the outstanding claims, or is
  unknown, or is an estimate whose only probe is unspent; when it refuses, it has done nothing but
  drop expired buckets.\<close>

theorem ReserveAll_decides:
  assumes "ledger_reachable self l" "list_all (\<lambda>r. qr_Cost r \<le> max_int64) rs"
    "length (ql_tickets l) + 2 \<le> 2 ^ 64"
  shows "(snd (snd (ReserveAll l rs now)) \<longleftrightarrow>
      (list_all reservation_ok rs \<and> (\<forall>k. cost_of k rs \<le> max_int64)) \<and>
      (\<forall>k. cost_of k rs \<noteq> 0 \<longrightarrow> spec_fits (spec_purge now (abs_ledger l)) k (cost_of k rs))) \<and>
    (\<not> snd (snd (ReserveAll l rs now)) \<longrightarrow>
      fst (ReserveAll l rs now) \<in> {l, purgeExpiredLocked now l} \<and>
      fst (snd (ReserveAll l rs now)) = noTicket)"
  using ReserveAll_cases [OF assms(2) reachable_inv [OF assms(1)] assms(3), of now] by auto

theorem ReserveAll_decides_witness:
  "fst (ReserveAll (ex_ledger 3 QuotaConfidenceAuthoritative) [\<lparr>qr_Key = ex_key, qr_Cost = 4\<rparr>] 6)
    \<in> {ex_ledger 3 QuotaConfidenceAuthoritative,
       purgeExpiredLocked 6 (ex_ledger 3 QuotaConfidenceAuthoritative)}"
proof -
  let ?l = "ex_ledger 3 QuotaConfidenceAuthoritative" and ?rs = "[\<lparr>qr_Key = ex_key, qr_Cost = 4\<rparr>]"
  have "\<not> snd (snd (ReserveAll ?l ?rs 6))"
    by (simp add: ex_ledger_eq ReserveAll_def aggregateReservations_def validQuotaKey_def ex_key_def
        QuotaDimensionRequests_def QuotaWindowDay_def m_get_or_def wrap64_def purgeExpiredLocked_def
        obs_expired_def ex_obs_def time_simps fits_def newBucket_def QuotaConfidenceAuthoritative_def
        QuotaConfidenceEstimated_def Let_def)
  moreover have "length (ql_tickets ?l) + 2 \<le> 2 ^ 64" by (simp add: ex_ledger_eq)
  ultimately show ?thesis
    using ReserveAll_decides [OF ex_ledger_reachable [of 3 QuotaConfidenceAuthoritative], of ?rs 6]
    by (simp add: max_int64_def)
qed

lemma claimed_reserve:
  assumes "finite (dom (ab_claims b))" "ab_claims b i = None"
  shows "claimed (b\<lparr>ab_claims := (ab_claims b)(i \<mapsto> c)\<rparr>) = claimed b + c"
proof -
  have "(\<Sum>j \<in> dom (ab_claims b). the (((ab_claims b)(i \<mapsto> c)) j)) = (\<Sum>j \<in> dom (ab_claims b). the (ab_claims b j))"
    using assms(2) by (intro sum.cong) auto
  with assms show ?thesis by (simp add: claimed_def domIff)
qed

lemma ReserveAll_charges:
  assumes inv: "ledger_inv l" and typed: "list_all (\<lambda>r. qr_Cost r \<le> max_int64) rs"
    and ok: "ReserveAll l rs now = (l', t, True)" and b': "abs_ledger l' k = Some b'"
  shows "\<exists>b. abs_ledger l k = Some b \<and> claimed b' = claimed b + cost_of k rs \<and>
    ab_observation b' = ab_observation b \<and> ab_probeSettled b' = ab_probeSettled b"
proof -
  from ok obtain n where n: "m_get (ql_tickets l) n = None" "qt_id t = n"
    by (rule ReserveAll_success) simp
  from b' abs_ReserveAll [OF inv typed ok] obtain b where
    b: "abs_ledger l k = Some b" "b' = (if cost_of k rs = 0 then b
      else b\<lparr>ab_claims := (ab_claims b)(n \<mapsto> cost_of k rs)\<rparr>)"
    using n by (auto simp: spec_reserve_def spec_purge_def split: option.splits if_splits)
  then obtain a where "b = abs_bucket l k a" by (auto simp: abs_ledger_def)
  with n have "finite (dom (ab_claims b))" "ab_claims b n = None"
    by (auto simp: abs_bucket_def finite_claims) (simp add: claim_of_def)
  with b claimed_reserve show ?thesis by (auto simp del: fun_upd_apply)
qed

text \<open>C3. No oversubscription: after a successful \<open>ReserveAll\<close> every bucket charged either still
  covers all outstanding claims with what the provider said remains, or is an unconfirmed estimate
  on which the new ticket is the only claim.\<close>

theorem ReserveAll_no_oversubscription:
  assumes "ledger_reachable self l" "list_all (\<lambda>r. qr_Cost r \<le> max_int64) rs"
    "length (ql_tickets l) + 2 \<le> 2 ^ 64" "ReserveAll l rs now = (l', t, True)"
    "abs_ledger l' k = Some b" "cost_of k rs \<noteq> 0"
  shows "claimed b \<le> qo_Remaining (ab_observation b) \<or>
    (qo_Confidence (ab_observation b) = QuotaConfidenceEstimated \<and>
     ab_claims b = [qt_id t \<mapsto> cost_of k rs] \<and> \<not> ab_probeSettled b)"
proof -
  have inv: "ledger_inv l" using assms(1) by (rule reachable_inv)
  note abs = abs_ReserveAll [OF inv assms(2,4)]
  from assms(5,6) obtain b0 where p: "spec_purge now (abs_ledger l) k = Some b0"
    and b: "b = b0\<lparr>ab_claims := (ab_claims b0)(qt_id t \<mapsto> cost_of k rs)\<rparr>"
    by (auto simp: abs spec_reserve_def)
  from p have l: "abs_ledger l k = Some b0" by (auto simp: spec_purge_def split: option.splits if_splits)
  from ReserveAll_charges [OF inv assms(2,4,5)] l
  have cl: "claimed b = claimed b0 + cost_of k rs" by auto
  have "spec_fits (spec_purge now (abs_ledger l)) k (cost_of k rs)"
    using ReserveAll_cases(1) [OF assms(2) inv assms(3), of now] assms(4,6) by simp
  with p cl b show ?thesis by (auto simp: spec_fits_def)
qed

lemma ex_reserve:
  "ReserveAll (ex_ledger 3 c) [\<lparr>qr_Key = ex_key, qr_Cost = 2\<rparr>] 6 =
    (ex_ledger 3 c\<lparr>ql_heap := (ql_heap (ex_ledger 3 c))(0 := \<lparr>qb_observation = ex_obs 3 c,
        qb_reserved = 2, qb_probeSettled = False\<rparr>),
      ql_tickets := [(1, \<lparr>ts_holds = [(ex_key, \<lparr>qh_key = ex_key, qh_cost = 2, qh_bucket = Some 0\<rparr>)]\<rparr>)],
      ql_nextTicketID := 1\<rparr>, \<lparr>qt_ledger = Some 1, qt_id = 1\<rparr>, True)"
proof -
  have "validQuotaKey ex_key"
    by (simp add: validQuotaKey_def ex_key_def QuotaDimensionRequests_def QuotaWindowDay_def)
  then have "aggregateReservations [\<lparr>qr_Key = ex_key, qr_Cost = 2\<rparr>] = Some [(ex_key, 2)]"
    by (simp add: aggregateReservations_def m_get_or_def wrap64_def Let_def)
  moreover have "ticket_id_loop (Suc (Suc 0)) [] 0 = Some (1 :: 64 word)"
    by (simp add: ticket_id_loop.simps Let_def)
  ultimately show ?thesis
    by (simp add: ReserveAll_def Let_def ex_ledger_eq purgeExpiredLocked_def obs_expired_def time_simps
        ex_obs_def fits_def newBucket_def wrap64_def upd_bucket_def newTicketIDLocked_def numeral_2_eq_2
        fun_eq_iff)
qed

theorem ReserveAll_no_oversubscription_witness:
  "let (l', t, ok) = ReserveAll (ex_ledger 3 QuotaConfidenceAuthoritative) [\<lparr>qr_Key = ex_key, qr_Cost = 2\<rparr>] 6
   in ok \<and> claimed (abs_bucket l' ex_key 0) \<le> 3"
proof -
  let ?l = "ex_ledger 3 QuotaConfidenceAuthoritative" and ?rs = "[\<lparr>qr_Key = ex_key, qr_Cost = 2\<rparr>]"
  have "length (ql_tickets ?l) + 2 \<le> 2 ^ 64" by (simp add: ex_ledger_eq)
  from ReserveAll_no_oversubscription [OF ex_ledger_reachable [of 3 QuotaConfidenceAuthoritative] _
      this ex_reserve, of ex_key] show ?thesis
    unfolding ex_reserve
    by (simp add: max_int64_def abs_ledger_def ex_ledger_eq abs_bucket_def ex_obs_def
        QuotaConfidenceAuthoritative_def QuotaConfidenceEstimated_def)
qed

text \<open>One bootstrap probe: once a reservation against an estimated bucket is in flight, or one
  has been settled, a reservation the estimate does not cover is refused.\<close>

theorem estimate_enforced_after_probe:
  assumes "ledger_reachable self l" "list_all (\<lambda>r. qr_Cost r \<le> max_int64) rs"
    "length (ql_tickets l) + 2 \<le> 2 ^ 64" "spec_purge now (abs_ledger l) k = Some b"
    "ab_claims b \<noteq> Map.empty \<or> ab_probeSettled b"
    "qo_Remaining (ab_observation b) < claimed b + cost_of k rs" "cost_of k rs \<noteq> 0"
  shows "\<not> snd (snd (ReserveAll l rs now))"
  using ReserveAll_cases(1) [OF assms(2) reachable_inv [OF assms(1)] assms(3), of now] assms(4-)
  by (auto simp: spec_fits_def)

definition ex_reserved :: "QuotaConfidence \<Rightarrow> QuotaLedger" where
  "ex_reserved c = fst (ReserveAll (ex_ledger 3 c) [\<lparr>qr_Key = ex_key, qr_Cost = 2\<rparr>] 6)"

lemma ex_reserved_reachable: "ledger_reachable 1 (ex_reserved c)"
  unfolding ex_reserved_def
  by (rule ledger_reachable.step [OF ex_ledger_reachable [of 3 c]], simp, rule ledger_step.reserve)
    (simp_all add: max_int64_def ex_ledger_eq)

lemma ex_reserved_eq:
  "ex_reserved c = \<lparr>ql_self = 1, ql_heap = (\<lambda>_. newBucket)(0 := \<lparr>qb_observation = ex_obs 3 c,
        qb_reserved = 2, qb_probeSettled = False\<rparr>), ql_next = 1, ql_buckets = [(ex_key, 0)],
      ql_tickets = [(1, \<lparr>ts_holds = [(ex_key, \<lparr>qh_key = ex_key, qh_cost = 2, qh_bucket = Some 0\<rparr>)]\<rparr>)],
      ql_nextTicketID = 1\<rparr>"
  unfolding ex_reserved_def ex_reserve by (simp add: ex_ledger_eq)

theorem estimate_enforced_after_probe_witness:
  "\<not> snd (snd (ReserveAll (ex_reserved QuotaConfidenceEstimated) [\<lparr>qr_Key = ex_key, qr_Cost = 2\<rparr>] 7))"
proof -
  let ?l = "ex_reserved QuotaConfidenceEstimated" and ?rs = "[\<lparr>qr_Key = ex_key, qr_Cost = 2\<rparr>]"
  have claim: "claim_of (ql_tickets ?l) ex_key 0 = [1 \<mapsto> 2]"
    by (auto simp: claim_of_def ex_reserved_eq fun_eq_iff)
  show ?thesis
    by (rule estimate_enforced_after_probe [OF ex_reserved_reachable, where k = ex_key
          and b = "abs_bucket ?l ex_key 0"])
      (simp_all add: max_int64_def ex_reserved_eq spec_purge_def abs_ledger_def abs_bucket_def
        obs_expired_def ex_obs_def time_simps claimed_def claim [unfolded ex_reserved_eq, simplified])
qed

text \<open>C4. Reserving and releasing at one instant leaves the ledger as it was, the expired buckets
  dropped and the ticket counter advanced: heap, live buckets and tickets.\<close>

theorem reserve_release_roundtrip:
  assumes "ledger_reachable self l" "list_all (\<lambda>r. qr_Cost r \<le> max_int64) rs"
    "length (ql_tickets l) + 2 \<le> 2 ^ 64" "ReserveAll l rs now = (l', t, True)"
  shows "Release l' t now = ((purgeExpiredLocked now l)\<lparr>ql_nextTicketID := qt_id t\<rparr>, True)"
proof -
  have inv: "ledger_inv l" using assms(1) by (rule reachable_inv)
  from assms(4) obtain am l1 h n where r: "reserve_loop am (purgeExpiredLocked now l) [] = (l1, h)"
    "n \<noteq> 0" "m_get (ql_tickets l) n = None"
    "l' = l1\<lparr>ql_nextTicketID := n, ql_tickets := m_set n \<lparr>ts_holds = h\<rparr> (ql_tickets l)\<rparr>"
    "t = \<lparr>qt_ledger = Some (ql_self l), qt_id = n\<rparr>"
    by (rule ReserveAll_success)
  note sel = reserve_loop_sel [OF r(1)]
  have mine: "ticket_mine l' t" using r sel by (simp add: ticket_mine_def)
  have "snd (Release l' t now)" using mine r by (simp add: Release_True_iff)
  then obtain l'' where rel: "Release l' t now = (l'', True)" by (metis prod.collapse)
  have heap: "ql_heap l'' = ql_heap l"
    using reserve_release_heap [OF inv assms(2-4) rel] by blast
  have obs: "qb_observation (ql_heap l' a) = qb_observation (ql_heap l a)" for a
    using reserve_loop_heap [OF r(1), where a = a and r = 0] r(4)
    by simp (metis quotaBucket.ext_inject quotaBucket.surjective quotaBucket.update_convs(2))
  have bs: "ql_buckets l' = ql_buckets (purgeExpiredLocked now l)" using r(4) sel by simp
  have "filter (\<lambda>(k, a). \<not> obs_expired (qb_observation (ql_heap l a)) now) (ql_buckets l') = ql_buckets l'"
    unfolding bs purgeExpiredLocked_def by simp
  then have "purgeExpiredLocked now l' = l'"
    unfolding purgeExpiredLocked_def obs by (cases l') simp
  with rel mine r have l'': "l'' = releaseHoldsLocked \<lparr>ts_holds = h\<rparr> (l'\<lparr>ql_tickets := ql_tickets l\<rparr>)"
    by (auto simp: Release_def Let_def consumeTicketLocked_def m_del_set_fresh)
  have "l'' = (purgeExpiredLocked now l)\<lparr>ql_nextTicketID := n\<rparr>"
    by (rule QuotaLedger.equality) (use heap l'' r sel in simp_all)
  with rel r show ?thesis by simp
qed

theorem reserve_release_roundtrip_witness:
  "Release (ex_reserved QuotaConfidenceAuthoritative) \<lparr>qt_ledger = Some 1, qt_id = 1\<rparr> 6
    = ((purgeExpiredLocked 6 (ex_ledger 3 QuotaConfidenceAuthoritative))\<lparr>ql_nextTicketID := 1\<rparr>, True)"
proof -
  have "length (ql_tickets (ex_ledger 3 QuotaConfidenceAuthoritative)) + 2 \<le> 2 ^ 64"
    by (simp add: ex_ledger_eq)
  from reserve_release_roundtrip [OF ex_ledger_reachable _ this ex_reserve] show ?thesis
    by (simp add: ex_reserved_def ex_reserve max_int64_def)
qed

text \<open>C5. A ticket is settled exactly once: after \<open>Release\<close> or \<open>Reconcile\<close> has accepted it, the next
  \<open>Release\<close> or \<open>Reconcile\<close> with it is refused and at most drops expired buckets, and the ledger
  lists no reservations for it.\<close>

theorem ticket_settled_once:
  assumes "Release l ticket now = (l1, True) \<or> Reconcile l ticket ss now = (l1, True)"
  shows "\<not> snd (Release l1 ticket now') \<and> \<not> snd (Reconcile l1 ticket ss' now') \<and>
    fst (Release l1 ticket now') \<in> {l1, purgeExpiredLocked now' l1} \<and>
    fst (Reconcile l1 ticket ss' now') \<in> {l1, purgeExpiredLocked now' l1} \<and>
    Reservations l1 ticket = []"
proof -
  have "m_get (ql_tickets l1) (qt_id ticket) = None"
    using settled_ticket_gone [OF assms] by simp
  from absent_ticket_noop(1) [OF this, where now = now']
    absent_ticket_noop(2) [OF this, where now = now' and settlements = ss'] this
  show ?thesis by (auto simp: Reservations_def)
qed

theorem ticket_settled_once_witness:
  "\<not> snd (Release (fst (Release (ex_reserved QuotaConfidenceAuthoritative) \<lparr>qt_ledger = Some 1, qt_id = 1\<rparr> 6))
      \<lparr>qt_ledger = Some 1, qt_id = 1\<rparr> 8)"
proof -
  let ?t = "\<lparr>qt_ledger = Some 1, qt_id = 1\<rparr>" and ?l = "ex_reserved QuotaConfidenceAuthoritative"
  have "snd (Release ?l ?t 6)"
    by (simp add: Release_True_iff ticket_mine_def ex_reserved_eq)
  then have "Release ?l ?t 6 = (fst (Release ?l ?t 6), True)" by (metis prod.collapse)
  from ticket_settled_once [of ?l ?t 6 "fst (Release ?l ?t 6)", OF disjI1 [OF this]] show ?thesis by blast
qed

text \<open>C6. Refinement: seen through \<open>abs_ledger\<close>, each successful method is the abstract operation on
  claims: an observation replaces the provider's view, a reservation adds one claim per key, a
  release removes the ticket's claims, and a settlement turns each claim into consumption or the
  provider's new balance. Holds on buckets that were reset meanwhile do not touch the new bucket.\<close>

theorem ledger_refines_spec:
  assumes "ledger_reachable self l"
  shows "(qo_Limit obs \<le> max_int64 \<and> Observe l key obs now = (l1, True) \<longrightarrow>
      abs_ledger l1 = spec_store key (normaliseQuotaObservation obs now) (spec_purge now (abs_ledger l))) \<and>
    (list_all (\<lambda>r. qr_Cost r \<le> max_int64) rs \<and> ReserveAll l rs now = (l2, t, True) \<longrightarrow>
      abs_ledger l2 = spec_reserve (qt_id t) rs (spec_purge now (abs_ledger l))) \<and>
    (Release l ticket now = (l3, True) \<longrightarrow>
      abs_ledger l3 = spec_release (qt_id ticket) (spec_purge now (abs_ledger l))) \<and>
    (list_all settlement_typed ss \<and> Reconcile l ticket ss now = (l4, True) \<longrightarrow>
      (\<exists>byKey. settlements_by_key [] ss = Some byKey \<and>
        abs_ledger l4 = spec_reconcile (qt_id ticket) now (held_costs l (qt_id ticket)) (m_get byKey)
          (spec_purge now (abs_ledger l))))"
proof -
  have inv: "ledger_inv l" using assms by (rule reachable_inv)
  show ?thesis
    using abs_Observe [OF inv] abs_ReserveAll [OF inv] abs_Release [OF inv] abs_Reconcile [OF inv]
    by blast
qed

theorem ledger_refines_spec_witness:
  "abs_ledger (ex_reserved QuotaConfidenceAuthoritative) =
    spec_reserve 1 [\<lparr>qr_Key = ex_key, qr_Cost = 2\<rparr>]
      (spec_purge 6 (abs_ledger (ex_ledger 3 QuotaConfidenceAuthoritative)))"
  using ledger_refines_spec [OF ex_ledger_reachable [of 3 QuotaConfidenceAuthoritative],
      where rs = "[\<lparr>qr_Key = ex_key, qr_Cost = 2\<rparr>]" and now = 6]
    ex_reserve [of QuotaConfidenceAuthoritative]
  by (simp add: ex_reserved_def max_int64_def)

text \<open>\<open>Snapshot\<close> reports the balance a scheduler may spend: what the provider said remains less
  all outstanding claims, never below zero nor above the limit, and only for a bucket whose reset is
  not past; a minute bucket without reset time is reported only within the minute it was observed
  in.\<close>

theorem Snapshot_available:
  assumes "ledger_reachable self l" "Snapshot l key now = (l', Some s)"
  shows "\<exists>b. abs_ledger l key = Some b \<and> qs_Observation s = ab_observation b \<and>
    qs_Reserved s = claimed b \<and> qs_ProbeSettled s = ab_probeSettled b \<and>
    qs_Available s = max 0 (qo_Remaining (ab_observation b) - claimed b) \<and>
    qs_Available s \<le> qo_Limit (qs_Observation s) \<and> \<not> obs_expired (qs_Observation s) now \<and>
    (qk_Window key = QuotaWindowMinute \<and> is_zero (qo_ResetAt (qs_Observation s)) \<and>
     \<not> is_zero (qo_ObservedAt (qs_Observation s)) \<longrightarrow>
       truncate_time now minute \<le> truncate_time (qo_ObservedAt (qs_Observation s)) minute)"
proof -
  have inv: "ledger_inv l" using assms(1) by (rule reachable_inv)
  then have inv': "ledger_inv_with [] l" and wf: "m_wf (ql_buckets l)"
    by (simp_all add: ledger_inv_def ledger_inv_with_def buckets_ok_def)
  from assms(2) obtain a where a: "m_get (ql_buckets l) key = Some a"
    and live: "\<not> obs_expired (qb_observation (ql_heap l a)) now"
    and s: "s = \<lparr>qs_Observation = qb_observation (ql_heap l a), qs_Key = key,
      qs_Reserved = qb_reserved (ql_heap l a),
      qs_Available = (let v = wrap64 (qo_Remaining (qb_observation (ql_heap l a)) - qb_reserved (ql_heap l a))
        in if v < 0 then 0 else v),
      qs_ProbeSettled = qb_probeSettled (ql_heap l a)\<rparr>"
    and fresh: "\<not> (qk_Window key = QuotaWindowMinute \<and> is_zero (qo_ResetAt (qb_observation (ql_heap l a))) \<and>
      \<not> is_zero (qo_ObservedAt (qb_observation (ql_heap l a))) \<and>
      after (truncate_time now minute) (truncate_time (qo_ObservedAt (qb_observation (ql_heap l a))) minute))"
    by (auto simp: Snapshot_def Let_def purgeExpiredLocked_def m_get_filter wf
        split: option.splits if_splits)
  note b = inv_bucketD [OF inv' a] and r = reserved_nonneg [OF inv' inv_bucketD(1) [OF inv' a]]
  have w: "wrap64 (qo_Remaining (qb_observation (ql_heap l a)) - qb_reserved (ql_heap l a))
      = qo_Remaining (qb_observation (ql_heap l a)) - qb_reserved (ql_heap l a)"
    using b r by (intro wrap64_id) (auto simp: int64_ok_def obs_ok_def min_int64_def max_int64_def)
  have "abs_ledger l key = Some (abs_bucket l key a)" using a by (simp add: abs_ledger_def)
  moreover have "qs_Reserved s = claimed (abs_bucket l key a)"
    using reserved_is_claimed [OF inv a] s by simp
  ultimately show ?thesis
    using s w b(3) r live fresh by (auto simp: abs_bucket_def obs_ok_def Let_def after_def)
qed

theorem Snapshot_available_witness:
  "\<exists>b. abs_ledger (ex_reserved QuotaConfidenceAuthoritative) ex_key = Some b \<and>
    max 0 (qo_Remaining (ab_observation b) - claimed b) = 1"
proof -
  let ?l = "ex_reserved QuotaConfidenceAuthoritative"
  have "Snapshot ?l ex_key 9 = (purgeExpiredLocked 9 ?l, Some \<lparr>qs_Observation = ex_obs 3 QuotaConfidenceAuthoritative,
      qs_Key = ex_key, qs_Reserved = 2, qs_Available = 1, qs_ProbeSettled = False\<rparr>)"
    by (simp add: Snapshot_def Let_def purgeExpiredLocked_def ex_reserved_eq obs_expired_def ex_obs_def
        time_simps ex_key_def QuotaWindowDay_def QuotaWindowMinute_def wrap64_def)
  from Snapshot_available [OF ex_reserved_reachable this] show ?thesis by auto
qed

end
