(* ===== verification/Ticket_Pool.thy ===== *)
theory Ticket_Pool
  imports Quota_Spec
begin

text \<open>
  The contract between the owner of a limited resource and the code that takes and returns claims
  on it: the quota ledger with its tickets and the admission semaphore with its slots. A client
  that returns every claim it took leaves the pool's outstanding claims as it found them, however
  its takes and returns interleave with each other.
\<close>

locale ticket_pool =
  fixes inv :: "'s \<Rightarrow> bool"
    and outstanding :: "'s \<Rightarrow> 'i set"
    and may_take :: "'r \<Rightarrow> 's \<Rightarrow> bool"
    and take_claim :: "'r \<Rightarrow> 's \<Rightarrow> 's \<times> 'i option"
    and give_back :: "'t \<Rightarrow> 'i \<Rightarrow> 's \<Rightarrow> 's"
  assumes take_inv: "inv s \<Longrightarrow> may_take r s \<Longrightarrow> inv (fst (take_claim r s))"
    and take_some: "inv s \<Longrightarrow> may_take r s \<Longrightarrow> take_claim r s = (s', Some i) \<Longrightarrow>
      i \<notin> outstanding s \<and> outstanding s' = insert i (outstanding s)"
    and take_none: "inv s \<Longrightarrow> may_take r s \<Longrightarrow> take_claim r s = (s', None) \<Longrightarrow>
      outstanding s' = outstanding s"
    and give_inv: "inv s \<Longrightarrow> inv (give_back t i s)"
    and give_outstanding: "inv s \<Longrightarrow> outstanding (give_back t i s) = outstanding s - {i}"
begin

text \<open>A client's run: it takes claims and gives back some it holds; the list is what it holds.\<close>

inductive client_run :: "'s \<Rightarrow> 'i list \<Rightarrow> 's \<Rightarrow> 'i list \<Rightarrow> bool" for s0 h0 where
  start: "client_run s0 h0 s0 h0"
| took: "client_run s0 h0 s h \<Longrightarrow> may_take r s \<Longrightarrow> take_claim r s = (s', Some i) \<Longrightarrow>
    client_run s0 h0 s' (i # h)"
| refused: "client_run s0 h0 s h \<Longrightarrow> may_take r s \<Longrightarrow> take_claim r s = (s', None) \<Longrightarrow>
    client_run s0 h0 s' h"
| gave: "client_run s0 h0 s (h1 @ i # h2) \<Longrightarrow> client_run s0 h0 (give_back t i s) (h1 @ h2)"

lemma run_balance:
  assumes "client_run s0 [] s h" "inv s0"
  shows "inv s \<and> distinct h \<and> outstanding s0 \<inter> set h = {} \<and> outstanding s = outstanding s0 \<union> set h"
  using assms
proof (induction rule: client_run.induct)
  case start
  then show ?case by simp
next
  case (took s h r s' i)
  with take_inv [of s r] take_some [of s r s' i] show ?case by auto
next
  case (refused s h r s')
  with take_inv [of s r] take_none [of s r s'] show ?case by auto
next
  case (gave s h1 i h2 t)
  then have IH: "inv s" "distinct (h1 @ i # h2)" "outstanding s0 \<inter> set (h1 @ i # h2) = {}"
    "outstanding s = outstanding s0 \<union> set (h1 @ i # h2)" by auto
  with give_inv [of s t i] give_outstanding [of s t i] show ?case by auto
qed

lemma all_returned:
  assumes "client_run s0 [] s []" "inv s0"
  shows "outstanding s = outstanding s0"
  using run_balance [OF assms] by simp

lemma give_all:
  assumes "inv s"
  shows "inv (fold (give_back t) is s) \<and> outstanding (fold (give_back t) is s) = outstanding s - set is"
  using assms
proof (induction "is" arbitrary: s)
  case Nil
  then show ?case by simp
next
  case (Cons i "is")
  with Cons.IH [OF give_inv [OF Cons.prems]] give_outstanding [OF Cons.prems] show ?case by auto
qed

end

section \<open>The quota ledger is such a pool\<close>

definition live_tickets :: "QuotaLedger \<Rightarrow> (64 word) set" where
  "live_tickets l = fst ` set (ql_tickets l)"

definition ledger_take ::
  "QuotaReservation list \<times> go_time \<Rightarrow> QuotaLedger \<Rightarrow> QuotaLedger \<times> (64 word) option" where
  "ledger_take r l = (case ReserveAll l (fst r) (snd r) of
     (l', t, ok) \<Rightarrow> (l', if ok then Some (qt_id t) else None))"

definition ledger_may_take :: "QuotaReservation list \<times> go_time \<Rightarrow> QuotaLedger \<Rightarrow> bool" where
  "ledger_may_take r l \<longleftrightarrow> list_all (\<lambda>r. qr_Cost r \<le> max_int64) (fst r) \<and>
     length (ql_tickets l) + 2 \<le> 2 ^ 64"

definition ledger_give :: "go_time \<Rightarrow> 64 word \<Rightarrow> QuotaLedger \<Rightarrow> QuotaLedger" where
  "ledger_give now i l = fst (Release l \<lparr>qt_ledger = Some (ql_self l), qt_id = i\<rparr> now)"

lemma live_tickets_iff: "i \<in> live_tickets l \<longleftrightarrow> m_get (ql_tickets l) i \<noteq> None"
  by (simp add: live_tickets_def map_of_eq_None_iff)

lemma ReserveAll_tickets:
  assumes "ReserveAll l rs now = (l', t, ok)"
  shows "ql_tickets l' = (if ok then ql_tickets l' else ql_tickets l) \<and>
    (ok \<longrightarrow> m_get (ql_tickets l) (qt_id t) = None \<and> live_tickets l' = insert (qt_id t) (live_tickets l))"
proof (cases ok)
  case True
  with assms have "ReserveAll l rs now = (l', t, True)" by simp
  then obtain am l1 h n where "m_get (ql_tickets l) n = None"
    "l' = l1\<lparr>ql_nextTicketID := n, ql_tickets := m_set n \<lparr>ts_holds = h\<rparr> (ql_tickets l)\<rparr>" "qt_id t = n"
    by (rule ReserveAll_success) simp
  with True show ?thesis by (auto simp: live_tickets_iff split: if_splits)
next
  case False
  have "ql_tickets (fst (ReserveAll l rs now)) = ql_tickets l" if "\<not> snd (snd (ReserveAll l rs now))"
    using that reserve_loop_sel
    by (auto simp: ReserveAll_def Let_def split: option.splits prod.splits if_splits)
  with False assms show ?thesis by simp
qed

lemma ledger_give_tickets:
  assumes "ledger_inv l"
  shows "live_tickets (ledger_give now i l) = live_tickets l - {i}"
proof -
  have nz: "0 \<notin> live_tickets l"
    using assms by (force simp: ledger_inv_def ledger_inv_with_def tickets_ok_def list_all_iff live_tickets_def)
  let ?t = "\<lparr>qt_ledger = Some (ql_self l), qt_id = i\<rparr>"
  show ?thesis
  proof (cases "i \<in> live_tickets l")
    case True
    with nz have "snd (Release l ?t now)"
      by (auto simp: Release_True_iff ticket_mine_def live_tickets_iff)
    then have "Release l ?t now = (ledger_give now i l, True)"
      unfolding ledger_give_def by (metis prod.collapse)
    from settled_ticket_gone [OF disjI1 [OF this]] show ?thesis
      by (auto simp: live_tickets_iff split: if_splits)
  next
    case False
    then have "m_get (ql_tickets l) (qt_id ?t) = None" by (simp add: live_tickets_iff)
    from absent_ticket_noop(1) [OF this, of now] have "ql_tickets (ledger_give now i l) = ql_tickets l"
      by (auto simp: ledger_give_def)
    with False show ?thesis by (simp add: live_tickets_def)
  qed
qed

interpretation quota_pool: ticket_pool ledger_inv live_tickets ledger_may_take ledger_take ledger_give
proof
  fix l r l' i t
  assume inv: "ledger_inv l"
  show "ledger_may_take r l \<Longrightarrow> ledger_inv (fst (ledger_take r l))"
    using inv_ReserveAll [OF inv, of "fst r" "snd r"]
    by (auto simp: ledger_may_take_def ledger_take_def split: prod.splits)
  show "i \<notin> live_tickets l \<and> live_tickets l' = insert i (live_tickets l)"
    if "ledger_may_take r l" "ledger_take r l = (l', Some i)"
    using that(2) ReserveAll_tickets [of l "fst r" "snd r"]
    by (auto simp: ledger_take_def live_tickets_iff split: prod.splits if_splits)
  show "live_tickets l' = live_tickets l" if "ledger_may_take r l" "ledger_take r l = (l', None)"
    using that(2) ReserveAll_tickets [of l "fst r" "snd r"]
    by (auto simp: ledger_take_def live_tickets_def split: prod.splits if_splits)
  show "ledger_inv (ledger_give t i l)" unfolding ledger_give_def by (rule inv_Release [OF inv])
  show "live_tickets (ledger_give t i l) = live_tickets l - {i}" by (rule ledger_give_tickets [OF inv])
qed

end
