(* ===== verification/Env_Config.thy ===== *)
theory Env_Config
  imports Prelude
begin

text \<open>
  Configuration read from the process environment, \<open>src/internal/router/router_policy_env.go\<close>. The
  environment is a map from names to values; a function that reads it takes it as its first
  argument, so that a change between two reads is visible in the model.

  \<open>strconv.Atoi\<close> and \<open>strconv.ParseInt(s, 10, 64)\<close> are \<open>atoi\<close>: an optional sign, decimal digits,
  and an error outside the \<open>int64\<close> range. The JSON decoding of \<open>loadRetryPolicyFromEnv\<close> and
  \<open>loadLimitsFromEnv\<close> is not modelled.
\<close>

type_synonym process_env = "(string, string) gomap"

definition is_digit :: "char \<Rightarrow> bool" where
  "is_digit c \<longleftrightarrow> 48 \<le> (of_char c :: nat) \<and> (of_char c :: nat) \<le> 57"

fun digits_value :: "int \<Rightarrow> string \<Rightarrow> int option" where
  "digits_value acc [] = Some acc"
| "digits_value acc (c # cs) =
     (if is_digit c then digits_value (10 * acc + (of_char c - 48)) cs else None)"

definition parse_digits :: "string \<Rightarrow> int option" where
  "parse_digits s = (if s = [] then None else digits_value 0 s)"

definition parse_signed :: "string \<Rightarrow> int option" where
  "parse_signed s = (case s of
     [] \<Rightarrow> None
   | c # cs \<Rightarrow> if c = CHR ''-'' then map_option uminus (parse_digits cs)
              else if c = CHR ''+'' then parse_digits cs
              else parse_digits s)"

definition atoi :: "string \<Rightarrow> int option" where
  "atoi s = (case parse_signed s of None \<Rightarrow> None | Some n \<Rightarrow> if int64_ok n then Some n else None)"

definition envValue :: "process_env \<Rightarrow> string \<Rightarrow> string" where
  "envValue env key = trim_space (m_get_or [] env key)"

definition canonicalEnvValue :: "process_env \<Rightarrow> string \<Rightarrow> string" where
  "canonicalEnvValue env key = to_lower (envValue env key)"

definition envBool :: "process_env \<Rightarrow> string \<Rightarrow> bool \<Rightarrow> bool" where
  "envBool env key fallback =
     (let raw = canonicalEnvValue env key
      in if raw = [] then fallback
         else if raw \<in> {''1'', ''true'', ''yes'', ''on''} then True
         else if raw \<in> {''0'', ''false'', ''no'', ''off''} then False
         else fallback)"

definition envInt :: "process_env \<Rightarrow> string \<Rightarrow> int \<Rightarrow> int" where
  "envInt env key fallback =
     (let raw = envValue env key
      in if raw = [] then fallback
         else case atoi raw of None \<Rightarrow> fallback | Some parsed \<Rightarrow> parsed)"

definition envDurationSeconds :: "process_env \<Rightarrow> string \<Rightarrow> duration \<Rightarrow> duration" where
  "envDurationSeconds env key fallback =
     (let raw = envValue env key
      in if raw = [] then fallback
         else case atoi raw of
                None \<Rightarrow> fallback
              | Some parsed \<Rightarrow> if parsed \<le> 0 then fallback else wrap64 (parsed * second))"

definition positive_or :: "string \<Rightarrow> int \<Rightarrow> int" where
  "positive_or raw fallback =
     (if raw = [] then fallback
      else case atoi raw of
             None \<Rightarrow> fallback
           | Some n \<Rightarrow> if n > 0 then n else fallback)"

definition maxRequestBodyBytes :: "process_env \<Rightarrow> int" where
  "maxRequestBodyBytes env = positive_or (envValue env ''PROXY_MAX_BODY_BYTES'') (64 * 2 ^ 20)"

definition maxResponseBytes :: "process_env \<Rightarrow> int" where
  "maxResponseBytes env = positive_or (envValue env ''PROXY_MAX_RESPONSE_BYTES'') (25 * 2 ^ 20)"

definition maxErrorBodyBytes :: int where
  "maxErrorBodyBytes = 2 ^ 20"

definition streamIdleTimeout :: "process_env \<Rightarrow> duration" where
  "streamIdleTimeout env = envDurationSeconds env ''PROXY_STREAM_IDLE_TIMEOUT'' (120 * second)"

definition streamMaxDuration :: "process_env \<Rightarrow> duration" where
  "streamMaxDuration env =
     (let raw = envValue env ''PROXY_STREAM_MAX_DURATION''
      in case (if raw = [] then None else atoi raw) of
           None \<Rightarrow> 30 * minute
         | Some n \<Rightarrow> if n \<le> 0 then 0 else wrap64 (n * second))"

definition streamFirstEventTimeout :: "process_env \<Rightarrow> duration" where
  "streamFirstEventTimeout env = envDurationSeconds env ''PROXY_STREAM_FIRST_BYTE_TIMEOUT'' 0"

definition totalTimeout :: "process_env \<Rightarrow> duration \<Rightarrow> duration" where
  "totalTimeout env perAttempt =
     (let d = envDurationSeconds env ''PROXY_TOTAL_TIMEOUT_SECONDS'' 0
      in if d > 0 then d
         else if 120 * second > perAttempt then 120 * second
         else perAttempt)"

text \<open>\<open>strings.Split(raw, ",")\<close> and the trimming of \<open>splitCSV\<close>.\<close>

fun split_on :: "char \<Rightarrow> string \<Rightarrow> string list" where
  "split_on c [] = [[]]"
| "split_on c (x # xs) =
     (if x = c then [] # split_on c xs
      else case split_on c xs of [] \<Rightarrow> [[x]] | y # ys \<Rightarrow> (x # y) # ys)"

definition splitCSV :: "string \<Rightarrow> string list" where
  "splitCSV raw = filter (\<lambda>p. p \<noteq> []) (map trim_space (split_on CHR '','' raw))"

definition legacyEnvNames :: "string list" where
  "legacyEnvNames = [''CERVO_MODEL'', ''CERVO_MODEL_ALIASES_JSON'', ''CERVO_MODEL_ALLOWED'',
     ''CERVO_MODEL_DEFAULT'', ''CERVO_MODEL_DEFAULT_PROFILE'', ''CERVO_MODEL_POLICY_MODE'',
     ''CERVO_MODEL_POLICY_STRICT'', ''CERVO_MODEL_PROFILES_JSON'',
     ''CERVO_POLICY_DEBUG_INCLUDE_TRACE'', ''CERVO_POLICY_LOG_ENABLED'', ''CERVO_POLICY_LOG_LEVEL'',
     ''CERVO_POLICY_METRICS_ENABLED'', ''CERVO_POLICY_OBSERVATION_SAMPLE_RATE'',
     ''CERVO_POLICY_TRACE_ENABLED'', ''CERVO_DEFAULT_BEARER'', ''CERVO_FORWARD_AUTH'',
     ''CERVO_HTTP_BASE_URL'', ''CERVO_HTTP_TIMEOUT'', ''CERVO_HTTP_TOKEN'']"

definition trim_prefix :: "string \<Rightarrow> string \<Rightarrow> string" where
  "trim_prefix s p = (if has_prefix s p then drop (length p) s else s)"

definition modern_name :: "string \<Rightarrow> string" where
  "modern_name legacy = ''PROXY_'' @ trim_prefix legacy ''CERVO_''"

definition bridge_name :: "string \<Rightarrow> process_env \<Rightarrow> process_env" where
  "bridge_name legacy env =
     (if envValue env legacy \<noteq> [] then env
      else let v = envValue env (modern_name legacy)
           in if v \<noteq> [] then m_set legacy v env else env)"

definition bridgeLegacyPolicyEnv :: "process_env \<Rightarrow> process_env" where
  "bridgeLegacyPolicyEnv env = fold bridge_name legacyEnvNames env"

section \<open>Facts\<close>

lemma trim_space_idem [simp]: "trim_space (trim_space s) = trim_space s"
proof -
  have "dropWhile is_space (rev (dropWhile is_space (rev t))) = rev (dropWhile is_space (rev t))"
    if t: "dropWhile is_space t = t" for t
  proof (cases t)
    case Nil
    then show ?thesis by simp
  next
    case (Cons x xs)
    with t have x: "\<not> is_space x" by (metis dropWhile.simps(2) dropWhile_eq_self_iff list.discI list.sel(1))
    have "dropWhile is_space (rev xs @ [x]) = dropWhile is_space (rev xs) @ [x]"
      using x by (metis dropWhile.simps(2) dropWhile_append dropWhile_eq_Nil_conv append_Nil)
    with Cons x show ?thesis by simp
  qed
  from this [of "dropWhile is_space s"] show ?thesis by (simp add: trim_space_def)
qed

lemma envValue_set [simp]:
  "envValue (m_set k v env) j = (if j = k then trim_space v else envValue env j)"
  by (simp add: envValue_def)

lemma trim_envValue [simp]: "trim_space (envValue env k) = envValue env k"
  by (simp add: envValue_def)

lemma envDurationSeconds_range:
  "int64_ok fallback \<Longrightarrow> int64_ok (envDurationSeconds env key fallback)"
  by (auto simp: envDurationSeconds_def Let_def split: option.splits)

lemma totalTimeout_pos: "0 < totalTimeout env perAttempt"
  by (simp add: totalTimeout_def Let_def)

text \<open>A bridged name reads the legacy value when that is set, else the modern one; no other name
  changes. None of the modern names is itself a legacy name.\<close>

lemma bridge_fold:
  assumes "distinct names" "\<And>n. n \<in> set names \<Longrightarrow> modern_name n \<notin> set names"
  shows "envValue (fold bridge_name names env) k =
    (if k \<in> set names \<and> envValue env k = [] then envValue env (modern_name k) else envValue env k)"
  using assms
proof (induction names arbitrary: env)
  case Nil
  then show ?case by simp
next
  case (Cons n names)
  let ?e = "bridge_name n env"
  have step: "envValue ?e j = (if j = n \<and> envValue env n = [] then envValue env (modern_name n) else envValue env j)" for j
    by (simp add: bridge_name_def Let_def)
  have IH: "envValue (fold bridge_name names ?e) k =
    (if k \<in> set names \<and> envValue ?e k = [] then envValue ?e (modern_name k) else envValue ?e k)"
    using Cons by simp
  have "modern_name k \<noteq> n" if "k \<in> set names" using Cons.prems(2) [of k] that by auto
  with IH step Cons.prems show ?case by auto
qed

lemma legacy_names_ok:
  "distinct legacyEnvNames" "n \<in> set legacyEnvNames \<Longrightarrow> modern_name n \<notin> set legacyEnvNames"
  by (auto simp: legacyEnvNames_def modern_name_def trim_prefix_def has_prefix_def)

lemma bridgeLegacyPolicyEnv_value:
  "envValue (bridgeLegacyPolicyEnv env) k =
    (if k \<in> set legacyEnvNames \<and> envValue env k = [] then envValue env (modern_name k) else envValue env k)"
  unfolding bridgeLegacyPolicyEnv_def by (rule bridge_fold [OF legacy_names_ok]) 

end
