(* ===== verification/Admission.thy ===== *)
theory Admission
  imports Ticket_Pool Env_Config
begin

text \<open>
  Admission control, \<open>src/internal/router/router_admission.go\<close>: a semaphore that bounds the requests
  in flight, and the per-request hold that may give its slot up while the request sleeps and take
  another afterwards.

  The buffered channel is a counter of occupied slots; \<open>select\<close> picks one of the ready cases, which
  is the \<open>wake\<close> argument. \<open>None\<close> is a case that is not ready: the caller goes on blocking.
  \<open>http.ParseTime\<close>, which reads the three HTTP date formats, is a parameter.
\<close>

section \<open>Definitions\<close>

record admissionControl =
  ac_cap :: "nat option"
  ac_used :: nat
  ac_timeout :: duration

definition newAdmissionControl :: "process_env \<Rightarrow> admissionControl" where
  "newAdmissionControl env =
     (let max = envInt env ''PROXY_MAX_CONCURRENT'' 128
      in if max \<le> 0 then \<lparr>ac_cap = None, ac_used = 0, ac_timeout = 0\<rparr>
         else \<lparr>ac_cap = Some (nat max), ac_used = 0,
               ac_timeout = envDurationSeconds env ''PROXY_ADMISSION_TIMEOUT_SECONDS'' (5 * second)\<rparr>)"

datatype wake = SlotFree | CtxDone | TimerFired

definition acquire :: "wake \<Rightarrow> admissionControl \<Rightarrow> (admissionControl \<times> bool) option" where
  "acquire w a = (case ac_cap a of
       None \<Rightarrow> Some (a, True)
     | Some cap \<Rightarrow> (case w of
         SlotFree \<Rightarrow> if ac_used a < cap then Some (a\<lparr>ac_used := Suc (ac_used a)\<rparr>, True) else None
       | CtxDone \<Rightarrow> Some (a, False)
       | TimerFired \<Rightarrow> Some (a, False)))"

text \<open>The release function \<open>acquire\<close> hands out: it drains one slot, or does nothing when admission
  control is off.\<close>

definition free_slot :: "admissionControl \<Rightarrow> admissionControl" where
  "free_slot a = (case ac_cap a of None \<Rightarrow> a | Some cap \<Rightarrow> a\<lparr>ac_used := ac_used a - 1\<rparr>)"

definition enabled :: "admissionControl \<Rightarrow> bool" where
  "enabled a \<longleftrightarrow> ac_cap a \<noteq> None"

definition retryAfterSeconds :: "admissionControl \<Rightarrow> int" where
  "retryAfterSeconds a = (if ac_timeout a \<le> second then 1 else ac_timeout a div second)"

text \<open>The holds of all requests, by request number: whether the slot is held.\<close>

record admission_state =
  as_ctrl :: admissionControl
  as_held :: "nat list"

definition hold_acquire :: "wake \<Rightarrow> nat \<Rightarrow> admission_state \<Rightarrow> (admission_state \<times> bool) option" where
  "hold_acquire w r st = (case acquire w (as_ctrl st) of
       None \<Rightarrow> None
     | Some (a, ok) \<Rightarrow>
         if \<not> ok then Some (st\<lparr>as_ctrl := a\<rparr>, False)
         else Some (\<lparr>as_ctrl = a, as_held = r # as_held st\<rparr>, True))"

definition hold_release :: "nat \<Rightarrow> admission_state \<Rightarrow> admission_state" where
  "hold_release r st =
     (if r \<in> set (as_held st)
      then \<lparr>as_ctrl = free_slot (as_ctrl st), as_held = removeAll r (as_held st)\<rparr> else st)"

definition hold_reacquire :: "wake \<Rightarrow> nat \<Rightarrow> admission_state \<Rightarrow> (admission_state \<times> bool) option" where
  "hold_reacquire w r st = (if r \<in> set (as_held st) then Some (st, True) else hold_acquire w r st)"

definition parseRetryAfter :: "(string \<Rightarrow> go_time option) \<Rightarrow> go_time \<Rightarrow> string \<Rightarrow> duration" where
  "parseRetryAfter ParseTime now v =
     (let v = trim_space v
      in if v = [] then 0
         else case atoi v of
                Some secs \<Rightarrow> if secs < 0 then 0 else wrap64 (secs * second)
              | None \<Rightarrow> (case ParseTime v of
                    None \<Rightarrow> 0
                  | Some t \<Rightarrow> let d = sub_time t now in if d > 0 then d else 0))"

section \<open>Slots\<close>

text \<open>With the semaphore on, the occupied slots are the requests that hold one, and never more than
  the capacity.\<close>

definition admission_inv :: "admission_state \<Rightarrow> bool" where
  "admission_inv st \<longleftrightarrow> distinct (as_held st) \<and> (case ac_cap (as_ctrl st) of None \<Rightarrow> True
     | Some cap \<Rightarrow> ac_used (as_ctrl st) = length (as_held st) \<and> ac_used (as_ctrl st) \<le> cap)"

inductive admission_step :: "admission_state \<Rightarrow> admission_state \<Rightarrow> bool" where
  acquire_slot: "r \<notin> set (as_held st) \<Longrightarrow> hold_acquire w r st = Some (st', ok) \<Longrightarrow> admission_step st st'"
| reacquire_slot: "hold_reacquire w r st = Some (st', ok) \<Longrightarrow> admission_step st st'"
| release_slot: "admission_step st (hold_release r st)"

lemma inv_acquire:
  assumes "admission_inv st" "r \<notin> set (as_held st)" "hold_acquire w r st = Some (st', ok)"
  shows "admission_inv st' \<and> set (as_held st') = (if ok then insert r (set (as_held st)) else set (as_held st)) \<and>
    ac_cap (as_ctrl st') = ac_cap (as_ctrl st)"
  using assms
  by (auto simp: admission_inv_def hold_acquire_def acquire_def split: option.splits wake.splits if_splits)

lemma inv_release:
  assumes "admission_inv st"
  shows "admission_inv (hold_release r st) \<and> set (as_held (hold_release r st)) = set (as_held st) - {r} \<and>
    ac_cap (as_ctrl (hold_release r st)) = ac_cap (as_ctrl st)"
proof -
  have "length (removeAll r (as_held st)) = length (as_held st) - 1" if "r \<in> set (as_held st)"
    using that assms by (simp add: admission_inv_def distinct_remove1_removeAll [symmetric] length_remove1)
  with assms show ?thesis
    by (auto simp: admission_inv_def hold_release_def free_slot_def distinct_removeAll split: option.splits)
qed

lemma admission_steps_inv:
  assumes "admission_step\<^sup>*\<^sup>* st0 st" "admission_inv st0"
  shows "admission_inv st \<and> ac_cap (as_ctrl st) = ac_cap (as_ctrl st0)"
  using assms
proof (induction rule: rtranclp_induct)
  case base
  then show ?case by simp
next
  case (step st st')
  then have IH: "admission_inv st" "ac_cap (as_ctrl st) = ac_cap (as_ctrl st0)" by auto
  from step(2) show ?case
  proof cases
    case (acquire_slot r w ok)
    with inv_acquire [OF IH(1)] IH(2) show ?thesis by auto
  next
    case (reacquire_slot w r ok)
    with inv_acquire [OF IH(1), of r w st' ok] IH show ?thesis
      by (auto simp: hold_reacquire_def split: if_splits)
  next
    case (release_slot r)
    with inv_release [OF IH(1)] IH(2) show ?thesis by auto
  qed
qed

text \<open>The semaphore is a pool whose claims are the requests holding a slot.\<close>

definition slot_may_take :: "nat \<times> wake \<Rightarrow> admission_state \<Rightarrow> bool" where
  "slot_may_take rw st \<longleftrightarrow> fst rw \<notin> set (as_held st)"

definition slot_take :: "nat \<times> wake \<Rightarrow> admission_state \<Rightarrow> admission_state \<times> nat option" where
  "slot_take rw st = (case hold_acquire (snd rw) (fst rw) st of
       None \<Rightarrow> (st, None)
     | Some (st', ok) \<Rightarrow> (st', if ok then Some (fst rw) else None))"

interpretation slot_pool: ticket_pool admission_inv "\<lambda>st. set (as_held st)" slot_may_take slot_take
  "\<lambda>_ :: unit. hold_release"
proof
  fix st :: admission_state and rw :: "nat \<times> wake" and st' and i :: nat and u :: unit
  assume inv: "admission_inv st"
  show "slot_may_take rw st \<Longrightarrow> admission_inv (fst (slot_take rw st))"
    using inv inv_acquire [OF inv, of "fst rw" "snd rw"]
    by (auto simp: slot_take_def slot_may_take_def split: option.splits)
  show "i \<notin> set (as_held st) \<and> set (as_held st') = insert i (set (as_held st))"
    if "slot_may_take rw st" "slot_take rw st = (st', Some i)"
    using that inv_acquire [OF inv, of "fst rw" "snd rw"]
    by (auto simp: slot_take_def slot_may_take_def split: option.splits prod.splits if_splits)
  show "set (as_held st') = set (as_held st)"
    if "slot_may_take rw st" "slot_take rw st = (st', None)"
    using that inv_acquire [OF inv, of "fst rw" "snd rw"]
    by (auto simp: slot_take_def slot_may_take_def split: option.splits prod.splits if_splits)
  show "admission_inv (hold_release i st)" using inv_release [OF inv] by simp
  show "set (as_held (hold_release i st)) = set (as_held st) - {i}" using inv_release [OF inv] by simp
qed

section \<open>Properties\<close>

text \<open>C15. With admission control on, no interleaving of requests that acquire, give up, take again
  and release their slots ever has more requests holding a slot than the configured capacity, and
  the semaphore counts exactly them.\<close>

theorem admission_bounded:
  assumes "admission_step\<^sup>*\<^sup>* \<lparr>as_ctrl = newAdmissionControl env, as_held = []\<rparr> st"
    "enabled (newAdmissionControl env)"
  shows "ac_used (as_ctrl st) = card (set (as_held st)) \<and> distinct (as_held st) \<and>
    int (card (set (as_held st))) \<le> envInt env ''PROXY_MAX_CONCURRENT'' 128"
proof -
  let ?st0 = "\<lparr>as_ctrl = newAdmissionControl env, as_held = []\<rparr>"
  have "admission_inv ?st0" by (auto simp: admission_inv_def newAdmissionControl_def Let_def split: option.splits)
  from admission_steps_inv [OF assms(1) this] assms(2) show ?thesis
    by (auto simp: admission_inv_def enabled_def newAdmissionControl_def Let_def distinct_card
        split: option.splits if_splits)
qed

lemma default_enabled: "enabled (newAdmissionControl [])"
  by (simp add: enabled_def newAdmissionControl_def envInt_def envValue_def m_get_or_def trim_space_def Let_def)

lemma default_acquire:
  "hold_acquire SlotFree 4 \<lparr>as_ctrl = newAdmissionControl [], as_held = []\<rparr>
    = Some (\<lparr>as_ctrl = (newAdmissionControl [])\<lparr>ac_used := 1\<rparr>, as_held = [4]\<rparr>, True)"
  by (simp add: newAdmissionControl_def envInt_def envValue_def m_get_or_def trim_space_def Let_def
      hold_acquire_def acquire_def)

theorem admission_bounded_witness:
  "ac_used ((newAdmissionControl [])\<lparr>ac_used := 1\<rparr>) = card {4 :: nat} \<and>
    int (card {4 :: nat}) \<le> envInt [] ''PROXY_MAX_CONCURRENT'' 128"
proof -
  have "admission_step\<^sup>*\<^sup>* \<lparr>as_ctrl = newAdmissionControl [], as_held = []\<rparr>
      \<lparr>as_ctrl = (newAdmissionControl [])\<lparr>ac_used := 1\<rparr>, as_held = [4]\<rparr>"
    by (rule r_into_rtranclp, rule admission_step.acquire_slot [OF _ default_acquire]) simp
  from admission_bounded [OF this default_enabled] show ?thesis by simp
qed

text \<open>Releasing a hold is safe at any time: a second release changes nothing, and a request that
  took a slot and released it leaves the semaphore as it found it.\<close>

theorem hold_release_roundtrip:
  assumes "admission_inv st" "r \<notin> set (as_held st)" "hold_acquire w r st = Some (st', True)"
  shows "hold_release r st' = st \<and> hold_release r (hold_release r st') = hold_release r st'"
  using assms
  by (auto simp: hold_acquire_def acquire_def hold_release_def free_slot_def
      split: option.splits wake.splits if_splits)

theorem hold_release_roundtrip_witness:
  "hold_release 4 \<lparr>as_ctrl = (newAdmissionControl [])\<lparr>ac_used := 1\<rparr>, as_held = [4]\<rparr>
    = \<lparr>as_ctrl = newAdmissionControl [], as_held = []\<rparr>"
  using hold_release_roundtrip [of "\<lparr>as_ctrl = newAdmissionControl [], as_held = []\<rparr>" 4 SlotFree
      "\<lparr>as_ctrl = (newAdmissionControl [])\<lparr>ac_used := 1\<rparr>, as_held = [4]\<rparr>"]
    default_acquire
  by (simp add: admission_inv_def newAdmissionControl_def envInt_def envValue_def m_get_or_def trim_space_def
      Let_def)

end
