(* ===== verification/Capabilities.thy ===== *)
theory Capabilities
  imports Env_Config
begin

text \<open>
  Capability-aware routing, \<open>src/internal/router/router_capabilities.go\<close>: the index of what each
  model can do, merged from data derived from the provider's catalogue and from manual overrides,
  and the tests the router makes on it. A set of capabilities (\<open>map[string]bool\<close> whose values are
  all true) is the list of its elements. The HTTP fetch of the catalogue is not modelled; the
  decoded list of models is the input of \<open>derive_capabilities\<close>.
\<close>

section \<open>Definitions\<close>

definition capVision :: string where "capVision = ''vision''"
definition capTools :: string where "capTools = ''tools''"
definition capReasoning :: string where "capReasoning = ''reasoning''"
definition capReasoningEffort :: string where "capReasoningEffort = ''reasoning_effort''"

type_synonym cap_set = "string list"

record capabilityIndex =
  ci_caps :: "(string, cap_set) gomap"
  ci_overrides :: "(string, string list) gomap"
  ci_auto :: "(string, cap_set) gomap"

text \<open>One entry of an override list: \<open>"!cap"\<close> denies a capability, \<open>"cap"\<close> grants it.\<close>

definition apply_override :: "string \<Rightarrow> cap_set \<Rightarrow> cap_set" where
  "apply_override raw caps =
     (let c = trim_space raw
      in if c = [] then caps
         else if has_prefix c ''!'' then removeAll (tl c) caps
         else List.insert c caps)"

definition merge_model ::
  "string \<times> string list \<Rightarrow> (string, cap_set) gomap \<Rightarrow> (string, cap_set) gomap" where
  "merge_model ov merged =
     m_set (fst ov) (fold apply_override (snd ov) (m_get_or [] merged (fst ov))) merged"

definition rebuildLocked :: "capabilityIndex \<Rightarrow> capabilityIndex" where
  "rebuildLocked idx = idx\<lparr>ci_caps := fold merge_model (ci_overrides idx) (ci_auto idx)\<rparr>"

definition newCapabilityIndex :: "(string, string list) gomap \<Rightarrow> capabilityIndex" where
  "newCapabilityIndex overrides =
     rebuildLocked \<lparr>ci_caps = [], ci_overrides = overrides, ci_auto = []\<rparr>"

definition setOverrides :: "(string, string list) gomap \<Rightarrow> capabilityIndex \<Rightarrow> capabilityIndex" where
  "setOverrides overrides idx = rebuildLocked (idx\<lparr>ci_overrides := overrides\<rparr>)"

definition setAuto :: "(string, cap_set) gomap \<Rightarrow> capabilityIndex \<Rightarrow> capabilityIndex" where
  "setAuto auto idx = rebuildLocked (idx\<lparr>ci_auto := auto\<rparr>)"

definition known :: "capabilityIndex \<Rightarrow> string \<Rightarrow> bool" where
  "known idx model \<longleftrightarrow> m_get (ci_caps idx) (trim_space model) \<noteq> None"

definition satisfies :: "capabilityIndex \<Rightarrow> string \<Rightarrow> string list \<Rightarrow> bool" where
  "satisfies idx model required \<longleftrightarrow>
     required = [] \<or>
     (case m_get (ci_caps idx) (trim_space model) of
        None \<Rightarrow> False
      | Some caps \<Rightarrow> list_all (\<lambda>c. c \<in> set caps) required)"

definition capableModels :: "capabilityIndex \<Rightarrow> string list \<Rightarrow> string list" where
  "capableModels idx required =
     sort (map fst (filter (\<lambda>(model, caps). list_all (\<lambda>c. c \<in> set caps) required) (ci_caps idx)))"

definition capsRequired :: "bool \<Rightarrow> bool \<Rightarrow> string list" where
  "capsRequired hasImages hasTools =
     (if hasImages then [capVision] else []) @ (if hasTools then [capTools] else [])"

section \<open>Deriving capabilities from the catalogue\<close>

record openRouterModel =
  om_ID :: string
  om_InputModalities :: "string list"
  om_SupportedParameters :: "string list"

definition derive_parameter :: "string \<Rightarrow> cap_set \<Rightarrow> cap_set" where
  "derive_parameter p caps =
     (if equal_fold p ''tools'' then List.insert capTools caps
      else if equal_fold p capReasoning then List.insert capReasoning caps
      else if equal_fold p capReasoningEffort then List.insert capReasoningEffort caps
      else caps)"

definition derive_model :: "openRouterModel \<Rightarrow> cap_set" where
  "derive_model m =
     fold derive_parameter (om_SupportedParameters m)
       (if list_ex (\<lambda>modality. equal_fold modality ''image'') (om_InputModalities m)
        then [capVision] else [])"

text \<open>\<open>None\<close>: a catalogue with no usable model is an error, so that the caller keeps its snapshot.\<close>

definition derive_capabilities :: "openRouterModel list \<Rightarrow> (string, cap_set) gomap option" where
  "derive_capabilities payload =
     (let out = fold (\<lambda>m out. if om_ID m = [] then out else m_set (om_ID m) (derive_model m) out) payload []
      in if out = [] then None else Some out)"

definition refresh :: "openRouterModel list option \<Rightarrow> capabilityIndex \<Rightarrow> capabilityIndex" where
  "refresh fetched idx =
     (case Option.bind fetched derive_capabilities of None \<Rightarrow> idx | Some auto \<Rightarrow> setAuto auto idx)"

section \<open>Decimal printing\<close>

text \<open>The digit loop of \<open>itoa\<close> and the function, on a 64-bit \<open>int\<close>.\<close>

function itoa_loop :: "int \<Rightarrow> string \<Rightarrow> string" where
  "itoa_loop n b = (if n > 0 then itoa_loop (n div 10) (char_of (nat (48 + n mod 10)) # b) else b)"
  by pat_completeness auto

termination itoa_loop
  by (relation "measure (nat \<circ> fst)") auto

declare itoa_loop.simps [simp del]

definition itoa :: "int \<Rightarrow> string" where
  "itoa n =
     (if n = 0 then ''0''
      else let neg = n < 0;
               n = (if neg then wrap64 (- n) else n);
               b = itoa_loop n []
           in if neg then CHR ''-'' # b else b)"

section \<open>What the index says\<close>

text \<open>The last entry of an override list that mentions a capability decides it.\<close>

fun override_verdict :: "string \<Rightarrow> string list \<Rightarrow> bool \<Rightarrow> bool" where
  "override_verdict c [] granted = granted"
| "override_verdict c (raw # rest) granted =
     override_verdict c rest
       (if trim_space raw = CHR ''!'' # c then False
        else if trim_space raw = c \<and> c \<noteq> [] \<and> hd c \<noteq> CHR ''!'' then True
        else granted)"

lemma has_prefix_bang: "has_prefix c ''!'' \<longleftrightarrow> (\<exists>d. c = CHR ''!'' # d)"
  by (cases c) (auto simp: has_prefix_def)

lemma member_apply_override:
  "c \<in> set (apply_override raw s) \<longleftrightarrow>
    (if trim_space raw = CHR ''!'' # c then False
     else if trim_space raw = c \<and> c \<noteq> [] \<and> hd c \<noteq> CHR ''!'' then True
     else c \<in> set s)"
proof (cases "trim_space raw")
  case Nil
  then show ?thesis by (auto simp: apply_override_def)
next
  case (Cons x xs)
  then show ?thesis
    by (auto simp: apply_override_def Let_def has_prefix_bang)
qed

lemma member_fold_override:
  "c \<in> set (fold apply_override raws s) \<longleftrightarrow> override_verdict c raws (c \<in> set s)"
  by (induction raws arbitrary: s) (simp_all add: member_apply_override)

lemma merge_model_get:
  "m_get (merge_model ov merged) model =
    (if model = fst ov then Some (fold apply_override (snd ov) (m_get_or [] merged model)) else m_get merged model)"
  by (simp add: merge_model_def)

lemma merge_models_get:
  assumes "m_wf ovs"
  shows "m_get (fold merge_model ovs merged) model =
    (case m_get ovs model of
       None \<Rightarrow> m_get merged model
     | Some raws \<Rightarrow> Some (fold apply_override raws (m_get_or [] merged model)))"
  using assms
proof (induction ovs arbitrary: merged)
  case Nil
  then show ?case by simp
next
  case (Cons ov ovs)
  then show ?case
    by (auto simp: merge_model_get m_get_or_def map_of_eq_None_iff rev_image_eqI split: option.splits)
qed

lemma caps_get:
  assumes "m_wf (ci_overrides idx)"
  shows "m_get (ci_caps (rebuildLocked idx)) model =
    (case m_get (ci_overrides idx) model of
       None \<Rightarrow> m_get (ci_auto idx) model
     | Some raws \<Rightarrow> Some (fold apply_override raws (m_get_or [] (ci_auto idx) model)))"
  by (simp add: rebuildLocked_def merge_models_get [OF assms])

lemma rebuild_satisfies:
  assumes "m_wf (ci_overrides idx)"
  shows "satisfies (rebuildLocked idx) model required \<longleftrightarrow>
    required = [] \<or>
    (m_get (ci_auto idx) (trim_space model) \<noteq> None \<or> m_get (ci_overrides idx) (trim_space model) \<noteq> None) \<and>
    (\<forall>c\<in>set required. override_verdict c (m_get_or [] (ci_overrides idx) (trim_space model))
        (c \<in> set (m_get_or [] (ci_auto idx) (trim_space model))))"
  by (cases "m_get (ci_overrides idx) (trim_space model)"; cases "m_get (ci_auto idx) (trim_space model)")
    (auto simp: satisfies_def caps_get [OF assms] list_all_iff member_fold_override m_get_or_def)

section \<open>Printing and reading numbers\<close>

lemma digit_char [simp]:
  assumes "0 \<le> d" "d < 10"
  shows "is_digit (char_of (nat (48 + d)))" "(of_char (char_of (nat (48 + d))) :: int) = 48 + d"
proof -
  have n: "(of_char (char_of (nat (48 + d)) :: char) :: nat) = nat (48 + d)"
    using assms by (simp add: of_char_of)
  then show "is_digit (char_of (nat (48 + d)))" using assms by (simp add: is_digit_def) linarith
  have "(of_char (char_of (nat (48 + d)) :: char) :: int) = int (of_char (char_of (nat (48 + d)) :: char))"
    by (simp only: of_nat_of_char)
  with n assms show "(of_char (char_of (nat (48 + d)) :: char) :: int) = 48 + d" by simp
qed

lemma itoa_loop_digits:
  "0 \<le> n \<Longrightarrow> list_all is_digit (itoa_loop n b) = list_all is_digit b"
proof (induction n b rule: itoa_loop.induct)
  case (1 n b)
  then show ?case by (subst itoa_loop.simps) simp
qed

lemma itoa_loop_value:
  "0 \<le> n \<Longrightarrow> digits_value 0 (itoa_loop n b) = digits_value n b"
proof (induction n b rule: itoa_loop.induct)
  case (1 n b)
  then show ?case by (subst itoa_loop.simps) (auto simp: mult.commute)
qed

lemma itoa_loop_nonempty: "b \<noteq> [] \<Longrightarrow> itoa_loop n b \<noteq> []"
proof (induction n b rule: itoa_loop.induct)
  case (1 n b)
  then show ?case by (subst itoa_loop.simps) simp
qed

lemma parse_itoa_loop:
  assumes "0 < n"
  shows "parse_digits (itoa_loop n []) = Some n" "itoa_loop n [] \<noteq> []" "list_all is_digit (itoa_loop n [])"
proof -
  show ne: "itoa_loop n [] \<noteq> []"
    using assms itoa_loop_nonempty by (subst itoa_loop.simps) simp
  show "parse_digits (itoa_loop n []) = Some n"
    using assms ne itoa_loop_value [of n "[]"] by (simp add: parse_digits_def)
  show "list_all is_digit (itoa_loop n [])" using assms by (simp add: itoa_loop_digits)
qed

lemma atoi_digits: "s \<noteq> [] \<Longrightarrow> list_all is_digit s \<Longrightarrow>
  atoi s = (case parse_digits s of None \<Rightarrow> None | Some n \<Rightarrow> if int64_ok n then Some n else None)"
  by (cases s) (auto simp: atoi_def parse_signed_def is_digit_def Let_def)

lemma atoi_itoa:
  assumes "int64_ok n" "n \<noteq> min_int64"
  shows "atoi (itoa n) = Some n"
proof -
  consider "n = 0" | "0 < n" | "n < 0" by linarith
  then show ?thesis
  proof cases
    case 1
    then show ?thesis by (simp add: itoa_def atoi_def parse_signed_def parse_digits_def is_digit_def int64_ok_def min_int64_def max_int64_def)
  next
    case 2
    with assms parse_itoa_loop [OF 2] show ?thesis by (simp add: itoa_def atoi_digits)
  next
    case 3
    then have w: "wrap64 (- n) = - n" "0 < - n"
      using assms by (auto intro!: wrap64_eq_id simp: int64_ok_def min_int64_def max_int64_def)
    with assms 3 parse_itoa_loop [OF w(2)] show ?thesis by (simp add: itoa_def atoi_def parse_signed_def)
  qed
qed

section \<open>Properties\<close>

text \<open>A model is taken to support what a request needs exactly when the index knows the model and
  every needed capability is granted: the last override that mentions the capability decides,
  otherwise the data derived from the catalogue does. A model without data is never accepted for a
  request that needs something, and a request that needs nothing is never filtered.\<close>

theorem capabilities_decide:
  assumes "m_wf overrides"
  shows "satisfies (setAuto auto (newCapabilityIndex overrides)) model required \<longleftrightarrow>
    required = [] \<or>
    (m_get auto (trim_space model) \<noteq> None \<or> m_get overrides (trim_space model) \<noteq> None) \<and>
    (\<forall>c\<in>set required. override_verdict c (m_get_or [] overrides (trim_space model))
        (c \<in> set (m_get_or [] auto (trim_space model))))"
  unfolding setAuto_def newCapabilityIndex_def
  by (subst rebuild_satisfies) (simp_all add: rebuildLocked_def assms)

theorem capabilities_decide_witness:
  "\<not> satisfies (setAuto [(''m'', [''vision'', ''tools''])] (newCapabilityIndex [(''m'', [''!tools''])])) ''m'' [''tools'']"
  using capabilities_decide [of "[(''m'', [''!tools''])]" "[(''m'', [''vision'', ''tools''])]" "''m''" "[''tools'']"]
  by (simp add: m_get_or_def trim_space_def is_space_def)

end
