(* ===== verification/Router_Types.thy ===== *)
theory Router_Types
  imports Quota_Ledger Env_Config
begin

text \<open>
  The data of the router: \<open>src/internal/router/router_types.go\<close>, the policy types it uses and the
  counters. A pointer that may be nil is an \<open>option\<close>; a mutex-guarded map of pointers whose targets
  are only touched under the lock is a map of values. The service record has the fields the
  modelled methods read or write; the injected collaborators (client, engine, resolver) are
  arguments of the definitions that call them.
\<close>

section \<open>Providers and policies\<close>

type_synonym providerID = string

definition providerOpenRouter :: providerID where "providerOpenRouter = ''openrouter''"
definition providerOpenAI :: providerID where "providerOpenAI = ''openai''"
definition providerAnthropic :: providerID where "providerAnthropic = ''anthropic''"
definition providerOllama :: providerID where "providerOllama = ''ollama''"
definition providerLocal :: providerID where "providerLocal = ''local''"
definition providerCerebras :: providerID where "providerCerebras = ''cerebras''"
definition providerGroq :: providerID where "providerGroq = ''groq''"

lemmas provider_defs = providerOpenRouter_def providerOpenAI_def providerAnthropic_def
  providerOllama_def providerLocal_def providerCerebras_def providerGroq_def

record RetryPolicy =
  rp_MaxAttempts :: int
  rp_RetryHTTPStatuses :: "int list"
  rp_RetryOnEOF :: bool
  rp_RetryOnTimeout :: bool
  rp_BackoffMin :: duration
  rp_BackoffMax :: duration

record RetryAttempt =
  ra_StatusCode :: int
  ra_Retryable :: bool
  ra_Timeout :: bool
  ra_EOF :: bool

record BreakerPolicy =
  bp_FailureThreshold :: int
  bp_Cooldown :: duration
  bp_Eligible :: bool

record providerModelTarget =
  pt_Provider :: providerID
  pt_Model :: string

type_synonym providerProfiles = "(string, providerModelTarget list) gomap"

text \<open>The fields of \<open>cervomodelpolicy.Config\<close> and \<open>ruleRuntimeConfig\<close> that the router reads.\<close>

record policyConfig =
  pc_DefaultProfile :: string
  pc_Profiles :: "(string, string list) gomap"
  pc_Aliases :: "(string, string) gomap"

record ruleRuntimeConfig =
  rc_DefaultExecutor :: providerID
  rc_DefaultTimeout :: duration
  rc_RetryPolicy :: RetryPolicy
  rc_BreakerPolicy :: BreakerPolicy

record breakerConfig =
  bc_FailureThreshold :: int
  bc_Cooldown :: duration
  bc_RequestTimeout :: duration
  bc_TotalTimeout :: duration

section \<open>Attempts and their errors\<close>

text \<open>\<open>ma_ReserveFallback\<close> says whether the callback is set; the callback itself belongs to the
  fallback loop.\<close>

record modelAttempt =
  ma_Profile :: string
  ma_Model :: string
  ma_Provider :: providerID
  ma_BreakerPolicy :: BreakerPolicy
  ma_Path :: string
  ma_AttemptIndex :: nat
  ma_LastInChain :: bool
  ma_ReserveFallback :: bool
  ma_BalanceReserved :: bool
  ma_QuotaTicket :: QuotaTicket
  ma_QuotaEstimate :: QuotaEstimate

record AttemptTarget =
  at_URL :: string
  at_Agentic :: bool

record attemptError =
  ae_StatusCode :: int
  ae_Message :: string
  ae_BreakerEligible :: bool
  ae_Retryable :: bool
  ae_Timeout :: bool
  ae_EOF :: bool
  ae_SkipModel :: bool
  ae_SkipProvider :: bool
  ae_ProviderUnavailable :: bool
  ae_QuotaLimited :: bool
  ae_QuotaPool :: string
  ae_RetryAfter :: duration

definition noEstimate :: QuotaEstimate where
  "noEstimate = \<lparr>qe_Requests = 0, qe_Tokens = 0, qe_InputTokens = 0, qe_OutputTokens = 0,
     qe_OutputExplicit = False\<rparr>"

definition newAttempt :: "string \<Rightarrow> string \<Rightarrow> providerID \<Rightarrow> BreakerPolicy \<Rightarrow> modelAttempt" where
  "newAttempt profile model provider policy = \<lparr>ma_Profile = profile, ma_Model = model,
     ma_Provider = provider, ma_BreakerPolicy = policy, ma_Path = [], ma_AttemptIndex = 0,
     ma_LastInChain = False, ma_ReserveFallback = False, ma_BalanceReserved = False,
     ma_QuotaTicket = noTicket, ma_QuotaEstimate = noEstimate\<rparr>"

definition zeroError :: attemptError where
  "zeroError = \<lparr>ae_StatusCode = 0, ae_Message = [], ae_BreakerEligible = False,
     ae_Retryable = False, ae_Timeout = False, ae_EOF = False, ae_SkipModel = False,
     ae_SkipProvider = False, ae_ProviderUnavailable = False, ae_QuotaLimited = False,
     ae_QuotaPool = [], ae_RetryAfter = 0\<rparr>"

section \<open>Breaker state and the service\<close>

record modelBreakerState =
  bs_ConsecutiveFailures :: int
  bs_Successes :: int
  bs_LastFailureCode :: int
  bs_LastFailureReason :: string
  bs_LastFailureAt :: go_time
  bs_OpenUntil :: go_time
  bs_ProbeUntil :: go_time
  bs_Score :: real
  bs_ScoreUpdatedAt :: go_time
  bs_ScoreAttemptSeq :: int

definition zeroBreaker :: modelBreakerState where
  "zeroBreaker = \<lparr>bs_ConsecutiveFailures = 0, bs_Successes = 0, bs_LastFailureCode = 0,
     bs_LastFailureReason = [], bs_LastFailureAt = zero_time, bs_OpenUntil = zero_time,
     bs_ProbeUntil = zero_time, bs_Score = 0, bs_ScoreUpdatedAt = zero_time,
     bs_ScoreAttemptSeq = 0\<rparr>"

record contextWindow =
  cw_ContextTokens :: int
  cw_OutputReserveTokens :: int

record RouterService =
  rs_config :: breakerConfig
  rs_policy :: policyConfig
  rs_providerProfiles :: providerProfiles
  rs_profileTimeouts :: "(string, duration) gomap"
  rs_contextWindows :: "(string, contextWindow) gomap"
  rs_modelWarnings :: "string list"
  rs_modelStrict :: bool
  rs_runtimeConfig :: ruleRuntimeConfig
  rs_modelBreakers :: "(string, modelBreakerState) gomap"
  rs_providerBreakers :: "(providerID, modelBreakerState) gomap"
  rs_providerAttempts :: "(providerID, int) gomap"
  rs_providerBalance :: "(providerID, int) gomap"
  rs_quota :: QuotaLedger
  rs_quotaCooldowns :: "(string, go_time) gomap"
  rs_scoreAttempts :: int
  rs_scoresDirty :: bool

text \<open>\<open>state := m[key]; if state == nil { state = &modelBreakerState{}; m[key] = state }\<close>, then an
  update of the state.\<close>

definition upd_model_breaker ::
  "string \<Rightarrow> (modelBreakerState \<Rightarrow> modelBreakerState) \<Rightarrow> RouterService \<Rightarrow> RouterService" where
  "upd_model_breaker key f s = s\<lparr>rs_modelBreakers :=
     m_set key (f (m_get_or zeroBreaker (rs_modelBreakers s) key)) (rs_modelBreakers s)\<rparr>"

definition upd_provider_breaker ::
  "providerID \<Rightarrow> (modelBreakerState \<Rightarrow> modelBreakerState) \<Rightarrow> RouterService \<Rightarrow> RouterService" where
  "upd_provider_breaker provider f s = s\<lparr>rs_providerBreakers :=
     m_set provider (f (m_get_or zeroBreaker (rs_providerBreakers s) provider)) (rs_providerBreakers s)\<rparr>"

definition markScoresDirty :: "RouterService \<Rightarrow> RouterService" where
  "markScoresDirty s = s\<lparr>rs_scoresDirty := True\<rparr>"

definition defaultPolicyProvider :: "RouterService \<Rightarrow> providerID" where
  "defaultPolicyProvider s =
     (if rc_DefaultExecutor (rs_runtimeConfig s) \<noteq> [] then rc_DefaultExecutor (rs_runtimeConfig s)
      else providerOpenRouter)"

definition normalizedProvider :: "RouterService \<Rightarrow> modelAttempt \<Rightarrow> providerID" where
  "normalizedProvider s attempt =
     (if ma_Provider attempt \<noteq> [] then ma_Provider attempt else defaultPolicyProvider s)"

definition breakerKey :: "RouterService \<Rightarrow> modelAttempt \<Rightarrow> string" where
  "breakerKey s attempt =
     (let profile = trim_space (ma_Profile attempt);
          profile = (if profile = [] then pc_DefaultProfile (rs_policy s) else profile);
          provider = trim_space (ma_Provider attempt);
          provider = (if provider = [] then defaultPolicyProvider s else provider)
      in if provider = providerOpenRouter then profile @ '':'' @ trim_space (ma_Model attempt)
         else profile @ '':'' @ provider @ '':'' @ trim_space (ma_Model attempt))"

definition defaultBreakerPolicy :: "RouterService \<Rightarrow> BreakerPolicy" where
  "defaultBreakerPolicy s =
     (if bp_FailureThreshold (rc_BreakerPolicy (rs_runtimeConfig s)) > 0
      then rc_BreakerPolicy (rs_runtimeConfig s)
      else \<lparr>bp_FailureThreshold = bc_FailureThreshold (rs_config s),
             bp_Cooldown = bc_Cooldown (rs_config s), bp_Eligible = True\<rparr>)"

lemma m_get_upd_model_breaker [simp]:
  "m_get (rs_modelBreakers (upd_model_breaker k f s)) j =
    (if j = k then Some (f (m_get_or zeroBreaker (rs_modelBreakers s) k)) else m_get (rs_modelBreakers s) j)"
  by (simp add: upd_model_breaker_def)

lemma m_get_upd_provider_breaker [simp]:
  "m_get (rs_providerBreakers (upd_provider_breaker k f s)) j =
    (if j = k then Some (f (m_get_or zeroBreaker (rs_providerBreakers s) k)) else m_get (rs_providerBreakers s) j)"
  by (simp add: upd_provider_breaker_def)

lemma upd_breaker_sel [simp]:
  "rs_providerBreakers (upd_model_breaker k f s) = rs_providerBreakers s"
  "rs_modelBreakers (upd_provider_breaker k f s) = rs_modelBreakers s"
  "rs_config (upd_model_breaker k f s) = rs_config s"
  "rs_config (upd_provider_breaker k f s) = rs_config s"
  "rs_policy (upd_model_breaker k f s) = rs_policy s"
  "rs_policy (upd_provider_breaker k f s) = rs_policy s"
  "rs_runtimeConfig (upd_model_breaker k f s) = rs_runtimeConfig s"
  "rs_runtimeConfig (upd_provider_breaker k f s) = rs_runtimeConfig s"
  "rs_quota (upd_model_breaker k f s) = rs_quota s"
  "rs_quota (upd_provider_breaker k f s) = rs_quota s"
  "rs_scoreAttempts (upd_model_breaker k f s) = rs_scoreAttempts s"
  "rs_scoreAttempts (upd_provider_breaker k f s) = rs_scoreAttempts s"
  by (simp_all add: upd_model_breaker_def upd_provider_breaker_def)

lemma breakerKey_cong:
  "rs_policy s' = rs_policy s \<Longrightarrow> rs_runtimeConfig s' = rs_runtimeConfig s \<Longrightarrow>
   breakerKey s' attempt = breakerKey s attempt"
  by (simp add: breakerKey_def defaultPolicyProvider_def Let_def)

section \<open>Example values\<close>

definition ex_attempt :: modelAttempt where
  "ex_attempt = newAttempt ''coding'' ''m'' ''groq''
     \<lparr>bp_FailureThreshold = 2, bp_Cooldown = 60 * second, bp_Eligible = True\<rparr>"

definition ex_service :: RouterService where
  "ex_service = \<lparr>rs_config = \<lparr>bc_FailureThreshold = 3, bc_Cooldown = 60 * second,
       bc_RequestTimeout = 45 * second, bc_TotalTimeout = 120 * second\<rparr>,
     rs_policy = \<lparr>pc_DefaultProfile = ''coding'', pc_Profiles = [], pc_Aliases = []\<rparr>, rs_providerProfiles = [],
     rs_profileTimeouts = [], rs_contextWindows = [], rs_modelWarnings = [], rs_modelStrict = False,
     rs_runtimeConfig = \<lparr>rc_DefaultExecutor = [], rc_DefaultTimeout = 45 * second,
       rc_RetryPolicy = \<lparr>rp_MaxAttempts = 1, rp_RetryHTTPStatuses = [], rp_RetryOnEOF = False,
         rp_RetryOnTimeout = False, rp_BackoffMin = 0, rp_BackoffMax = 0\<rparr>,
       rc_BreakerPolicy = \<lparr>bp_FailureThreshold = 3, bp_Cooldown = 60 * second, bp_Eligible = True\<rparr>\<rparr>,
     rs_modelBreakers = [], rs_providerBreakers = [], rs_providerAttempts = [], rs_providerBalance = [],
     rs_quota = NewQuotaLedger 1, rs_quotaCooldowns = [], rs_scoreAttempts = 0, rs_scoresDirty = False\<rparr>"

end
