(* ===== verification/Request_Body.thy ===== *)
theory Request_Body
  imports Capabilities Router_Types
begin

text \<open>
  The request body and what the proxy does to it before it sends it on: the provider adapters
  (\<open>src/internal/router/provider_adapter*.go\<close>), reasoning effort (\<open>router_reasoning.go\<close>), the
  guardrail for tool-calling requests and the token limits (\<open>router_policy_request.go\<close>), and the
  guard on the size of tool results (\<open>router_compress.go\<close>).

  A decoded JSON value is a \<open>json\<close>: \<open>JFloat\<close> is the \<open>float64\<close> the decoder makes of a number, \<open>JInt\<close>
  a Go \<open>int\<close> the proxy stored itself. A JSON object is a map. The operations copy the objects they
  change, so that passing values models them exactly.
\<close>

section \<open>JSON values\<close>

datatype json = JNull | JBool bool | JFloat real | JInt int | JStr string | JArr "json list" | JObj "(string \<times> json) list"

type_synonym body = "(string, json) gomap"

definition as_string :: "json option \<Rightarrow> string option" where
  "as_string v = (case v of Some (JStr s) \<Rightarrow> Some s | _ \<Rightarrow> None)"

definition as_array :: "json option \<Rightarrow> json list option" where
  "as_array v = (case v of Some (JArr xs) \<Rightarrow> Some xs | _ \<Rightarrow> None)"

definition string_or_empty :: "json option \<Rightarrow> string" where
  "string_or_empty v = (case as_string v of None \<Rightarrow> [] | Some s \<Rightarrow> s)"

text \<open>\<open>int64(f)\<close> on amd64: truncation, and the minimum for what is out of range.\<close>

definition float_to_int64 :: "real \<Rightarrow> int" where
  "float_to_int64 r =
     (let n = (if 0 \<le> r then \<lfloor>r\<rfloor> else \<lceil>r\<rceil>) in if int64_ok n then n else min_int64)"

definition requestedMaxTokens :: "json option \<Rightarrow> int option" where
  "requestedMaxTokens raw = (case raw of
     Some (JFloat r) \<Rightarrow> Some (float_to_int64 r)
   | Some (JInt n) \<Rightarrow> Some n
   | Some (JStr s) \<Rightarrow> if trim_space s = [] then None else atoi (trim_space s)
   | _ \<Rightarrow> None)"

definition hasRequestTools :: "body \<Rightarrow> bool" where
  "hasRequestTools reqBody \<longleftrightarrow>
     (\<exists>t \<in> set_option (as_array (m_get reqBody ''tools'')). t \<noteq> []) \<or>
     (\<exists>f \<in> set_option (as_array (m_get reqBody ''functions'')). f \<noteq> [])"

definition clamp_key :: "int \<Rightarrow> string \<Rightarrow> body \<Rightarrow> body" where
  "clamp_key maximum key reqBody = (case requestedMaxTokens (m_get reqBody key) of
     Some value \<Rightarrow> if value > maximum then m_set key (JInt maximum) reqBody else reqBody
   | None \<Rightarrow> reqBody)"

definition clampRequestMaxTokens :: "int \<Rightarrow> body \<Rightarrow> body" where
  "clampRequestMaxTokens maximum reqBody =
     (if maximum \<le> 0 then reqBody
      else let reqBody = fold (clamp_key maximum) [''max_completion_tokens'', ''max_tokens''] reqBody
           in if m_get reqBody ''max_completion_tokens'' = None \<and> m_get reqBody ''max_tokens'' = None
              then m_set ''max_tokens'' (JInt maximum) reqBody else reqBody)"

section \<open>Provider adapters\<close>

definition normalizeMessages :: "json \<Rightarrow> (body \<Rightarrow> body) \<Rightarrow> json" where
  "normalizeMessages raw f = (case raw of
     JArr messages \<Rightarrow> JArr (map (\<lambda>m. case m of JObj message \<Rightarrow> JObj (f message) | _ \<Rightarrow> m) messages)
   | _ \<Rightarrow> raw)"

definition cerebras_message :: "body \<Rightarrow> body" where
  "cerebras_message message =
     m_del ''reasoning_content''
       (case m_get message ''reasoning_content'' of
          Some reasoning \<Rightarrow>
            if m_get message ''reasoning'' = None then m_set ''reasoning'' reasoning message else message
        | None \<Rightarrow> message)"

definition groq_message :: "body \<Rightarrow> body" where
  "groq_message message = m_del ''name'' (m_del ''reasoning_content'' message)"

definition with_messages :: "(body \<Rightarrow> body) \<Rightarrow> body \<Rightarrow> body \<Rightarrow> body" where
  "with_messages f body copy = (case m_get body ''messages'' of
     Some raw \<Rightarrow> m_set ''messages'' (normalizeMessages raw f) copy
   | None \<Rightarrow> copy)"

definition cerebrasDropped :: "string list" where
  "cerebrasDropped = [''frequency_penalty'', ''presence_penalty'', ''logit_bias'']"

definition groqDropped :: "string list" where
  "groqDropped = [''logprobs'', ''top_logprobs'', ''logit_bias'', ''metadata'', ''presence_penalty'']"

definition cerebras_NormalizeRequest :: "body \<Rightarrow> body" where
  "cerebras_NormalizeRequest body = with_messages cerebras_message body (fold m_del cerebrasDropped body)"

definition single_choice :: "body \<Rightarrow> body" where
  "single_choice copy = (case requestedMaxTokens (m_get copy ''n'') of
     Some n \<Rightarrow> if n \<noteq> 1 then m_set ''n'' (JInt 1) copy else copy
   | None \<Rightarrow> copy)"

definition groq_NormalizeRequest :: "body \<Rightarrow> body" where
  "groq_NormalizeRequest body =
     with_messages groq_message body (single_choice (fold m_del groqDropped body))"

text \<open>\<open>adapterForProvider(p).NormalizeRequest\<close>, the package-level \<open>requestBodyForAttempt\<close>.\<close>

definition NormalizeRequest :: "providerID \<Rightarrow> body \<Rightarrow> body" where
  "NormalizeRequest provider body =
     (if provider = providerCerebras then cerebras_NormalizeRequest body
      else if provider = providerGroq then groq_NormalizeRequest body
      else body)"

definition schemaMarkers :: "string list" where
  "schemaMarkers = [''property '' @ [CHR 0x27], ''unsupported property'', ''field is not supported'',
     ''parameter is not supported'', ''not currently supported'', ''unsupported parameter'']"

definition isUnsupportedSchemaError :: "int \<Rightarrow> string \<Rightarrow> bool" where
  "isUnsupportedSchemaError status body \<longleftrightarrow>
     status = 400 \<and> list_ex (\<lambda>marker. contains (to_lower body) marker) schemaMarkers"

definition IsCompatibilityError :: "providerID \<Rightarrow> int \<Rightarrow> string \<Rightarrow> bool" where
  "IsCompatibilityError provider status body \<longleftrightarrow>
     (provider = providerCerebras \<or> provider = providerGroq) \<and> isUnsupportedSchemaError status body"

section \<open>Reasoning effort\<close>

type_synonym reasoningEffort = string

definition parseReasoningEffort :: "string \<Rightarrow> reasoningEffort option" where
  "parseReasoningEffort raw =
     (let e = to_lower (trim_space raw)
      in if e = ''low'' then Some ''low''
         else if e = ''medium'' \<or> e = ''med'' then Some ''medium''
         else if e = ''high'' then Some ''high''
         else None)"

text \<open>The loop of \<open>parseReasoningProfiles\<close> over the decoded \<open>Reasoning\<close> object.\<close>

definition reasoning_profile ::
  "string \<times> string \<Rightarrow> (string, reasoningEffort) gomap \<Rightarrow> (string, reasoningEffort) gomap" where
  "reasoning_profile entry out =
     (let profile = trim_space (fst entry)
      in if profile = [] then out
         else case parseReasoningEffort (snd entry) of
                None \<Rightarrow> out
              | Some effort \<Rightarrow> m_set profile effort out)"

definition parseReasoningProfiles ::
  "(string, string) gomap option \<Rightarrow> (string, reasoningEffort) gomap option" where
  "parseReasoningProfiles decoded = map_option (\<lambda>entries. fold reasoning_profile entries []) decoded"

text \<open>The override of one request: the header first, then the query parameter.\<close>

definition requestReasoningEffort :: "string \<Rightarrow> string \<Rightarrow> reasoningEffort option" where
  "requestReasoningEffort header query =
     (case parseReasoningEffort header of Some e \<Rightarrow> Some e | None \<Rightarrow> parseReasoningEffort query)"

definition bodyCarriesReasoning :: "body \<Rightarrow> bool" where
  "bodyCarriesReasoning body \<longleftrightarrow> m_get body ''reasoning_effort'' \<noteq> None \<or> m_get body ''reasoning'' \<noteq> None"

definition resolveReasoningEffort ::
  "process_env \<Rightarrow> (string, reasoningEffort) gomap \<Rightarrow> reasoningEffort option \<Rightarrow> string \<Rightarrow> reasoningEffort option" where
  "resolveReasoningEffort env profiles override profile =
     (case override of
        Some e \<Rightarrow> Some e
      | None \<Rightarrow> (case m_get profiles (trim_space profile) of
                  Some e \<Rightarrow> Some e
                | None \<Rightarrow> parseReasoningEffort (envValue env ''PROXY_REASONING_EFFORT'')))"

definition applyReasoningEffort ::
  "capabilityIndex option \<Rightarrow> reasoningEffort \<Rightarrow> string \<Rightarrow> body \<Rightarrow> body" where
  "applyReasoningEffort caps effort model body =
     (case caps of
        None \<Rightarrow> body
      | Some caps \<Rightarrow>
          if effort = [] then body
          else if satisfies caps model [capReasoningEffort]
          then m_set ''reasoning_effort'' (JStr effort) body
          else if satisfies caps model [capReasoning]
          then m_set ''reasoning'' (JObj [(''effort'', JStr effort)]) body
          else body)"

definition requestBodyForAttempt ::
  "process_env \<Rightarrow> (string, reasoningEffort) gomap \<Rightarrow> reasoningEffort option \<Rightarrow> capabilityIndex option \<Rightarrow>
   body \<Rightarrow> modelAttempt \<Rightarrow> body" where
  "requestBodyForAttempt env profiles override caps reqBody attempt =
     (let body = NormalizeRequest (ma_Provider attempt) reqBody
      in if bodyCarriesReasoning reqBody then body
         else case resolveReasoningEffort env profiles override (ma_Profile attempt) of
                None \<Rightarrow> body
              | Some effort \<Rightarrow> applyReasoningEffort caps effort (ma_Model attempt) body)"

section \<open>The guardrail of tool-calling requests\<close>

text \<open>The wording of the two notices is a parameter: \<open>text\<close> follows the marker in the system message,
  \<open>tag\<close> follows it in the note appended to the last user turn.\<close>

definition localAgentGuardrailMarker :: string where
  "localAgentGuardrailMarker = ''CALVOPROXY_LOCAL_RUNTIME''"

record guard_text =
  gt_text :: string
  gt_tag :: string

definition localAgentGuardrail :: "guard_text \<Rightarrow> string" where
  "localAgentGuardrail g = localAgentGuardrailMarker @ gt_text g"

definition userRuntimeTag :: "guard_text \<Rightarrow> string" where
  "userRuntimeTag g = [CHR 0x0A, CHR 0x0A] @ ''['' @ localAgentGuardrailMarker @ gt_tag g"

definition textBlockContains :: "json \<Rightarrow> string \<Rightarrow> bool" where
  "textBlockContains raw needle = (case raw of
     JObj block \<Rightarrow> contains (string_or_empty (m_get block ''text'')) needle
   | _ \<Rightarrow> False)"

definition part_text_contains :: "string \<Rightarrow> json \<Rightarrow> bool" where
  "part_text_contains needle rawPart = (case rawPart of
     JObj part \<Rightarrow> (case as_string (m_get part ''text'') of Some text \<Rightarrow> contains text needle | None \<Rightarrow> False)
   | _ \<Rightarrow> False)"

definition messageTextContains :: "json option \<Rightarrow> string \<Rightarrow> bool" where
  "messageTextContains content needle = (case content of
     Some (JStr s) \<Rightarrow> contains s needle
   | Some (JArr parts) \<Rightarrow> list_ex (part_text_contains needle) parts
   | _ \<Rightarrow> False)"

definition appendUserRuntimeTag :: "guard_text \<Rightarrow> json option \<Rightarrow> json" where
  "appendUserRuntimeTag g content = (case content of
     Some (JStr s) \<Rightarrow> JStr (s @ userRuntimeTag g)
   | Some (JArr parts) \<Rightarrow>
       JArr (parts @ [JObj [(''type'', JStr ''text''), (''text'', JStr (trim_space (userRuntimeTag g)))]])
   | Some v \<Rightarrow> v
   | None \<Rightarrow> JNull)"

definition is_user :: "json \<Rightarrow> bool" where
  "is_user m = (case m of JObj msg \<Rightarrow> equal_fold (string_or_empty (m_get msg ''role'')) ''user'' | _ \<Rightarrow> False)"

definition tag_message :: "guard_text \<Rightarrow> json \<Rightarrow> json" where
  "tag_message g m = (case m of
     JObj msg \<Rightarrow>
       if messageTextContains (m_get msg ''content'') localAgentGuardrailMarker then m
       else JObj [(''role'', JStr ''user''), (''content'', appendUserRuntimeTag g (m_get msg ''content''))]
   | _ \<Rightarrow> m)"

text \<open>The loop runs from the last message; this is it on the reversed list.\<close>

fun tag_first_user :: "guard_text \<Rightarrow> json list \<Rightarrow> json list" where
  "tag_first_user g [] = []"
| "tag_first_user g (m # ms) = (if is_user m then tag_message g m # ms else m # tag_first_user g ms)"

definition tagLastUserRuntime :: "guard_text \<Rightarrow> json list \<Rightarrow> json list" where
  "tagLastUserRuntime g messages = rev (tag_first_user g (rev messages))"

definition is_guard :: "json \<Rightarrow> bool" where
  "is_guard m = (case m of
     JObj msg \<Rightarrow> equal_fold (string_or_empty (m_get msg ''role'')) ''system'' \<and>
       messageTextContains (m_get msg ''content'') localAgentGuardrailMarker
   | _ \<Rightarrow> False)"

definition guard_message :: "guard_text \<Rightarrow> json" where
  "guard_message g = JObj [(''role'', JStr ''system''), (''content'', JStr (localAgentGuardrail g))]"

definition newline2 :: string where
  "newline2 = [CHR 0x0A, CHR 0x0A]"

definition injectLocalAgentGuardrail :: "guard_text \<Rightarrow> body \<Rightarrow> body" where
  "injectLocalAgentGuardrail g reqBody =
     (if \<not> hasRequestTools reqBody then reqBody
      else
        let reqBody = (case as_string (m_get reqBody ''system'') of
              Some sys \<Rightarrow>
                if sys \<noteq> [] \<and> \<not> contains sys localAgentGuardrailMarker
                then m_set ''system'' (JStr (localAgentGuardrail g @ newline2 @ sys)) reqBody else reqBody
            | None \<Rightarrow> reqBody)
        in case as_array (m_get reqBody ''messages'') of
             None \<Rightarrow> reqBody
           | Some messages \<Rightarrow>
               let cleaned = filter (\<lambda>m. \<not> is_guard m) messages
               in m_set ''messages''
                    (JArr (tagLastUserRuntime g (guard_message g # cleaned @ [guard_message g]))) reqBody)"

definition injectLocalAgentGuardrailForMessages :: "guard_text \<Rightarrow> body \<Rightarrow> body" where
  "injectLocalAgentGuardrailForMessages g reqBody =
     (if \<not> hasRequestTools reqBody then reqBody
      else
        let reqBody = (case m_get reqBody ''system'' of
              Some (JStr system) \<Rightarrow>
                if contains system localAgentGuardrailMarker then reqBody
                else if trim_space system \<noteq> []
                then m_set ''system'' (JStr (localAgentGuardrail g @ newline2 @ system)) reqBody
                else m_set ''system'' (JStr (localAgentGuardrail g)) reqBody
            | Some (JArr system) \<Rightarrow>
                if list_ex (\<lambda>block. textBlockContains block localAgentGuardrailMarker) system then reqBody
                else m_set ''system''
                  (JArr (JObj [(''type'', JStr ''text''), (''text'', JStr (localAgentGuardrail g))] # system)) reqBody
            | _ \<Rightarrow> m_set ''system'' (JStr (localAgentGuardrail g)) reqBody)
        in case as_array (m_get reqBody ''messages'') of
             None \<Rightarrow> reqBody
           | Some messages \<Rightarrow> m_set ''messages'' (JArr (tagLastUserRuntime g messages)) reqBody)"

section \<open>The guard on tool results\<close>

text \<open>\<open>toolCutMarker\<close> with its number; the ellipsis is three bytes of UTF-8. \<open>json.Valid\<close> is a parameter.\<close>

definition ellipsis :: string where
  "ellipsis = [CHR 0xE2, CHR 0x80, CHR 0xA6]"

definition toolCutMarker :: "nat \<Rightarrow> string" where
  "toolCutMarker omitted = [CHR 0x0A] @ ellipsis @ '' [truncated: '' @ itoa (int omitted) @
     '' bytes omitted by CalvoProxy] '' @ ellipsis @ [CHR 0x0A]"

record compressionStat =
  cs_OriginalBytes :: nat
  cs_SavedBytes :: nat
  cs_Engines :: "string list"

definition noCompression :: compressionStat where
  "noCompression = \<lparr>cs_OriginalBytes = 0, cs_SavedBytes = 0, cs_Engines = []\<rparr>"

definition toolResultLimit :: "process_env \<Rightarrow> nat" where
  "toolResultLimit env =
     (if trim_space (envValue env ''PROXY_TOOL_RESULT_LIMIT'') = [] then 0
      else let n = envInt env ''PROXY_TOOL_RESULT_LIMIT'' 0
           in if n \<le> 0 then 0 else if n < 512 then 512 else nat n)"

definition messageContent :: "json \<Rightarrow> string option" where
  "messageContent raw = (case raw of JObj entry \<Rightarrow> as_string (m_get entry ''content'') | _ \<Rightarrow> None)"

definition messageRole :: "json \<Rightarrow> string" where
  "messageRole raw = (case raw of JObj entry \<Rightarrow> string_or_empty (m_get entry ''role'') | _ \<Rightarrow> [])"

definition approxSize :: "json list \<Rightarrow> nat" where
  "approxSize messages = sum_list (map (\<lambda>m. case messageContent m of Some c \<Rightarrow> length c | None \<Rightarrow> 0) messages)"

definition clip :: "nat \<Rightarrow> string \<Rightarrow> string" where
  "clip limit content =
     (let half = limit div 2
      in take half content @ toolCutMarker (length content - 2 * half) @ drop (length content - half) content)"

definition cap_message :: "(string \<Rightarrow> bool) \<Rightarrow> nat \<Rightarrow> json \<Rightarrow> json \<times> nat" where
  "cap_message valid limit raw =
     (case (raw, messageContent raw) of
        (JObj entry, Some content) \<Rightarrow>
          if messageRole raw \<noteq> ''tool'' \<or> length content \<le> limit \<or> valid content then (raw, 0)
          else let clipped = clip limit content
               in if length clipped \<ge> length content then (raw, 0)
                  else (JObj (m_set ''content'' (JStr clipped) entry), length content - length clipped)
      | _ \<Rightarrow> (raw, 0))"

definition applyToolCap :: "(string \<Rightarrow> bool) \<Rightarrow> nat \<Rightarrow> json list \<Rightarrow> json list \<times> nat" where
  "applyToolCap valid limit messages =
     (let capped = map (cap_message valid limit) messages in (map fst capped, sum_list (map snd capped)))"

definition compressRequest ::
  "process_env \<Rightarrow> (string \<Rightarrow> bool) \<Rightarrow> body \<Rightarrow> body \<times> compressionStat" where
  "compressRequest env valid body =
     (let limit = toolResultLimit env
      in if limit = 0 then (body, noCompression)
         else case as_array (m_get body ''messages'') of
                None \<Rightarrow> (body, noCompression)
              | Some original \<Rightarrow>
                  case applyToolCap valid limit original of
                    (messages, saved) \<Rightarrow>
                      if saved = 0 then (body, noCompression)
                      else (m_set ''messages'' (JArr messages) body,
                            \<lparr>cs_OriginalBytes = approxSize original, cs_SavedBytes = saved,
                             cs_Engines = [''toolcap'']\<rparr>))"

section \<open>Lemmas on adapters\<close>

lemma m_get_fold_del: "m_get (fold m_del ks b) k = (if k \<in> set ks then None else m_get b k)"
  by (induction ks arbitrary: b) auto

lemma cerebras_message_idem [simp]: "cerebras_message (cerebras_message m) = cerebras_message m"
  by (simp add: cerebras_message_def delete_idem split: option.split)

lemma groq_message_idem [simp]: "groq_message (groq_message m) = groq_message m"
  by (simp add: groq_message_def delete_idem AList.delete_twist [of "''name''" "''reasoning_content''"])

lemma normalizeMessages_idem:
  "(\<And>m. f (f m) = f m) \<Longrightarrow> normalizeMessages (normalizeMessages raw f) f = normalizeMessages raw f"
  by (auto simp: normalizeMessages_def split: json.split)

lemma m_get_with_messages:
  "m_get (with_messages f body copy) k =
    (if k = ''messages'' \<and> m_get body ''messages'' \<noteq> None
     then Some (normalizeMessages (the (m_get body ''messages'')) f) else m_get copy k)"
  by (auto simp: with_messages_def split: option.split)

lemma cerebras_get:
  "m_get (cerebras_NormalizeRequest b) k =
    (if k \<in> set cerebrasDropped then None
     else if k = ''messages'' then map_option (\<lambda>raw. normalizeMessages raw cerebras_message) (m_get b k)
     else m_get b k)"
  by (auto simp: cerebras_NormalizeRequest_def m_get_with_messages m_get_fold_del cerebrasDropped_def)

lemma m_get_single_choice:
  "m_get (single_choice copy) k =
    (if k = ''n'' \<and> (\<exists>n. requestedMaxTokens (m_get copy ''n'') = Some n \<and> n \<noteq> 1) then Some (JInt 1) else m_get copy k)"
  by (cases "requestedMaxTokens (m_get copy ''n'')") (auto simp: single_choice_def)

lemma groq_get:
  "m_get (groq_NormalizeRequest b) k =
    (if k \<in> set groqDropped then None
     else if k = ''messages'' then map_option (\<lambda>raw. normalizeMessages raw groq_message) (m_get b k)
     else if k = ''n'' \<and> (\<exists>n. requestedMaxTokens (m_get b k) = Some n \<and> n \<noteq> 1) then Some (JInt 1)
     else m_get b k)"
proof -
  have "''n'' \<notin> set groqDropped" "''messages'' \<notin> set groqDropped" by (simp_all add: groqDropped_def)
  then show ?thesis
    by (cases "m_get b ''messages''")
      (auto simp: groq_NormalizeRequest_def m_get_with_messages m_get_fold_del m_get_single_choice)
qed

lemma clamp_key_get:
  "m_get (clamp_key mx key b) k =
    (if k = key \<and> (\<exists>v. requestedMaxTokens (m_get b key) = Some v \<and> v > mx) then Some (JInt mx) else m_get b k)"
  by (cases "requestedMaxTokens (m_get b key)") (auto simp: clamp_key_def)

lemma requestedMaxTokens_int [simp]: "requestedMaxTokens (Some (JInt n)) = Some n" "requestedMaxTokens None = None"
  by (simp_all add: requestedMaxTokens_def)

lemma clamp_get:
  assumes "0 < mx"
  shows "m_get (clampRequestMaxTokens mx b) k =
    (if (k = ''max_completion_tokens'' \<or> k = ''max_tokens'') \<and> (\<exists>v. requestedMaxTokens (m_get b k) = Some v \<and> v > mx)
     then Some (JInt mx)
     else if k = ''max_tokens'' \<and> m_get b ''max_completion_tokens'' = None \<and> m_get b ''max_tokens'' = None
     then Some (JInt mx) else m_get b k)"
proof -
  let ?c = "''max_completion_tokens''" and ?t = "''max_tokens''"
  let ?b = "clamp_key mx ?t (clamp_key mx ?c b)"
  let ?over = "\<lambda>k. \<exists>v. requestedMaxTokens (m_get b k) = Some v \<and> v > mx"
  have get: "m_get ?b k = (if (k = ?c \<or> k = ?t) \<and> ?over k then Some (JInt mx) else m_get b k)" for k
    unfolding clamp_key_get by (cases "k = ?c"; cases "k = ?t") auto
  have none: "m_get ?b ?c = None \<longleftrightarrow> m_get b ?c = None" "m_get ?b ?t = None \<longleftrightarrow> m_get b ?t = None"
    unfolding get by (cases "m_get b ?c"; simp) (cases "m_get b ?t"; simp)
  have "clampRequestMaxTokens mx b =
      (if m_get ?b ?c = None \<and> m_get ?b ?t = None then m_set ?t (JInt mx) ?b else ?b)"
    using assms by (simp add: clampRequestMaxTokens_def Let_def)
  then have "m_get (clampRequestMaxTokens mx b) k =
      (if (m_get b ?c = None \<and> m_get b ?t = None) \<and> k = ?t then Some (JInt mx) else m_get ?b k)"
    unfolding none by simp
  then show ?thesis unfolding get by (cases "k = ?t") auto
qed

section \<open>Lemmas on the guardrail\<close>

lemma contains_infix [simp]: "contains (u @ p @ v) p"
  by (auto simp: contains_iff)

lemma marker_in_guard [simp]: "contains (localAgentGuardrail g) localAgentGuardrailMarker"
  using contains_infix [of "[]"] by (simp add: localAgentGuardrail_def)

lemma marker_in_prefixed [simp]: "contains (localAgentGuardrail g @ s) localAgentGuardrailMarker"
  using contains_infix [of "[]" localAgentGuardrailMarker "gt_text g @ s"] by (simp add: localAgentGuardrail_def)

lemma marker_in_tagged [simp]: "contains (s @ userRuntimeTag g) localAgentGuardrailMarker"
  using contains_infix [of "s @ [CHR 0x0A, CHR 0x0A] @ ''[''"] by (simp add: userRuntimeTag_def)

lemma trim_right_append:
  "a \<noteq> [] \<Longrightarrow> \<not> P (last a) \<Longrightarrow> rev (dropWhile P (rev (a @ x))) = a @ rev (dropWhile P (rev x))"
proof (induction x rule: rev_induct)
  case Nil
  then show ?case by (cases a rule: rev_cases) auto
next
  case (snoc y x)
  then show ?case by simp
qed

lemma marker_in_trimmed_tag [simp]: "contains (trim_space (userRuntimeTag g)) localAgentGuardrailMarker"
proof -
  let ?a = "CHR ''['' # localAgentGuardrailMarker"
  have "\<not> is_space (last ?a)" by (simp add: localAgentGuardrailMarker_def is_space_def)
  then have "trim_space (userRuntimeTag g) = ?a @ rev (dropWhile is_space (rev (gt_tag g)))"
    using trim_right_append [of ?a is_space "gt_tag g"]
    by (simp add: trim_space_def userRuntimeTag_def is_space_def)
  then show ?thesis using contains_infix [of "''[''" localAgentGuardrailMarker] by simp
qed

lemma tag_message_idem [simp]: "tag_message g (tag_message g m) = tag_message g m"
  by (auto simp: tag_message_def messageTextContains_def appendUserRuntimeTag_def part_text_contains_def as_string_def
      split: json.splits option.splits)

lemma user_not_system: "equal_fold s ''user'' \<Longrightarrow> \<not> equal_fold s ''system''"
  unfolding equal_fold_def
proof
  assume "to_lower s = to_lower ''user''" "to_lower s = to_lower ''system''"
  then have "to_lower ''user'' = to_lower ''system''" by simp
  then show False by (simp add: to_lower_def)
qed

lemma user_not_guard: "is_user m \<Longrightarrow> \<not> is_guard m"
  by (cases m) (auto simp: is_user_def is_guard_def dest: user_not_system)

lemma tag_message_user: "is_user m \<Longrightarrow> is_user (tag_message g m) \<and> \<not> is_guard (tag_message g m)"
proof -
  assume u: "is_user m"
  have "tag_message g m = m \<or> is_user (tag_message g m)"
    by (cases m) (simp_all add: tag_message_def is_user_def string_or_empty_def as_string_def equal_fold_def)
  with u show ?thesis using user_not_guard by metis
qed

lemma tag_first_user_idem [simp]: "tag_first_user g (tag_first_user g ms) = tag_first_user g ms"
  by (induction g ms rule: tag_first_user.induct) (auto dest: tag_message_user)

lemma tagLast_idem [simp]: "tagLastUserRuntime g (tagLastUserRuntime g ms) = tagLastUserRuntime g ms"
  by (simp add: tagLastUserRuntime_def)

lemma guard_message_simps [simp]: "is_guard (guard_message g)" "\<not> is_user (guard_message g)"
proof -
  show "is_guard (guard_message g)"
    by (simp add: is_guard_def guard_message_def string_or_empty_def as_string_def equal_fold_def messageTextContains_def)
  then show "\<not> is_user (guard_message g)" using user_not_guard by blast
qed

lemma tag_first_user_snoc: "\<not> is_user m \<Longrightarrow> tag_first_user g (ms @ [m]) = tag_first_user g ms @ [m]"
  by (induction ms) auto

lemma tagLast_bookends:
  "tagLastUserRuntime g (guard_message g # ms @ [guard_message g]) =
    guard_message g # tagLastUserRuntime g ms @ [guard_message g]"
  by (simp add: tagLastUserRuntime_def tag_first_user_snoc)

lemma tag_first_user_no_guard: "\<forall>m\<in>set ms. \<not> is_guard m \<Longrightarrow> \<forall>m\<in>set (tag_first_user g ms). \<not> is_guard m"
  by (induction g ms rule: tag_first_user.induct) (auto dest: tag_message_user)

lemma filter_tagLast:
  "filter (\<lambda>m. \<not> is_guard m) (tagLastUserRuntime g (filter (\<lambda>m. \<not> is_guard m) ms)) =
    tagLastUserRuntime g (filter (\<lambda>m. \<not> is_guard m) ms)"
proof -
  have "\<forall>m\<in>set (tagLastUserRuntime g (filter (\<lambda>m. \<not> is_guard m) ms)). \<not> is_guard m"
    unfolding tagLastUserRuntime_def set_rev by (rule tag_first_user_no_guard) simp
  then show ?thesis by (intro filter_True)
qed

lemma hasRequestTools_set [simp]:
  "k \<noteq> ''tools'' \<Longrightarrow> k \<noteq> ''functions'' \<Longrightarrow> hasRequestTools (m_set k v b) = hasRequestTools b"
  by (simp add: hasRequestTools_def)

text \<open>What the injection leaves in the body.\<close>

definition guard_system :: "guard_text \<Rightarrow> json option \<Rightarrow> json option" where
  "guard_system g v = (case as_string v of
     Some sys \<Rightarrow> if sys \<noteq> [] \<and> \<not> contains sys localAgentGuardrailMarker
                then Some (JStr (localAgentGuardrail g @ newline2 @ sys)) else v
   | None \<Rightarrow> v)"

definition guard_messages :: "guard_text \<Rightarrow> json option \<Rightarrow> json option" where
  "guard_messages g v = (case as_array v of
     Some ms \<Rightarrow> Some (JArr (guard_message g # tagLastUserRuntime g (filter (\<lambda>m. \<not> is_guard m) ms) @ [guard_message g]))
   | None \<Rightarrow> v)"

lemma inject_get:
  assumes "hasRequestTools b"
  shows "m_get (injectLocalAgentGuardrail g b) k =
    (if k = ''messages'' then guard_messages g (m_get b k)
     else if k = ''system'' then guard_system g (m_get b k) else m_get b k)"
  using assms
  by (auto simp: injectLocalAgentGuardrail_def guard_messages_def guard_system_def Let_def tagLast_bookends
      split: option.splits)

lemma guard_system_idem: "guard_system g (guard_system g v) = guard_system g v"
  by (auto simp: guard_system_def as_string_def split: option.splits json.splits)

lemma guard_messages_idem: "guard_messages g (guard_messages g v) = guard_messages g v"
  by (auto simp: guard_messages_def as_array_def filter_tagLast split: option.splits json.splits)

lemma inject_tools: "hasRequestTools (injectLocalAgentGuardrail g b) = hasRequestTools b"
proof (cases "hasRequestTools b")
  case True
  then show ?thesis by (simp add: hasRequestTools_def inject_get [OF True])
next
  case False
  then show ?thesis by (simp add: injectLocalAgentGuardrail_def)
qed

section \<open>Properties\<close>

text \<open>What each provider's API takes of a message: Groq neither a name nor \<open>reasoning_content\<close>, Cerebras the
  reasoning only under the name \<open>reasoning\<close>.\<close>

definition message_field :: "providerID \<Rightarrow> body \<Rightarrow> string \<Rightarrow> json option" where
  "message_field p m k =
     (if p = providerGroq then if k \<in> {''name'', ''reasoning_content''} then None else m_get m k
      else if p = providerCerebras then
        if k = ''reasoning_content'' then None
        else if k = ''reasoning'' \<and> m_get m ''reasoning'' = None then m_get m ''reasoning_content''
        else m_get m k
      else m_get m k)"

definition message_adapted :: "providerID \<Rightarrow> json \<Rightarrow> json \<Rightarrow> bool" where
  "message_adapted p x y = (case x of JObj m \<Rightarrow> \<exists>m'. y = JObj m' \<and> (\<forall>k. m_get m' k = message_field p m k) | _ \<Rightarrow> y = x)"

lemma groq_message_field: "m_get (groq_message m) k = message_field providerGroq m k"
  by (simp add: groq_message_def message_field_def)

lemma cerebras_message_field: "m_get (cerebras_message m) k = message_field providerCerebras m k"
proof -
  have "providerCerebras \<noteq> providerGroq" by (simp add: provider_defs)
  then show ?thesis by (auto simp: cerebras_message_def message_field_def split: option.split)
qed

lemma normalizeMessages_adapted:
  "(\<And>m k. m_get (f m) k = message_field p m k) \<Longrightarrow>
   \<exists>ms'. normalizeMessages (JArr ms) f = JArr ms' \<and> list_all2 (message_adapted p) ms ms'"
  by (auto simp: normalizeMessages_def message_adapted_def list.rel_map intro!: list.rel_refl split: json.split)

text \<open>C19. The body sent to Groq has none of its five unsupported fields and, where it asks for a readable
  number of choices, asks for one; the body sent to Cerebras has none of its three; every other field
  of the body is kept. The messages are as many and in the same order, each with exactly the fields
  that provider takes and their values unchanged, and what is not an object, or not a list of
  messages, is left alone. Normalizing again changes nothing, and any other provider gets the body as
  it is.\<close>

theorem adapter_contract:
  "(\<forall>k. m_get (NormalizeRequest providerGroq b) k =
      (if k \<in> {''logprobs'', ''top_logprobs'', ''logit_bias'', ''metadata'', ''presence_penalty''} then None
       else if k = ''n'' \<and> requestedMaxTokens (m_get b ''n'') \<notin> {None, Some 1} then Some (JInt 1)
       else if k = ''messages'' then m_get (NormalizeRequest providerGroq b) ''messages''
       else m_get b k)) \<and>
   (\<forall>k. m_get (NormalizeRequest providerCerebras b) k =
      (if k \<in> {''frequency_penalty'', ''presence_penalty'', ''logit_bias''} then None
       else if k = ''messages'' then m_get (NormalizeRequest providerCerebras b) ''messages''
       else m_get b k)) \<and>
   (case m_get b ''messages'' of
      Some (JArr ms) \<Rightarrow> \<exists>ms'. m_get (NormalizeRequest p b) ''messages'' = Some (JArr ms') \<and> list_all2 (message_adapted p) ms ms'
    | other \<Rightarrow> m_get (NormalizeRequest p b) ''messages'' = other) \<and>
   m_get (NormalizeRequest p (NormalizeRequest p b)) k = m_get (NormalizeRequest p b) k \<and>
   (p \<notin> {providerGroq, providerCerebras} \<longrightarrow> NormalizeRequest p b = b)"
proof -
  have ne: "providerGroq \<noteq> providerCerebras" by (simp add: provider_defs)
  have same: "list_all2 (message_adapted p) ms ms" if "p \<notin> {providerGroq, providerCerebras}" for ms
    using that by (auto intro!: list.rel_refl simp: message_adapted_def message_field_def split: json.split)
  have messages: "case m_get b ''messages'' of
      Some (JArr ms) \<Rightarrow> \<exists>ms'. m_get (NormalizeRequest p b) ''messages'' = Some (JArr ms') \<and> list_all2 (message_adapted p) ms ms'
    | other \<Rightarrow> m_get (NormalizeRequest p b) ''messages'' = other"
    using normalizeMessages_adapted [OF groq_message_field] normalizeMessages_adapted [OF cerebras_message_field] ne same
    by (auto simp: NormalizeRequest_def groq_get cerebras_get groqDropped_def cerebrasDropped_def normalizeMessages_def
        split: option.split json.split)
  have idem: "m_get (NormalizeRequest p (NormalizeRequest p b)) k = m_get (NormalizeRequest p b) k"
  proof (cases "p = providerGroq \<or> p = providerCerebras")
    case True
    with ne show ?thesis
      by (auto simp: NormalizeRequest_def groq_get cerebras_get normalizeMessages_idem option.map_comp comp_def
          requestedMaxTokens_def)
  qed (simp add: NormalizeRequest_def)
  have groq: "m_get (NormalizeRequest providerGroq b) k =
      (if k \<in> {''logprobs'', ''top_logprobs'', ''logit_bias'', ''metadata'', ''presence_penalty''} then None
       else if k = ''n'' \<and> requestedMaxTokens (m_get b ''n'') \<notin> {None, Some 1} then Some (JInt 1)
       else if k = ''messages'' then m_get (NormalizeRequest providerGroq b) ''messages''
       else m_get b k)" for k
    using ne by (auto simp: NormalizeRequest_def groq_get groqDropped_def)
  have cerebras: "m_get (NormalizeRequest providerCerebras b) k =
      (if k \<in> {''frequency_penalty'', ''presence_penalty'', ''logit_bias''} then None
       else if k = ''messages'' then m_get (NormalizeRequest providerCerebras b) ''messages''
       else m_get b k)" for k
    by (auto simp: NormalizeRequest_def cerebras_get cerebrasDropped_def)
  show ?thesis
    using groq cerebras messages idem by (intro conjI allI) (assumption | simp add: NormalizeRequest_def)+
qed

theorem adapter_contract_witness:
  "m_get (NormalizeRequest providerGroq [(''logprobs'', JBool True), (''n'', JInt 3)]) ''logprobs'' = None \<and>
   m_get (NormalizeRequest providerGroq [(''logprobs'', JBool True), (''n'', JInt 3)]) ''n'' = Some (JInt 1)"
proof -
  note c = adapter_contract [of "[(''logprobs'', JBool True), (''n'', JInt 3)]" providerGroq "''n''"]
  from conjunct1 [OF c] show ?thesis by (simp add: requestedMaxTokens_def)
qed

text \<open>With a positive maximum, no readable token limit of the body exceeds it after clamping, and the
  body always states a limit.\<close>

theorem clamp_bounds_tokens:
  assumes "0 < maximum" "key = ''max_completion_tokens'' \<or> key = ''max_tokens''"
  shows "(\<forall>v. requestedMaxTokens (m_get (clampRequestMaxTokens maximum b) key) = Some v \<longrightarrow> v \<le> maximum) \<and>
    (m_get (clampRequestMaxTokens maximum b) ''max_completion_tokens'' \<noteq> None \<or>
     m_get (clampRequestMaxTokens maximum b) ''max_tokens'' \<noteq> None)"
  using assms by (auto simp: clamp_get split: if_splits)

theorem clamp_bounds_tokens_witness:
  "requestedMaxTokens (m_get (clampRequestMaxTokens 100 [(''max_tokens'', JInt 5000)]) ''max_tokens'') = Some 100 \<and>
   (100::int) \<le> 100"
proof -
  let ?m = "m_get (clampRequestMaxTokens 100 [(''max_tokens'', JInt 5000)]) ''max_tokens''"
  have v: "requestedMaxTokens ?m = Some 100"
    by (simp add: clampRequestMaxTokens_def clamp_key_def requestedMaxTokens_def)
  with clamp_bounds_tokens [of 100 "''max_tokens''" "[(''max_tokens'', JInt 5000)]"] show ?thesis by blast
qed

text \<open>The guardrail is injected once: injecting it again changes no field of the body. A body without
  tools is left alone.\<close>

theorem guardrail_idempotent:
  "m_get (injectLocalAgentGuardrail g (injectLocalAgentGuardrail g b)) k = m_get (injectLocalAgentGuardrail g b) k \<and>
   (\<not> hasRequestTools b \<longrightarrow> injectLocalAgentGuardrail g b = b)"
proof (cases "hasRequestTools b")
  case True
  then show ?thesis
    by (simp add: inject_get inject_tools guard_system_idem guard_messages_idem)
next
  case False
  then show ?thesis by (simp add: injectLocalAgentGuardrail_def)
qed

theorem guardrail_idempotent_witness:
  "injectLocalAgentGuardrail \<lparr>gt_text = [], gt_tag = []\<rparr> [(''tools'', JArr [])] = [(''tools'', JArr [])]"
  using guardrail_idempotent [of "\<lparr>gt_text = [], gt_tag = []\<rparr>" "[(''tools'', JArr [])]" "''tools''"]
  by (simp add: hasRequestTools_def as_array_def)

text \<open>Tagging the last user turn rebuilds it from its role and content, so other fields are lost.\<close>

lemma tag_drops_fields:
  "tagLastUserRuntime g [JObj [(''role'', JStr ''user''), (''name'', JStr ''bob''), (''content'', JStr ''hi'')]] =
    [JObj [(''role'', JStr ''user''), (''content'', JStr (''hi'' @ userRuntimeTag g))]]"
  by (simp add: tagLastUserRuntime_def is_user_def tag_message_def string_or_empty_def as_string_def equal_fold_def
      messageTextContains_def appendUserRuntimeTag_def localAgentGuardrailMarker_def has_prefix_def)

text \<open>Clipping shortens a tool result and keeps both its ends; every other message is forwarded as it is.\<close>

lemma toolcap_spec:
  "(cap_message valid limit m = (m, 0)) \<or>
   (\<exists>entry content. m = JObj entry \<and> m_get entry ''content'' = Some (JStr content) \<and>
      messageRole m = ''tool'' \<and> limit < length content \<and> \<not> valid content \<and>
      length (clip limit content) < length content \<and>
      cap_message valid limit m =
        (JObj (m_set ''content'' (JStr (clip limit content)) entry), length content - length (clip limit content)))"
  by (cases m) (auto simp: cap_message_def messageContent_def as_string_def Let_def split: option.splits json.splits)

end
