(* ===== verification/Scoring.thy ===== *)
theory Scoring
  imports Router_Types "HOL-Library.Product_Lexorder"
begin

text \<open>
  Per-model reliability scores and provider balance, \<open>src/internal/router/router_scoring.go\<close>.
  Scores are real numbers; the rounding of \<open>float64\<close> is not modelled. Each \<open>time.Now()\<close> of the
  source is an argument, and the environment is read where the source reads it.
\<close>

section \<open>Definitions\<close>

definition scoreInitial :: real where "scoreInitial = 1"
definition scoreNeutral :: real where "scoreNeutral = 8 / 10"
definition scoreSuccessStep :: real where "scoreSuccessStep = 2 / 10"
definition scorePenaltyHard :: real where "scorePenaltyHard = 4 / 10"
definition scorePenaltySoft :: real where "scorePenaltySoft = 2 / 10"
definition scoreUnproven :: real where "scoreUnproven = 5 / 10"
definition scoreStatusSoftOnly :: int where "scoreStatusSoftOnly = 0"
definition defaultScoreRecovery :: duration where "defaultScoreRecovery = 6 * hour"
definition defaultScoreRecoveryAttempts :: int where "defaultScoreRecoveryAttempts = 50"

lemmas score_consts = scoreInitial_def scoreNeutral_def scoreSuccessStep_def scorePenaltyHard_def
  scorePenaltySoft_def scoreUnproven_def

record scoreEnv =
  se_now :: go_time
  se_seq :: int
  se_duration :: duration
  se_attempts :: int

definition scoringEnabled :: "process_env \<Rightarrow> bool" where
  "scoringEnabled env = envBool env ''PROXY_SCORING_ENABLED'' True"

definition newScoreEnv :: "process_env \<Rightarrow> go_time \<Rightarrow> int \<Rightarrow> scoreEnv" where
  "newScoreEnv env now seq =
     (let d = envDurationSeconds env ''PROXY_SCORING_RECOVERY_SECONDS'' defaultScoreRecovery;
          n = envInt env ''PROXY_SCORING_RECOVERY_ATTEMPTS'' defaultScoreRecoveryAttempts
      in \<lparr>se_now = now, se_seq = seq,
           se_duration = (if d \<le> 0 then defaultScoreRecovery else d),
           se_attempts = (if n < 1 then defaultScoreRecoveryAttempts else n)\<rparr>)"

definition scoreEnv_of :: "process_env \<Rightarrow> go_time \<Rightarrow> RouterService \<Rightarrow> scoreEnv" where
  "scoreEnv_of env now s = newScoreEnv env now (rs_scoreAttempts s)"

definition countScoredAttempt ::
  "process_env \<Rightarrow> go_time \<Rightarrow> RouterService \<Rightarrow> RouterService \<times> scoreEnv" where
  "countScoredAttempt env now s =
     (let n = wrap64 (rs_scoreAttempts s + 1)
      in (s\<lparr>rs_scoreAttempts := n\<rparr>, newScoreEnv env now n))"

definition clamp01 :: "real \<Rightarrow> real" where
  "clamp01 v = (if v < 0 then 0 else if v > 1 then 1 else v)"

definition scoreBaseline :: "modelBreakerState \<Rightarrow> real" where
  "scoreBaseline state = (if bs_Successes state = 0 then scoreUnproven else scoreNeutral)"

definition decayFraction :: "modelBreakerState \<Rightarrow> scoreEnv \<Rightarrow> real" where
  "decayFraction state env =
     (let elapsed = sub_time (se_now env) (bs_ScoreUpdatedAt state)
      in if elapsed \<le> 0 then 0
         else
           let timeFrac = real_of_int elapsed / real_of_int (se_duration env);
               evidence = wrap64 (se_seq env - bs_ScoreAttemptSeq state)
           in if evidence \<le> 0 then 0
              else
                let attemptFrac = real_of_int evidence / real_of_int (se_attempts env)
                in clamp01 (if attemptFrac < timeFrac then attemptFrac else timeFrac))"

definition decayedScore :: "modelBreakerState option \<Rightarrow> scoreEnv \<Rightarrow> real" where
  "decayedScore state env = (case state of
       None \<Rightarrow> scoreInitial
     | Some st \<Rightarrow>
         if is_zero (bs_ScoreUpdatedAt st) then scoreInitial
         else clamp01 (bs_Score st + (scoreBaseline st - bs_Score st) * decayFraction st env))"

definition applyScoreSuccess :: "scoreEnv \<Rightarrow> modelBreakerState \<Rightarrow> modelBreakerState" where
  "applyScoreSuccess env state =
     (let base = decayedScore (Some state) env
      in state\<lparr>bs_Score := clamp01 (base + (1 - base) * scoreSuccessStep),
               bs_ScoreUpdatedAt := se_now env, bs_ScoreAttemptSeq := se_seq env\<rparr>)"

definition applyScoreFailure :: "int \<Rightarrow> scoreEnv \<Rightarrow> modelBreakerState \<Rightarrow> modelBreakerState" where
  "applyScoreFailure statusCode env state =
     (let base = decayedScore (Some state) env;
          penalty = (if statusCode = 429 \<or> statusCode = 408 \<or> statusCode \<ge> 500
                     then scorePenaltyHard else scorePenaltySoft)
      in state\<lparr>bs_Score := clamp01 (base * (1 - penalty)),
               bs_ScoreUpdatedAt := se_now env, bs_ScoreAttemptSeq := se_seq env\<rparr>)"

definition penalizeScore ::
  "process_env \<Rightarrow> go_time \<Rightarrow> modelAttempt \<Rightarrow> int \<Rightarrow> RouterService \<Rightarrow> RouterService" where
  "penalizeScore env now attempt statusCode s =
     (let (s, senv) = countScoredAttempt env now s
      in markScoresDirty (upd_model_breaker (breakerKey s attempt)
           (\<lambda>st. applyScoreFailure statusCode senv (st\<lparr>bs_ProbeUntil := zero_time\<rparr>)) s))"

definition score_of :: "RouterService \<Rightarrow> scoreEnv \<Rightarrow> modelAttempt \<Rightarrow> real" where
  "score_of s senv attempt = decayedScore (m_get (rs_modelBreakers s) (breakerKey s attempt)) senv"

definition scoreForAttempt :: "RouterService \<Rightarrow> modelAttempt \<Rightarrow> scoreEnv \<Rightarrow> real" where
  "scoreForAttempt s attempt senv = score_of s senv attempt"

record providerAttemptGroup =
  pg_provider :: providerID
  pg_attempts :: "modelAttempt list"
  pg_reliability :: real
  pg_policyOrder :: nat

text \<open>The grouping loop: the group of the attempt's provider, or a new one at the end.\<close>

definition add_to_group ::
  "RouterService \<Rightarrow> modelAttempt \<Rightarrow> providerAttemptGroup list \<Rightarrow> providerAttemptGroup list" where
  "add_to_group s attempt groups =
     (let provider = normalizedProvider s attempt; attempt = attempt\<lparr>ma_Provider := provider\<rparr>
      in if provider \<in> set (map pg_provider groups)
         then map (\<lambda>g. if pg_provider g = provider then g\<lparr>pg_attempts := pg_attempts g @ [attempt]\<rparr> else g) groups
         else groups @ [\<lparr>pg_provider = provider, pg_attempts = [attempt], pg_reliability = 0,
                         pg_policyOrder = length groups\<rparr>])"

definition rank_group :: "process_env \<Rightarrow> RouterService \<Rightarrow> scoreEnv \<Rightarrow> providerAttemptGroup \<Rightarrow> providerAttemptGroup" where
  "rank_group env s senv g =
     (let attempts = (if scoringEnabled env
                      then slice_stable (\<lambda>a b. score_of s senv a > score_of s senv b) (pg_attempts g)
                      else pg_attempts g)
      in g\<lparr>pg_attempts := attempts,
           pg_reliability := (if attempts \<noteq> [] \<and> scoringEnabled env
                              then score_of s senv (hd attempts) else scoreInitial)\<rparr>)"

definition group_less :: "RouterService \<Rightarrow> providerAttemptGroup \<Rightarrow> providerAttemptGroup \<Rightarrow> bool" where
  "group_less s g h =
     (let left = real_of_int (m_get_or 0 (rs_providerBalance s) (pg_provider g)) - pg_reliability g;
          right = real_of_int (m_get_or 0 (rs_providerBalance s) (pg_provider h)) - pg_reliability h
      in if left = right then pg_policyOrder g < pg_policyOrder h else left < right)"

definition rankAttemptsLocked ::
  "process_env \<Rightarrow> RouterService \<Rightarrow> modelAttempt list \<Rightarrow> scoreEnv \<Rightarrow> modelAttempt list" where
  "rankAttemptsLocked env s attempts senv =
     (let groups = fold (add_to_group s) attempts [];
          groups = map (rank_group env s senv) groups;
          groups = slice_stable (group_less s) groups
      in concat (map pg_attempts groups))"

definition rankAttemptsByScore ::
  "process_env \<Rightarrow> go_time \<Rightarrow> RouterService \<Rightarrow> modelAttempt list \<Rightarrow> modelAttempt list" where
  "rankAttemptsByScore env now s attempts =
     (if length attempts < 2 then attempts
      else rankAttemptsLocked env s attempts (scoreEnv_of env now s))"

definition attempt_providers :: "RouterService \<Rightarrow> modelAttempt list \<Rightarrow> providerID list" where
  "attempt_providers s attempts = remdups (map (normalizedProvider s) attempts)"

definition rebaseProviderBalanceLocked :: "RouterService \<Rightarrow> modelAttempt list \<Rightarrow> RouterService" where
  "rebaseProviderBalanceLocked s attempts =
     (let maxBalance = fold (\<lambda>a m. let b = m_get_or 0 (rs_providerBalance s) (normalizedProvider s a)
                                   in if b > m then b else m) attempts 0;
          floor = (if maxBalance - 1 < 0 then 0 else maxBalance - 1)
      in s\<lparr>rs_providerBalance :=
           fold (\<lambda>p bal. if m_get_or 0 bal p < floor then m_set p floor bal else bal)
             (attempt_providers s attempts) (rs_providerBalance s)\<rparr>)"

definition incr :: "providerID \<Rightarrow> (providerID, int) gomap \<Rightarrow> (providerID, int) gomap" where
  "incr p m = m_set p (wrap64 (m_get_or 0 m p + 1)) m"

definition rankAndReserveAttempts ::
  "process_env \<Rightarrow> go_time \<Rightarrow> RouterService \<Rightarrow> modelAttempt list \<Rightarrow> RouterService \<times> modelAttempt list" where
  "rankAndReserveAttempts env now s attempts =
     (if attempts = [] then (s, attempts)
      else
        let senv = scoreEnv_of env now s;
            s = rebaseProviderBalanceLocked s attempts;
            ranked = rankAttemptsLocked env s attempts senv;
            provider = normalizedProvider s (hd ranked)
        in (markScoresDirty (s\<lparr>rs_providerBalance := incr provider (rs_providerBalance s)\<rparr>),
            (hd ranked)\<lparr>ma_BalanceReserved := True\<rparr> # tl ranked))"

definition reserveProviderBalance :: "providerID \<Rightarrow> RouterService \<Rightarrow> RouterService" where
  "reserveProviderBalance provider s =
     markScoresDirty (s\<lparr>rs_providerBalance := incr provider (rs_providerBalance s)\<rparr>)"

definition recordProviderAttempt :: "providerID \<Rightarrow> bool \<Rightarrow> RouterService \<Rightarrow> RouterService" where
  "recordProviderAttempt provider balanceReserved s =
     markScoresDirty (s\<lparr>rs_providerAttempts := incr provider (rs_providerAttempts s),
       rs_providerBalance := (if balanceReserved then rs_providerBalance s
                              else incr provider (rs_providerBalance s))\<rparr>)"

definition providerAttemptCount :: "RouterService \<Rightarrow> providerID \<Rightarrow> int" where
  "providerAttemptCount s provider = m_get_or 0 (rs_providerAttempts s) provider"

definition providerBalanceCount :: "RouterService \<Rightarrow> providerID \<Rightarrow> int" where
  "providerBalanceCount s provider = m_get_or 0 (rs_providerBalance s) provider"

section \<open>Scores stay in the unit interval\<close>

lemma clamp01_bounds [simp]: "0 \<le> clamp01 v" "clamp01 v \<le> 1"
  by (simp_all add: clamp01_def)

lemma clamp01_id: "0 \<le> v \<Longrightarrow> v \<le> 1 \<Longrightarrow> clamp01 v = v"
  by (simp add: clamp01_def)

definition score_ok :: "modelBreakerState \<Rightarrow> bool" where
  "score_ok st \<longleftrightarrow> 0 \<le> bs_Score st \<and> bs_Score st \<le> 1"

lemma decayedScore_bounds [simp]: "0 \<le> decayedScore st env" "decayedScore st env \<le> 1"
  by (auto simp: decayedScore_def scoreInitial_def split: option.splits)

lemma decayFraction_bounds: "0 \<le> decayFraction st env" "decayFraction st env \<le> 1"
  by (simp_all add: decayFraction_def Let_def)

lemma newScoreEnv_pos: "0 < se_duration (newScoreEnv env now seq)" "0 < se_attempts (newScoreEnv env now seq)"
  by (simp_all add: newScoreEnv_def Let_def defaultScoreRecovery_def defaultScoreRecoveryAttempts_def)

text \<open>A convex combination lies between its ends.\<close>

lemma between_convex:
  fixes a b f :: real
  assumes "0 \<le> f" "f \<le> 1"
  shows "min a b \<le> a + (b - a) * f \<and> a + (b - a) * f \<le> max a b"
proof (cases "a \<le> b")
  case True
  have "(b - a) * f \<le> (b - a) * 1" using True assms by (intro mult_left_mono) auto
  then have "a + (b - a) * f \<le> b" by (simp only: mult_1_right)
  moreover have "0 \<le> (b - a) * f" using True assms by simp
  ultimately show ?thesis using True by simp
next
  case False
  have "(b - a) * 1 \<le> (b - a) * f" using False assms by (intro mult_left_mono_neg) auto
  then have "b \<le> a + (b - a) * f" by (simp only: mult_1_right)
  moreover have "(b - a) * f \<le> 0" using False assms by (simp add: mult_nonpos_nonneg)
  ultimately show ?thesis using False by simp
qed

lemma decayedScore_between:
  assumes "score_ok st" "\<not> is_zero (bs_ScoreUpdatedAt st)"
  shows "min (bs_Score st) (scoreBaseline st) \<le> decayedScore (Some st) env \<and>
    decayedScore (Some st) env \<le> max (bs_Score st) (scoreBaseline st)"
proof -
  have base: "0 \<le> scoreBaseline st" "scoreBaseline st \<le> 1"
    by (simp_all add: scoreBaseline_def score_consts)
  let ?v = "bs_Score st + (scoreBaseline st - bs_Score st) * decayFraction st env"
  have v: "min (bs_Score st) (scoreBaseline st) \<le> ?v \<and> ?v \<le> max (bs_Score st) (scoreBaseline st)"
    by (rule between_convex [OF decayFraction_bounds])
  with assms(1) base have "0 \<le> ?v" "?v \<le> 1" by (auto simp: score_ok_def)
  with v assms(2) show ?thesis by (simp add: decayedScore_def clamp01_id)
qed

lemma applyScoreSuccess_score:
  "bs_Score (applyScoreSuccess env st) = decayedScore (Some st) env + (1 - decayedScore (Some st) env) / 5"
proof -
  let ?b = "decayedScore (Some st) env"
  have "0 \<le> ?b" "?b \<le> 1" by simp_all
  then have "clamp01 (?b + (1 - ?b) / 5) = ?b + (1 - ?b) / 5" by (intro clamp01_id) argo+
  then show ?thesis by (simp add: applyScoreSuccess_def Let_def scoreSuccessStep_def)
qed

lemma applyScoreFailure_score:
  "bs_Score (applyScoreFailure code env st) = decayedScore (Some st) env *
    (if code = 429 \<or> code = 408 \<or> code \<ge> 500 then 1 - scorePenaltyHard else 1 - scorePenaltySoft)"
proof -
  let ?b = "decayedScore (Some st) env"
  have "clamp01 (?b * (1 - p)) = ?b * (1 - p)" if "p \<in> {scorePenaltyHard, scorePenaltySoft}" for p
  proof (rule clamp01_id)
    have p: "0 \<le> 1 - p" "1 - p \<le> 1" using that by (auto simp: score_consts)
    then show "0 \<le> ?b * (1 - p)" by simp
    show "?b * (1 - p) \<le> 1" by (rule mult_le_one) (use p in simp_all)
  qed
  then show ?thesis by (simp add: applyScoreFailure_def Let_def)
qed

lemma apply_score_ok: "score_ok (applyScoreSuccess env st)" "score_ok (applyScoreFailure code env st)"
  by (simp_all add: score_ok_def applyScoreSuccess_def applyScoreFailure_def Let_def)

lemma apply_score_sel [simp]:
  "bs_OpenUntil (applyScoreSuccess env st) = bs_OpenUntil st"
  "bs_OpenUntil (applyScoreFailure code env st) = bs_OpenUntil st"
  "bs_ProbeUntil (applyScoreSuccess env st) = bs_ProbeUntil st"
  "bs_ProbeUntil (applyScoreFailure code env st) = bs_ProbeUntil st"
  "bs_ConsecutiveFailures (applyScoreSuccess env st) = bs_ConsecutiveFailures st"
  "bs_ConsecutiveFailures (applyScoreFailure code env st) = bs_ConsecutiveFailures st"
  "bs_Successes (applyScoreSuccess env st) = bs_Successes st"
  "bs_Successes (applyScoreFailure code env st) = bs_Successes st"
  by (simp_all add: applyScoreSuccess_def applyScoreFailure_def Let_def)

section \<open>Ranking\<close>

definition normalize :: "RouterService \<Rightarrow> modelAttempt \<Rightarrow> modelAttempt" where
  "normalize s a = a\<lparr>ma_Provider := normalizedProvider s a\<rparr>"

definition groups_ok :: "RouterService \<Rightarrow> providerAttemptGroup list \<Rightarrow> bool" where
  "groups_ok s groups \<longleftrightarrow> distinct (map pg_provider groups) \<and>
     list_all (\<lambda>g. pg_attempts g \<noteq> [] \<and> list_all (\<lambda>a. ma_Provider a = pg_provider g) (pg_attempts g)) groups"

lemma concat_map_add:
  assumes "distinct (map pg_provider groups)" "p \<in> set (map pg_provider groups)"
  shows "mset (concat (map (\<lambda>g. pg_attempts (if pg_provider g = p then g\<lparr>pg_attempts := pg_attempts g @ [a]\<rparr> else g)) groups))
    = add_mset a (mset (concat (map pg_attempts groups)))"
  using assms
proof (induction groups)
  case Nil
  then show ?case by simp
next
  case (Cons g groups)
  show ?case
  proof (cases "pg_provider g = p")
    case True
    with Cons.prems have "map (\<lambda>g. pg_attempts (if pg_provider g = p then g\<lparr>pg_attempts := pg_attempts g @ [a]\<rparr> else g)) groups
        = map pg_attempts groups" by (intro map_cong refl) (auto simp: rev_image_eqI)
    with True show ?thesis by (simp del: map_eq_conv)
  next
    case False
    with Cons show ?thesis by simp
  qed
qed

lemma add_to_group_ok:
  assumes "groups_ok s groups"
  shows "groups_ok s (add_to_group s a groups)"
    "mset (concat (map pg_attempts (add_to_group s a groups)))
      = add_mset (normalize s a) (mset (concat (map pg_attempts groups)))"
proof -
  let ?p = "normalizedProvider s a"
  have dist: "distinct (map pg_provider groups)" using assms by (simp add: groups_ok_def)
  have same: "map pg_provider (map (\<lambda>g. if pg_provider g = ?p
        then g\<lparr>pg_attempts := pg_attempts g @ [a\<lparr>ma_Provider := ?p\<rparr>]\<rparr> else g) groups) = map pg_provider groups"
    by (simp cong: map_cong)
  show "groups_ok s (add_to_group s a groups)"
    using assms unfolding groups_ok_def add_to_group_def Let_def
    by (auto simp: list_all_iff same simp del: map_map)
  show "mset (concat (map pg_attempts (add_to_group s a groups)))
      = add_mset (normalize s a) (mset (concat (map pg_attempts groups)))"
    using concat_map_add [OF dist, of ?p "a\<lparr>ma_Provider := ?p\<rparr>"]
    by (simp add: add_to_group_def Let_def normalize_def comp_def)
qed

lemma grouping_ok:
  assumes "groups_ok s groups"
  shows "groups_ok s (fold (add_to_group s) attempts groups) \<and>
    mset (concat (map pg_attempts (fold (add_to_group s) attempts groups)))
      = mset (map (normalize s) attempts) + mset (concat (map pg_attempts groups))"
  using assms
proof (induction attempts arbitrary: groups)
  case Nil
  then show ?case by simp
next
  case (Cons a attempts)
  from Cons.IH [OF add_to_group_ok(1) [OF Cons.prems]] add_to_group_ok(2) [OF Cons.prems] show ?case by simp
qed

lemma mset_concat: "mset (concat xss) = sum_mset (mset (map mset xss))"
  by (induction xss) auto

lemma mset_concat_perm: "mset xss = mset yss \<Longrightarrow> mset (concat xss) = mset (concat yss)"
  by (metis mset_concat mset_map)

lemma rank_group_sel [simp]:
  "pg_provider (rank_group env s senv g) = pg_provider g"
  "pg_policyOrder (rank_group env s senv g) = pg_policyOrder g"
  "mset (pg_attempts (rank_group env s senv g)) = mset (pg_attempts g)"
  by (simp_all add: rank_group_def Let_def)

lemma rankAttemptsLocked_mset:
  "mset (rankAttemptsLocked env s attempts senv) = mset (map (normalize s) attempts)"
proof -
  let ?gs = "fold (add_to_group s) attempts []"
  let ?rs = "map (rank_group env s senv) ?gs"
  have "mset (concat (map pg_attempts (slice_stable (group_less s) ?rs))) = mset (concat (map pg_attempts ?rs))"
    by (rule mset_concat_perm) (simp add: multiset.map_comp)
  also have "\<dots> = mset (concat (map pg_attempts ?gs))"
    by (simp add: mset_concat comp_def)
  also have "\<dots> = mset (map (normalize s) attempts)"
    using grouping_ok [of s "[]" attempts] by (simp add: groups_ok_def)
  finally show ?thesis by (simp add: rankAttemptsLocked_def Let_def)
qed

lemma slice_stable_cong:
  assumes "\<And>a b. lt a b = lt' a b"
  shows "slice_stable lt xs = slice_stable lt' xs"
proof -
  have "lt = lt'" using assms by (simp add: fun_eq_iff)
  then show ?thesis by simp
qed

definition effective_use :: "RouterService \<Rightarrow> providerAttemptGroup \<Rightarrow> real" where
  "effective_use s g = real_of_int (m_get_or 0 (rs_providerBalance s) (pg_provider g)) - pg_reliability g"

lemma group_less_key:
  "group_less s g h \<longleftrightarrow> (effective_use s g, pg_policyOrder g) < (effective_use s h, pg_policyOrder h)"
  by (auto simp: group_less_def Let_def effective_use_def less_prod_def)

section \<open>Balance\<close>

definition max_balance :: "RouterService \<Rightarrow> modelAttempt list \<Rightarrow> int" where
  "max_balance s attempts = Max (insert 0 ((\<lambda>a. m_get_or 0 (rs_providerBalance s) (normalizedProvider s a)) ` set attempts))"

lemma rebase_fold_max:
  "fold (\<lambda>a m. if m < m_get_or 0 bal (f a) then m_get_or 0 bal (f a) else m) xs m0
    = Max (insert m0 ((\<lambda>a. m_get_or 0 bal (f a)) ` set xs))" for m0 :: int
proof (induction xs arbitrary: m0)
  case Nil
  then show ?case by simp
next
  case (Cons x xs)
  let ?F = "\<lambda>a m. if m < m_get_or 0 bal (f a) then m_get_or 0 bal (f a) else m"
  let ?b = "m_get_or 0 bal (f x)" and ?S = "(\<lambda>a. m_get_or 0 bal (f a)) ` set xs"
  have "fold ?F (x # xs) m0 = fold ?F xs (max ?b m0)" by (simp add: max_def)
  also have "\<dots> = Max (insert (max ?b m0) ?S)" by (rule Cons.IH)
  also have "\<dots> = Max (insert m0 (insert ?b ?S))"
    by (cases "?S = {}") (auto simp: max.left_commute max.commute)
  finally show ?case by simp
qed

lemma rebase_fold_get:
  "m_get_or 0 (fold (\<lambda>p bal. if m_get_or 0 bal p < fl then m_set p fl bal else bal) ps bal) q
    = (if q \<in> set ps then max fl (m_get_or 0 bal q) else m_get_or 0 bal q)" for fl :: int
  by (induction ps arbitrary: bal) (auto simp: max_def)

text \<open>After rebasing, every provider of the request is at most one behind the leader, no balance has
  fallen, and the leader's has not changed.\<close>

lemma rebase_within_one:
  assumes "a \<in> set attempts"
  shows "max_balance s attempts - 1 \<le> m_get_or 0 (rs_providerBalance (rebaseProviderBalanceLocked s attempts)) (normalizedProvider s a)"
    "m_get_or 0 (rs_providerBalance (rebaseProviderBalanceLocked s attempts)) (normalizedProvider s a) \<le> max_balance s attempts"
proof -
  let ?p = "normalizedProvider s a"
  have le: "m_get_or 0 (rs_providerBalance s) ?p \<le> max_balance s attempts" "0 \<le> max_balance s attempts"
    using assms by (auto simp: max_balance_def intro!: Max_ge)
  have "?p \<in> set (attempt_providers s attempts)" using assms by (simp add: attempt_providers_def)
  then have "m_get_or 0 (rs_providerBalance (rebaseProviderBalanceLocked s attempts)) ?p
      = max (if max_balance s attempts - 1 < 0 then 0 else max_balance s attempts - 1) (m_get_or 0 (rs_providerBalance s) ?p)"
    by (simp add: rebaseProviderBalanceLocked_def Let_def rebase_fold_max rebase_fold_get
        max_balance_def [symmetric])
  with le show "max_balance s attempts - 1 \<le> m_get_or 0 (rs_providerBalance (rebaseProviderBalanceLocked s attempts)) ?p"
    "m_get_or 0 (rs_providerBalance (rebaseProviderBalanceLocked s attempts)) ?p \<le> max_balance s attempts"
    by auto
qed

section \<open>Properties\<close>

text \<open>A failure never raises a model's score and a success never lowers it; a failure on a rate
  limit, a timeout or a server error costs four tenths of the decayed score, any other one two
  tenths, and a success gains a fifth of the distance to one. Decay alone only moves a score
  between its stored value and the baseline.\<close>

theorem score_updates:
  assumes "score_ok st" "\<not> is_zero (bs_ScoreUpdatedAt st)"
  shows "min (bs_Score st) (scoreBaseline st) \<le> decayedScore (Some st) senv \<and>
    decayedScore (Some st) senv \<le> max (bs_Score st) (scoreBaseline st) \<and>
    decayedScore (Some st) senv \<le> bs_Score (applyScoreSuccess senv st) \<and>
    bs_Score (applyScoreSuccess senv st) \<le> 1 \<and>
    bs_Score (applyScoreFailure code senv st) \<le> decayedScore (Some st) senv \<and>
    (code \<in> {408, 429, 500, 502, 503, 504} \<longrightarrow>
      bs_Score (applyScoreFailure code senv st) = 6 / 10 * decayedScore (Some st) senv) \<and>
    (code \<in> {0, 400, 401, 403, 404, 422} \<longrightarrow>
      bs_Score (applyScoreFailure code senv st) = 8 / 10 * decayedScore (Some st) senv)"
proof -
  let ?d = "decayedScore (Some st) senv"
  have d: "0 \<le> ?d" "?d \<le> 1" by simp_all
  have "?d \<le> bs_Score (applyScoreSuccess senv st)" using d by (simp add: applyScoreSuccess_score)
  moreover have "bs_Score (applyScoreSuccess senv st) \<le> 1" using apply_score_ok(1) by (simp add: score_ok_def)
  moreover have "bs_Score (applyScoreFailure code senv st) \<le> ?d"
    using d by (auto simp: applyScoreFailure_score score_consts)
  ultimately show ?thesis
    using decayedScore_between [OF assms, of senv] by (auto simp: applyScoreFailure_score score_consts)
qed

definition ex_state :: modelBreakerState where
  "ex_state = zeroBreaker\<lparr>bs_Score := 1 / 2, bs_ScoreUpdatedAt := 1000\<rparr>"

theorem score_updates_witness:
  "bs_Score (applyScoreFailure 429 (newScoreEnv [] 2000 3) ex_state)
    = 6 / 10 * decayedScore (Some ex_state) (newScoreEnv [] 2000 3)"
  using score_updates [of ex_state "newScoreEnv [] 2000 3" 429]
  by (simp add: ex_state_def score_ok_def time_simps)

text \<open>The order the ranking should have, said with the library's stable sort: the providers in the order in
  which the chain first names them, sorted by their balance less the score of their best model, and
  the models of each provider, in the order of the chain, sorted by falling score.\<close>

definition provider_models :: "process_env \<Rightarrow> RouterService \<Rightarrow> scoreEnv \<Rightarrow> modelAttempt list \<Rightarrow> providerID \<Rightarrow> modelAttempt list" where
  "provider_models env s senv attempts p =
     (let models = filter (\<lambda>a. ma_Provider a = p) (map (normalize s) attempts)
      in if scoringEnabled env then sort_key (\<lambda>a. - score_of s senv a) models else models)"

definition provider_use :: "process_env \<Rightarrow> RouterService \<Rightarrow> scoreEnv \<Rightarrow> modelAttempt list \<Rightarrow> providerID \<Rightarrow> real" where
  "provider_use env s senv attempts p = real_of_int (m_get_or 0 (rs_providerBalance s) p) -
     (if scoringEnabled env then score_of s senv (hd (provider_models env s senv attempts p)) else scoreInitial)"

definition providers_named :: "RouterService \<Rightarrow> modelAttempt list \<Rightarrow> providerID list" where
  "providers_named s attempts = rev (remdups (rev (map (normalizedProvider s) attempts)))"

definition rank_reference :: "process_env \<Rightarrow> RouterService \<Rightarrow> modelAttempt list \<Rightarrow> scoreEnv \<Rightarrow> modelAttempt list" where
  "rank_reference env s attempts senv =
     concat (map (provider_models env s senv attempts)
       (sort_key (provider_use env s senv attempts) (providers_named s attempts)))"

lemma providers_named_snoc:
  "providers_named s (xs @ [a]) = (if normalizedProvider s a \<in> set (providers_named s xs) then providers_named s xs
     else providers_named s xs @ [normalizedProvider s a])"
  by (simp add: providers_named_def)

definition group_of :: "RouterService \<Rightarrow> modelAttempt list \<Rightarrow> nat \<Rightarrow> providerAttemptGroup" where
  "group_of s attempts i =
     \<lparr>pg_provider = providers_named s attempts ! i,
      pg_attempts = filter (\<lambda>a. ma_Provider a = providers_named s attempts ! i) (map (normalize s) attempts),
      pg_reliability = 0, pg_policyOrder = i\<rparr>"

lemma add_to_group_eq:
  "add_to_group s a groups =
     (if normalizedProvider s a \<in> set (map pg_provider groups)
      then map (\<lambda>g. if pg_provider g = normalizedProvider s a then g\<lparr>pg_attempts := pg_attempts g @ [normalize s a]\<rparr> else g) groups
      else groups @ [\<lparr>pg_provider = normalizedProvider s a, pg_attempts = [normalize s a], pg_reliability = 0,
                      pg_policyOrder = length groups\<rparr>])"
  by (simp add: add_to_group_def Let_def normalize_def)

lemma no_model_of_new_provider:
  "normalizedProvider s a \<notin> set (providers_named s xs) \<Longrightarrow>
   filter (\<lambda>b. ma_Provider b = normalizedProvider s a) (map (normalize s) xs) = []"
  by (auto simp: providers_named_def normalize_def filter_empty_conv image_iff)

lemma grouping_eq:
  "fold (add_to_group s) attempts [] = map (group_of s attempts) [0..<length (providers_named s attempts)]"
proof (induction attempts rule: rev_induct)
  case Nil
  then show ?case by (simp add: providers_named_def)
next
  case (snoc a xs)
  let ?p = "normalizedProvider s a" and ?P = "providers_named s xs" and ?G = "map (group_of s xs) [0..<length (providers_named s xs)]"
  have names: "map pg_provider ?G = ?P" by (simp add: group_of_def comp_def map_nth)
  show ?case
  proof (cases "?p \<in> set ?P")
    case True
    have "map (\<lambda>g. if pg_provider g = ?p then g\<lparr>pg_attempts := pg_attempts g @ [normalize s a]\<rparr> else g) ?G
        = map (group_of s (xs @ [a])) [0..<length ?P]"
      using True by (auto simp: group_of_def providers_named_snoc normalize_def)
    with True show ?thesis
      by (simp only: fold_append fold.simps comp_apply id_apply snoc.IH add_to_group_eq [of s a] names providers_named_snoc if_True)
  next
    case False
    have "map (group_of s (xs @ [a])) [0..<length ?P] = ?G"
      using False by (auto simp: group_of_def providers_named_snoc normalize_def nth_append)
    moreover have "group_of s (xs @ [a]) (length ?P) =
        \<lparr>pg_provider = ?p, pg_attempts = [normalize s a], pg_reliability = 0, pg_policyOrder = length ?P\<rparr>"
      using False no_model_of_new_provider [OF False] by (simp add: group_of_def providers_named_snoc normalize_def)
    ultimately show ?thesis using False
      by (simp add: snoc.IH add_to_group_eq [of s a] names providers_named_snoc del: map_map set_map)
  qed
qed

lemma sort_key_map: "sort_key f (map h xs) = map h (sort_key (\<lambda>x. f (h x)) xs)"
proof -
  have "insort_key f (h x) (map h ys) = map h (insort_key (\<lambda>x. f (h x)) x ys)" for x ys
    by (induction ys) auto
  then show ?thesis by (induction xs) auto
qed

lemma sort_key_cong: "(\<And>x. x \<in> set xs \<Longrightarrow> f x = g x) \<Longrightarrow> sort_key f xs = sort_key g xs"
proof (induction xs)
  case (Cons x xs)
  have "insort_key f x ys = insort_key g x ys" if "\<And>y. y \<in> insert x (set ys) \<Longrightarrow> f y = g y" for ys
    using that by (induction ys) auto
  from this [of "sort_key g xs"] Cons show ?case by simp
qed simp

text \<open>Breaking ties by position is what a stable sort does.\<close>

lemma sort_key_position: "sort_key (\<lambda>i. (f i, i)) [0..<n] = sort_key f [0..<n]" for f :: "nat \<Rightarrow> 'b :: linorder"
proof (rule properties_for_sort_key [symmetric])
  let ?ys = "sort_key (\<lambda>i. (f i, i)) [0..<n]"
  have s: "sorted_wrt (\<lambda>i j. (f i, i) \<le> (f j, j)) ?ys"
    using sorted_sort_key [of "\<lambda>i. (f i, i)" "[0..<n]"] by (simp only: sorted_map)
  show "sorted (map f ?ys)"
    unfolding sorted_map using s by (rule sorted_wrt_mono_rel [rotated]) (auto simp: less_eq_prod_def)
  show "filter (\<lambda>x. f k = f x) ?ys = filter (\<lambda>x. f k = f x) [0..<n]" for k
  proof (rule sorted_distinct_set_unique)
    have "sorted_wrt (\<lambda>i j. (f i, i) \<le> (f j, j)) (filter (\<lambda>x. f k = f x) ?ys)" using s by (rule sorted_wrt_filter)
    then show "sorted (filter (\<lambda>x. f k = f x) ?ys)"
      by (rule sorted_wrt_mono_rel [rotated]) (auto simp: less_eq_prod_def)
  qed (simp_all add: sorted_wrt_filter)
qed simp

text \<open>C13. The ranking is exactly the reference order: providers stay together and come by rising balance less
  the score of their best model, ties in the order in which the chain names them; inside a provider the
  models come by falling score, ties in the order of the chain (without scoring, all in the order of
  the chain and each provider counted with the initial score); and nothing is lost or invented.\<close>

theorem ranking_correct:
  "rankAttemptsLocked env s attempts senv = rank_reference env s attempts senv \<and>
   mset (rankAttemptsLocked env s attempts senv) = mset (map (normalize s) attempts)"
proof -
  let ?P = "providers_named s attempts" and ?n = "length (providers_named s attempts)"
  let ?R = "\<lambda>i. rank_group env s senv (group_of s attempts i)"
  have models: "pg_attempts (?R i) = provider_models env s senv attempts (?P ! i)" for i
    using slice_stable_sort_key [of "\<lambda>a. - score_of s senv a"]
    by (simp add: rank_group_def group_of_def provider_models_def Let_def)
  have some: "pg_attempts (?R i) \<noteq> []" if "i < ?n" for i
  proof -
    have "?P ! i \<in> set ?P" using that by simp
    then have "?P ! i \<in> normalizedProvider s ` set attempts" by (simp add: providers_named_def)
    then have "filter (\<lambda>a. ma_Provider a = ?P ! i) (map (normalize s) attempts) \<noteq> []"
      by (auto simp: filter_empty_conv normalize_def)
    then show ?thesis unfolding models provider_models_def Let_def by (metis (no_types) mset_sort mset_zero_iff)
  qed
  have "use": "effective_use s (?R i) = provider_use env s senv attempts (?P ! i)" if "i < ?n" for i
    using some [OF that] models [of i]
    by (simp add: effective_use_def provider_use_def rank_group_def group_of_def Let_def split: if_splits)
  let ?k = "\<lambda>g. (effective_use s g, pg_policyOrder g)"
  have "slice_stable (group_less s) (map ?R [0..<?n]) = sort_key ?k (map ?R [0..<?n])"
    by (simp only: slice_stable_cong [OF group_less_key] slice_stable_sort_key)
  also have "\<dots> = map ?R (sort_key (\<lambda>i. (effective_use s (?R i), i)) [0..<?n])"
    by (simp add: sort_key_map group_of_def)
  also have "\<dots> = map ?R (sort_key (\<lambda>i. effective_use s (?R i)) [0..<?n])" by (simp only: sort_key_position)
  also have "sort_key (\<lambda>i. effective_use s (?R i)) [0..<?n] = sort_key (\<lambda>i. provider_use env s senv attempts (?P ! i)) [0..<?n]"
    by (rule sort_key_cong) (simp_all add: "use")
  finally have "rankAttemptsLocked env s attempts senv =
      concat (map (provider_models env s senv attempts) (map (\<lambda>i. ?P ! i) (sort_key (\<lambda>i. provider_use env s senv attempts (?P ! i)) [0..<?n])))"
    by (simp add: rankAttemptsLocked_def grouping_eq comp_def models Let_def)
  then have "rankAttemptsLocked env s attempts senv = rank_reference env s attempts senv"
    by (simp only: sort_key_map [symmetric] map_nth rank_reference_def)
  then show ?thesis using rankAttemptsLocked_mset by blast
qed

end
