(* ===== verification/Breaker.thy ===== *)
theory Breaker
  imports Scoring
begin

text \<open>
  The per-model and per-provider circuit breakers of \<open>src/internal/router/router_breaker.go\<close> and
  \<open>router_provider_breaker.go\<close>, and the error classifiers. A circuit is closed while \<open>OpenUntil\<close>
  is the zero time, open until that instant, and half-open after it.

  The functions that admit a request first look at the state under the read lock and then, when the
  circuit is half-open, claim the probe under the write lock; the two parts are separate
  definitions, since other requests run between them.

  A Go \<open>error\<close> of the transport is the record of what the classifier asks of it.
\<close>

section \<open>Definitions\<close>

definition truncateReason :: "string \<Rightarrow> string" where
  "truncateReason reason = (let t = trim_space reason in if length t \<le> 240 then t else take 240 t)"

definition not_open :: "go_time \<Rightarrow> modelBreakerState option \<Rightarrow> bool" where
  "not_open now state = (case state of None \<Rightarrow> True | Some st \<Rightarrow> \<not> after (bs_OpenUntil st) now)"

definition isProviderAvailableLocked :: "go_time \<Rightarrow> RouterService \<Rightarrow> providerID \<Rightarrow> bool" where
  "isProviderAvailableLocked now s provider = not_open now (m_get (rs_providerBreakers s) provider)"

text \<open>\<open>now1\<close> and \<open>now2\<close> are the clock readings of the provider check and of the model check.\<close>

definition isModelAvailableLocked :: "go_time \<Rightarrow> go_time \<Rightarrow> RouterService \<Rightarrow> modelAttempt \<Rightarrow> bool" where
  "isModelAvailableLocked now1 now2 s attempt =
     (if \<not> isProviderAvailableLocked now1 s (ma_Provider attempt) then False
      else not_open now2 (m_get (rs_modelBreakers s) (breakerKey s attempt)))"

text \<open>The part under the read lock: \<open>Some\<close> is a decision, \<open>None\<close> goes on to claim the probe.\<close>

definition start_read :: "go_time \<Rightarrow> modelBreakerState option \<Rightarrow> bool option" where
  "start_read now state = (case state of
       None \<Rightarrow> Some True
     | Some st \<Rightarrow>
         if is_zero (bs_OpenUntil st) then Some True
         else if before now (bs_OpenUntil st) then Some False
         else None)"

definition probe_ttl :: "RouterService \<Rightarrow> duration" where
  "probe_ttl s = (let ttl = bc_RequestTimeout (rs_config s) in if ttl \<le> 0 then 45 * second else ttl)"

text \<open>The part under the write lock.\<close>

definition start_claim ::
  "duration \<Rightarrow> go_time \<Rightarrow> modelBreakerState option \<Rightarrow> modelBreakerState option \<times> bool" where
  "start_claim ttl now state = (case state of
       None \<Rightarrow> (None, True)
     | Some st \<Rightarrow>
         if is_zero (bs_OpenUntil st) then (Some st, True)
         else if before now (bs_OpenUntil st) then (Some st, False)
         else if before now (bs_ProbeUntil st) then (Some st, False)
         else (Some (st\<lparr>bs_ProbeUntil := add_dur now ttl\<rparr>), True))"

definition put_model :: "string \<Rightarrow> modelBreakerState option \<Rightarrow> RouterService \<Rightarrow> RouterService" where
  "put_model key state s = (case state of None \<Rightarrow> s
     | Some st \<Rightarrow> s\<lparr>rs_modelBreakers := m_set key st (rs_modelBreakers s)\<rparr>)"

definition put_provider :: "providerID \<Rightarrow> modelBreakerState option \<Rightarrow> RouterService \<Rightarrow> RouterService" where
  "put_provider key state s = (case state of None \<Rightarrow> s
     | Some st \<Rightarrow> s\<lparr>rs_providerBreakers := m_set key st (rs_providerBreakers s)\<rparr>)"

definition tryStartAttempt ::
  "go_time \<Rightarrow> go_time \<Rightarrow> modelAttempt \<Rightarrow> RouterService \<Rightarrow> RouterService \<times> bool" where
  "tryStartAttempt now1 now2 attempt s =
     (let key = breakerKey s attempt
      in case start_read now1 (m_get (rs_modelBreakers s) key) of
           Some ok \<Rightarrow> (s, ok)
         | None \<Rightarrow>
             let (st, ok) = start_claim (probe_ttl s) now2 (m_get (rs_modelBreakers s) key)
             in (put_model key st s, ok))"

definition tryStartProvider ::
  "go_time \<Rightarrow> go_time \<Rightarrow> modelAttempt \<Rightarrow> RouterService \<Rightarrow> RouterService \<times> bool" where
  "tryStartProvider now1 now2 attempt s =
     (let provider = ma_Provider attempt
      in case start_read now1 (m_get (rs_providerBreakers s) provider) of
           Some ok \<Rightarrow> (s, ok)
         | None \<Rightarrow>
             let (st, ok) = start_claim (probe_ttl s) now2 (m_get (rs_providerBreakers s) provider)
             in (put_provider provider st s, ok))"

text \<open>The body of \<open>recordFailure\<close> on one state; \<open>now1\<close>, \<open>now2\<close>, \<open>now3\<close> are its clock readings. The
  last argument is the optional \<open>retryAfter\<close>.\<close>

definition fail_state ::
  "RouterService \<Rightarrow> modelAttempt \<Rightarrow> int \<Rightarrow> string \<Rightarrow> go_time \<Rightarrow> go_time \<Rightarrow> go_time \<Rightarrow>
   duration option \<Rightarrow> modelBreakerState \<Rightarrow> modelBreakerState" where
  "fail_state s attempt statusCode reason now1 now2 now3 retryAfter st =
     (let st = (if \<not> is_zero (bs_OpenUntil st) \<and> after now1 (bs_OpenUntil st)
                then st\<lparr>bs_ConsecutiveFailures := 0, bs_OpenUntil := zero_time\<rparr> else st);
          st = st\<lparr>bs_ProbeUntil := zero_time,
                  bs_ConsecutiveFailures := wrap64 (bs_ConsecutiveFailures st + 1),
                  bs_LastFailureCode := statusCode,
                  bs_LastFailureReason := truncateReason reason,
                  bs_LastFailureAt := now2\<rparr>;
          threshold = (if bp_FailureThreshold (ma_BreakerPolicy attempt) > 0
                       then bp_FailureThreshold (ma_BreakerPolicy attempt)
                       else bc_FailureThreshold (rs_config s));
          cooldown = (if bp_Cooldown (ma_BreakerPolicy attempt) > 0
                      then bp_Cooldown (ma_BreakerPolicy attempt) else bc_Cooldown (rs_config s));
          cooldown = (case retryAfter of None \<Rightarrow> cooldown
                      | Some d \<Rightarrow> if d > cooldown then d else cooldown)
      in if bs_ConsecutiveFailures st \<ge> threshold
         then let until = add_dur now3 cooldown
              in if after until (bs_OpenUntil st) then st\<lparr>bs_OpenUntil := until\<rparr> else st
         else st)"

definition recordFailure ::
  "go_time \<Rightarrow> go_time \<Rightarrow> go_time \<Rightarrow> modelAttempt \<Rightarrow> int \<Rightarrow> string \<Rightarrow> duration option \<Rightarrow>
   RouterService \<Rightarrow> RouterService" where
  "recordFailure now1 now2 now3 attempt statusCode reason retryAfter s =
     upd_model_breaker (breakerKey s attempt)
       (fail_state s attempt statusCode reason now1 now2 now3 retryAfter) s"

definition close_state :: "modelBreakerState \<Rightarrow> modelBreakerState" where
  "close_state st = st\<lparr>bs_ConsecutiveFailures := 0, bs_OpenUntil := zero_time,
     bs_ProbeUntil := zero_time, bs_LastFailureCode := 0, bs_LastFailureReason := [],
     bs_LastFailureAt := zero_time\<rparr>"

definition resolveProbe :: "modelAttempt \<Rightarrow> RouterService \<Rightarrow> RouterService" where
  "resolveProbe attempt s = upd_model_breaker (breakerKey s attempt) close_state s"

definition recordSuccess ::
  "process_env \<Rightarrow> go_time \<Rightarrow> modelAttempt \<Rightarrow> RouterService \<Rightarrow> RouterService" where
  "recordSuccess env now attempt s =
     (let (s, senv) = countScoredAttempt env now s
      in markScoresDirty (upd_model_breaker (breakerKey s attempt)
           (\<lambda>st. applyScoreSuccess senv ((close_state st)\<lparr>bs_Successes := wrap64 (bs_Successes st + 1)\<rparr>)) s))"

definition resolveProviderSuccess :: "providerID \<Rightarrow> RouterService \<Rightarrow> RouterService" where
  "resolveProviderSuccess provider s = upd_provider_breaker provider
     (\<lambda>st. (close_state st)\<lparr>bs_Successes := wrap64 (bs_Successes st + 1)\<rparr>) s"

definition resolveProviderProbe :: "providerID \<Rightarrow> RouterService \<Rightarrow> RouterService" where
  "resolveProviderProbe provider s = (case m_get (rs_providerBreakers s) provider of
       None \<Rightarrow> s
     | Some st \<Rightarrow> s\<lparr>rs_providerBreakers :=
         m_set provider (st\<lparr>bs_ProbeUntil := zero_time\<rparr>) (rs_providerBreakers s)\<rparr>)"

definition provider_fail_state ::
  "RouterService \<Rightarrow> modelAttempt \<Rightarrow> int \<Rightarrow> string \<Rightarrow> bool \<Rightarrow> duration \<Rightarrow> go_time \<Rightarrow>
   modelBreakerState \<Rightarrow> modelBreakerState" where
  "provider_fail_state s attempt statusCode reason immediateOpen retryAfter now st =
     (let st = (if \<not> is_zero (bs_OpenUntil st) \<and> after now (bs_OpenUntil st)
                then st\<lparr>bs_ConsecutiveFailures := 0, bs_OpenUntil := zero_time\<rparr> else st);
          st = st\<lparr>bs_ProbeUntil := zero_time,
                  bs_ConsecutiveFailures := wrap64 (bs_ConsecutiveFailures st + 1),
                  bs_LastFailureCode := statusCode,
                  bs_LastFailureReason := truncateReason reason,
                  bs_LastFailureAt := now\<rparr>;
          threshold = (if bp_FailureThreshold (ma_BreakerPolicy attempt) > 0
                       then bp_FailureThreshold (ma_BreakerPolicy attempt)
                       else bc_FailureThreshold (rs_config s))
      in if immediateOpen \<or> bs_ConsecutiveFailures st \<ge> threshold
         then let cooldown = (if bp_Cooldown (ma_BreakerPolicy attempt) > 0
                              then bp_Cooldown (ma_BreakerPolicy attempt) else bc_Cooldown (rs_config s));
                  cooldown = (if retryAfter > cooldown then retryAfter else cooldown);
                  until = add_dur now cooldown
              in if after until (bs_OpenUntil st) then st\<lparr>bs_OpenUntil := until\<rparr> else st
         else st)"

definition recordProviderFailure ::
  "go_time \<Rightarrow> modelAttempt \<Rightarrow> int \<Rightarrow> string \<Rightarrow> bool \<Rightarrow> duration \<Rightarrow> RouterService \<Rightarrow> RouterService" where
  "recordProviderFailure now attempt statusCode reason immediateOpen retryAfter s =
     upd_provider_breaker (ma_Provider attempt)
       (provider_fail_state s attempt statusCode reason immediateOpen retryAfter now) s"

record BreakerSnapshot =
  sn_Model :: string
  sn_ConsecutiveFailures :: int
  sn_Successes :: int
  sn_LastFailureCode :: int
  sn_LastFailureReason :: string
  sn_LastFailureAt :: go_time
  sn_OpenUntil :: go_time
  sn_Score :: real
  sn_State :: string

definition circuit_state :: "go_time \<Rightarrow> modelBreakerState \<Rightarrow> string" where
  "circuit_state now st =
     (if after (bs_OpenUntil st) now then ''open''
      else if \<not> is_zero (bs_OpenUntil st) then ''half-open'' else ''closed'')"

definition providerBreakerSnapshot :: "go_time \<Rightarrow> RouterService \<Rightarrow> providerID \<Rightarrow> BreakerSnapshot" where
  "providerBreakerSnapshot now s provider =
     (let snapshot = \<lparr>sn_Model = ''provider:'' @ provider, sn_ConsecutiveFailures = 0,
            sn_Successes = 0, sn_LastFailureCode = 0, sn_LastFailureReason = [],
            sn_LastFailureAt = zero_time, sn_OpenUntil = zero_time, sn_Score = 0,
            sn_State = ''closed''\<rparr>
      in case m_get (rs_providerBreakers s) provider of
           None \<Rightarrow> snapshot
         | Some st \<Rightarrow> snapshot\<lparr>sn_ConsecutiveFailures := bs_ConsecutiveFailures st,
             sn_Successes := bs_Successes st, sn_LastFailureCode := bs_LastFailureCode st,
             sn_LastFailureReason := bs_LastFailureReason st,
             sn_LastFailureAt := bs_LastFailureAt st, sn_OpenUntil := bs_OpenUntil st,
             sn_State := circuit_state now st\<rparr>)"

text \<open>The candidates of every profile, each breaker key once, sorted. The map order of the profiles
  is that of the association list.\<close>

fun dedup_attempts ::
  "RouterService \<Rightarrow> string list \<Rightarrow> modelAttempt list \<Rightarrow> modelAttempt list" where
  "dedup_attempts s seen [] = []"
| "dedup_attempts s seen (a # as) =
     (if breakerKey s a \<in> set seen then dedup_attempts s seen as
      else a # dedup_attempts s (breakerKey s a # seen) as)"

definition allKnownAttempts :: "RouterService \<Rightarrow> modelAttempt list" where
  "allKnownAttempts s =
     (if rs_providerProfiles s \<noteq> []
      then sort_key (breakerKey s)
             (dedup_attempts s [] (concat (map (\<lambda>(profile, targets).
                map (\<lambda>t. newAttempt profile (pt_Model t) (pt_Provider t) (defaultBreakerPolicy s)) targets)
              (rs_providerProfiles s))))
      else sort_key (\<lambda>a. (ma_Profile a, ma_Model a))
             (dedup_attempts s [] (concat (map (\<lambda>(profile, chain).
                map (\<lambda>m. newAttempt profile m (defaultPolicyProvider s) (defaultBreakerPolicy s)) chain)
              (pc_Profiles (rs_policy s))))))"

text \<open>The soonest end of a cooldown among the attempts, \<open>0\<close> when none is open.\<close>

definition soonest_step :: "duration \<Rightarrow> duration \<Rightarrow> duration" where
  "soonest_step soonest d = (if soonest = 0 \<or> d < soonest then d else soonest)"

definition retryAfterForAttempts :: "go_time \<Rightarrow> RouterService \<Rightarrow> modelAttempt list \<Rightarrow> duration" where
  "retryAfterForAttempts now s attempts =
     fold (\<lambda>attempt soonest.
        case m_get (rs_modelBreakers s) (breakerKey s attempt) of
          None \<Rightarrow> soonest
        | Some st \<Rightarrow> if \<not> after (bs_OpenUntil st) now then soonest
                     else soonest_step soonest (sub_time (bs_OpenUntil st) now)) attempts 0"

definition openRouterDailyFreeQuotaPrefix :: string where
  "openRouterDailyFreeQuotaPrefix = ''OpenRouter daily free-model quota exhausted''"

fun daily_quota_loop ::
  "go_time \<Rightarrow> RouterService \<Rightarrow> string \<Rightarrow> modelAttempt list \<Rightarrow> string" where
  "daily_quota_loop now s message [] = message"
| "daily_quota_loop now s message (a # as) =
     (case m_get (rs_modelBreakers s) (breakerKey s a) of
        None \<Rightarrow> []
      | Some st \<Rightarrow>
          if \<not> after (bs_OpenUntil st) now then []
          else if \<not> has_prefix (bs_LastFailureReason st) openRouterDailyFreeQuotaPrefix then []
          else daily_quota_loop now s (if message = [] then bs_LastFailureReason st else message) as)"

definition dailyFreeQuotaReasonForAttempts ::
  "go_time \<Rightarrow> RouterService \<Rightarrow> modelAttempt list \<Rightarrow> string" where
  "dailyFreeQuotaReasonForAttempts now s attempts = daily_quota_loop now s [] attempts"

text \<open>\<open>clk\<close> gives the successive clock readings, two for each attempt.\<close>

fun filterAvailableAttempts ::
  "(nat \<Rightarrow> go_time) \<Rightarrow> RouterService \<Rightarrow> modelAttempt list \<Rightarrow> modelAttempt list" where
  "filterAvailableAttempts clk s [] = []"
| "filterAvailableAttempts clk s (a # as) =
     (let rest = filterAvailableAttempts (\<lambda>n. clk (n + 2)) s as
      in if isModelAvailableLocked (clk 0) (clk 1) s a then a # rest else rest)"

record healthSummary =
  hs_Status :: string
  hs_Ready :: bool
  hs_OpenCircuitCount :: nat

text \<open>The verdict \<open>healthFacts\<close> and \<open>Health\<close> share.\<close>

definition health_verdict :: "RouterService \<Rightarrow> nat \<Rightarrow> bool \<Rightarrow> healthSummary" where
  "health_verdict s openCount anyAvailable =
     (let status = (if openCount > 0 then ''degraded'' else ''ok''); ready = True;
          (ready, status) = (if \<not> anyAvailable then (False, ''unavailable'') else (ready, status));
          (ready, status) = (if rs_modelStrict s \<and> rs_modelWarnings s \<noteq> []
                             then (False, ''unavailable'') else (ready, status))
      in \<lparr>hs_Status = status, hs_Ready = ready, hs_OpenCircuitCount = openCount\<rparr>)"

definition open_count :: "go_time \<Rightarrow> ('k, modelBreakerState) gomap \<Rightarrow> nat" where
  "open_count now m = length (filter (\<lambda>(k, st). after (bs_OpenUntil st) now) m)"

definition healthFacts :: "go_time \<Rightarrow> (nat \<Rightarrow> go_time) \<Rightarrow> RouterService \<Rightarrow> healthSummary" where
  "healthFacts now clk s =
     health_verdict s (open_count now (rs_modelBreakers s) + open_count now (rs_providerBreakers s))
       (filterAvailableAttempts clk s (allKnownAttempts s) \<noteq> [])"

definition providerReliabilityLocked ::
  "RouterService \<Rightarrow> providerID \<Rightarrow> modelAttempt list \<Rightarrow> scoreEnv \<Rightarrow> real" where
  "providerReliabilityLocked s provider attempts senv =
     (let best = fold (\<lambda>a best. if normalizedProvider s a \<noteq> provider then best
                                else let score = score_of s senv a in if score > best then score else best)
                   attempts (- 1)
      in if best < 0 then 0 else best)"

definition profileNames :: "(string, string list) gomap \<Rightarrow> string list" where
  "profileNames profiles = sort (m_keys profiles)"

section \<open>Classifying errors\<close>

record transportError =
  te_text :: string
  te_canceled :: bool
  te_deadline :: bool
  te_netTimeout :: bool

definition classifyTransportError :: "transportError \<Rightarrow> attemptError" where
  "classifyTransportError err =
     (let timeout = te_deadline err \<or> te_netTimeout err;
          message = (if timeout then ''upstream timeout: '' else ''transport error: '') @ te_text err;
          lowerMessage = to_lower message
      in zeroError\<lparr>ae_StatusCode := (if timeout then 504 else 502), ae_Message := message,
           ae_BreakerEligible := True, ae_Retryable := True, ae_Timeout := timeout,
           ae_EOF := contains lowerMessage ''eof'' \<or> contains lowerMessage ''connection reset''\<rparr>)"

text \<open>\<open>cervoretry.ClassifyHTTPStatus\<close>: the status reported, and whether the failure counts toward the
  breaker and may be retried (the two flags are always equal).\<close>

definition ClassifyHTTPStatus :: "int \<Rightarrow> int \<times> bool" where
  "ClassifyHTTPStatus statusCode =
     (if statusCode = 429 then (503, True)
      else if statusCode \<ge> 500 then (502, True)
      else if statusCode = 408 then (504, True)
      else (statusCode, False))"

definition classifyHTTPError :: "int \<Rightarrow> attemptError" where
  "classifyHTTPError statusCode =
     (let (code, eligible) = ClassifyHTTPStatus statusCode;
          message = (if statusCode = 400 \<or> statusCode = 422 then ''request rejected''
            else if statusCode = 401 \<or> statusCode = 403 then ''provider authentication failed''
            else if statusCode = 429 then ''rate limited''
            else if statusCode = 504 \<or> statusCode = 408 then ''timeout''
            else ''upstream unavailable'')
      in zeroError\<lparr>ae_StatusCode := code, ae_Message := message, ae_BreakerEligible := eligible,
           ae_Retryable := eligible\<rparr>)"

section \<open>Opening and closing\<close>

definition eff_threshold :: "RouterService \<Rightarrow> modelAttempt \<Rightarrow> int" where
  "eff_threshold s a = (if bp_FailureThreshold (ma_BreakerPolicy a) > 0
     then bp_FailureThreshold (ma_BreakerPolicy a) else bc_FailureThreshold (rs_config s))"

definition eff_cooldown :: "RouterService \<Rightarrow> modelAttempt \<Rightarrow> duration \<Rightarrow> duration" where
  "eff_cooldown s a retryAfter = max retryAfter (if bp_Cooldown (ma_BreakerPolicy a) > 0
     then bp_Cooldown (ma_BreakerPolicy a) else bc_Cooldown (rs_config s))"

definition half_open_at :: "go_time \<Rightarrow> modelBreakerState \<Rightarrow> bool" where
  "half_open_at now st \<longleftrightarrow> bs_OpenUntil st \<noteq> 0 \<and> bs_OpenUntil st < now"

text \<open>Both breakers: the counter restarts at one when a cooldown has elapsed, the window opens when
  the counter reaches the threshold (or, for a provider, at once), and it never gets shorter.\<close>

lemma small_counter [simp]: "int64_ok 0" "int64_ok 1"
  by (simp_all add: int64_ok_def min_int64_def max_int64_def)

lemma fail_state_counter:
  "bs_ConsecutiveFailures (fail_state s a code reason now1 now2 now3 ra st) =
    (if half_open_at now1 st then 1 else wrap64 (bs_ConsecutiveFailures st + 1))"
  by (auto simp: fail_state_def Let_def half_open_at_def time_simps)

lemma fail_state_window:
  "bs_OpenUntil (fail_state s a code reason now1 now2 now3 (Some ra) st) =
    (let old = (if half_open_at now1 st then 0 else bs_OpenUntil st)
     in if (if half_open_at now1 st then 1 else wrap64 (bs_ConsecutiveFailures st + 1)) \<ge> eff_threshold s a
        then max old (now3 + eff_cooldown s a ra) else old)"
  by (auto simp: fail_state_def Let_def half_open_at_def eff_threshold_def eff_cooldown_def max_def time_simps)

lemma fail_state_no_retry_after:
  "0 \<le> bc_Cooldown (rs_config s) \<Longrightarrow> fail_state s a code reason now1 now2 now3 None st =
    fail_state s a code reason now1 now2 now3 (Some 0) st"
  by (simp add: fail_state_def Let_def)

lemma provider_fail_state_window:
  "bs_OpenUntil (provider_fail_state s a code reason imm ra now st) =
    (let old = (if half_open_at now st then 0 else bs_OpenUntil st)
     in if imm \<or> (if half_open_at now st then 1 else wrap64 (bs_ConsecutiveFailures st + 1)) \<ge> eff_threshold s a
        then max old (now + eff_cooldown s a ra) else old)"
  by (auto simp: provider_fail_state_def Let_def half_open_at_def eff_threshold_def eff_cooldown_def
      max_def time_simps)

lemma close_state_sel [simp]:
  "bs_OpenUntil (close_state st) = 0" "bs_ProbeUntil (close_state st) = 0"
  "bs_ConsecutiveFailures (close_state st) = 0" "bs_Score (close_state st) = bs_Score st"
  "bs_ScoreUpdatedAt (close_state st) = bs_ScoreUpdatedAt st" "bs_Successes (close_state st) = bs_Successes st"
  by (simp_all add: close_state_def time_simps)

section \<open>The half-open probe\<close>

lemma start_claim_cases:
  "start_claim ttl now (Some st) =
    (if bs_OpenUntil st = 0 then (Some st, True)
     else if now < bs_OpenUntil st \<or> now < bs_ProbeUntil st then (Some st, False)
     else (Some (st\<lparr>bs_ProbeUntil := now + ttl\<rparr>), True))"
  by (simp add: start_claim_def time_simps)

section \<open>Invariants of the service\<close>

text \<open>All stored scores are in the unit interval, a probe claim is only ever held on a circuit that is not
  closed, and the counters are Go integers.\<close>

definition breaker_ok :: "modelBreakerState \<Rightarrow> bool" where
  "breaker_ok st \<longleftrightarrow> score_ok st \<and> (bs_OpenUntil st = 0 \<longrightarrow> bs_ProbeUntil st = 0) \<and>
     int64_ok (bs_ConsecutiveFailures st) \<and> int64_ok (bs_Successes st)"

definition breakers_ok :: "RouterService \<Rightarrow> bool" where
  "breakers_ok s \<longleftrightarrow> (\<forall>k st. m_get (rs_modelBreakers s) k = Some st \<longrightarrow> breaker_ok st) \<and>
     (\<forall>p st. m_get (rs_providerBreakers s) p = Some st \<longrightarrow> breaker_ok st)"

lemma zeroBreaker_ok: "breaker_ok zeroBreaker"
  by (simp add: breaker_ok_def score_ok_def zeroBreaker_def time_simps)

lemma breakers_ok_get_or:
  "breakers_ok s \<Longrightarrow> breaker_ok (m_get_or zeroBreaker (rs_modelBreakers s) k)"
  "breakers_ok s \<Longrightarrow> breaker_ok (m_get_or zeroBreaker (rs_providerBreakers s) p)"
  by (auto simp: breakers_ok_def m_get_or_def zeroBreaker_ok split: option.splits)

lemma breakers_ok_upd_model:
  assumes "breakers_ok s" "\<And>st. breaker_ok st \<Longrightarrow> breaker_ok (f st)"
  shows "breakers_ok (upd_model_breaker k f s)"
  using assms breakers_ok_get_or(1) [OF assms(1), of k] by (auto simp: breakers_ok_def)

lemma breakers_ok_upd_provider:
  assumes "breakers_ok s" "\<And>st. breaker_ok st \<Longrightarrow> breaker_ok (f st)"
  shows "breakers_ok (upd_provider_breaker k f s)"
  using assms breakers_ok_get_or(2) [OF assms(1), of k] by (auto simp: breakers_ok_def)

lemma fail_state_sel [simp]:
  "bs_Score (fail_state s a code reason now1 now2 now3 ra st) = bs_Score st"
  "bs_Successes (fail_state s a code reason now1 now2 now3 ra st) = bs_Successes st"
  "bs_Score (provider_fail_state s a code reason imm d now st) = bs_Score st"
  "bs_Successes (provider_fail_state s a code reason imm d now st) = bs_Successes st"
  "bs_ProbeUntil (provider_fail_state s a code reason imm d now st) = 0"
  "bs_ProbeUntil (fail_state s a code reason now1 now2 now3 ra st) = 0"
  by (simp_all add: fail_state_def provider_fail_state_def Let_def time_simps)

lemma provider_fail_state_counter:
  "bs_ConsecutiveFailures (provider_fail_state s a code reason imm ra now st) =
    (if half_open_at now st then 1 else wrap64 (bs_ConsecutiveFailures st + 1))"
  by (auto simp: provider_fail_state_def Let_def half_open_at_def time_simps)

lemma breaker_ok_fail:
  "breaker_ok st \<Longrightarrow> breaker_ok (fail_state s a code reason now1 now2 now3 ra st)"
  "breaker_ok st \<Longrightarrow> breaker_ok (provider_fail_state s a code reason imm d now st)"
  by (auto simp: breaker_ok_def score_ok_def fail_state_counter provider_fail_state_counter)

lemma breaker_ok_close:
  "breaker_ok st \<Longrightarrow> breaker_ok (close_state st)"
  "breaker_ok st \<Longrightarrow> breaker_ok ((close_state st)\<lparr>bs_Successes := wrap64 (bs_Successes st + 1)\<rparr>)"
  by (auto simp: breaker_ok_def score_ok_def)

lemma breakers_ok_sel [simp]:
  "breakers_ok (markScoresDirty s) = breakers_ok s"
  "breakers_ok (s\<lparr>rs_scoreAttempts := n\<rparr>) = breakers_ok s"
  by (simp_all add: breakers_ok_def markScoresDirty_def)

lemma breakers_ok_recordFailure: "breakers_ok s \<Longrightarrow> breakers_ok (recordFailure n1 n2 n3 a code reason ra s)"
  unfolding recordFailure_def by (rule breakers_ok_upd_model) (auto intro: breaker_ok_fail)

lemma breakers_ok_recordProviderFailure:
  "breakers_ok s \<Longrightarrow> breakers_ok (recordProviderFailure now a code reason imm ra s)"
  unfolding recordProviderFailure_def by (rule breakers_ok_upd_provider) (auto intro: breaker_ok_fail)

lemma breakers_ok_resolve:
  "breakers_ok s \<Longrightarrow> breakers_ok (resolveProbe a s)"
  "breakers_ok s \<Longrightarrow> breakers_ok (resolveProviderSuccess p s)"
  unfolding resolveProbe_def resolveProviderSuccess_def
  by (rule breakers_ok_upd_model breakers_ok_upd_provider; auto intro: breaker_ok_close)+

lemma breakers_ok_recordSuccess: "breakers_ok s \<Longrightarrow> breakers_ok (recordSuccess env now a s)"
  unfolding recordSuccess_def countScoredAttempt_def
  by (auto simp: Let_def intro!: breakers_ok_upd_model)
    (auto simp: breaker_ok_def intro: apply_score_ok)

lemma breakers_ok_penalizeScore: "breakers_ok s \<Longrightarrow> breakers_ok (penalizeScore env now a code s)"
  unfolding penalizeScore_def countScoredAttempt_def
  by (auto simp: Let_def intro!: breakers_ok_upd_model)
    (auto simp: breaker_ok_def time_simps intro: apply_score_ok)

lemma breaker_ok_probe:
  "breaker_ok st \<Longrightarrow> \<not> is_zero (bs_OpenUntil st) \<Longrightarrow> breaker_ok (st\<lparr>bs_ProbeUntil := t\<rparr>)"
  by (simp add: breaker_ok_def score_ok_def time_simps)

lemma breakers_ok_tryStart:
  assumes "breakers_ok s"
  shows "breakers_ok (fst (tryStartAttempt n1 n2 a s))" "breakers_ok (fst (tryStartProvider n1 n2 a s))"
  using assms
  by (auto simp: tryStartAttempt_def tryStartProvider_def Let_def put_model_def put_provider_def
      breakers_ok_def start_claim_def split: option.splits prod.splits if_splits
      intro: breaker_ok_probe)

lemma breakers_ok_resolveProviderProbe:
  assumes "breakers_ok s" shows "breakers_ok (resolveProviderProbe p s)"
  using assms by (auto simp: resolveProviderProbe_def breakers_ok_def breaker_ok_def score_ok_def time_simps
      split: option.splits)

section \<open>Steps of the service\<close>

text \<open>Every method that writes breaker state, at arbitrary instants and interleaved as the lock
  orders them.\<close>

inductive breaker_step :: "RouterService \<Rightarrow> RouterService \<Rightarrow> bool" where
  start_model: "breaker_step s (fst (tryStartAttempt n1 n2 a s))"
| start_provider: "breaker_step s (fst (tryStartProvider n1 n2 a s))"
| failure: "breaker_step s (recordFailure n1 n2 n3 a code reason ra s)"
| provider_failure: "breaker_step s (recordProviderFailure now a code reason imm d s)"
| success: "breaker_step s (recordSuccess env now a s)"
| resolve: "breaker_step s (resolveProbe a s)"
| provider_success: "breaker_step s (resolveProviderSuccess p s)"
| provider_probe: "breaker_step s (resolveProviderProbe p s)"
| penalize: "breaker_step s (penalizeScore env now a code s)"

inductive_cases breaker_stepE: "breaker_step s s'"

definition fresh_breakers :: "RouterService \<Rightarrow> bool" where
  "fresh_breakers s \<longleftrightarrow> rs_modelBreakers s = [] \<and> rs_providerBreakers s = []"

lemma breaker_step_ok: "breaker_step s s' \<Longrightarrow> breakers_ok s \<Longrightarrow> breakers_ok s'"
  by (erule breaker_stepE)
    (simp_all add: breakers_ok_tryStart breakers_ok_recordFailure breakers_ok_recordProviderFailure
      breakers_ok_recordSuccess breakers_ok_resolve breakers_ok_resolveProviderProbe breakers_ok_penalizeScore)

text \<open>A step moves the failure counter of a circuit by at most one, up to the wrap of Go's integers, or
  resets it.\<close>

lemma breaker_step_counter:
  assumes "breaker_step s s'"
  shows "m_get (rs_modelBreakers s') k = Some st \<Longrightarrow>
      bs_ConsecutiveFailures st \<in> (let c = bs_ConsecutiveFailures (m_get_or zeroBreaker (rs_modelBreakers s) k) in {0, 1, c, wrap64 (c + 1)})"
    and "m_get (rs_providerBreakers s') p = Some st \<Longrightarrow>
      bs_ConsecutiveFailures st \<in> (let c = bs_ConsecutiveFailures (m_get_or zeroBreaker (rs_providerBreakers s) p) in {0, 1, c, wrap64 (c + 1)})"
  using assms
  by (auto elim!: breaker_stepE simp: Let_def tryStartAttempt_def tryStartProvider_def put_model_def put_provider_def
      start_claim_def recordFailure_def recordProviderFailure_def fail_state_counter provider_fail_state_counter
      recordSuccess_def penalizeScore_def countScoredAttempt_def markScoresDirty_def resolveProbe_def
      resolveProviderSuccess_def resolveProviderProbe_def m_get_or_def split: option.splits prod.splits if_splits)

section \<open>Properties\<close>

text \<open>The service once the example model has failed as often as its threshold says, at instant
  \<open>1000\<close>.\<close>

definition ex_open :: RouterService where
  "ex_open = recordFailure 1000 1000 1000 ex_attempt 502 ''down'' None
     (recordFailure 1000 1000 1000 ex_attempt 502 ''down'' None ex_service)"

fun try_results :: "modelAttempt \<Rightarrow> (go_time \<times> go_time) list \<Rightarrow> RouterService \<Rightarrow> bool list" where
  "try_results a [] s = []"
| "try_results a ((t1, t2) # ts) s =
     (let (s', ok) = tryStartAttempt t1 t2 a s in ok # try_results a ts s')"

lemma try_while_probing:
  assumes "m_get (rs_modelBreakers s) (breakerKey s a) = Some st" "bs_OpenUntil st \<noteq> 0"
    "\<forall>(t1, t2) \<in> set ts. bs_OpenUntil st \<le> t1 \<and> t2 < bs_ProbeUntil st"
  shows "try_results a ts s = replicate (length ts) False"
  using assms(3)
proof (induction ts)
  case Nil
  then show ?case by simp
next
  case (Cons t ts)
  obtain t1 t2 where t: "t = (t1, t2)" by fastforce
  have "m_set (breakerKey s a) st (rs_modelBreakers s) = rs_modelBreakers s"
    using assms(1) by (simp add: update_triv)
  then have "tryStartAttempt t1 t2 a s = (s, False)"
    using assms(1,2) Cons.prems t
    by (auto simp: tryStartAttempt_def start_read_def start_claim_cases put_model_def time_simps Let_def)
  with Cons t show ?case by simp
qed

lemma ex_key: "breakerKey ex_service ex_attempt = ''coding:groq:m''"
  by (simp add: breakerKey_def ex_service_def ex_attempt_def newAttempt_def trim_space_def is_space_def
      provider_defs Let_def)

lemma recordFailure_key [simp]: "breakerKey (recordFailure n1 n2 n3 a code reason ra s) b = breakerKey s b"
  by (rule breakerKey_cong) (simp_all add: recordFailure_def)

lemma recordFailure_sel [simp]: "rs_config (recordFailure n1 n2 n3 a code reason ra s) = rs_config s"
  by (simp add: recordFailure_def)

lemma recordFailure_get:
  "m_get (rs_modelBreakers (recordFailure n1 n2 n3 a code reason ra s)) (breakerKey s a) =
    Some (fail_state s a code reason n1 n2 n3 ra (m_get_or zeroBreaker (rs_modelBreakers s) (breakerKey s a)))"
  by (simp add: recordFailure_def)

lemma ex_policy:
  "ma_BreakerPolicy ex_attempt = \<lparr>bp_FailureThreshold = 2, bp_Cooldown = 60 * second, bp_Eligible = True\<rparr>"
  by (simp add: ex_attempt_def newAttempt_def)

lemma ex_open_state:
  "\<exists>st. m_get (rs_modelBreakers ex_open) (breakerKey ex_open ex_attempt) = Some st \<and>
     bs_OpenUntil st = 60000001000 \<and> bs_ProbeUntil st = 0 \<and> bs_ConsecutiveFailures st = 2"
proof -
  let ?f = "\<lambda>s. fail_state s ex_attempt 502 ''down'' 1000 1000 1000 None"
  let ?s1 = "recordFailure 1000 1000 1000 ex_attempt 502 ''down'' None ex_service"
  have fs: "?f ?s1 st = ?f ex_service st" for st unfolding fail_state_def recordFailure_sel ..
  have zero: "m_get_or zeroBreaker (rs_modelBreakers ex_service) k = zeroBreaker" for k
    by (simp add: ex_service_def m_get_or_def)
  have open2: "m_get (rs_modelBreakers ex_open) (breakerKey ex_open ex_attempt) = Some (?f ex_service (?f ex_service zeroBreaker))"
    using recordFailure_get [of 1000 1000 1000 ex_attempt 502 "''down''" None ?s1]
      recordFailure_get [of 1000 1000 1000 ex_attempt 502 "''down''" None ex_service]
    by (simp add: ex_open_def m_get_or_def fs zero [unfolded m_get_or_def])
  have cool: "0 \<le> bc_Cooldown (rs_config ex_service)" by (simp add: ex_service_def)
  show ?thesis
    unfolding open2 fail_state_no_retry_after [OF cool]
    by (simp add: fail_state_window fail_state_counter Let_def half_open_at_def eff_threshold_def
        eff_cooldown_def ex_policy zeroBreaker_def wrap64_def time_simps)
qed

lemma ex_open_config: "probe_ttl ex_open = 45 * second"
  by (simp add: ex_open_def probe_ttl_def ex_service_def Let_def)

text \<open>C11. Single-flight recovery: when callers find a model's circuit half-open with no live probe,
  the first claim wins and every other caller whose claim falls within the probe's lifetime is
  refused, whatever the order of the reads before the claims.\<close>

theorem half_open_single_flight:
  assumes "m_get (rs_modelBreakers s) (breakerKey s a) = Some st" "bs_OpenUntil st \<noteq> 0"
    "bs_OpenUntil st \<le> t1" "bs_OpenUntil st \<le> t2" "bs_ProbeUntil st \<le> t2"
    "\<forall>(u1, u2) \<in> set ts. bs_OpenUntil st \<le> u1 \<and> u2 < t2 + probe_ttl s"
  shows "try_results a ((t1, t2) # ts) s = True # replicate (length ts) False"
proof -
  let ?st = "st\<lparr>bs_ProbeUntil := t2 + probe_ttl s\<rparr>" and ?k = "breakerKey s a"
  let ?s = "s\<lparr>rs_modelBreakers := m_set ?k ?st (rs_modelBreakers s)\<rparr>"
  have start: "tryStartAttempt t1 t2 a s = (?s, True)"
    using assms(1-5)
    by (simp add: tryStartAttempt_def start_read_def start_claim_cases put_model_def time_simps Let_def)
  have key: "breakerKey ?s a = ?k" by (rule breakerKey_cong) simp_all
  have "try_results a ts ?s = replicate (length ts) False"
    by (rule try_while_probing [of _ _ ?st]) (use assms key in auto)
  with start show ?thesis by simp
qed

theorem half_open_single_flight_witness:
  "try_results ex_attempt [(60000002000, 60000002000), (60000002000, 60000003000), (60000002500, 60000004000)] ex_open
    = [True, False, False]"
proof -
  from ex_open_state obtain st where st: "m_get (rs_modelBreakers ex_open) (breakerKey ex_open ex_attempt) = Some st"
    "bs_OpenUntil st = 60000001000" "bs_ProbeUntil st = 0" by auto
  from half_open_single_flight [OF st(1), of 60000002000 60000002000
      "[(60000002000, 60000003000), (60000002500, 60000004000)]"] st(2,3) show ?thesis
    by (simp add: ex_open_config numeral_2_eq_2)
qed

text \<open>A model failure counts once; the circuit opens exactly when the count reaches the threshold
  in force, for at least the cooldown and any longer \<open>Retry-After\<close>, and a window still running is
  never shortened. After an elapsed cooldown counting starts afresh.\<close>

theorem failure_opens_circuit:
  assumes "m_get_or zeroBreaker (rs_modelBreakers s) (breakerKey s a) = st"
    "m_get (rs_modelBreakers (recordFailure now now now a code reason (Some ra) s)) (breakerKey s a) = Some st'"
  shows "bs_ConsecutiveFailures st' = (if half_open_at now st then 1 else wrap64 (bs_ConsecutiveFailures st + 1)) \<and>
    (bs_ConsecutiveFailures st' \<ge> eff_threshold s a \<longrightarrow> now + eff_cooldown s a ra \<le> bs_OpenUntil st') \<and>
    (bs_ConsecutiveFailures st' < eff_threshold s a \<longrightarrow>
      bs_OpenUntil st' = (if half_open_at now st then 0 else bs_OpenUntil st)) \<and>
    (now \<le> bs_OpenUntil st \<longrightarrow> bs_OpenUntil st \<le> bs_OpenUntil st')"
  using assms
  by (auto simp: recordFailure_def fail_state_counter fail_state_window Let_def half_open_at_def)

theorem failure_opens_circuit_witness:
  "\<exists>st'. m_get (rs_modelBreakers (recordFailure 2000 2000 2000 ex_attempt 429 ''limit'' (Some 100000000000) ex_open))
      (breakerKey ex_open ex_attempt) = Some st' \<and> bs_ConsecutiveFailures st' = 3 \<and> 100000002000 \<le> bs_OpenUntil st'"
proof -
  from ex_open_state obtain st where st: "m_get (rs_modelBreakers ex_open) (breakerKey ex_open ex_attempt) = Some st"
    "bs_OpenUntil st = 60000001000" "bs_ConsecutiveFailures st = 2" by auto
  obtain st' where st': "m_get (rs_modelBreakers (recordFailure 2000 2000 2000 ex_attempt 429 ''limit''
      (Some 100000000000) ex_open)) (breakerKey ex_open ex_attempt) = Some st'"
    by (simp add: recordFailure_def)
  from failure_opens_circuit [OF _ st', of st] st show ?thesis
    by (auto simp: st' m_get_or_def half_open_at_def eff_threshold_def eff_cooldown_def ex_policy wrap64_def)
qed

text \<open>A success, or a response that resolves the probe, closes the circuit: the model is available
  and the next attempt starts, at any instant, provided its provider's circuit is not open.\<close>

theorem success_closes_circuit:
  assumes "isProviderAvailableLocked now1 s (ma_Provider a)"
    "s' \<in> {recordSuccess env now a s, resolveProbe a s}" "0 \<le> now2"
  shows "isModelAvailableLocked now1 now2 s' a \<and> tryStartAttempt now3 now4 a s' = (s', True)"
proof -
  have "rs_policy s' = rs_policy s \<and> rs_runtimeConfig s' = rs_runtimeConfig s \<and>
      rs_providerBreakers s' = rs_providerBreakers s \<and>
      (\<exists>st. m_get (rs_modelBreakers s') (breakerKey s a) = Some st \<and> bs_OpenUntil st = 0)"
    using assms(2) breakerKey_cong [of "s\<lparr>rs_scoreAttempts := n\<rparr>" s a for n]
    by (auto simp: recordSuccess_def resolveProbe_def countScoredAttempt_def Let_def markScoresDirty_def)
  moreover from this have "breakerKey s' a = breakerKey s a" by (intro breakerKey_cong) auto
  ultimately show ?thesis
    using assms(1,3)
    by (auto simp: isModelAvailableLocked_def isProviderAvailableLocked_def not_open_def
        tryStartAttempt_def start_read_def time_simps Let_def)
qed

theorem success_closes_circuit_witness:
  "isModelAvailableLocked 5000 5000 (resolveProbe ex_attempt ex_open) ex_attempt"
proof -
  have "isProviderAvailableLocked 5000 ex_open (ma_Provider ex_attempt)"
    by (simp add: isProviderAvailableLocked_def not_open_def ex_open_def recordFailure_def ex_service_def)
  from success_closes_circuit [OF this, where s' = "resolveProbe ex_attempt ex_open"] show ?thesis by simp
qed

end
