(* ===== verification/Affinity.thy ===== *)
theory Affinity
  imports Router_Types
begin

text \<open>
  Session affinity, \<open>src/internal/router/router_affinity.go\<close>: a bounded store that remembers which
  provider and model last served a session, least recently used out first.

  The store of the source is a map from keys to the elements of a doubly linked list. An element is
  its number here, the list is a list of numbered elements from front to back, and \<open>af_next\<close> is the
  next number. The abstract view is the list of entries alone; the two agree while the map and the
  list index the same elements, which every operation keeps.

  \<open>mac\<close> stands for hex-encoded HMAC-SHA256.
\<close>

section \<open>Definitions\<close>

record affinityRoute =
  af_Provider :: providerID
  af_Model :: string
  af_usedAt :: go_time

record affinityCacheEntry =
  ae_key :: string
  ae_route :: affinityRoute

record affinityStore =
  af_secret :: string
  af_ttl :: duration
  af_maxEntries :: int
  af_entries :: "(string, nat) gomap"
  af_recency :: "(nat \<times> affinityCacheEntry) list"
  af_next :: nat

definition newAffinityStore :: "string \<Rightarrow> duration \<Rightarrow> int \<Rightarrow> affinityStore" where
  "newAffinityStore secret ttl maxEntries =
     \<lparr>af_secret = secret, af_ttl = (if ttl \<le> 0 then 24 * hour else ttl),
      af_maxEntries = (if maxEntries < 1 then 8192 else maxEntries),
      af_entries = [], af_recency = [], af_next = 0\<rparr>"

definition session_key ::
  "(string \<Rightarrow> string \<Rightarrow> string) \<Rightarrow> affinityStore \<Rightarrow> string \<Rightarrow> string \<Rightarrow> string" where
  "session_key mac st sessionID credential =
     (if trim_space sessionID = [] then []
      else mac (af_secret st) (trim_space credential @ [CHR 0x00] @ trim_space sessionID))"

definition sessionHeaders :: "string list" where
  "sessionHeaders = [''X-Calvoproxy-Session-Id'', ''X-Claude-Code-Session-Id'', ''X-Session-Id'',
     ''X-Opencode-Session'']"

fun first_session :: "(string \<Rightarrow> string) \<Rightarrow> string list \<Rightarrow> string" where
  "first_session hdr [] = []"
| "first_session hdr (h # hs) =
     (if trim_space (hdr h) \<noteq> [] then trim_space (hdr h) else first_session hdr hs)"

definition keyForRequest ::
  "(string \<Rightarrow> string \<Rightarrow> string) \<Rightarrow> affinityStore \<Rightarrow> (string \<Rightarrow> string) \<Rightarrow> string \<Rightarrow> string" where
  "keyForRequest mac st hdr credential =
     (let value = first_session hdr sessionHeaders
      in if value = [] then [] else session_key mac st value credential)"

text \<open>\<open>recency.Remove\<close> and \<open>recency.MoveToFront\<close> with a new value for the element.\<close>

definition remove_elem :: "nat \<Rightarrow> (nat \<times> affinityCacheEntry) list \<Rightarrow> (nat \<times> affinityCacheEntry) list" where
  "remove_elem e xs = m_del e xs"

definition move_front ::
  "nat \<Rightarrow> affinityCacheEntry \<Rightarrow> (nat \<times> affinityCacheEntry) list \<Rightarrow> (nat \<times> affinityCacheEntry) list" where
  "move_front e v xs = (e, v) # m_del e xs"

definition noRoute :: affinityRoute where
  "noRoute = \<lparr>af_Provider = [], af_Model = [], af_usedAt = zero_time\<rparr>"

definition noEntry :: affinityCacheEntry where
  "noEntry = \<lparr>ae_key = [], ae_route = noRoute\<rparr>"

definition preferred ::
  "go_time \<Rightarrow> affinityStore \<Rightarrow> string \<Rightarrow> affinityStore \<times> affinityRoute option" where
  "preferred now st key =
     (if key = [] then (st, None)
      else case m_get (af_entries st) key of
             None \<Rightarrow> (st, None)
           | Some e \<Rightarrow>
               let entry = m_get_or noEntry (af_recency st) e
               in if sub_time now (af_usedAt (ae_route entry)) > af_ttl st
                  then (st\<lparr>af_entries := m_del key (af_entries st),
                           af_recency := remove_elem e (af_recency st)\<rparr>, None)
                  else let entry = entry\<lparr>ae_route := (ae_route entry)\<lparr>af_usedAt := now\<rparr>\<rparr>
                       in (st\<lparr>af_recency := move_front e entry (af_recency st)\<rparr>, Some (ae_route entry)))"

definition route_of :: "go_time \<Rightarrow> modelAttempt \<Rightarrow> affinityRoute" where
  "route_of now attempt = \<lparr>af_Provider = ma_Provider attempt, af_Model = ma_Model attempt, af_usedAt = now\<rparr>"

definition pin :: "go_time \<Rightarrow> string \<Rightarrow> modelAttempt \<Rightarrow> affinityStore \<Rightarrow> affinityStore" where
  "pin now key attempt st =
     (if key = [] \<or> ma_Provider attempt = [] \<or> trim_space (ma_Model attempt) = [] then st
      else
        let entry = \<lparr>ae_key = key, ae_route = route_of now attempt\<rparr>
        in case m_get (af_entries st) key of
             Some e \<Rightarrow> st\<lparr>af_recency := move_front e entry (af_recency st)\<rparr>
           | None \<Rightarrow>
               let st = st\<lparr>af_recency := (af_next st, entry) # af_recency st,
                           af_entries := m_set key (af_next st) (af_entries st),
                           af_next := Suc (af_next st)\<rparr>
               in if int (length (af_entries st)) \<le> af_maxEntries st then st
                  else case rev (af_recency st) of
                         [] \<Rightarrow> st
                       | (e, oldest) # _ \<Rightarrow>
                           st\<lparr>af_entries := m_del (ae_key oldest) (af_entries st),
                              af_recency := remove_elem e (af_recency st)\<rparr>)"

definition forget :: "string \<Rightarrow> modelAttempt \<Rightarrow> affinityStore \<Rightarrow> affinityStore" where
  "forget key attempt st =
     (if key = [] then st
      else case m_get (af_entries st) key of
             None \<Rightarrow> st
           | Some e \<Rightarrow>
               let entry = m_get_or noEntry (af_recency st) e
               in if af_Provider (ae_route entry) = ma_Provider attempt \<and>
                     af_Model (ae_route entry) = ma_Model attempt
                  then st\<lparr>af_entries := m_del key (af_entries st),
                          af_recency := remove_elem e (af_recency st)\<rparr>
                  else st)"

text \<open>The loop of \<open>applySessionAffinity\<close>: the first attempt on the preferred route moves to the front.\<close>

fun promote :: "affinityRoute \<Rightarrow> modelAttempt list \<Rightarrow> modelAttempt list \<Rightarrow> modelAttempt list" where
  "promote r acc [] = rev acc"
| "promote r acc (a # as) =
     (if ma_Provider a = af_Provider r \<and> ma_Model a = af_Model r then a # rev acc @ as
      else promote r (a # acc) as)"

definition applySessionAffinity ::
  "go_time \<Rightarrow> string \<Rightarrow> affinityStore \<Rightarrow> modelAttempt list \<Rightarrow> affinityStore \<times> modelAttempt list" where
  "applySessionAffinity now key st attempts =
     (case preferred now st key of
        (st, None) \<Rightarrow> (st, attempts)
      | (st, Some r) \<Rightarrow> (st, promote r [] attempts))"

definition recordAffinitySuccess :: "go_time \<Rightarrow> string \<Rightarrow> modelAttempt \<Rightarrow> affinityStore \<Rightarrow> affinityStore" where
  "recordAffinitySuccess now key attempt st = pin now key attempt st"

definition recordAffinityFailure :: "string \<Rightarrow> modelAttempt \<Rightarrow> affinityStore \<Rightarrow> affinityStore" where
  "recordAffinityFailure key attempt st = forget key attempt st"

section \<open>The abstract store\<close>

text \<open>Entries from most to least recently used.\<close>

type_synonym lru = "(string \<times> affinityRoute) list"

definition lru_of :: "affinityStore \<Rightarrow> lru" where
  "lru_of st = map (\<lambda>(e, entry). (ae_key entry, ae_route entry)) (af_recency st)"

definition lru_preferred :: "duration \<Rightarrow> go_time \<Rightarrow> string \<Rightarrow> lru \<Rightarrow> lru \<times> affinityRoute option" where
  "lru_preferred ttl now key xs = (case m_get xs key of
       None \<Rightarrow> (xs, None)
     | Some r \<Rightarrow> if sub_time now (af_usedAt r) > ttl then (m_del key xs, None)
                 else ((key, r\<lparr>af_usedAt := now\<rparr>) # m_del key xs, Some (r\<lparr>af_usedAt := now\<rparr>)))"

definition lru_pin :: "int \<Rightarrow> string \<Rightarrow> affinityRoute \<Rightarrow> lru \<Rightarrow> lru" where
  "lru_pin cap key r xs =
     (let ys = (key, r) # m_del key xs
      in if m_get xs key = None \<and> int (length ys) > cap then butlast ys else ys)"

definition lru_forget :: "string \<Rightarrow> providerID \<Rightarrow> string \<Rightarrow> lru \<Rightarrow> lru" where
  "lru_forget key p m xs = (case m_get xs key of
       None \<Rightarrow> xs
     | Some r \<Rightarrow> if af_Provider r = p \<and> af_Model r = m then m_del key xs else xs)"

text \<open>The map indexes exactly the elements of the list, each under its own key.\<close>

definition indexes :: "(string, nat) gomap \<Rightarrow> (nat \<times> affinityCacheEntry) list \<Rightarrow> bool" where
  "indexes es xs \<longleftrightarrow> (\<forall>k e. m_get es k = Some e \<longleftrightarrow> (\<exists>v. m_get xs e = Some v \<and> ae_key v = k))"

definition store_ok :: "affinityStore \<Rightarrow> bool" where
  "store_ok st \<longleftrightarrow> m_wf (af_entries st) \<and> m_wf (af_recency st) \<and> m_wf (lru_of st) \<and>
     length (af_entries st) = length (af_recency st) \<and>
     indexes (af_entries st) (af_recency st) \<and>
     list_all (\<lambda>(e, v). e < af_next st) (af_recency st) \<and>
     int (length (af_recency st)) \<le> af_maxEntries st"

section \<open>The store refines it\<close>

definition view :: "nat \<times> affinityCacheEntry \<Rightarrow> string \<times> affinityRoute" where
  "view x = (ae_key (snd x), ae_route (snd x))"

lemma lru_of_view: "lru_of st = map view (af_recency st)"
  by (simp add: lru_of_def view_def split_def)

lemma view_del:
  assumes "m_wf xs" "m_wf (map view xs)" "m_get xs e = Some v"
  shows "map view (m_del e xs) = m_del (ae_key v) (map view xs)"
  using assms
proof (induction xs)
  case Nil
  then show ?case by simp
next
  case (Cons x xs)
  obtain e' v' where x: "x = (e', v')" by fastforce
  show ?case
  proof (cases "e' = e")
    case True
    have "fst (view x) \<notin> fst ` set (map view xs)" using Cons.prems(2) by (simp add: image_image)
    moreover have "v' = v" "e \<notin> fst ` set xs" using Cons.prems True x by auto
    moreover have "fst (view x) = ae_key v'" by (simp add: view_def x)
    ultimately show ?thesis using True x by (simp add: view_def)
  next
    case False
    with Cons x have IH: "map view (m_del e xs) = m_del (ae_key v) (map view xs)" by simp
    have "(e, v) \<in> set xs" using Cons.prems(3) x False by (auto dest: map_of_SomeD)
    with Cons.prems(2) x have "ae_key v' \<noteq> ae_key v" by (force simp: view_def)
    moreover have "fst (view x) = ae_key v'" by (simp add: view_def x)
    ultimately show ?thesis using IH False x by simp
  qed
qed

lemma indexesD: "indexes es xs \<Longrightarrow> m_get es k = Some e \<longleftrightarrow> (\<exists>v. m_get xs e = Some v \<and> ae_key v = k)"
  by (simp add: indexes_def)

lemma indexes_del:
  assumes i: "indexes es xs" and e: "m_get es k = Some e"
  shows "indexes (m_del k es) (m_del e xs)"
  unfolding indexes_def
proof (intro allI)
  fix k' e'
  have "m_get (m_del k es) k' = Some e' \<longleftrightarrow> k' \<noteq> k \<and> m_get es k' = Some e'" by simp
  also have "\<dots> \<longleftrightarrow> e' \<noteq> e \<and> m_get es k' = Some e'"
    using e indexesD [OF i, of k e] indexesD [OF i, of k' e] by auto
  also have "\<dots> \<longleftrightarrow> (\<exists>v. m_get (m_del e xs) e' = Some v \<and> ae_key v = k')"
    by (simp add: indexesD [OF i])
  finally show "m_get (m_del k es) k' = Some e' \<longleftrightarrow> (\<exists>v. m_get (m_del e xs) e' = Some v \<and> ae_key v = k')" .
qed

lemma indexes_front:
  assumes i: "indexes es xs" and e: "m_get es k = Some e" and key: "ae_key v' = k"
  shows "indexes es (move_front e v' xs)"
  unfolding indexes_def
proof (intro allI)
  fix k' e'
  show "m_get es k' = Some e' \<longleftrightarrow> (\<exists>v. m_get (move_front e v' xs) e' = Some v \<and> ae_key v = k')"
    using e key indexesD [OF i, of k e] indexesD [OF i, of k' e'] by (auto simp: move_front_def)
qed

lemma indexes_push:
  assumes i: "indexes es xs" and k: "m_get es k = None" "m_get xs n = None" and key: "ae_key v = k"
  shows "indexes (m_set k n es) ((n, v) # xs)"
  unfolding indexes_def
proof (intro allI)
  fix k' e'
  show "m_get (m_set k n es) k' = Some e' \<longleftrightarrow> (\<exists>w. m_get ((n, v) # xs) e' = Some w \<and> ae_key w = k')"
    using k key indexesD [OF i, of k e'] indexesD [OF i, of k' n] indexesD [OF i, of k' e'] by auto
qed

lemma view_get:
  assumes "m_wf (map view xs)" "m_get xs e = Some v"
  shows "m_get (map view xs) (ae_key v) = Some (ae_route v)"
proof -
  have "view (e, v) \<in> set (map view xs)" using map_of_SomeD [OF assms(2)] by (metis image_eqI set_map)
  then show ?thesis using assms(1) by (intro map_of_is_SomeI) (simp_all add: view_def)
qed

lemma store_entry:
  assumes "store_ok st" "m_get (af_entries st) k = Some e"
  obtains v where "m_get (af_recency st) e = Some v" "ae_key v = k" "m_get (lru_of st) k = Some (ae_route v)"
    "map view (m_del e (af_recency st)) = m_del k (lru_of st)"
proof -
  from assms obtain v where v: "m_get (af_recency st) e = Some v" "ae_key v = k"
    using indexesD [of "af_entries st" "af_recency st" k e] by (auto simp: store_ok_def)
  from assms(1) have wf: "m_wf (af_recency st)" "m_wf (map view (af_recency st))"
    by (auto simp: store_ok_def lru_of_view)
  from that [OF v] view_get [OF wf(2) v(1)] view_del [OF wf v(1)] v(2) show thesis
    by (simp add: lru_of_view)
qed

lemma store_absent:
  assumes "store_ok st"
  shows "m_get (af_entries st) k = None \<longleftrightarrow> m_get (lru_of st) k = None"
proof
  assume none: "m_get (af_entries st) k = None"
  show "m_get (lru_of st) k = None"
  proof (rule ccontr)
    assume "m_get (lru_of st) k \<noteq> None"
    then obtain r where "(k, r) \<in> set (lru_of st)" by (auto dest: map_of_SomeD)
    then obtain e v where "(e, v) \<in> set (af_recency st)" "ae_key v = k" by (auto simp: lru_of_def)
    moreover have "m_wf (af_recency st)" using assms by (simp add: store_ok_def)
    ultimately have "m_get (af_entries st) k = Some e"
      using assms indexesD [of "af_entries st" "af_recency st" k e] by (auto simp: store_ok_def)
    with none show False by simp
  qed
next
  assume none: "m_get (lru_of st) k = None"
  show "m_get (af_entries st) k = None"
  proof (cases "m_get (af_entries st) k")
    case (Some e)
    from store_entry [OF assms this] none show ?thesis by auto
  qed
qed

lemma length_m_del: "m_wf m \<Longrightarrow> m_get m k = Some v \<Longrightarrow> Suc (length (m_del k m)) = length m"
  by (induction m) (auto simp: map_of_eq_None_iff)

lemma store_ok_delete:
  assumes ok: "store_ok st" and e: "m_get (af_entries st) k = Some e"
  shows "store_ok (st\<lparr>af_entries := m_del k (af_entries st), af_recency := m_del e (af_recency st)\<rparr>)"
    "lru_of (st\<lparr>af_entries := m_del k (af_entries st), af_recency := m_del e (af_recency st)\<rparr>) = m_del k (lru_of st)"
proof -
  let ?st = "st\<lparr>af_entries := m_del k (af_entries st), af_recency := m_del e (af_recency st)\<rparr>"
  from store_entry [OF ok e] obtain v where v: "m_get (af_recency st) e = Some v" "ae_key v = k"
    "map view (m_del e (af_recency st)) = m_del k (lru_of st)" .
  show lru: "lru_of ?st = m_del k (lru_of st)" using v(3) by (simp add: lru_of_view)
  have "indexes (af_entries ?st) (af_recency ?st)" using ok indexes_del [OF _ e] by (simp add: store_ok_def)
  moreover have "length (af_entries ?st) = length (af_recency ?st)"
    using ok length_m_del [OF _ e] length_m_del [OF _ v(1)] by (auto simp: store_ok_def)
  moreover have "length (m_del e (af_recency st)) \<le> length (af_recency st)"
    using ok length_m_del [OF _ v(1)] by (auto simp: store_ok_def)
  ultimately show "store_ok ?st"
    using ok lru by (auto simp: store_ok_def)
qed

lemma store_ok_front:
  assumes ok: "store_ok st" and e: "m_get (af_entries st) k = Some e" and key: "ae_key v' = k"
  shows "store_ok (st\<lparr>af_recency := move_front e v' (af_recency st)\<rparr>)"
    "lru_of (st\<lparr>af_recency := move_front e v' (af_recency st)\<rparr>) = (k, ae_route v') # m_del k (lru_of st)"
proof -
  let ?st = "st\<lparr>af_recency := move_front e v' (af_recency st)\<rparr>"
  from store_entry [OF ok e] obtain v where v: "m_get (af_recency st) e = Some v" "ae_key v = k"
    "map view (m_del e (af_recency st)) = m_del k (lru_of st)" .
  show lru: "lru_of ?st = (k, ae_route v') # m_del k (lru_of st)"
    using v(3) key by (simp add: lru_of_view move_front_def view_def)
  have wf: "m_wf (af_recency st)" "m_wf (lru_of st)" using ok by (auto simp: store_ok_def)
  have "m_wf (move_front e v' (af_recency st))"
    using wf(1) by (simp add: move_front_def delete_keys distinct_removeAll)
  moreover have "m_wf (lru_of ?st)" using wf(2) by (simp add: lru delete_keys distinct_removeAll)
  moreover have "length (move_front e v' (af_recency st)) = length (af_recency st)"
    using length_m_del [OF wf(1) v(1)] by (simp add: move_front_def)
  moreover have "list_all (\<lambda>(e, v). e < af_next st) (move_front e v' (af_recency st))"
    using ok list_all_getD [OF _ v(1), of "\<lambda>(e, v). e < af_next st"]
    by (simp add: store_ok_def move_front_def)
  moreover have "indexes (af_entries st) (move_front e v' (af_recency st))"
    using ok indexes_front [OF _ e key] by (simp add: store_ok_def)
  ultimately show "store_ok ?st" using ok by (simp add: store_ok_def)
qed

lemma store_ok_push:
  assumes ok: "store_ok st" and k: "m_get (af_entries st) k = None" and key: "ae_key v = k"
    and room: "int (length (af_recency st)) < cap" "af_maxEntries st \<le> cap"
  shows "store_ok (st\<lparr>af_recency := (af_next st, v) # af_recency st,
      af_entries := m_set k (af_next st) (af_entries st), af_next := Suc (af_next st), af_maxEntries := cap\<rparr>)"
proof -
  have fresh: "m_get (af_recency st) (af_next st) = None"
    using ok list_all_getD [of "\<lambda>(e, v). e < af_next st" "af_recency st" "af_next st"]
    by (cases "m_get (af_recency st) (af_next st)") (auto simp: store_ok_def)
  have lru: "m_get (lru_of st) k = None" using store_absent [OF ok] k by simp
  have "list_all (\<lambda>(e, v). e < Suc (af_next st)) ((af_next st, v) # af_recency st)"
    using ok by (auto simp: store_ok_def list_all_iff)
  moreover have "m_wf ((ae_key v, ae_route v) # lru_of st)"
    using ok lru key by (simp add: store_ok_def map_of_eq_None_iff)
  moreover have "m_wf ((af_next st, v) # af_recency st)"
    using ok fresh by (simp add: store_ok_def map_of_eq_None_iff)
  moreover have "indexes (m_set k (af_next st) (af_entries st)) ((af_next st, v) # af_recency st)"
    using ok indexes_push [OF _ k fresh key] by (simp add: store_ok_def)
  moreover have "k \<notin> fst ` set (af_entries st)" using k by (simp add: map_of_eq_None_iff)
  ultimately show ?thesis
    using ok k room by (simp add: store_ok_def lru_of_view view_def [abs_def] m_set_fresh)
qed

lemma m_del_last: "m_wf xs \<Longrightarrow> xs \<noteq> [] \<Longrightarrow> m_del (fst (last xs)) xs = butlast xs"
proof (induction xs)
  case (Cons x xs)
  show ?case
  proof (cases "xs = []")
    case False
    have "fst x \<notin> fst ` set xs" using Cons.prems(1) by simp
    then have "fst x \<noteq> fst (last xs)" using last_in_set [OF False] by (metis image_eqI)
    with Cons False show ?thesis by simp
  qed simp
qed simp

lemma store_ok_bound:
  "store_ok st \<Longrightarrow> int (length (af_recency st)) \<le> cap \<Longrightarrow> store_ok (st\<lparr>af_maxEntries := cap\<rparr>)"
  by (simp add: store_ok_def lru_of_def)

lemma lru_of_sel [simp]: "lru_of (st\<lparr>af_maxEntries := c\<rparr>) = lru_of st" "lru_of (st\<lparr>af_entries := es\<rparr>) = lru_of st"
  "lru_of (st\<lparr>af_next := n\<rparr>) = lru_of st"
  by (simp_all add: lru_of_def)

lemma evict_oldest:
  assumes ok: "store_ok st" and last: "rev (af_recency st) = (e, v) # xs"
  shows "store_ok (st\<lparr>af_entries := m_del (ae_key v) (af_entries st), af_recency := remove_elem e (af_recency st)\<rparr>)"
    "lru_of (st\<lparr>af_entries := m_del (ae_key v) (af_entries st), af_recency := remove_elem e (af_recency st)\<rparr>)
      = butlast (lru_of st)"
    "Suc (length (remove_elem e (af_recency st))) = length (af_recency st)"
proof -
  have rec: "af_recency st = rev xs @ [(e, v)]" using last by (metis rev.simps(2) rev_rev_ident)
  then have mem: "(e, v) \<in> set (af_recency st)" by simp
  have wf: "m_wf (af_recency st)" "m_wf (lru_of st)" "indexes (af_entries st) (af_recency st)"
    using ok by (auto simp: store_ok_def)
  have g: "m_get (af_recency st) e = Some v" using wf(1) mem by (rule map_of_is_SomeI)
  then have entry: "m_get (af_entries st) (ae_key v) = Some e" using indexesD [OF wf(3)] by blast
  have "last (lru_of st) = (ae_key v, ae_route v)" "lru_of st \<noteq> []" by (simp_all add: lru_of_def rec)
  then have "m_del (ae_key v) (lru_of st) = butlast (lru_of st)" using m_del_last [OF wf(2)] by simp
  with store_ok_delete [OF ok entry] show
    "store_ok (st\<lparr>af_entries := m_del (ae_key v) (af_entries st), af_recency := remove_elem e (af_recency st)\<rparr>)"
    "lru_of (st\<lparr>af_entries := m_del (ae_key v) (af_entries st), af_recency := remove_elem e (af_recency st)\<rparr>)
      = butlast (lru_of st)"
    by (simp_all add: remove_elem_def)
  show "Suc (length (remove_elem e (af_recency st))) = length (af_recency st)"
    unfolding remove_elem_def by (rule length_m_del [OF wf(1) g])
qed

lemma refine_preferred:
  assumes ok: "store_ok st" and key: "key \<noteq> []" and r: "preferred now st key = (st', r)"
  shows "store_ok st' \<and> (lru_of st', r) = lru_preferred (af_ttl st) now key (lru_of st)"
proof (cases "m_get (af_entries st) key")
  case None
  with ok key r store_absent [OF ok, of key] show ?thesis by (simp add: preferred_def lru_preferred_def)
next
  case (Some e)
  obtain v where v: "m_get (af_recency st) e = Some v" "ae_key v = key" "m_get (lru_of st) key = Some (ae_route v)"
    using store_entry [OF ok Some] by blast
  have get: "m_get_or noEntry (af_recency st) e = v" using v(1) by (simp add: m_get_or_def)
  let ?v = "v\<lparr>ae_route := (ae_route v)\<lparr>af_usedAt := now\<rparr>\<rparr>"
  show ?thesis
  proof (cases "sub_time now (af_usedAt (ae_route v)) > af_ttl st")
    case True
    with Some get key r v(3) store_ok_delete [OF ok Some] show ?thesis
      by (auto simp: preferred_def lru_preferred_def remove_elem_def Let_def)
  next
    case False
    with Some get key r v store_ok_front [OF ok Some, of ?v] show ?thesis
      by (auto simp: preferred_def lru_preferred_def Let_def)
  qed
qed

lemma refine_forget:
  assumes ok: "store_ok st" and key: "key \<noteq> []"
  shows "store_ok (forget key a st) \<and>
    lru_of (forget key a st) = lru_forget key (ma_Provider a) (ma_Model a) (lru_of st)"
proof (cases "m_get (af_entries st) key")
  case None
  with ok key store_absent [OF ok, of key] show ?thesis by (simp add: forget_def lru_forget_def)
next
  case (Some e)
  obtain v where v: "m_get (af_recency st) e = Some v" "m_get (lru_of st) key = Some (ae_route v)"
    using store_entry [OF ok Some] by blast
  then have get: "m_get_or noEntry (af_recency st) e = v" by (simp add: m_get_or_def)
  with Some key v(2) ok store_ok_delete [OF ok Some] show ?thesis
    by (simp add: forget_def lru_forget_def remove_elem_def Let_def)
qed

lemma refine_pin:
  assumes ok: "store_ok st" and key: "key \<noteq> []" "ma_Provider a \<noteq> []" "trim_space (ma_Model a) \<noteq> []"
  shows "store_ok (pin now key a st) \<and>
    lru_of (pin now key a st) = lru_pin (af_maxEntries st) key (route_of now a) (lru_of st)"
proof (cases "m_get (af_entries st) key")
  case (Some e)
  let ?v = "\<lparr>ae_key = key, ae_route = route_of now a\<rparr>"
  have "m_get (lru_of st) key \<noteq> None" using store_absent [OF ok, of key] Some by simp
  with Some key store_ok_front [OF ok Some, of ?v] show ?thesis
    by (auto simp: pin_def lru_pin_def Let_def)
next
  case None
  let ?v = "\<lparr>ae_key = key, ae_route = route_of now a\<rparr>"
  let ?st = "st\<lparr>af_recency := (af_next st, ?v) # af_recency st,
      af_entries := m_set key (af_next st) (af_entries st), af_next := Suc (af_next st)\<rparr>"
  let ?cap = "af_maxEntries st + 1"
  have len: "length (af_entries st) = length (af_recency st)" "int (length (af_recency st)) \<le> af_maxEntries st"
    using ok by (auto simp: store_ok_def)
  have ok1: "store_ok (?st\<lparr>af_maxEntries := ?cap\<rparr>)"
    using store_ok_push [OF ok None, of ?v ?cap] len by simp
  have none: "m_get (lru_of st) key = None" using store_absent [OF ok] None by simp
  have lru: "lru_of ?st = (key, route_of now a) # m_del key (lru_of st)"
    using none by (simp add: lru_of_def map_of_eq_None_iff)
  have len': "length (af_entries ?st) = Suc (length (af_recency st))" "length (lru_of ?st) = Suc (length (af_recency st))"
    using None len by (simp_all add: m_set_fresh lru_of_def)
  show ?thesis
  proof (cases "int (Suc (length (af_recency st))) \<le> af_maxEntries st")
    case True
    have "store_ok ((?st\<lparr>af_maxEntries := ?cap\<rparr>)\<lparr>af_maxEntries := af_maxEntries st\<rparr>)"
      using True by (intro store_ok_bound [OF ok1]) simp
    then have "store_ok ?st" by simp
    with True None key lru none len' show ?thesis by (simp add: pin_def lru_pin_def Let_def)
  next
    case False
    obtain e v xs where old: "rev (af_recency ?st) = (e, v) # xs" by (cases "rev (af_recency ?st)") auto
    have old': "rev (af_recency (?st\<lparr>af_maxEntries := ?cap\<rparr>)) = (e, v) # xs" using old by simp
    let ?st2 = "?st\<lparr>af_entries := m_del (ae_key v) (af_entries ?st), af_recency := remove_elem e (af_recency ?st)\<rparr>"
    note ev = evict_oldest [OF ok1 old']
    have "store_ok (?st2\<lparr>af_maxEntries := ?cap\<rparr>)" using ev(1) by (simp add: store_ok_def lru_of_def)
    then have "store_ok ((?st2\<lparr>af_maxEntries := ?cap\<rparr>)\<lparr>af_maxEntries := af_maxEntries st\<rparr>)"
      by (rule store_ok_bound) (use ev(3) len in simp)
    then have "store_ok ?st2" by simp
    moreover have "lru_of ?st2 = butlast (lru_of ?st)" using ev(2) by (simp add: lru_of_def)
    ultimately show ?thesis
      using False None key lru none len' old by (simp add: pin_def lru_pin_def Let_def)
  qed
qed

section \<open>Reachable stores\<close>

inductive affinity_step :: "affinityStore \<Rightarrow> affinityStore \<Rightarrow> bool" where
  lookup: "affinity_step st (fst (preferred now st key))"
| success: "affinity_step st (recordAffinitySuccess now key a st)"
| failure: "affinity_step st (recordAffinityFailure key a st)"

lemma affinity_sel [simp]:
  "af_maxEntries (fst (preferred now st key)) = af_maxEntries st"
  "af_maxEntries (pin now key a st) = af_maxEntries st"
  "af_maxEntries (forget key a st) = af_maxEntries st"
  by (auto simp: preferred_def pin_def forget_def Let_def split: option.splits list.splits)

lemma affinity_step_ok:
  assumes "affinity_step st st'" "store_ok st"
  shows "store_ok st' \<and> af_maxEntries st' = af_maxEntries st"
  using assms
proof (induction rule: affinity_step.induct)
  case (lookup st now key)
  then show ?case
    using refine_preferred [of st key now "fst (preferred now st key)" "snd (preferred now st key)"]
    by (cases "key = []") (simp add: preferred_def, auto simp: affinity_sel)
next
  case (success st now key a)
  then show ?case
    using refine_pin [of st key a now]
    by (cases "key = [] \<or> ma_Provider a = [] \<or> trim_space (ma_Model a) = []")
      (auto simp: recordAffinitySuccess_def, auto simp: pin_def)
next
  case (failure st key a)
  then show ?case
    using refine_forget [of st key a]
    by (cases "key = []") (simp_all add: recordAffinityFailure_def, simp add: forget_def)
qed

lemma affinity_steps_ok:
  "affinity_step\<^sup>*\<^sup>* st0 st \<Longrightarrow> store_ok st0 \<Longrightarrow> store_ok st \<and> af_maxEntries st = af_maxEntries st0"
  by (induction rule: rtranclp_induct) (auto dest: affinity_step_ok)

lemma promote_mset: "mset (promote r acc xs) = mset acc + mset xs"
  by (induction r acc xs rule: promote.induct) auto

lemma find_SomeD: "find P xs = Some a \<Longrightarrow> P a \<and> a \<in> set xs"
  by (induction xs) (auto split: if_splits)

lemma promote_split:
  "promote r acc xs =
    (case find (\<lambda>a. ma_Provider a = af_Provider r \<and> ma_Model a = af_Model r) xs of
       None \<Rightarrow> rev acc @ xs
     | Some a \<Rightarrow> a # rev acc @ remove1 a xs)"
proof (induction r acc xs rule: promote.induct)
  case (2 r acc a as)
  then show ?case by (auto split: option.split dest: find_SomeD)
qed simp

section \<open>Properties\<close>

text \<open>However sessions pin, look up and forget routes, the affinity store stays consistent and
  bounded: its map indexes exactly the elements of its list, no session appears twice, and there
  are never more entries than the configured maximum.\<close>

theorem affinity_store_bounded:
  assumes "affinity_step\<^sup>*\<^sup>* (newAffinityStore secret ttl n) st"
  shows "indexes (af_entries st) (af_recency st) \<and> distinct (map fst (lru_of st)) \<and>
    length (af_entries st) = length (lru_of st) \<and>
    int (length (lru_of st)) \<le> (if n < 1 then 8192 else n)"
proof -
  have "store_ok (newAffinityStore secret ttl n)"
    by (simp add: store_ok_def newAffinityStore_def lru_of_def indexes_def)
  from affinity_steps_ok [OF assms this] show ?thesis
    by (auto simp: store_ok_def newAffinityStore_def lru_of_def)
qed

theorem affinity_store_bounded_witness:
  "int (length (lru_of (recordAffinitySuccess 5 ''k'' ex_attempt (newAffinityStore [] 0 2)))) \<le> 2"
  using affinity_store_bounded [OF r_into_rtranclp [of affinity_step, OF affinity_step.success [of "newAffinityStore [] 0 2"]],
      of 5 "''k''" ex_attempt] by simp

text \<open>C16. Refinement: on consistent stores, looking a session up, pinning a route and forgetting one are
  the operations of a least-recently-used list: a hit within the time to live moves to the front,
  a stale hit is dropped, a pin goes to the front and evicts the last entry of a full store, and a
  failure forgets the session's route only if that route is the one that failed.\<close>

theorem affinity_refines_lru:
  assumes "affinity_step\<^sup>*\<^sup>* (newAffinityStore secret ttl n) st" "key \<noteq> []"
  shows "(let (st', r) = preferred now st key in (lru_of st', r) = lru_preferred (af_ttl st) now key (lru_of st)) \<and>
    (ma_Provider a \<noteq> [] \<and> trim_space (ma_Model a) \<noteq> [] \<longrightarrow>
      lru_of (pin now key a st) = lru_pin (af_maxEntries st) key (route_of now a) (lru_of st)) \<and>
    lru_of (forget key a st) = lru_forget key (ma_Provider a) (ma_Model a) (lru_of st)"
proof -
  have "store_ok (newAffinityStore secret ttl n)"
    by (simp add: store_ok_def newAffinityStore_def lru_of_def indexes_def)
  from affinity_steps_ok [OF assms(1) this] have ok: "store_ok st" by simp
  show ?thesis
    using refine_preferred [OF ok assms(2), of now] refine_pin [OF ok assms(2), of a now] refine_forget [OF ok assms(2), of a]
    by (auto split: prod.splits)
qed

theorem affinity_refines_lru_witness:
  "lru_of (pin 5 ''k'' ex_attempt (newAffinityStore [] 0 2)) = lru_pin 2 ''k'' (route_of 5 ex_attempt) []"
  using affinity_refines_lru [OF rtranclp.rtrancl_refl, of "''k''" 5 "[]" 0 2 ex_attempt]
  by (simp add: newAffinityStore_def lru_of_def ex_attempt_def newAttempt_def trim_space_def is_space_def)

text \<open>Affinity only reorders: the chain it returns is a permutation of the attempts, unchanged
  except that the first attempt on the preferred route, if there is one, comes first.\<close>

theorem affinity_reorders:
  "mset (snd (applySessionAffinity now key st attempts)) = mset attempts \<and>
   (snd (applySessionAffinity now key st attempts) = attempts \<or>
    (\<exists>r a. snd (preferred now st key) = Some r \<and> a \<in> set attempts \<and>
      ma_Provider a = af_Provider r \<and> ma_Model a = af_Model r \<and>
      snd (applySessionAffinity now key st attempts) = a # remove1 a attempts))"
proof (cases "preferred now st key")
  case (Pair st' ro)
  show ?thesis
  proof (cases ro)
    case None
    with Pair show ?thesis by (simp add: applySessionAffinity_def)
  next
    case (Some r)
    have res: "snd (applySessionAffinity now key st attempts) = promote r [] attempts"
      using Pair Some by (simp add: applySessionAffinity_def)
    show ?thesis
      unfolding res using Pair Some promote_mset [of r "[]" attempts] promote_split [of r "[]" attempts]
      by (auto split: option.splits dest: find_SomeD)
  qed
qed

end
