(* ===== verification/Fallback.thy ===== *)
theory Fallback
  imports Request_Body Breaker Affinity Ticket_Pool
begin

text \<open>
  The fallback chain, \<open>src/internal/router/router_fallback.go\<close>, with the retry decisions of
  \<open>router_policy_types.go\<close>.

  The world is the service, the affinity store and the clock; a caller extends the record with what
  else its executor works on (network, response writer). \<open>ExecuteAttempt\<close> is a parameter: a run of
  an attempt either returns, or evaluates the condition \<open>ReserveFallback == nil || ReserveFallback()\<close>
  and goes on with its value. The loop keeps the run's view of the sets of unavailable providers,
  pools and attempts. A ghost trace records which attempts ran, with their errors, and how
  long the loop waited.
\<close>

section \<open>Retry decisions\<close>

definition ShouldRetry :: "RetryPolicy \<Rightarrow> RetryAttempt \<Rightarrow> bool" where
  "ShouldRetry policy attempt \<longleftrightarrow>
     (ra_Timeout attempt \<and> rp_RetryOnTimeout policy) \<or>
     (ra_EOF attempt \<and> rp_RetryOnEOF policy) \<or>
     ra_Retryable attempt \<or>
     ra_StatusCode attempt \<in> set (rp_RetryHTTPStatuses policy)"

text \<open>\<open>time.Duration(math.Pow(2, n))\<close>: exact up to \<open>2^62\<close>, the minimum beyond on amd64.\<close>

definition pow2_duration :: "nat \<Rightarrow> duration" where
  "pow2_duration n = (if n < 63 then 2 ^ n else min_int64)"

definition RetryBackoff :: "RetryPolicy \<Rightarrow> nat \<Rightarrow> duration" where
  "RetryBackoff policy attemptIndex =
     (if attemptIndex = 0 then 0
      else
        let mn = (if rp_BackoffMin policy \<le> 0 then 100 * millisecond else rp_BackoffMin policy);
            maxDelay = (if rp_BackoffMax policy \<le> 0 then mn else rp_BackoffMax policy);
            delay = wrap64 (mn * pow2_duration (attemptIndex - 1))
        in if delay > maxDelay then maxDelay else delay)"

definition shouldRetryAttempt :: "RetryPolicy \<Rightarrow> attemptError \<Rightarrow> bool" where
  "shouldRetryAttempt policy err = ShouldRetry policy
     \<lparr>ra_StatusCode = ae_StatusCode err, ra_Retryable = ae_Retryable err, ra_Timeout = ae_Timeout err,
      ra_EOF = ae_EOF err\<rparr>"

section \<open>Errors\<close>

datatype chainFailureReason = chainCancelled | chainTotalTimeout | chainTerminal | chainExhausted | chainExecutorError

text \<open>An error of the executor: an \<open>attemptError\<close> or some other error with its text.\<close>

datatype exec_error = AttErr attemptError | PlainErr string

record providerFailure =
  pf_Provider :: providerID
  pf_Error :: attemptError

record chainError =
  ce_reason :: chainFailureReason
  ce_err :: exec_error
  ce_providerFailures :: "providerFailure list"

definition errAllFallbackModelsFailed :: exec_error where
  "errAllFallbackModelsFailed = PlainErr ''all fallback models failed''"

definition isModelUnavailable :: "attemptError \<Rightarrow> bool" where
  "isModelUnavailable err \<longleftrightarrow>
     ae_StatusCode err = 404 \<or>
     ae_StatusCode err = 400 \<and>
       (let m = to_lower (ae_Message err)
        in contains m ''no endpoints found'' \<or> contains m ''not a valid model'' \<or>
           contains m ''no allowed providers'' \<or> contains m ''unavailable'')"

text \<open>The state of a context: live, cancelled, or past its deadline.\<close>

datatype ctx_state = Live | Canceled | DeadlineExceeded

text \<open>The error of a fallback executor: a \<open>chainError\<close> or, from a custom one, a bare error.\<close>

definition classifyChainFailure :: "ctx_state \<Rightarrow> exec_error + chainError \<Rightarrow> chainFailureReason" where
  "classifyChainFailure ctx err = (case ctx of
     Canceled \<Rightarrow> chainCancelled
   | DeadlineExceeded \<Rightarrow> chainTotalTimeout
   | Live \<Rightarrow> (case err of Inr e \<Rightarrow> ce_reason e | Inl _ \<Rightarrow> chainExhausted))"

section \<open>The world and the execution\<close>

record world =
  w_service :: RouterService
  w_affinity :: affinityStore
  w_clock :: go_time

datatype 'w attempt_run =
  Returned 'w "exec_error option"
| AsksFallback 'w "'w \<times> bool \<Rightarrow> 'w attempt_run"

record 'w FallbackExecution =
  fe_RequestBody :: body
  fe_APIKey :: string
  fe_RetryPolicy :: RetryPolicy
  fe_Stream :: bool
  fe_PerAttemptTimeout :: duration
  fe_ReserveQuota :: "('w \<Rightarrow> modelAttempt \<Rightarrow> 'w \<times> QuotaTicket \<times> bool) option"
  fe_BuildRequestBody :: "(body \<Rightarrow> modelAttempt \<Rightarrow> body) option"
  fe_OnSuccess :: "(modelAttempt \<Rightarrow> 'w \<Rightarrow> 'w) option"
  fe_OnFailure :: "(modelAttempt \<Rightarrow> 'w \<Rightarrow> 'w) option"

text \<open>The executor takes the body, the API key, the deadline of the attempt if it has its own, and the
  attempt. \<open>json.Marshal\<close> and the timer of \<open>waitBeforeRetry\<close> are parameters too.\<close>

type_synonym 'w attempt_executor =
  "string \<Rightarrow> string \<Rightarrow> duration option \<Rightarrow> modelAttempt \<Rightarrow> 'w \<Rightarrow> 'w attempt_run"

record 'w chain_env =
  env_executor :: "'w attempt_executor"
  env_marshal :: "body \<Rightarrow> string"
  env_wait :: "duration \<Rightarrow> 'w \<Rightarrow> 'w"

datatype chain_event = Ran nat modelAttempt "exec_error option" | Waited duration

record chain_sets =
  un_providers :: "providerID set"
  un_pools :: "string set"
  un_attempts :: "nat set"

record 'w chain_state =
  cs_world :: 'w
  cs_Attempts :: "modelAttempt list"
  cs_sets :: chain_sets
  cs_failures :: "providerFailure list"
  cs_reported :: "providerID set"
  cs_lastErr :: "exec_error option"
  cs_trace :: "chain_event list"

section \<open>Which attempts can run\<close>

definition quotaFreePool :: string where
  "quotaFreePool = ''free''"

definition quotaPoolKey :: "providerID \<Rightarrow> string \<Rightarrow> string" where
  "quotaPoolKey provider pool = provider @ [CHR 0x00] @ pool"

definition quotaPoolUnavailable :: "modelAttempt \<Rightarrow> string set \<Rightarrow> bool" where
  "quotaPoolUnavailable attempt pools \<longleftrightarrow>
     has_suffix (to_lower (ma_Model attempt)) '':free'' \<and>
     quotaPoolKey (ma_Provider attempt) quotaFreePool \<in> pools"

definition executable :: "chain_sets \<Rightarrow> modelAttempt list \<Rightarrow> nat \<Rightarrow> bool" where
  "executable u attempts i \<longleftrightarrow>
     i \<notin> un_attempts u \<and> ma_Provider (attempts ! i) \<notin> un_providers u \<and>
     \<not> quotaPoolUnavailable (attempts ! i) (un_pools u)"

definition nextExecutableAttempt :: "modelAttempt list \<Rightarrow> nat \<Rightarrow> chain_sets \<Rightarrow> modelAttempt option" where
  "nextExecutableAttempt attempts currentIndex u =
     map_option ((!) attempts) (find (executable u attempts) [Suc currentIndex..<length attempts])"

text \<open>The loop of \<open>reserveNextExecutableAttempt\<close> over the later indices.\<close>

fun reserve_next ::
  "'w FallbackExecution \<Rightarrow> nat list \<Rightarrow> 'w chain_state \<Rightarrow> 'w chain_state \<times> bool" where
  "reserve_next x [] st = (st, False)"
| "reserve_next x (i # is) st =
     (if \<not> executable (cs_sets st) (cs_Attempts st) i then reserve_next x is st
      else
        let candidate = cs_Attempts st ! i
        in case fe_ReserveQuota x of
             None \<Rightarrow> (st, True)
           | Some reserve \<Rightarrow>
               if Valid (ma_QuotaTicket candidate) then (st, True)
               else case reserve (cs_world st) candidate of
                      (w, ticket, ok) \<Rightarrow>
                        if ok
                        then (st\<lparr>cs_world := w,
                                 cs_Attempts := (cs_Attempts st)[i := candidate\<lparr>ma_QuotaTicket := ticket\<rparr>]\<rparr>, True)
                        else reserve_next x is
                          (st\<lparr>cs_world := w,
                              cs_sets := (cs_sets st)\<lparr>un_attempts := insert i (un_attempts (cs_sets st))\<rparr>\<rparr>))"

definition reserveNextExecutableAttempt ::
  "'w FallbackExecution \<Rightarrow> nat \<Rightarrow> 'w chain_state \<Rightarrow> 'w chain_state \<times> bool" where
  "reserveNextExecutableAttempt x currentIndex st =
     reserve_next x [Suc currentIndex..<length (cs_Attempts st)] st"

text \<open>A run of an attempt, with its \<open>ReserveFallback\<close> callback, \<open>None\<close> when that is nil.\<close>

primrec run_attempt ::
  "('w chain_state \<Rightarrow> 'w chain_state \<times> bool) option \<Rightarrow> 'w attempt_run \<Rightarrow> 'w chain_state \<Rightarrow>
   'w chain_state \<times> exec_error option" where
  "run_attempt cb (Returned w err) st = (st\<lparr>cs_world := w\<rparr>, err)"
| "run_attempt cb (AsksFallback w k) st =
     (let r = (case cb of None \<Rightarrow> (st\<lparr>cs_world := w\<rparr>, True) | Some f \<Rightarrow> f (st\<lparr>cs_world := w\<rparr>))
      in run_attempt cb (k (cs_world (fst r), snd r)) (fst r))"

section \<open>The loop\<close>

datatype loop_control = Next | Success | Break bool

text \<open>Lines 136 to 167: one attempt is made.\<close>

definition build_body :: "'w FallbackExecution \<Rightarrow> modelAttempt \<Rightarrow> body" where
  "build_body x attempt =
     m_set ''model'' (JStr (ma_Model attempt))
       ((case fe_BuildRequestBody x of
           Some f \<Rightarrow> f (fe_RequestBody x) attempt
         | None \<Rightarrow> NormalizeRequest (ma_Provider attempt) (fe_RequestBody x)))"

definition make_attempt ::
  "'w chain_env \<Rightarrow> 'w FallbackExecution \<Rightarrow> nat \<Rightarrow> 'w chain_state \<Rightarrow>
   'w chain_state \<times> modelAttempt \<times> exec_error option" where
  "make_attempt e x i st =
     (let attempt = cs_Attempts st ! i;
          upBytes = env_marshal e (build_body x attempt);
          hasNext = nextExecutableAttempt (cs_Attempts st) i (cs_sets st) \<noteq> None;
          hasCallback = hasNext \<and> fe_ReserveQuota x \<noteq> None;
          attempt = attempt\<lparr>ma_AttemptIndex := i + 1, ma_LastInChain := \<not> hasNext, ma_ReserveFallback := hasCallback\<rparr>;
          deadline = (if \<not> fe_Stream x \<and> fe_PerAttemptTimeout x > 0 then Some (fe_PerAttemptTimeout x) else None);
          cb = (if hasCallback then Some (reserveNextExecutableAttempt x i) else None);
          r = run_attempt cb (env_executor e upBytes (fe_APIKey x) deadline attempt (cs_world st)) st
      in ((fst r)\<lparr>cs_trace := cs_trace (fst r) @ [Ran i attempt (snd r)]\<rparr>, attempt, snd r))"

definition report_failure :: "providerID \<Rightarrow> attemptError \<Rightarrow> 'w chain_state \<Rightarrow> 'w chain_state" where
  "report_failure provider err st =
     (if provider \<in> cs_reported st then st
      else st\<lparr>cs_failures := cs_failures st @ [\<lparr>pf_Provider = provider, pf_Error = err\<rparr>],
              cs_reported := insert provider (cs_reported st)\<rparr>)"

definition drop_provider :: "providerID \<Rightarrow> 'w chain_state \<Rightarrow> 'w chain_state" where
  "drop_provider provider st =
     st\<lparr>cs_sets := (cs_sets st)\<lparr>un_providers := insert provider (un_providers (cs_sets st))\<rparr>\<rparr>"

definition drop_pool :: "string \<Rightarrow> 'w chain_state \<Rightarrow> 'w chain_state" where
  "drop_pool pool st = st\<lparr>cs_sets := (cs_sets st)\<lparr>un_pools := insert pool (un_pools (cs_sets st))\<rparr>\<rparr>"

text \<open>Lines 219 to 225: back off before the next model of the same provider.\<close>

definition back_off ::
  "'w chain_env \<Rightarrow> 'w FallbackExecution \<Rightarrow> nat \<Rightarrow> modelAttempt \<Rightarrow> 'w chain_state \<Rightarrow> 'w chain_state" where
  "back_off e x i attempt st =
     (case nextExecutableAttempt (cs_Attempts st) i (cs_sets st) of
        Some next \<Rightarrow>
          let delay = RetryBackoff (fe_RetryPolicy x) i
          in if ma_Provider next = ma_Provider attempt \<and> delay > 0
             then st\<lparr>cs_world := env_wait e delay (cs_world st), cs_trace := cs_trace st @ [Waited delay]\<rparr>
             else st
      | None \<Rightarrow> st)"

text \<open>Lines 179 to 225: what a failed attempt does to the chain.\<close>

definition after_failure ::
  "'w chain_env \<Rightarrow> 'w FallbackExecution \<Rightarrow> nat \<Rightarrow> modelAttempt \<Rightarrow> exec_error \<Rightarrow> 'w chain_state \<Rightarrow>
   'w chain_state \<times> loop_control" where
  "after_failure e x i attempt err st =
     (case err of
        PlainErr _ \<Rightarrow> (back_off e x i attempt st, Next)
      | AttErr attErr \<Rightarrow>
          if ae_ProviderUnavailable attErr
          then (report_failure (ma_Provider attempt) attErr (drop_provider (ma_Provider attempt) st), Next)
          else if ae_SkipProvider attErr then (drop_provider (ma_Provider attempt) st, Next)
          else
            let st = (if ae_QuotaLimited attErr then report_failure (ma_Provider attempt) attErr st else st)
            in if ae_QuotaPool attErr \<noteq> []
               then (drop_pool (quotaPoolKey (ma_Provider attempt) (ae_QuotaPool attErr)) st, Next)
               else if isModelUnavailable attErr \<or> ae_SkipModel attErr then (st, Next)
               else if \<not> shouldRetryAttempt (fe_RetryPolicy x) attErr
               then (st, Break (nextExecutableAttempt (cs_Attempts st) i (cs_sets st) \<noteq> None))
               else (back_off e x i attempt st, Next))"

definition chain_step ::
  "'w chain_env \<Rightarrow> 'w FallbackExecution \<Rightarrow> nat \<Rightarrow> 'w chain_state \<Rightarrow> 'w chain_state \<times> loop_control" where
  "chain_step e x i st =
     (if \<not> executable (cs_sets st) (cs_Attempts st) i then (st, Next)
      else case make_attempt e x i st of
        (st, attempt, None) \<Rightarrow>
          (case fe_OnSuccess x of None \<Rightarrow> st | Some f \<Rightarrow> st\<lparr>cs_world := f attempt (cs_world st)\<rparr>, Success)
      | (st, attempt, Some err) \<Rightarrow>
          let st = (case fe_OnFailure x of None \<Rightarrow> st | Some f \<Rightarrow> st\<lparr>cs_world := f attempt (cs_world st)\<rparr>)
          in after_failure e x i attempt err (st\<lparr>cs_lastErr := Some err\<rparr>))"

fun chain_loop ::
  "'w chain_env \<Rightarrow> 'w FallbackExecution \<Rightarrow> nat list \<Rightarrow> 'w chain_state \<Rightarrow> 'w chain_state \<times> loop_control" where
  "chain_loop e x [] st = (st, Next)"
| "chain_loop e x (i # is) st = (case chain_step e x i st of
     (st', Next) \<Rightarrow> chain_loop e x is st'
   | r \<Rightarrow> r)"

text \<open>The verdict of lines 229 to 240.\<close>

definition chain_verdict :: "'w chain_state \<times> loop_control \<Rightarrow> chainError option" where
  "chain_verdict r = (case snd r of
     Success \<Rightarrow> None
   | ctl \<Rightarrow> (case cs_lastErr (fst r) of
       Some err \<Rightarrow> Some \<lparr>ce_reason = (if ctl = Break True then chainTerminal else chainExhausted), ce_err = err,
          ce_providerFailures = cs_failures (fst r)\<rparr>
     | None \<Rightarrow> Some \<lparr>ce_reason = chainExhausted, ce_err = errAllFallbackModelsFailed, ce_providerFailures = []\<rparr>))"

text \<open>The deferred release of every ticket of the chain.\<close>

definition release_ticket :: "QuotaTicket \<Rightarrow> ('a world_scheme) \<Rightarrow> 'a world_scheme" where
  "release_ticket ticket w =
     (if Valid ticket
      then w\<lparr>w_service := (w_service w)\<lparr>rs_quota := fst (Release (rs_quota (w_service w)) ticket (w_clock w))\<rparr>\<rparr>
      else w)"

definition release_all :: "modelAttempt list \<Rightarrow> ('a world_scheme) \<Rightarrow> 'a world_scheme" where
  "release_all attempts w = fold (\<lambda>a. release_ticket (ma_QuotaTicket a)) attempts w"

definition start_chain :: "modelAttempt list \<Rightarrow> 'w \<Rightarrow> 'w chain_state" where
  "start_chain attempts w = \<lparr>cs_world = w, cs_Attempts = attempts,
     cs_sets = \<lparr>un_providers = {}, un_pools = {}, un_attempts = {}\<rparr>, cs_failures = [], cs_reported = {},
     cs_lastErr = None, cs_trace = []\<rparr>"

definition run_chain ::
  "'w chain_env \<Rightarrow> 'w FallbackExecution \<Rightarrow> modelAttempt list \<Rightarrow> 'w \<Rightarrow> 'w chain_state \<times> loop_control" where
  "run_chain e x attempts w = chain_loop e x [0..<length attempts] (start_chain attempts w)"

definition Execute ::
  "('a world_scheme) chain_env option \<Rightarrow> ('a world_scheme) FallbackExecution \<Rightarrow> modelAttempt list \<Rightarrow>
   'a world_scheme \<Rightarrow> 'a world_scheme \<times> chainError option" where
  "Execute env x attempts w = (case env of
     None \<Rightarrow> (w, Some \<lparr>ce_reason = chainExecutorError,
       ce_err = PlainErr ''fallback attempt executor is not configured'', ce_providerFailures = []\<rparr>)
   | Some e \<Rightarrow>
       let r = run_chain e x attempts w
       in (release_all (cs_Attempts (fst r)) (cs_world (fst r)), chain_verdict r))"

section \<open>The error the client sees\<close>

fun index_sub :: "string \<Rightarrow> string \<Rightarrow> nat option" where
  "index_sub [] p = (if p = [] then Some 0 else None)"
| "index_sub (c # s) p = (if has_prefix (c # s) p then Some 0 else map_option Suc (index_sub s p))"

definition providerDisplayName :: "providerID \<Rightarrow> string" where
  "providerDisplayName provider =
     (if provider = providerOpenRouter then ''OpenRouter''
      else if provider = providerCerebras then ''Cerebras''
      else if provider = providerGroq then ''Groq''
      else provider)"

definition safeProviderFailureSummary :: "attemptError \<Rightarrow> string" where
  "safeProviderFailureSummary err =
     (if has_prefix (ae_Message err) openRouterDailyFreeQuotaPrefix
      then (case index_sub (ae_Message err) ''Resets: '' of
              Some resetAt \<Rightarrow>
                let reset = drop (resetAt + 8) (ae_Message err);
                    reset = (case index_sub reset ''.'' of Some e \<Rightarrow> take e reset | None \<Rightarrow> reset)
                in ''daily free-model quota exhausted; resets '' @ reset
            | None \<Rightarrow> ''daily free-model quota exhausted'')
      else if ae_Timeout err then ''timed out''
      else if ae_StatusCode err = 401 \<or> ae_StatusCode err = 403
      then ''authentication or account authorization failed''
      else if ae_StatusCode err = 429 \<or> ae_StatusCode err = 503
      then ''rate limited or temporarily unavailable''
      else if ae_StatusCode err \<ge> 500 then ''temporarily unavailable''
      else ''request rejected'')"

definition multiProviderUnavailableMessage :: "providerFailure list \<Rightarrow> string" where
  "multiProviderUnavailableMessage failures =
     ''All configured model providers are temporarily rate-limited or unavailable. '' @
     join ''; '' (map (\<lambda>f. providerDisplayName (pf_Provider f) @ '': '' @ safeProviderFailureSummary (pf_Error f)) failures) @
     ''. Automatic routing will retry them after their cooldowns.''"

definition error_text :: "exec_error \<Rightarrow> string" where
  "error_text err = (case err of AttErr e \<Rightarrow> ae_Message e | PlainErr m \<Rightarrow> m)"

definition fallbackErrorResponse :: "chainError option \<Rightarrow> int \<times> string" where
  "fallbackErrorResponse err = (case err of
     None \<Rightarrow> (502, error_text errAllFallbackModelsFailed)
   | Some e \<Rightarrow>
       if length (ce_providerFailures e) > 1
       then (503, multiProviderUnavailableMessage (ce_providerFailures e))
       else case ce_err e of
              AttErr attErr \<Rightarrow> (if ae_StatusCode attErr \<noteq> 0 then ae_StatusCode attErr else 502, ae_Message attErr)
            | PlainErr m \<Rightarrow> (502, m))"

definition fallbackRetryAfter :: "chainError \<Rightarrow> duration" where
  "fallbackRetryAfter err =
     fold (\<lambda>f soonest. let d = ae_RetryAfter (pf_Error f)
           in if d \<le> 0 then soonest else if soonest = 0 \<or> d < soonest then d else soonest)
       (ce_providerFailures err) 0"

section \<open>The chain keeps its routes and only removes candidates\<close>

definition routes :: "modelAttempt list \<Rightarrow> (providerID \<times> string) list" where
  "routes as = map (\<lambda>a. (ma_Provider a, ma_Model a)) as"

definition sets_le :: "chain_sets \<Rightarrow> chain_sets \<Rightarrow> bool" where
  "sets_le u v \<longleftrightarrow> un_providers u \<subseteq> un_providers v \<and> un_pools u \<subseteq> un_pools v \<and> un_attempts u \<subseteq> un_attempts v"

lemma routes_length: "routes as = routes bs \<Longrightarrow> length as = length bs"
  by (metis length_map routes_def)

lemma routes_nth:
  assumes "routes as = routes bs" "i < length as"
  shows "ma_Provider (as ! i) = ma_Provider (bs ! i) \<and> ma_Model (as ! i) = ma_Model (bs ! i)"
proof -
  have "routes as ! i = routes bs ! i" "i < length bs" using assms by (auto dest: routes_length)
  with assms(2) show ?thesis by (simp add: routes_def)
qed

lemma executable_routes:
  "routes as = routes bs \<Longrightarrow> i < length as \<Longrightarrow> executable u as i = executable u bs i"
  using routes_nth [of as bs i] by (simp add: executable_def quotaPoolUnavailable_def)

lemma executable_mono: "sets_le u v \<Longrightarrow> executable v as i \<Longrightarrow> executable u as i"
  by (auto simp: executable_def sets_le_def quotaPoolUnavailable_def)

lemma sets_le_refl [simp]: "sets_le u u"
  by (simp add: sets_le_def)

lemma sets_le_trans: "sets_le u v \<Longrightarrow> sets_le v w \<Longrightarrow> sets_le u w"
  by (auto simp: sets_le_def)

lemma next_None_iff:
  "nextExecutableAttempt as i u = None \<longleftrightarrow> (\<forall>k. i < k \<and> k < length as \<longrightarrow> \<not> executable u as k)"
  by (auto simp: nextExecutableAttempt_def find_None_iff)

text \<open>What a callback may change: tickets of attempts, and more attempts without quota.\<close>

definition advanced :: "'w chain_state \<Rightarrow> 'w chain_state \<Rightarrow> bool" where
  "advanced st st' \<longleftrightarrow> routes (cs_Attempts st') = routes (cs_Attempts st) \<and>
     sets_le (cs_sets st) (cs_sets st') \<and> cs_failures st' = cs_failures st \<and>
     cs_reported st' = cs_reported st \<and> cs_lastErr st' = cs_lastErr st \<and> cs_trace st' = cs_trace st"

lemma advanced_refl [simp]: "advanced st st"
  by (simp add: advanced_def)

lemma advanced_trans: "advanced a b \<Longrightarrow> advanced b c \<Longrightarrow> advanced a c"
  by (auto simp: advanced_def intro: sets_le_trans)

lemma advanced_world [simp]: "advanced st (st\<lparr>cs_world := w\<rparr>)"
  by (simp add: advanced_def)

lemma routes_update:
  "routes (as[i := (as ! i)\<lparr>ma_QuotaTicket := t\<rparr>]) = routes as"
proof (cases "i < length as")
  case True
  then show ?thesis by (simp add: routes_def map_update list_update_same_conv)
qed (simp add: list_update_beyond)

lemma reserve_next_advanced: "advanced st (fst (reserve_next x is st))"
proof (induction x "is" st rule: reserve_next.induct)
  case (2 x i "is" st)
  show ?case
  proof (cases "executable (cs_sets st) (cs_Attempts st) i")
    case False
    with 2(1) show ?thesis by simp
  next
    case True
    show ?thesis
    proof (cases "fe_ReserveQuota x")
      case None
      with True show ?thesis by simp
    next
      case (Some reserve)
      obtain w t ok where r: "reserve (cs_world st) (cs_Attempts st ! i) = (w, t, ok)" by (metis prod_cases3)
      let ?st = "st\<lparr>cs_world := w, cs_sets := (cs_sets st)\<lparr>un_attempts := insert i (un_attempts (cs_sets st))\<rparr>\<rparr>"
      have "advanced st ?st" by (auto simp: advanced_def sets_le_def)
      then have "advanced st (fst (reserve_next x is ?st))"
        if "\<not> ok" "\<not> Valid (ma_QuotaTicket (cs_Attempts st ! i))"
        using 2(2) [of "cs_Attempts st ! i" reserve] True Some r that by (auto intro: advanced_trans)
      with True Some r show ?thesis
        by (auto simp: Let_def advanced_def routes_update)
    qed
  qed
qed simp

lemma run_attempt_advanced:
  assumes "\<And>f st. cb = Some f \<Longrightarrow> advanced st (fst (f st))"
  shows "advanced st (fst (run_attempt cb run st))"
proof (induction run arbitrary: st)
  case (Returned w err)
  then show ?case by simp
next
  case (AsksFallback w k)
  let ?r = "case cb of None \<Rightarrow> (st\<lparr>cs_world := w\<rparr>, True) | Some f \<Rightarrow> f (st\<lparr>cs_world := w\<rparr>)"
  have "advanced st (fst ?r)"
    using assms by (auto split: option.split intro: advanced_trans [OF advanced_world])
  moreover have "advanced (fst ?r) (fst (run_attempt cb (k (cs_world (fst ?r), snd ?r)) (fst ?r)))"
    by (rule AsksFallback) simp
  ultimately show ?case by (auto simp: Let_def intro: advanced_trans)
qed

section \<open>The trace of a chain\<close>

definition drops_provider :: "exec_error option \<Rightarrow> bool" where
  "drops_provider er = (case er of
     Some (AttErr e) \<Rightarrow> ae_ProviderUnavailable e \<or> ae_SkipProvider e | _ \<Rightarrow> False)"

definition drops_free_pool :: "exec_error option \<Rightarrow> bool" where
  "drops_free_pool er = (case er of
     Some (AttErr e) \<Rightarrow> \<not> ae_ProviderUnavailable e \<and> \<not> ae_SkipProvider e \<and> ae_QuotaPool e = quotaFreePool
   | _ \<Rightarrow> False)"

text \<open>What must hold of an attempt that runs after another one.\<close>

fun follows :: "chain_event \<Rightarrow> chain_event \<Rightarrow> bool" where
  "follows (Ran i a er) (Ran j b er') \<longleftrightarrow>
     i < j \<and> er \<noteq> None \<and> \<not> ma_LastInChain a \<and>
     (drops_provider er \<longrightarrow> ma_Provider b \<noteq> ma_Provider a) \<and>
     (drops_free_pool er \<longrightarrow> \<not> (ma_Provider b = ma_Provider a \<and> has_suffix (to_lower (ma_Model b)) '':free''))"
| "follows _ _ \<longleftrightarrow> True"

definition ran :: "chain_event list \<Rightarrow> nat set" where
  "ran trace = {i. \<exists>a er. Ran i a er \<in> set trace}"

definition last_error :: "chain_event list \<Rightarrow> exec_error option" where
  "last_error trace = fold (\<lambda>ev acc. case ev of Ran _ _ er \<Rightarrow> er | Waited _ \<Rightarrow> acc) trace None"

definition waits :: "chain_event list \<Rightarrow> bool" where
  "waits ws \<longleftrightarrow> (\<forall>ev\<in>set ws. \<exists>d. ev = Waited d)"

lemma sorted_wrt_waits: "sorted_wrt follows t \<Longrightarrow> waits ws \<Longrightarrow> sorted_wrt follows (t @ ws)"
proof (induction ws rule: rev_induct)
  case (snoc w ws)
  then have w: "\<exists>d. w = Waited d" "waits ws" by (auto simp: waits_def)
  from snoc.IH [OF snoc.prems(1) w(2)] have "sorted_wrt follows (t @ ws)" .
  moreover from w(1) have "follows ev w" for ev by auto
  ultimately have "sorted_wrt follows ((t @ ws) @ [w])" by (subst sorted_wrt_append) auto
  then show ?case by simp
qed simp

lemma ran_waits [simp]: "waits ws \<Longrightarrow> ran (t @ ws) = ran t"
  by (auto simp: ran_def waits_def)

lemma ran_snoc [simp]: "ran (t @ [Ran i a er]) = insert i (ran t)"
  by (auto simp: ran_def)

lemma last_error_snoc [simp]: "last_error (t @ [Ran i a er]) = er"
  by (simp add: last_error_def)

lemma last_error_waits [simp]: "waits ws \<Longrightarrow> last_error (t @ ws) = last_error t"
proof (induction ws rule: rev_induct)
  case (snoc w ws)
  then show ?case by (auto simp: waits_def last_error_def)
qed simp

lemma Ran_in_waits: "waits ws \<Longrightarrow> Ran i a er \<in> set (t @ ws) \<longleftrightarrow> Ran i a er \<in> set t"
  by (auto simp: waits_def)

lemma back_off_facts:
  "cs_Attempts (back_off e x i a st) = cs_Attempts st \<and> cs_sets (back_off e x i a st) = cs_sets st \<and>
   cs_lastErr (back_off e x i a st) = cs_lastErr st \<and>
   (\<exists>ws. cs_trace (back_off e x i a st) = cs_trace st @ ws \<and> waits ws)"
  by (auto simp: back_off_def Let_def waits_def split: option.split)

lemma drop_sel [simp]:
  "cs_Attempts (drop_provider p st) = cs_Attempts st" "cs_lastErr (drop_provider p st) = cs_lastErr st"
  "cs_trace (drop_provider p st) = cs_trace st" "cs_world (drop_provider p st) = cs_world st"
  "cs_Attempts (drop_pool q st) = cs_Attempts st" "cs_lastErr (drop_pool q st) = cs_lastErr st"
  "cs_trace (drop_pool q st) = cs_trace st" "cs_world (drop_pool q st) = cs_world st"
  "cs_Attempts (report_failure p er st) = cs_Attempts st" "cs_lastErr (report_failure p er st) = cs_lastErr st"
  "cs_trace (report_failure p er st) = cs_trace st" "cs_sets (report_failure p er st) = cs_sets st"
  "cs_world (report_failure p er st) = cs_world st"
  "cs_sets (drop_provider p st) = (cs_sets st)\<lparr>un_providers := insert p (un_providers (cs_sets st))\<rparr>"
  "cs_sets (drop_pool q st) = (cs_sets st)\<lparr>un_pools := insert q (un_pools (cs_sets st))\<rparr>"
  by (simp_all add: drop_provider_def drop_pool_def report_failure_def)

lemma after_failure_facts:
  assumes "after_failure e x i a err st = (st', ctl)"
  shows "cs_Attempts st' = cs_Attempts st" "sets_le (cs_sets st) (cs_sets st')" "cs_lastErr st' = cs_lastErr st"
    "\<exists>ws. cs_trace st' = cs_trace st @ ws \<and> waits ws"
    "drops_provider (Some err) \<Longrightarrow> ma_Provider a \<in> un_providers (cs_sets st')"
    "drops_free_pool (Some err) \<Longrightarrow> quotaPoolKey (ma_Provider a) quotaFreePool \<in> un_pools (cs_sets st')"
    "ctl \<noteq> Success"
    "ctl = Break b \<Longrightarrow> b = (nextExecutableAttempt (cs_Attempts st') i (cs_sets st') \<noteq> None)"
proof -
  note defs = after_failure_def drops_provider_def drops_free_pool_def quotaFreePool_def Let_def
  have w0: "waits []" by (simp add: waits_def)
  show "cs_Attempts st' = cs_Attempts st" "cs_lastErr st' = cs_lastErr st"
    using assms back_off_facts [of e x i a] by (auto simp: defs split: exec_error.splits if_splits)
  show "sets_le (cs_sets st) (cs_sets st')"
    using assms back_off_facts [of e x i a] by (auto simp: defs sets_le_def split: exec_error.splits if_splits)
  show "\<exists>ws. cs_trace st' = cs_trace st @ ws \<and> waits ws"
    using assms back_off_facts [of e x i a st] back_off_facts [of e x i a "report_failure (ma_Provider a) er st" for er] w0
    by (fastforce simp: defs split: exec_error.splits if_splits)
  show "drops_provider (Some err) \<Longrightarrow> ma_Provider a \<in> un_providers (cs_sets st')"
    using assms by (auto simp: defs split: exec_error.splits if_splits)
  show "drops_free_pool (Some err) \<Longrightarrow> quotaPoolKey (ma_Provider a) quotaFreePool \<in> un_pools (cs_sets st')"
    using assms by (auto simp: defs split: exec_error.splits if_splits)
  show "ctl \<noteq> Success" using assms by (auto simp: defs split: exec_error.splits if_splits)
  show "ctl = Break b \<Longrightarrow> b = (nextExecutableAttempt (cs_Attempts st') i (cs_sets st') \<noteq> None)"
    using assms by (auto simp: defs split: exec_error.splits if_splits)
qed

lemma make_attempt_facts:
  assumes "make_attempt e x i st = (st', a, er)"
  shows "\<exists>st1. advanced st st1 \<and> st' = st1\<lparr>cs_trace := cs_trace st @ [Ran i a er]\<rparr>"
    "ma_Provider a = ma_Provider (cs_Attempts st ! i)" "ma_Model a = ma_Model (cs_Attempts st ! i)"
    "ma_AttemptIndex a = i + 1"
    "ma_LastInChain a \<longleftrightarrow> nextExecutableAttempt (cs_Attempts st) i (cs_sets st) = None"
proof -
  let ?h = "nextExecutableAttempt (cs_Attempts st) i (cs_sets st) \<noteq> None \<and> fe_ReserveQuota x \<noteq> None"
  let ?cb = "if ?h then Some (reserveNextExecutableAttempt x i) else None"
  have cb: "advanced s (fst (f s))" if "?cb = Some f" for f s
    using that reserve_next_advanced by (auto simp: reserveNextExecutableAttempt_def split: if_splits)
  obtain run where st': "st' = (fst (run_attempt ?cb run st))\<lparr>cs_trace :=
      cs_trace (fst (run_attempt ?cb run st)) @ [Ran i a er]\<rparr>"
    using assms unfolding make_attempt_def Let_def by auto
  have adv: "advanced st (fst (run_attempt ?cb run st))" by (rule run_attempt_advanced) (rule cb)
  then have "cs_trace (fst (run_attempt ?cb run st)) = cs_trace st" by (simp add: advanced_def)
  with adv st' show "\<exists>st1. advanced st st1 \<and> st' = st1\<lparr>cs_trace := cs_trace st @ [Ran i a er]\<rparr>" by metis
qed (use assms in \<open>auto simp: make_attempt_def Let_def\<close>)

definition event_ok :: "modelAttempt list \<Rightarrow> chain_sets \<Rightarrow> nat \<Rightarrow> nat \<Rightarrow> modelAttempt \<Rightarrow> exec_error option \<Rightarrow> bool" where
  "event_ok attempts u n i a er \<longleftrightarrow>
     i < n \<and> i < length attempts \<and> er \<noteq> None \<and> ma_Provider a = ma_Provider (attempts ! i) \<and>
     ma_Model a = ma_Model (attempts ! i) \<and> ma_AttemptIndex a = i + 1 \<and>
     (ma_LastInChain a \<longrightarrow> (\<forall>k. i < k \<and> k < length attempts \<longrightarrow> \<not> executable u attempts k)) \<and>
     (drops_provider er \<longrightarrow> ma_Provider a \<in> un_providers u) \<and>
     (drops_free_pool er \<longrightarrow> quotaPoolKey (ma_Provider a) quotaFreePool \<in> un_pools u)"

definition chain_inv :: "modelAttempt list \<Rightarrow> nat \<Rightarrow> 'w chain_state \<Rightarrow> bool" where
  "chain_inv attempts n st \<longleftrightarrow>
     routes (cs_Attempts st) = routes attempts \<and> sorted_wrt follows (cs_trace st) \<and>
     (\<forall>i a er. Ran i a er \<in> set (cs_trace st) \<longrightarrow> event_ok attempts (cs_sets st) n i a er) \<and>
     (\<forall>i<n. i < length attempts \<longrightarrow> i \<in> ran (cs_trace st) \<or> \<not> executable (cs_sets st) attempts i) \<and>
     cs_lastErr st = last_error (cs_trace st)"

definition chain_done :: "modelAttempt list \<Rightarrow> 'w chain_state \<Rightarrow> loop_control \<Rightarrow> bool" where
  "chain_done attempts st ctl \<longleftrightarrow>
     routes (cs_Attempts st) = routes attempts \<and> sorted_wrt follows (cs_trace st) \<and>
     (\<forall>i a er. Ran i a er \<in> set (cs_trace st) \<longrightarrow> i < length attempts \<and>
        ma_Provider a = ma_Provider (attempts ! i) \<and> ma_Model a = ma_Model (attempts ! i) \<and> ma_AttemptIndex a = i + 1) \<and>
     (ctl = Success \<longrightarrow> (\<exists>i a. Ran i a None \<in> set (cs_trace st))) \<and>
     (ctl \<noteq> Success \<longrightarrow> (\<forall>i a. Ran i a None \<notin> set (cs_trace st)) \<and> cs_lastErr st = last_error (cs_trace st) \<and>
        (ctl = Break True \<longleftrightarrow>
          (\<exists>k<length attempts. k \<notin> ran (cs_trace st) \<and> executable (cs_sets st) attempts k)))"

lemma event_ok_mono:
  "event_ok attempts u n i a er \<Longrightarrow> sets_le u v \<Longrightarrow> n \<le> m \<Longrightarrow> event_ok attempts v m i a er"
  by (auto simp: event_ok_def sets_le_def dest: executable_mono [unfolded sets_le_def, rotated])

lemma event_ok_Suc: "event_ok attempts u n i a er \<Longrightarrow> event_ok attempts u (Suc n) i a er"
  by (auto simp: event_ok_def)

lemma event_follows:
  assumes ok: "event_ok attempts u n j b er" and ex: "executable u attempts n" "n < length attempts"
    and a: "ma_Provider a = ma_Provider (attempts ! n)" "ma_Model a = ma_Model (attempts ! n)"
  shows "follows (Ran j b er) (Ran n a er')"
  using assms by (auto simp: event_ok_def executable_def quotaPoolUnavailable_def)

lemma chain_inv_Next:
  "chain_inv attempts n st \<Longrightarrow> n \<ge> length attempts \<Longrightarrow> chain_done attempts st Next"
  by (fastforce simp: chain_inv_def chain_done_def event_ok_def)

text \<open>One attempt that runs extends the trace by one event that follows the others.\<close>

lemma make_attempt_inv:
  assumes inv: "chain_inv attempts n st" and n: "n < length attempts"
    and ex: "executable (cs_sets st) (cs_Attempts st) n" and m: "make_attempt e x n st = (st', a, er)"
  shows "routes (cs_Attempts st') = routes attempts" "sets_le (cs_sets st) (cs_sets st')"
    "cs_trace st' = cs_trace st @ [Ran n a er]" "sorted_wrt follows (cs_trace st')"
    "ma_Provider a = ma_Provider (attempts ! n)" "ma_Model a = ma_Model (attempts ! n)" "ma_AttemptIndex a = n + 1"
    "ma_LastInChain a \<longleftrightarrow> (\<forall>k. n < k \<and> k < length attempts \<longrightarrow> \<not> executable (cs_sets st) attempts k)"
proof -
  have r: "routes (cs_Attempts st) = routes attempts" using inv by (simp add: chain_inv_def)
  then have len: "length (cs_Attempts st) = length attempts" by (rule routes_length)
  note facts = make_attempt_facts [OF m]
  from facts(1) obtain st1 where st1: "advanced st st1" "st' = st1\<lparr>cs_trace := cs_trace st @ [Ran n a er]\<rparr>" by blast
  show "routes (cs_Attempts st') = routes attempts" "sets_le (cs_sets st) (cs_sets st')"
    and t: "cs_trace st' = cs_trace st @ [Ran n a er]"
    using st1 r by (auto simp: advanced_def)
  show a: "ma_Provider a = ma_Provider (attempts ! n)" "ma_Model a = ma_Model (attempts ! n)" "ma_AttemptIndex a = n + 1"
    using facts routes_nth [OF r] n len by auto
  show "ma_LastInChain a \<longleftrightarrow> (\<forall>k. n < k \<and> k < length attempts \<longrightarrow> \<not> executable (cs_sets st) attempts k)"
    using facts(5) executable_routes [OF r] len by (auto simp: next_None_iff)
  have ex': "executable (cs_sets st) attempts n" using executable_routes [OF r] ex n len by simp
  have "follows ev (Ran n a er)" if "ev \<in> set (cs_trace st)" for ev
  proof (cases ev)
    case (Ran j b er')
    with that inv have "event_ok attempts (cs_sets st) n j b er'" by (simp add: chain_inv_def)
    from event_follows [OF this ex' n a(1,2)] Ran show ?thesis by simp
  qed simp
  with inv show "sorted_wrt follows (cs_trace st')" unfolding t by (simp add: chain_inv_def sorted_wrt_append)
qed

lemma chain_step_inv:
  assumes inv: "chain_inv attempts n st" and n: "n < length attempts" and step: "chain_step e x n st = (st', ctl)"
  shows "if ctl = Next then chain_inv attempts (Suc n) st' else chain_done attempts st' ctl"
proof -
  have r: "routes (cs_Attempts st) = routes attempts" using inv by (simp add: chain_inv_def)
  then have len: "length (cs_Attempts st) = length attempts" by (rule routes_length)
  show ?thesis
  proof (cases "executable (cs_sets st) (cs_Attempts st) n")
    case False
    with step have "st' = st" "ctl = Next" by (auto simp: chain_step_def)
    moreover have "\<not> executable (cs_sets st) attempts n" using False executable_routes [OF r] n len by simp
    ultimately show ?thesis using inv
      by (auto simp: chain_inv_def less_Suc_eq event_ok_Suc)
  next
    case True
    obtain st1 a er where m: "make_attempt e x n st = (st1, a, er)" by (metis prod_cases3)
    note f = make_attempt_inv [OF inv n True m]
    have old: "event_ok attempts (cs_sets st) n j b er'" if "Ran j b er' \<in> set (cs_trace st)" for j b er'
      using inv that by (simp add: chain_inv_def)
    show ?thesis
    proof (cases er)
      case None
      with step True m have "ctl = Success" "cs_trace st' = cs_trace st1" "cs_Attempts st' = cs_Attempts st1"
        by (auto simp: chain_step_def split: option.splits)
      then show ?thesis
        using f n None old by (fastforce simp: chain_done_def event_ok_def)
    next
      case (Some err)
      let ?st2 = "(case fe_OnFailure x of None \<Rightarrow> st1 | Some h \<Rightarrow> st1\<lparr>cs_world := h a (cs_world st1)\<rparr>)\<lparr>cs_lastErr := Some err\<rparr>"
      from step True m Some have af: "after_failure e x n a err ?st2 = (st', ctl)"
        by (simp add: chain_step_def Let_def)
      have st2: "cs_Attempts ?st2 = cs_Attempts st1" "cs_sets ?st2 = cs_sets st1" "cs_trace ?st2 = cs_trace st1"
        "cs_lastErr ?st2 = Some err" by (simp_all split: option.split)
      note g = after_failure_facts [OF af, unfolded st2]
      from g(4) obtain ws where ws: "cs_trace st' = cs_trace st1 @ ws" "waits ws" by blast
      have le: "sets_le (cs_sets st) (cs_sets st')" using sets_le_trans [OF f(2) g(2)] .
      have rts: "routes (cs_Attempts st') = routes attempts" using g(1) f(1) by simp
      have srt: "sorted_wrt follows (cs_trace st')" unfolding ws(1) by (rule sorted_wrt_waits [OF f(4) ws(2)])
      have new: "event_ok attempts (cs_sets st') (Suc n) n a er"
        using f n g(5,6) Some executable_mono [OF le] unfolding event_ok_def by auto
      have evs: "event_ok attempts (cs_sets st') (Suc n) j b er'" if "Ran j b er' \<in> set (cs_trace st')" for j b er'
        using that ws f(3) new event_ok_mono [OF old le, of j b er' "Suc n"] by (auto simp: waits_def)
      have ran': "ran (cs_trace st') = insert n (ran (cs_trace st))"
        unfolding ws(1) ran_waits [OF ws(2)] f(3) by simp
      have seen: "i \<in> ran (cs_trace st') \<or> \<not> executable (cs_sets st') attempts i" if "i < Suc n" for i
        using that inv n executable_mono [OF le, of attempts i] unfolding ran' by (auto simp: chain_inv_def less_Suc_eq)
      have lst: "cs_lastErr st' = last_error (cs_trace st')"
        unfolding g(3) ws(1) last_error_waits [OF ws(2)] f(3) using Some by simp
      show ?thesis
      proof (cases ctl)
        case Next
        with rts srt evs seen lst show ?thesis by (simp add: chain_inv_def)
      next
        case Success
        with g(7) show ?thesis by simp
      next
        case (Break b)
        have notran: "k \<notin> ran (cs_trace st')" if "n < k" for k
          using evs that by (force simp: ran_def event_ok_def)
        have ex: "executable (cs_sets st') (cs_Attempts st') k = executable (cs_sets st') attempts k"
          if "k < length attempts" for k
          using executable_routes [OF rts] that routes_length [OF rts] by simp
        have "b \<longleftrightarrow> (\<exists>k. n < k \<and> k < length attempts \<and> executable (cs_sets st') attempts k)"
          using g(8) [OF Break] ex routes_length [OF rts] g(1) by (auto simp: next_None_iff)
        also have "\<dots> \<longleftrightarrow> (\<exists>k<length attempts. k \<notin> ran (cs_trace st') \<and> executable (cs_sets st') attempts k)"
          using notran seen by (metis not_less_eq)
        finally show ?thesis
          using Break rts srt evs lst by (auto simp: chain_done_def event_ok_def)
      qed
    qed
  qed
qed

lemma chain_loop_done:
  assumes "chain_inv attempts n st" "chain_loop e x [n..<length attempts] st = (st', ctl)"
  shows "chain_done attempts st' ctl"
  using assms
proof (induction "length attempts - n" arbitrary: n st)
  case 0
  then show ?case using chain_inv_Next [of attempts n st] by simp
next
  case (Suc k)
  then have n: "n < length attempts" by simp
  then have up: "[n..<length attempts] = n # [Suc n..<length attempts]" by (simp add: upt_conv_Cons)
  obtain st1 c where s: "chain_step e x n st = (st1, c)" by (metis prod.exhaust)
  from chain_step_inv [OF Suc.prems(1) n s]
  have one: "if c = Next then chain_inv attempts (Suc n) st1 else chain_done attempts st1 c" .
  show ?case
  proof (cases c)
    case Next
    with one Suc.prems(2) s show ?thesis
      by (intro Suc.hyps(1) [of "Suc n" st1]) (use Suc.hyps(2) in \<open>simp_all add: up\<close>)
  qed (use one Suc.prems(2) s in \<open>simp_all add: up\<close>)
qed

lemma run_chain_done:
  assumes "run_chain e x attempts w = (st, ctl)"
  shows "chain_done attempts st ctl"
proof (rule chain_loop_done)
  show "chain_inv attempts 0 (start_chain attempts w)"
    by (simp add: chain_inv_def start_chain_def last_error_def)
  show "chain_loop e x [0..<length attempts] (start_chain attempts w) = (st, ctl)"
    using assms by (simp add: run_chain_def)
qed

section \<open>Quota tickets of a chain\<close>

abbreviation w_quota :: "('a world_scheme) \<Rightarrow> QuotaLedger" where
  "w_quota w \<equiv> rs_quota (w_service w)"

definition ticket_ids :: "QuotaLedger \<Rightarrow> modelAttempt list \<Rightarrow> (64 word) set" where
  "ticket_ids l as = {qt_id (ma_QuotaTicket a) | a. a \<in> set as \<and> qt_ledger (ma_QuotaTicket a) = Some (ql_self l)}"

text \<open>A ledger whose ticket numbers are not about to run out.\<close>

definition ledger_room :: "QuotaLedger \<Rightarrow> bool" where
  "ledger_room l \<longleftrightarrow> ledger_inv l \<and> length (ql_tickets l) + 3 \<le> 2 ^ 64"

lemma tickets_card: "ledger_inv l \<Longrightarrow> length (ql_tickets l) = card (live_tickets l)"
proof -
  assume "ledger_inv l"
  then have "distinct (map fst (ql_tickets l))" by (simp add: ledger_inv_def ledger_inv_with_def tickets_ok_def)
  from distinct_card [OF this] show ?thesis by (simp add: live_tickets_def)
qed

text \<open>What the chain relies on of its collaborators: they keep the ledger's invariant and identity, an
  attempt leaves behind no claim that was not there, and a reservation adds at most the claim of
  the ticket it returns.\<close>

definition keeps_claims :: "('a world_scheme) \<Rightarrow> ('a world_scheme) \<Rightarrow> bool" where
  "keeps_claims w w' \<longleftrightarrow> ledger_room (w_quota w) \<longrightarrow>
     ledger_inv (w_quota w') \<and> ql_self (w_quota w') = ql_self (w_quota w) \<and>
     live_tickets (w_quota w') \<subseteq> live_tickets (w_quota w)"

primrec run_keeps :: "('a world_scheme) attempt_run \<Rightarrow> ('a world_scheme) \<Rightarrow> bool" where
  "run_keeps (Returned w' er) w = keeps_claims w w'"
| "run_keeps (AsksFallback w' k) w = (keeps_claims w w' \<and> (\<forall>r. run_keeps (k r) (fst r)))"

text \<open>The estimate an attempt carries fits its 64-bit fields.\<close>

definition attempt_typed :: "modelAttempt \<Rightarrow> bool" where
  "attempt_typed a \<longleftrightarrow> qe_Requests (ma_QuotaEstimate a) \<le> max_int64 \<and> qe_Tokens (ma_QuotaEstimate a) \<le> max_int64"

definition reserves :: "(('a world_scheme) \<Rightarrow> modelAttempt \<Rightarrow> ('a world_scheme) \<times> QuotaTicket \<times> bool) \<Rightarrow> bool" where
  "reserves f \<longleftrightarrow> (\<forall>w a w' t ok. f w a = (w', t, ok) \<and> attempt_typed a \<and> ledger_room (w_quota w) \<longrightarrow>
     ledger_inv (w_quota w') \<and> ql_self (w_quota w') = ql_self (w_quota w) \<and>
     live_tickets (w_quota w') \<subseteq>
       (if ok \<and> qt_ledger t = Some (ql_self (w_quota w)) then insert (qt_id t) (live_tickets (w_quota w))
        else live_tickets (w_quota w)))"

definition collaborators_ok :: "('a world_scheme) chain_env \<Rightarrow> ('a world_scheme) FallbackExecution \<Rightarrow> bool" where
  "collaborators_ok e x \<longleftrightarrow>
     (\<forall>body key d a w. attempt_typed a \<longrightarrow> run_keeps (env_executor e body key d a w) w) \<and>
     (\<forall>d w. keeps_claims w (env_wait e d w)) \<and>
     (\<forall>f. fe_OnSuccess x = Some f \<longrightarrow> (\<forall>a w. keeps_claims w (f a w))) \<and>
     (\<forall>f. fe_OnFailure x = Some f \<longrightarrow> (\<forall>a w. keeps_claims w (f a w))) \<and>
     (\<forall>f. fe_ReserveQuota x = Some f \<longrightarrow> reserves f)"

text \<open>Every live claim was there at the start or belongs to a ticket the chain will release.\<close>

definition claims_tracked :: "(64 word) set \<Rightarrow> nat \<Rightarrow> ('a world_scheme) chain_state \<Rightarrow> bool" where
  "claims_tracked L0 self st \<longleftrightarrow>
     finite L0 \<and> card L0 + length (cs_Attempts st) + 3 \<le> 2 ^ 64 \<and> list_all attempt_typed (cs_Attempts st) \<and>
     ledger_inv (w_quota (cs_world st)) \<and> ql_self (w_quota (cs_world st)) = self \<and>
     live_tickets (w_quota (cs_world st)) \<subseteq> L0 \<union> ticket_ids (w_quota (cs_world st)) (cs_Attempts st)"

lemma ticket_ids_card: "finite (ticket_ids l as) \<and> card (ticket_ids l as) \<le> length as"
proof -
  have sub: "ticket_ids l as \<subseteq> (qt_id \<circ> ma_QuotaTicket) ` set as" by (auto simp: ticket_ids_def)
  have "card ((qt_id \<circ> ma_QuotaTicket) ` set as) \<le> length as"
    using card_image_le card_length order_trans by blast
  with card_mono [OF _ sub] finite_subset [OF sub] show ?thesis by auto
qed

lemma claims_room:
  assumes "claims_tracked L0 self st"
  shows "ledger_room (w_quota (cs_world st))"
proof -
  let ?l = "w_quota (cs_world st)"
  note ids = ticket_ids_card [of ?l "cs_Attempts st"]
  have "card (live_tickets ?l) \<le> card (L0 \<union> ticket_ids ?l (cs_Attempts st))"
    using assms ids by (intro card_mono) (auto simp: claims_tracked_def)
  also have "\<dots> \<le> card L0 + length (cs_Attempts st)" using ids card_Un_le order_trans add_left_mono by blast
  finally show ?thesis using assms tickets_card [of ?l] by (simp add: claims_tracked_def ledger_room_def)
qed

lemma claims_keep:
  "claims_tracked L0 self st \<Longrightarrow> keeps_claims (cs_world st) w \<Longrightarrow> claims_tracked L0 self (st\<lparr>cs_world := w\<rparr>)"
proof -
  assume tr: "claims_tracked L0 self st" and "keeps_claims (cs_world st) w"
  with claims_room [OF tr] have k: "ledger_inv (w_quota w)" "ql_self (w_quota w) = ql_self (w_quota (cs_world st))"
    "live_tickets (w_quota w) \<subseteq> live_tickets (w_quota (cs_world st))" by (simp_all add: keeps_claims_def)
  have "ticket_ids (w_quota w) (cs_Attempts st) = ticket_ids (w_quota (cs_world st)) (cs_Attempts st)"
    by (simp add: ticket_ids_def k(2))
  with tr k order_trans [OF k(3)] show ?thesis by (simp add: claims_tracked_def)
qed

lemma claims_other:
  "claims_tracked L0 self st \<Longrightarrow> cs_world st' = cs_world st \<Longrightarrow> cs_Attempts st' = cs_Attempts st \<Longrightarrow>
   claims_tracked L0 self st'"
  by (simp add: claims_tracked_def)

lemma ticket_ids_update:
  assumes "i < length as" "\<not> Valid (ma_QuotaTicket (as ! i))" "0 \<notin> L"
  shows "L \<inter> ticket_ids l as \<subseteq> ticket_ids l (as[i := (as ! i)\<lparr>ma_QuotaTicket := t\<rparr>])"
    and "qt_ledger t = Some (ql_self l) \<Longrightarrow> qt_id t \<in> ticket_ids l (as[i := (as ! i)\<lparr>ma_QuotaTicket := t\<rparr>])"
proof -
  let ?as = "as[i := (as ! i)\<lparr>ma_QuotaTicket := t\<rparr>]"
  have mem: "?as ! i \<in> set ?as" using assms(1) by (simp add: set_update_memI)
  with assms(1) show "qt_ledger t = Some (ql_self l) \<Longrightarrow> qt_id t \<in> ticket_ids l ?as"
    by (force simp: ticket_ids_def)
  show "L \<inter> ticket_ids l as \<subseteq> ticket_ids l ?as"
  proof
    fix n
    assume "n \<in> L \<inter> ticket_ids l as"
    then obtain j where j: "j < length as" "n = qt_id (ma_QuotaTicket (as ! j))" "n \<in> L"
      "qt_ledger (ma_QuotaTicket (as ! j)) = Some (ql_self l)" by (auto simp: ticket_ids_def in_set_conv_nth)
    with assms have "j \<noteq> i" by (auto simp: Valid_def)
    with j have "?as ! j = as ! j" "?as ! j \<in> set ?as" using nth_mem [of j ?as] by auto
    with j show "n \<in> ticket_ids l ?as" unfolding ticket_ids_def by (smt (verit) mem_Collect_eq)
  qed
qed

lemma ledger_inv_zero: "ledger_inv l \<Longrightarrow> 0 \<notin> live_tickets l"
  by (force simp: ledger_inv_def ledger_inv_with_def tickets_ok_def list_all_iff live_tickets_def)

lemma ticket_ids_self: "ql_self l = ql_self l' \<Longrightarrow> ticket_ids l as = ticket_ids l' as"
  by (simp add: ticket_ids_def)

lemma reservesD:
  assumes "reserves f" "f w a = (w', t, ok)" "attempt_typed a" "ledger_room (w_quota w)"
  shows "ledger_inv (w_quota w')" "ql_self (w_quota w') = ql_self (w_quota w)"
    "live_tickets (w_quota w') \<subseteq>
       (if ok \<and> qt_ledger t = Some (ql_self (w_quota w)) then insert (qt_id t) (live_tickets (w_quota w))
        else live_tickets (w_quota w))"
  using assms unfolding reserves_def by blast+

lemma claims_reserved:
  assumes tr: "claims_tracked L0 self st" and f: "reserves f" "f (cs_world st) a = (w, t, True)" "attempt_typed a"
    and i: "i < length (cs_Attempts st)" "\<not> Valid (ma_QuotaTicket (cs_Attempts st ! i))"
  shows "claims_tracked L0 self
    (st\<lparr>cs_world := w, cs_Attempts := (cs_Attempts st)[i := (cs_Attempts st ! i)\<lparr>ma_QuotaTicket := t\<rparr>]\<rparr>)"
proof -
  let ?l = "w_quota (cs_world st)" and ?as = "(cs_Attempts st)[i := (cs_Attempts st ! i)\<lparr>ma_QuotaTicket := t\<rparr>]"
  from tr have w: "ledger_inv (w_quota w)" "ql_self (w_quota w) = ql_self ?l"
    "live_tickets (w_quota w) \<subseteq>
      (if qt_ledger t = Some (ql_self ?l) then insert (qt_id t) (live_tickets ?l) else live_tickets ?l)"
    using reservesD [OF f claims_room [OF tr]] by simp_all
  have ids: "ticket_ids (w_quota w) ?as = ticket_ids ?l ?as" using w(2) by (rule ticket_ids_self)
  have "0 \<notin> live_tickets ?l" using tr ledger_inv_zero by (auto simp: claims_tracked_def)
  note upd = ticket_ids_update [OF i this]
  from tr have "live_tickets ?l \<subseteq> L0 \<union> ticket_ids ?l ?as" using upd(1) [of ?l t] by (auto simp: claims_tracked_def)
  with w(3) upd(2) have "live_tickets (w_quota w) \<subseteq> L0 \<union> ticket_ids ?l ?as" by (auto split: if_splits)
  moreover have "list_all attempt_typed ?as"
    using tr i(1) by (auto simp: claims_tracked_def list_all_length nth_list_update attempt_typed_def)
  ultimately show ?thesis using w tr ids by (simp add: claims_tracked_def)
qed

lemma claims_reserve_next:
  assumes "claims_tracked L0 self st" "\<And>f. fe_ReserveQuota x = Some f \<Longrightarrow> reserves f"
    "\<forall>i\<in>set is. i < length (cs_Attempts st)"
  shows "claims_tracked L0 self (fst (reserve_next x is st))"
  using assms
proof (induction x "is" st rule: reserve_next.induct)
  case (2 x i "is" st)
  show ?case
  proof (cases "executable (cs_sets st) (cs_Attempts st) i")
    case False
    with 2 show ?thesis by simp
  next
    case True
    show ?thesis
    proof (cases "fe_ReserveQuota x")
      case None
      with True 2(3) show ?thesis by simp
    next
      case (Some f)
      obtain w t ok where r: "f (cs_world st) (cs_Attempts st ! i) = (w, t, ok)" by (metis prod_cases3)
      let ?st = "st\<lparr>cs_world := w, cs_sets := (cs_sets st)\<lparr>un_attempts := insert i (un_attempts (cs_sets st))\<rparr>\<rparr>"
      have f: "reserves f" using 2(4) Some by simp
      have ty: "attempt_typed (cs_Attempts st ! i)" using 2(3,5) by (simp add: claims_tracked_def list_all_length)
      have fail: "claims_tracked L0 self (fst (reserve_next x is ?st))"
        if "\<not> ok" "\<not> Valid (ma_QuotaTicket (cs_Attempts st ! i))"
      proof -
        have "keeps_claims (cs_world st) w" using reservesD [OF f r ty] that by (simp add: keeps_claims_def)
        then have "claims_tracked L0 self ?st"
          using claims_other [OF claims_keep [OF 2(3)], of w ?st] by simp
        then show ?thesis
          using 2(2) [of "cs_Attempts st ! i" f] 2(4,5) True Some r that by simp
      qed
      have good: "claims_tracked L0 self (st\<lparr>cs_world := w,
          cs_Attempts := (cs_Attempts st)[i := (cs_Attempts st ! i)\<lparr>ma_QuotaTicket := t\<rparr>]\<rparr>)"
        if "ok" "\<not> Valid (ma_QuotaTicket (cs_Attempts st ! i))"
        using claims_reserved [OF 2(3) f _ ty _ that(2)] r that 2(5) by simp
      from True Some r fail good 2(3) show ?thesis by (simp add: Let_def)
    qed
  qed
qed simp

lemma reserve_next_length: "length (cs_Attempts (fst (reserve_next x is st))) = length (cs_Attempts st)"
  using reserve_next_advanced [of st x "is"] by (auto simp: advanced_def dest: routes_length)

lemma claims_run_attempt:
  assumes "claims_tracked L0 self st" "run_keeps run (cs_world st)"
    "\<And>f st. cb = Some f \<Longrightarrow> claims_tracked L0 self st \<Longrightarrow> claims_tracked L0 self (fst (f st))"
  shows "claims_tracked L0 self (fst (run_attempt cb run st))"
  using assms(1,2)
proof (induction run arbitrary: st)
  case (Returned w err)
  then show ?case by (simp add: claims_keep)
next
  case (AsksFallback w k)
  let ?r = "case cb of None \<Rightarrow> (st\<lparr>cs_world := w\<rparr>, True) | Some f \<Rightarrow> f (st\<lparr>cs_world := w\<rparr>)"
  have "claims_tracked L0 self (st\<lparr>cs_world := w\<rparr>)" using AsksFallback.prems by (intro claims_keep) simp_all
  then have "claims_tracked L0 self (fst ?r)" using assms(3) by (auto split: option.split)
  moreover from AsksFallback.prems(2) have "run_keeps (k q) (fst q)" for q by (cases q) simp
  from this [of "(cs_world (fst ?r), snd ?r)"]
  have "run_keeps (k (cs_world (fst ?r), snd ?r)) (cs_world (fst ?r))" by (simp only: fst_conv)
  ultimately have "claims_tracked L0 self (fst (run_attempt cb (k (cs_world (fst ?r), snd ?r)) (fst ?r)))"
    by (rule AsksFallback.IH [rotated]) simp_all
  then show ?case by (simp add: Let_def)
qed

lemma claims_make_attempt:
  assumes "claims_tracked L0 self st" "collaborators_ok e x" "make_attempt e x i st = (st', a, er)"
    "i < length (cs_Attempts st)"
  shows "claims_tracked L0 self st'"
proof -
  let ?h = "nextExecutableAttempt (cs_Attempts st) i (cs_sets st) \<noteq> None \<and> fe_ReserveQuota x \<noteq> None"
  let ?cb = "if ?h then Some (reserveNextExecutableAttempt x i) else None"
  have typed: "attempt_typed (cs_Attempts st ! i)" using assms(1,4) by (simp add: claims_tracked_def list_all_length)
  have "a = (cs_Attempts st ! i)\<lparr>ma_AttemptIndex := ma_AttemptIndex a, ma_LastInChain := ma_LastInChain a,
      ma_ReserveFallback := ma_ReserveFallback a\<rparr>"
    using assms(3) by (auto simp: make_attempt_def Let_def)
  with typed have att: "attempt_typed a" unfolding attempt_typed_def by (metis modelAttempt.select_convs modelAttempt.update_convs modelAttempt.surjective)
  obtain body key d where st': "st' = (fst (run_attempt ?cb (env_executor e body key d a (cs_world st)) st))\<lparr>cs_trace :=
      cs_trace (fst (run_attempt ?cb (env_executor e body key d a (cs_world st)) st)) @ [Ran i a er]\<rparr>"
    using assms(3) unfolding make_attempt_def Let_def by auto
  have "claims_tracked L0 self (fst (f s))" if "?cb = Some f" "claims_tracked L0 self s" for f s
    using that assms(2) claims_reserve_next [of L0 self s x]
    by (auto simp: reserveNextExecutableAttempt_def collaborators_ok_def split: if_splits)
  then have "claims_tracked L0 self (fst (run_attempt ?cb (env_executor e body key d a (cs_world st)) st))"
    using assms(1,2) att by (intro claims_run_attempt) (auto simp: collaborators_ok_def)
  then show ?thesis unfolding st' by (rule claims_other) simp_all
qed

lemma claims_back_off:
  assumes "claims_tracked L0 self st" "collaborators_ok e x"
  shows "claims_tracked L0 self (back_off e x i a st)"
proof (cases "cs_world (back_off e x i a st) = cs_world st")
  case True
  then show ?thesis using assms(1) back_off_facts [of e x i a st] by (intro claims_other [OF assms(1)]) auto
next
  case False
  then have "\<exists>d. cs_world (back_off e x i a st) = env_wait e d (cs_world st)"
    by (auto simp: back_off_def Let_def split: option.splits if_splits)
  then obtain d where d: "cs_world (back_off e x i a st) = env_wait e d (cs_world st)" ..
  have "claims_tracked L0 self (st\<lparr>cs_world := env_wait e d (cs_world st)\<rparr>)"
    using assms by (intro claims_keep) (auto simp: collaborators_ok_def)
  then show ?thesis using d back_off_facts [of e x i a st] by (auto intro: claims_other)
qed

lemma claims_after_failure:
  assumes "claims_tracked L0 self st" "collaborators_ok e x" "after_failure e x i a err st = (st', ctl)"
  shows "claims_tracked L0 self st'"
proof -
  have w: "claims_tracked L0 self st1" if "cs_world st1 = cs_world st" "cs_Attempts st1 = cs_Attempts st" for st1
    by (rule claims_other [OF assms(1) that])
  have b: "claims_tracked L0 self (back_off e x i a st1)" if "cs_world st1 = cs_world st" "cs_Attempts st1 = cs_Attempts st" for st1
    by (rule claims_back_off [OF w [OF that] assms(2)])
  from assms(3) show ?thesis
    by (auto simp: after_failure_def Let_def split: exec_error.splits if_splits intro!: w b)
qed

lemma claims_chain_step:
  assumes "claims_tracked L0 self st" "collaborators_ok e x" "chain_step e x i st = (st', ctl)"
    "i < length (cs_Attempts st)"
  shows "claims_tracked L0 self st'"
proof (cases "executable (cs_sets st) (cs_Attempts st) i")
  case False
  with assms show ?thesis by (simp add: chain_step_def)
next
  case True
  obtain st1 a er where m: "make_attempt e x i st = (st1, a, er)" by (metis prod_cases3)
  have c1: "claims_tracked L0 self st1" by (rule claims_make_attempt [OF assms(1,2) m assms(4)])
  have keep: "claims_tracked L0 self (st1\<lparr>cs_world := f a (cs_world st1)\<rparr>)"
    if "fe_OnSuccess x = Some f \<or> fe_OnFailure x = Some f" for f
    using that assms(2) by (intro claims_keep [OF c1]) (auto simp: collaborators_ok_def)
  show ?thesis
  proof (cases er)
    case None
    with True m assms(3) c1 keep show ?thesis by (auto simp: chain_step_def split: option.splits)
  next
    case (Some err)
    let ?st2 = "case fe_OnFailure x of None \<Rightarrow> st1 | Some h \<Rightarrow> st1\<lparr>cs_world := h a (cs_world st1)\<rparr>"
    have "claims_tracked L0 self ?st2" using c1 keep by (auto split: option.split)
    then have "claims_tracked L0 self (?st2\<lparr>cs_lastErr := Some err\<rparr>)" by (rule claims_other) simp_all
    moreover have "after_failure e x i a err (?st2\<lparr>cs_lastErr := Some err\<rparr>) = (st', ctl)"
      using True m assms(3) Some by (simp add: chain_step_def Let_def)
    ultimately show ?thesis using claims_after_failure assms(2) by blast
  qed
qed

lemma chain_step_length:
  assumes "chain_step e x i st = (st', ctl)"
  shows "length (cs_Attempts st') = length (cs_Attempts st)"
proof (cases "executable (cs_sets st) (cs_Attempts st) i")
  case False
  with assms show ?thesis by (simp add: chain_step_def)
next
  case True
  obtain st1 a er where m: "make_attempt e x i st = (st1, a, er)" by (metis prod_cases3)
  have len: "length (cs_Attempts st1) = length (cs_Attempts st)"
    using make_attempt_facts(1) [OF m] by (auto simp: advanced_def dest: routes_length)
  show ?thesis
  proof (cases er)
    case None
    with True m assms len show ?thesis by (auto simp: chain_step_def split: option.splits)
  next
    case (Some err)
    let ?st2 = "(case fe_OnFailure x of None \<Rightarrow> st1 | Some h \<Rightarrow> st1\<lparr>cs_world := h a (cs_world st1)\<rparr>)\<lparr>cs_lastErr := Some err\<rparr>"
    have "after_failure e x i a err ?st2 = (st', ctl)" using True m assms Some by (simp add: chain_step_def Let_def)
    then have "cs_Attempts st' = cs_Attempts ?st2" by (rule after_failure_facts(1))
    with len show ?thesis by (auto split: option.splits)
  qed
qed

lemma claims_chain_loop:
  assumes "claims_tracked L0 self st" "collaborators_ok e x" "\<forall>i\<in>set is. i < length (cs_Attempts st)"
  shows "claims_tracked L0 self (fst (chain_loop e x is st))"
  using assms
proof (induction "is" arbitrary: st)
  case (Cons i "is")
  obtain st1 c where s: "chain_step e x i st = (st1, c)" by (metis prod.exhaust)
  have "claims_tracked L0 self st1" using claims_chain_step [OF Cons.prems(1,2) s] Cons.prems(3) by simp
  with Cons.IH [of st1] Cons.prems(2,3) chain_step_length [OF s] s show ?case by (cases c) simp_all
qed simp

lemma release_ticket_live:
  assumes "ledger_inv (w_quota w)"
  shows "ledger_inv (w_quota (release_ticket t w)) \<and> ql_self (w_quota (release_ticket t w)) = ql_self (w_quota w) \<and>
    live_tickets (w_quota (release_ticket t w)) =
      live_tickets (w_quota w) - (if qt_ledger t = Some (ql_self (w_quota w)) then {qt_id t} else {})"
proof (cases "qt_ledger t = Some (ql_self (w_quota w)) \<and> qt_id t \<noteq> 0")
  case True
  then have t: "t = \<lparr>qt_ledger = Some (ql_self (w_quota w)), qt_id = qt_id t\<rparr>" by simp
  from True have "w_quota (release_ticket t w) = ledger_give (w_clock w) (qt_id t) (w_quota w)"
    by (subst t) (simp add: release_ticket_def Valid_def ledger_give_def)
  moreover have "ql_self (ledger_give (w_clock w) (qt_id t) (w_quota w)) = ql_self (w_quota w)"
    by (simp add: ledger_give_def Release_def consumeTicketLocked_def Let_def purgeExpiredLocked_def split: option.split)
  ultimately show ?thesis
    using True quota_pool.give_inv [OF assms] quota_pool.give_outstanding [OF assms] by simp
next
  case False
  then have "live_tickets (w_quota (release_ticket t w)) = live_tickets (w_quota w) \<and>
      ql_self (w_quota (release_ticket t w)) = ql_self (w_quota w)"
    by (auto simp: release_ticket_def Release_def ticket_mine_def)
  moreover have "ledger_inv (w_quota (release_ticket t w))"
    using assms inv_Release [OF assms] by (simp add: release_ticket_def)
  moreover have "0 \<notin> live_tickets (w_quota w)" by (rule ledger_inv_zero [OF assms])
  ultimately show ?thesis using False by auto
qed

lemma release_all_live:
  assumes "ledger_inv (w_quota w)"
  shows "ledger_inv (w_quota (release_all as w)) \<and>
    live_tickets (w_quota (release_all as w)) = live_tickets (w_quota w) - ticket_ids (w_quota w) as"
  using assms
proof (induction as arbitrary: w)
  case Nil
  then show ?case by (simp add: release_all_def ticket_ids_def)
next
  case (Cons a as)
  note one = release_ticket_live [OF Cons.prems, of "ma_QuotaTicket a"]
  from Cons.IH one have "ledger_inv (w_quota (release_all as (release_ticket (ma_QuotaTicket a) w))) \<and>
     live_tickets (w_quota (release_all as (release_ticket (ma_QuotaTicket a) w))) =
       live_tickets (w_quota (release_ticket (ma_QuotaTicket a) w)) - ticket_ids (w_quota w) as"
    by (simp add: ticket_ids_def)
  with one show ?case by (auto simp: release_all_def ticket_ids_def split: if_splits)
qed

section \<open>What holds of the world along a chain\<close>

text \<open>\<open>P\<close> holds while the chain goes on, and \<open>Q\<close> once an attempt has succeeded.\<close>

primrec run_ok :: "('w \<Rightarrow> bool) \<Rightarrow> ('w \<Rightarrow> bool) \<Rightarrow> 'w attempt_run \<Rightarrow> bool" where
  "run_ok P Q (Returned w er) \<longleftrightarrow> (if er = None then Q w else P w)"
| "run_ok P Q (AsksFallback w k) \<longleftrightarrow> P w \<and> (\<forall>r. P (fst r) \<longrightarrow> run_ok P Q (k r))"

locale chain_contract =
  fixes e :: "('a world_scheme) chain_env" and x :: "('a world_scheme) FallbackExecution"
    and P :: "'a world_scheme \<Rightarrow> bool" and Q :: "'a world_scheme \<Rightarrow> bool"
  assumes executes: "P w \<Longrightarrow> run_ok P Q (env_executor e body key d a w)"
    and waiting: "P w \<Longrightarrow> P (env_wait e delay w)"
    and succeeding: "fe_OnSuccess x = Some f \<Longrightarrow> Q w \<Longrightarrow> Q (f a w)"
    and failing: "fe_OnFailure x = Some f \<Longrightarrow> P w \<Longrightarrow> P (f a w)"
    and reserving: "fe_ReserveQuota x = Some g \<Longrightarrow> P w \<Longrightarrow> P (fst (g w a))"
    and releasing: "P w \<Longrightarrow> P (release_ticket t w)" "Q w \<Longrightarrow> Q (release_ticket t w)"
begin

lemma reserve_next_holds: "P (cs_world st) \<Longrightarrow> P (cs_world (fst (reserve_next x is st)))"
proof (induction "is" arbitrary: st)
  case (Cons i "is")
  show ?case
  proof (cases "fe_ReserveQuota x")
    case None
    with Cons show ?thesis by (simp add: Let_def)
  next
    case (Some g)
    obtain w t ok where g: "g (cs_world st) (cs_Attempts st ! i) = (w, t, ok)" by (metis prod_cases3)
    with reserving [OF Some Cons.prems, of "cs_Attempts st ! i"] have "P w" by simp
    with Cons Some g show ?thesis by (simp add: Let_def)
  qed
qed simp

lemma run_attempt_holds:
  assumes "run_ok P Q run" "\<And>f st. cb = Some f \<Longrightarrow> P (cs_world st) \<Longrightarrow> P (cs_world (fst (f st)))"
  shows "if snd (run_attempt cb run st) = None then Q (cs_world (fst (run_attempt cb run st)))
    else P (cs_world (fst (run_attempt cb run st)))"
  using assms(1)
proof (induction run arbitrary: st)
  case (AsksFallback w k)
  let ?r = "case cb of None \<Rightarrow> (st\<lparr>cs_world := w\<rparr>, True) | Some f \<Rightarrow> f (st\<lparr>cs_world := w\<rparr>)"
  have "P (cs_world (fst ?r))" using AsksFallback.prems assms(2) by (auto split: option.split)
  then have "run_ok P Q (k (cs_world (fst ?r), snd ?r))" using AsksFallback.prems by simp
  from AsksFallback.IH [OF _ this, of "fst ?r"] show ?case by (simp add: Let_def)
qed simp

lemma make_attempt_holds:
  assumes "P (cs_world st)" "make_attempt e x i st = (st', a, er)"
  shows "if er = None then Q (cs_world st') else P (cs_world st')"
proof -
  let ?h = "nextExecutableAttempt (cs_Attempts st) i (cs_sets st) \<noteq> None \<and> fe_ReserveQuota x \<noteq> None"
  let ?cb = "if ?h then Some (reserveNextExecutableAttempt x i) else None"
  obtain body key d where eq: "er = snd (run_attempt ?cb (env_executor e body key d a (cs_world st)) st)"
    "cs_world st' = cs_world (fst (run_attempt ?cb (env_executor e body key d a (cs_world st)) st))"
    using assms(2) unfolding make_attempt_def Let_def by auto
  show ?thesis unfolding eq
    by (rule run_attempt_holds [OF executes [OF assms(1)]])
       (auto simp: reserveNextExecutableAttempt_def reserve_next_holds split: if_splits)
qed

lemma back_off_holds: "P (cs_world st) \<Longrightarrow> P (cs_world (back_off e x i a st))"
  by (simp add: back_off_def Let_def waiting split: option.split)

lemma after_failure_holds:
  assumes "P (cs_world st)" "after_failure e x i a err st = (st', ctl)"
  shows "P (cs_world st')"
  using assms back_off_holds
  by (auto simp: after_failure_def report_failure_def drop_provider_def drop_pool_def Let_def split: exec_error.splits if_splits)

lemma chain_step_holds:
  assumes "P (cs_world st)" "chain_step e x i st = (st', ctl)"
  shows "if ctl = Success then Q (cs_world st') else P (cs_world st')"
proof (cases "executable (cs_sets st) (cs_Attempts st) i")
  case True
  obtain st1 a er where m: "make_attempt e x i st = (st1, a, er)" by (metis prod_cases3)
  note h = make_attempt_holds [OF assms(1) m]
  show ?thesis
  proof (cases er)
    case None
    with True m h assms(2) succeeding show ?thesis by (auto simp: chain_step_def split: option.splits)
  next
    case (Some err)
    let ?st2 = "(case fe_OnFailure x of None \<Rightarrow> st1 | Some f \<Rightarrow> st1\<lparr>cs_world := f a (cs_world st1)\<rparr>)\<lparr>cs_lastErr := Some err\<rparr>"
    have af: "after_failure e x i a err ?st2 = (st', ctl)" using True m assms(2) Some by (simp add: chain_step_def Let_def)
    have "P (cs_world ?st2)" using h Some failing by (auto split: option.split)
    from after_failure_holds [OF this af] after_failure_facts(7) [OF af] show ?thesis by simp
  qed
qed (use assms in \<open>auto simp: chain_step_def\<close>)

lemma chain_loop_holds:
  "P (cs_world st) \<Longrightarrow> chain_loop e x is st = (st', ctl) \<Longrightarrow> if ctl = Success then Q (cs_world st') else P (cs_world st')"
proof (induction "is" arbitrary: st)
  case (Cons i "is")
  obtain st1 c where s: "chain_step e x i st = (st1, c)" by fastforce
  note h = chain_step_holds [OF Cons.prems(1) s]
  show ?case using Cons.IH [of st1] Cons.prems(2) s h by (cases c) auto
qed auto

lemma release_all_holds: "P w \<Longrightarrow> P (release_all as w)" "Q w \<Longrightarrow> Q (release_all as w)"
  by (induction as arbitrary: w) (simp_all add: release_all_def releasing)

lemma Execute_holds:
  assumes "P w" "Execute (Some e) x attempts w = (w', v)"
  shows "if v = None then Q w' else P w'"
proof -
  obtain st ctl where r: "run_chain e x attempts w = (st, ctl)" by fastforce
  have "if ctl = Success then Q (cs_world st) else P (cs_world st)"
    by (rule chain_loop_holds [OF _ r [unfolded run_chain_def]]) (simp add: start_chain_def assms(1))
  moreover have "w' = release_all (cs_Attempts st) (cs_world st)" "v = None \<longleftrightarrow> ctl = Success"
    using assms(2) r by (auto simp: Execute_def Let_def chain_verdict_def split: loop_control.splits option.splits)
  ultimately show ?thesis using release_all_holds by (auto split: if_splits)
qed

end

section \<open>Example\<close>

text \<open>A chain of two models of one provider and one of another, with an executor whose account at the
  first provider is rejected.\<close>

definition ex_chain :: "modelAttempt list" where
  "ex_chain = [newAttempt ''coding'' ''a'' ''groq'' (ma_BreakerPolicy ex_attempt),
     newAttempt ''coding'' ''b'' ''groq'' (ma_BreakerPolicy ex_attempt),
     newAttempt ''coding'' ''c'' ''openrouter'' (ma_BreakerPolicy ex_attempt)]"

definition ex_world :: world where
  "ex_world = \<lparr>w_service = ex_service, w_affinity = newAffinityStore [] 0 8, w_clock = 5\<rparr>"

definition ex_executor :: "world attempt_executor" where
  "ex_executor body key d a w = Returned w
     (if ma_Provider a = ''groq''
      then Some (AttErr (zeroError\<lparr>ae_StatusCode := 401, ae_ProviderUnavailable := True\<rparr>)) else None)"

definition ex_env :: "world chain_env" where
  "ex_env = \<lparr>env_executor = ex_executor, env_marshal = (\<lambda>_. []), env_wait = (\<lambda>d w. w)\<rparr>"

definition ex_execution :: "world FallbackExecution" where
  "ex_execution = \<lparr>fe_RequestBody = [], fe_APIKey = [], fe_RetryPolicy = rc_RetryPolicy (rs_runtimeConfig ex_service),
     fe_Stream = False, fe_PerAttemptTimeout = 0, fe_ReserveQuota = None, fe_BuildRequestBody = None,
     fe_OnSuccess = None, fe_OnFailure = None\<rparr>"

lemmas ex_chain_simps = ex_chain_def ex_world_def ex_executor_def ex_env_def ex_execution_def newAttempt_def
  run_chain_def start_chain_def chain_step_def make_attempt_def after_failure_def executable_def
  nextExecutableAttempt_def quotaPoolUnavailable_def has_suffix_def to_lower_def zeroError_def
  drop_provider_def report_failure_def chain_verdict_def

lemma ex_collaborators: "collaborators_ok ex_env ex_execution"
  by (simp add: collaborators_ok_def ex_env_def ex_execution_def ex_executor_def keeps_claims_def ledger_room_def)

lemma ex_run:
  "snd (run_chain ex_env ex_execution ex_chain ex_world) = Success"
  "ran (cs_trace (fst (run_chain ex_env ex_execution ex_chain ex_world))) = {0, 2}"
  by (simp_all add: ex_chain_simps upt_rec Let_def ran_def, auto)

section \<open>Properties\<close>

text \<open>C17. The order of a chain: attempts run in chain order and each at most once, under their own model,
  provider and 1-based index; nothing runs after a success, nor after an attempt that was told it is
  the last; after a provider was found unavailable or incompatible none of its models runs, and
  after the free pool of a provider was found exhausted none of its free models does.\<close>

theorem chain_order:
  assumes "run_chain e x attempts w = (st, ctl)"
  shows "sorted_wrt follows (cs_trace st) \<and>
    (\<forall>i a er. Ran i a er \<in> set (cs_trace st) \<longrightarrow> i < length attempts \<and> ma_AttemptIndex a = i + 1 \<and>
       ma_Provider a = ma_Provider (attempts ! i) \<and> ma_Model a = ma_Model (attempts ! i))"
  using run_chain_done [OF assms] by (auto simp: chain_done_def)

theorem chain_order_witness:
  "sorted_wrt follows (cs_trace (fst (run_chain ex_env ex_execution ex_chain ex_world))) \<and>
   ran (cs_trace (fst (run_chain ex_env ex_execution ex_chain ex_world))) = {0, 2}"
  using chain_order [OF surjective_pairing, of ex_env ex_execution ex_chain ex_world] ex_run(2) by blast

text \<open>C18. The verdict of the chain is honest: it succeeds exactly when some attempt succeeded; otherwise
  the reported error is that of the last attempt that ran (or "all failed" when none ran), and the
  reason is "terminal" exactly when a candidate was left that could still have run, "exhausted" when
  every attempt either ran or had been ruled out.\<close>

theorem chain_verdict_honest:
  assumes "run_chain e x attempts w = (st, ctl)"
  shows "(chain_verdict (st, ctl) = None \<longleftrightarrow> (\<exists>i a. Ran i a None \<in> set (cs_trace st))) \<and>
    (\<forall>ce. chain_verdict (st, ctl) = Some ce \<longrightarrow>
      ce_err ce = (case last_error (cs_trace st) of Some er \<Rightarrow> er | None \<Rightarrow> errAllFallbackModelsFailed) \<and>
      (ce_reason ce = chainTerminal \<longleftrightarrow>
        cs_lastErr st \<noteq> None \<and> (\<exists>k<length attempts. k \<notin> ran (cs_trace st) \<and> executable (cs_sets st) attempts k)) \<and>
      (ce_reason ce = chainExhausted \<longleftrightarrow> ce_reason ce \<noteq> chainTerminal))"
proof -
  have d: "chain_done attempts st ctl" by (rule run_chain_done [OF assms])
  show ?thesis
  proof (cases "ctl = Success")
    case True
    with d show ?thesis by (auto simp: chain_verdict_def chain_done_def)
  next
    case False
    with d have le: "cs_lastErr st = last_error (cs_trace st)" and none: "\<And>i a. Ran i a None \<notin> set (cs_trace st)"
      and br: "ctl = Break True \<longleftrightarrow>
        (\<exists>k<length attempts. k \<notin> ran (cs_trace st) \<and> executable (cs_sets st) attempts k)"
      by (auto simp: chain_done_def)
    from False none show ?thesis
      by (cases ctl; cases "last_error (cs_trace st)") (auto simp: chain_verdict_def le br [symmetric])
  qed
qed

theorem chain_verdict_honest_witness:
  "chain_verdict (run_chain ex_env ex_execution ex_chain ex_world) = None \<and>
   (\<exists>i a. Ran i a None \<in> set (cs_trace (fst (run_chain ex_env ex_execution ex_chain ex_world))))"
proof -
  have "chain_verdict (run_chain ex_env ex_execution ex_chain ex_world) = None"
    using ex_run(1) by (simp add: chain_verdict_def)
  with chain_verdict_honest [OF surjective_pairing, of ex_env ex_execution ex_chain ex_world] show ?thesis by simp
qed

lemma chain_claims_gone:
  assumes "collaborators_ok e x" "ledger_inv (rs_quota (w_service w))" "Execute (Some e) x attempts w = (w', v)"
    "card (live_tickets (rs_quota (w_service w))) + length attempts + 3 \<le> 2 ^ 64" "list_all attempt_typed attempts"
  shows "ledger_inv (rs_quota (w_service w')) \<and>
    live_tickets (rs_quota (w_service w')) \<subseteq>
      live_tickets (rs_quota (w_service w)) - ticket_ids (rs_quota (w_service w)) attempts"
proof -
  let ?r = "run_chain e x attempts w"
  let ?L0 = "live_tickets (w_quota w) - ticket_ids (w_quota w) attempts"
  have fin: "finite (live_tickets (w_quota w))" by (simp add: live_tickets_def)
  with assms(4) have "card ?L0 + length attempts + 3 \<le> 2 ^ 64" using card_mono [of "live_tickets (w_quota w)" ?L0] by simp
  then have "claims_tracked ?L0 (ql_self (w_quota w)) (start_chain attempts w)"
    using assms(2,5) fin by (auto simp: claims_tracked_def start_chain_def)
  then have tr: "claims_tracked ?L0 (ql_self (w_quota w)) (fst ?r)"
    unfolding run_chain_def using assms(1) by (rule claims_chain_loop) (simp add: start_chain_def)
  then have inv: "ledger_inv (w_quota (cs_world (fst ?r)))" by (simp add: claims_tracked_def)
  have w': "w' = release_all (cs_Attempts (fst ?r)) (cs_world (fst ?r))"
    using assms(3) by (simp add: Execute_def Let_def)
  from release_all_live [OF inv, of "cs_Attempts (fst ?r)"] tr show ?thesis
    unfolding w' by (auto simp: claims_tracked_def)
qed

text \<open>No quota leaks from a chain: however it ends, every claim on the quota ledger that outlives it
  was there before and is not one of the tickets the chain was given. This relies on an attempt
  leaving behind no new claim and on a reservation adding only the claim of the ticket it returns,
  on estimates that fit their 64-bit fields, and on fewer outstanding tickets than there are 64-bit
  numbers.\<close>

theorem chain_releases_quota:
  assumes "collaborators_ok e x" "ledger_inv (rs_quota (w_service w))" "Execute (Some e) x attempts w = (w', v)"
    "card (live_tickets (rs_quota (w_service w))) + length attempts + 3 \<le> 2 ^ 64" "list_all attempt_typed attempts"
  shows "ledger_inv (rs_quota (w_service w')) \<and>
    live_tickets (rs_quota (w_service w')) \<subseteq>
      live_tickets (rs_quota (w_service w)) - ticket_ids (rs_quota (w_service w)) attempts"
  using assms by (rule chain_claims_gone)

lemma empty_ledger_inv: "ledger_inv (NewQuotaLedger self)"
  by (rule reachable_inv [of self]) (rule ledger_reachable.init)

theorem chain_releases_quota_witness:
  "live_tickets (rs_quota (w_service (fst (Execute (Some ex_env) ex_execution ex_chain ex_world)))) = {}"
proof -
  have "ledger_inv (rs_quota (w_service ex_world))" by (simp add: ex_world_def ex_service_def empty_ledger_inv)
  from chain_releases_quota [OF ex_collaborators this surjective_pairing, of ex_chain] show ?thesis
    by (simp add: ex_chain_def ex_world_def ex_service_def live_tickets_def NewQuotaLedger_def attempt_typed_def
        newAttempt_def noEstimate_def max_int64_def)
qed

text \<open>The back-off before a retry never exceeds the configured maximum (or the minimum when no maximum
  is set), and it is not negative as long as the doubled minimum fits 63 bits.\<close>

theorem backoff_bounded:
  assumes "int64_ok (rp_BackoffMin p)" "int64_ok (rp_BackoffMax p)"
  shows "RetryBackoff p i \<le> (if rp_BackoffMax p > 0 then rp_BackoffMax p
      else if rp_BackoffMin p > 0 then rp_BackoffMin p else 100 * millisecond) \<and>
    ((if rp_BackoffMin p > 0 then rp_BackoffMin p else 100 * millisecond) * 2 ^ (i - 1) \<le> max_int64 \<longrightarrow>
      0 \<le> RetryBackoff p i)"
proof -
  let ?mn = "if rp_BackoffMin p > 0 then rp_BackoffMin p else 100 * millisecond"
  let ?mx = "if rp_BackoffMax p > 0 then rp_BackoffMax p else ?mn"
  have eq: "RetryBackoff p i = (if i = 0 then 0
      else if wrap64 (?mn * pow2_duration (i - 1)) > ?mx then ?mx else wrap64 (?mn * pow2_duration (i - 1)))"
    by (simp add: RetryBackoff_def Let_def)
  have pos: "0 < ?mn" "0 < ?mx" by auto
  have "0 \<le> wrap64 (?mn * pow2_duration (i - 1))" if le: "?mn * 2 ^ (i - 1) \<le> max_int64"
  proof -
    have one: "(1::int) * 2 ^ (i - 1) \<le> ?mn * 2 ^ (i - 1)" using pos(1) by (intro mult_right_mono) auto
    have "(2::int) ^ (i - 1) \<le> max_int64" using order_trans [OF one le] by simp
    then have "(2::int) ^ (i - 1) < 2 ^ 63" by (simp add: max_int64_def)
    then have "i - 1 < 63" by (rule power_less_imp_less_exp [rotated]) simp
    then have "pow2_duration (i - 1) = 2 ^ (i - 1)" by (simp add: pow2_duration_def)
    moreover have "0 \<le> ?mn * 2 ^ (i - 1)" using pos(1) by simp
    ultimately show ?thesis using le
      by (subst wrap64_eq_id) (auto simp: int64_ok_def min_int64_def)
  qed
  with eq pos show ?thesis by (auto simp: not_less)
qed

theorem backoff_bounded_witness:
  "RetryBackoff (rc_RetryPolicy (rs_runtimeConfig ex_service)) 3 \<le> 100000000"
  using backoff_bounded [of "rc_RetryPolicy (rs_runtimeConfig ex_service)" 3]
  by (simp add: ex_service_def int64_ok_def min_int64_def max_int64_def)

text \<open>Without that bound the doubling overflows: with the default minimum the 38th attempt of a long chain
  has a negative delay, so the loop does not wait at all.\<close>

lemma backoff_overflow:
  "RetryBackoff \<lparr>rp_MaxAttempts = 60, rp_RetryHTTPStatuses = [], rp_RetryOnEOF = True, rp_RetryOnTimeout = True,
     rp_BackoffMin = 0, rp_BackoffMax = 2 * second\<rparr> 38 < 0"
  by (simp add: RetryBackoff_def pow2_duration_def wrap64_def Let_def)

end
