(* ===== verification/Quota_Providers.thy ===== *)
theory Quota_Providers
  imports Fallback Admission
begin

text \<open>
  What the providers say about quota: \<open>src/internal/router/router_quota_providers.go\<close> and
  \<open>router_provider_error.go\<close>. Response headers and JSON error bodies become normalized observations,
  and observations with a known window become facts for the quota ledger.

  A response is its status, its headers (a map from names to values) and its body. Parsing of HTTP
  dates and of duration strings and the decoding of error bodies are parameters (\<open>parsers\<close>): the first
  two return \<open>None\<close> on a parse error, the third when the body is not such a JSON object.
\<close>

section \<open>Observations\<close>

record providerQuotaObservation =
  po_Provider :: providerID
  po_Model :: string
  po_Scope :: string
  po_Dimension :: string
  po_Window :: string
  po_Limit :: int
  po_Remaining :: int
  po_HasLimit :: bool
  po_HasRemaining :: bool
  po_ResetAt :: go_time
  po_RetryAfter :: duration
  po_ObservedAt :: go_time
  po_Source :: string
  po_Classification :: string
  po_Exhausted :: bool

text \<open>The fields of an error body that are read: \<open>error.code\<close>, \<open>error.message\<close> and, in
  \<open>error.metadata\<close>, \<open>headers\<close>, \<open>limit_source\<close> and \<open>provider_name\<close>.\<close>

record errorBody =
  eb_Code :: int
  eb_Message :: string
  eb_Headers :: "(string, string) gomap"
  eb_LimitSource :: string
  eb_ProviderName :: string

record parsers =
  ParseTime :: "string \<Rightarrow> go_time option"
  ParseDuration :: "string \<Rightarrow> duration option"
  decodeError :: "string \<Rightarrow> errorBody option"

type_synonym httpHeader = "(string, string list) gomap"

definition headerValue :: "httpHeader \<Rightarrow> string \<Rightarrow> string" where
  "headerValue headers name = (case find (\<lambda>(key, values). equal_fold key name \<and> values \<noteq> []) headers of
     Some (key, values) \<Rightarrow> trim_space (hd values)
   | None \<Rightarrow> [])"

definition quotaHeader :: "(string, string) gomap \<Rightarrow> string \<Rightarrow> string" where
  "quotaHeader headers name = (case find (\<lambda>(key, value). equal_fold key name) headers of
     Some (key, value) \<Rightarrow> trim_space value
   | None \<Rightarrow> [])"

definition parseNonNegativeInt64 :: "string \<Rightarrow> int option" where
  "parseNonNegativeInt64 raw = (case atoi (trim_space raw) of
     Some v \<Rightarrow> if 0 \<le> v then Some v else None
   | None \<Rightarrow> None)"

text \<open>The value beside \<open>ok\<close>: \<open>ParseInt\<close> returns the nearest bound for a number out of range and zero for
  what is not a number.\<close>

definition parsed_value :: "string \<Rightarrow> int" where
  "parsed_value raw = (case parse_signed (trim_space raw) of Some v \<Rightarrow> max min_int64 (min max_int64 v) | None \<Rightarrow> 0)"

definition max_seconds :: int where
  "max_seconds = max_int64 div second"

definition parseRetryAfterAt :: "parsers \<Rightarrow> string \<Rightarrow> go_time \<Rightarrow> duration" where
  "parseRetryAfterAt p raw now =
     (case parseNonNegativeInt64 (trim_space raw) of
        Some seconds \<Rightarrow> if seconds \<le> max_seconds then seconds * second else 0
      | None \<Rightarrow> (case ParseTime p (trim_space raw) of
                   Some t \<Rightarrow> if after t now then sub_time t now else 0
                 | None \<Rightarrow> 0))"

definition unix_epoch :: go_time where
  "unix_epoch = 62135596800 * second"

definition unix_milli :: "int \<Rightarrow> go_time" where
  "unix_milli n = unix_epoch + n * millisecond"

definition unix_seconds :: "int \<Rightarrow> go_time" where
  "unix_seconds n = unix_epoch + n * second"

definition resetUnixMilliseconds :: "parsers \<Rightarrow> string \<Rightarrow> go_time \<Rightarrow> go_time option" where
  "resetUnixMilliseconds p raw now = (case parseNonNegativeInt64 raw of
     Some millis \<Rightarrow> if millis = 0 then None else Some (unix_milli millis)
   | None \<Rightarrow> None)"

definition resetDurationOrTimestamp :: "parsers \<Rightarrow> string \<Rightarrow> go_time \<Rightarrow> go_time option" where
  "resetDurationOrTimestamp p raw0 now =
     (let raw = trim_space raw0
      in if raw = [] then None
         else case (case ParseDuration p raw of Some d \<Rightarrow> if 0 \<le> d then Some d else None | None \<Rightarrow> None) of
           Some d \<Rightarrow> Some (add_dur now d)
         | None \<Rightarrow>
             (case ParseTime p raw of
                Some t \<Rightarrow> Some t
              | None \<Rightarrow>
                  (case parseNonNegativeInt64 raw of
                     None \<Rightarrow> None
                   | Some n \<Rightarrow>
                       if n \<ge> 1000000000000 then Some (unix_milli n)
                       else if n \<ge> 1000000000 then Some (unix_seconds n)
                       else if n > max_seconds then None
                       else Some (add_dur now (n * second)))))"

definition observationsFromFields ::
  "providerID \<Rightarrow> string \<Rightarrow> string \<Rightarrow> string \<Rightarrow> string \<Rightarrow> string \<Rightarrow> string \<Rightarrow> string \<Rightarrow> go_time \<Rightarrow> string \<Rightarrow>
   (string \<Rightarrow> go_time \<Rightarrow> go_time option) \<Rightarrow> providerQuotaObservation list" where
  "observationsFromFields provider model scope dimension window limitRaw remainingRaw resetRaw now source parseReset =
     (let limit = parsed_value limitRaw; hasLimit = parseNonNegativeInt64 limitRaw \<noteq> None;
          remaining = parsed_value remainingRaw; hasRemaining = parseNonNegativeInt64 remainingRaw \<noteq> None;
          remaining = (if hasLimit \<and> hasRemaining \<and> remaining > limit then limit else remaining);
          reset = parseReset resetRaw now
      in if \<not> hasLimit \<and> \<not> hasRemaining \<and> reset = None then []
         else [\<lparr>po_Provider = provider, po_Model = model, po_Scope = scope, po_Dimension = dimension, po_Window = window,
                po_Limit = limit, po_Remaining = remaining, po_HasLimit = hasLimit, po_HasRemaining = hasRemaining,
                po_ResetAt = (case reset of Some t \<Rightarrow> t | None \<Rightarrow> zero_time), po_RetryAfter = 0, po_ObservedAt = now,
                po_Source = source, po_Classification = ''known'', po_Exhausted = (hasRemaining \<and> remaining = 0)\<rparr>])"

definition observeOpenRouterQuota ::
  "parsers \<Rightarrow> string \<Rightarrow> int \<Rightarrow> httpHeader \<Rightarrow> string \<Rightarrow> go_time \<Rightarrow> providerQuotaObservation list" where
  "observeOpenRouterQuota p model status headers body now =
     (let generic = observationsFromFields providerOpenRouter model ''account'' ''requests'' ''unknown''
            (headerValue headers ''X-RateLimit-Limit'') (headerValue headers ''X-RateLimit-Remaining'')
            (headerValue headers ''X-RateLimit-Reset'') now ''provider_header'' (resetUnixMilliseconds p)
      in case (if status = 429 then decodeError p body else None) of
           Some e \<Rightarrow>
             if eb_Code e = 429 \<and> eb_LimitSource e = ''openrouter_free_tier_daily''
             then observationsFromFields providerOpenRouter model ''free_pool'' ''requests'' ''day''
               (quotaHeader (eb_Headers e) ''X-RateLimit-Limit'') (quotaHeader (eb_Headers e) ''X-RateLimit-Remaining'')
               (quotaHeader (eb_Headers e) ''X-RateLimit-Reset'') now ''error_metadata'' (resetUnixMilliseconds p)
             else generic
         | None \<Rightarrow> generic)"

definition observeCerebrasQuota ::
  "parsers \<Rightarrow> string \<Rightarrow> httpHeader \<Rightarrow> go_time \<Rightarrow> providerQuotaObservation list" where
  "observeCerebrasQuota p model headers now =
     observationsFromFields providerCerebras model ''model'' ''requests'' ''day''
       (headerValue headers ''X-RateLimit-Limit-Requests-Day'') (headerValue headers ''X-RateLimit-Remaining-Requests-Day'')
       (headerValue headers ''X-RateLimit-Reset-Requests-Day'') now ''provider_header'' (resetDurationOrTimestamp p) @
     observationsFromFields providerCerebras model ''model'' ''tokens'' ''minute''
       (headerValue headers ''X-RateLimit-Limit-Tokens-Minute'') (headerValue headers ''X-RateLimit-Remaining-Tokens-Minute'')
       (headerValue headers ''X-RateLimit-Reset-Tokens-Minute'') now ''provider_header'' (resetDurationOrTimestamp p)"

definition observeGroqQuota ::
  "parsers \<Rightarrow> string \<Rightarrow> httpHeader \<Rightarrow> go_time \<Rightarrow> providerQuotaObservation list" where
  "observeGroqQuota p model headers now =
     observationsFromFields providerGroq model ''model'' ''requests'' ''day''
       (headerValue headers ''X-RateLimit-Limit-Requests'') (headerValue headers ''X-RateLimit-Remaining-Requests'')
       (headerValue headers ''X-RateLimit-Reset-Requests'') now ''provider_header'' (resetDurationOrTimestamp p) @
     observationsFromFields providerGroq model ''model'' ''tokens'' ''minute''
       (headerValue headers ''X-RateLimit-Limit-Tokens'') (headerValue headers ''X-RateLimit-Remaining-Tokens'')
       (headerValue headers ''X-RateLimit-Reset-Tokens'') now ''provider_header'' (resetDurationOrTimestamp p)"

text \<open>\<open>observedAt\<close> is the caller's, or the clock when that is zero.\<close>

definition observeProviderQuota ::
  "parsers \<Rightarrow> go_time \<Rightarrow> providerID \<Rightarrow> string \<Rightarrow> int \<Rightarrow> httpHeader \<Rightarrow> string \<Rightarrow> go_time \<Rightarrow> providerQuotaObservation list" where
  "observeProviderQuota p clock provider model status headers body observedAt =
     (let observedAt = (if is_zero observedAt then clock else observedAt);
          retryAfter = parseRetryAfterAt p (headerValue headers ''Retry-After'') observedAt;
          observations =
            (if provider = providerOpenRouter then observeOpenRouterQuota p model status headers body observedAt
             else if provider = providerCerebras then observeCerebrasQuota p model headers observedAt
             else if provider = providerGroq then observeGroqQuota p model headers observedAt
             else []);
          observations = map (\<lambda>o'. o'\<lparr>po_RetryAfter := retryAfter\<rparr>) observations
      in if observations = [] \<and> status = 429
         then [\<lparr>po_Provider = provider, po_Model = model, po_Scope = ''unknown'', po_Dimension = ''unknown'',
                po_Window = ''unknown'', po_Limit = 0, po_Remaining = 0, po_HasLimit = False, po_HasRemaining = False,
                po_ResetAt = zero_time, po_RetryAfter = retryAfter, po_ObservedAt = observedAt,
                po_Source = ''status_only'', po_Classification = ''unknown'', po_Exhausted = True\<rparr>]
         else observations)"

definition ledgerFact :: "providerQuotaObservation \<Rightarrow> (QuotaBucketKey \<times> QuotaObservation) option" where
  "ledgerFact obs =
     (if po_Classification obs \<noteq> ''known'' \<or> \<not> po_HasLimit obs \<or> \<not> po_HasRemaining obs then None
      else if po_Dimension obs \<noteq> QuotaDimensionRequests \<and> po_Dimension obs \<noteq> QuotaDimensionTokens then None
      else if po_Window obs \<noteq> QuotaWindowMinute \<and> po_Window obs \<noteq> QuotaWindowHour \<and> po_Window obs \<noteq> QuotaWindowDay
      then None
      else Some
        (\<lparr>qk_Provider = po_Provider obs, qk_Scope = po_Scope obs,
          qk_ModelOrPool = (if po_Scope obs = ''free_pool'' then ''free'' else po_Model obs),
          qk_Dimension = po_Dimension obs, qk_Window = po_Window obs\<rparr>,
         \<lparr>qo_Limit = po_Limit obs, qo_Remaining = po_Remaining obs, qo_ResetAt = po_ResetAt obs,
          qo_Source = (if po_Source obs = ''error_metadata'' then QuotaSourceProviderBody else QuotaSourceProviderHeader),
          qo_Confidence = QuotaConfidenceAuthoritative, qo_ObservedAt = po_ObservedAt obs\<rparr>))"

section \<open>Relayed errors\<close>

definition isProviderRelayedError :: "parsers \<Rightarrow> string \<Rightarrow> bool" where
  "isProviderRelayedError p body \<longleftrightarrow>
     body \<noteq> [] \<and> contains body ''Provider returned error'' \<and>
     (case decodeError p body of
        None \<Rightarrow> False
      | Some e \<Rightarrow> eb_Message e = ''Provider returned error'' \<and> trim_space (eb_ProviderName e) \<noteq> [])"

section \<open>Facts are sound\<close>

lemma parse_nonneg: "parseNonNegativeInt64 raw = Some v \<Longrightarrow> 0 \<le> v \<and> v \<le> max_int64 \<and> parsed_value raw = v"
  by (auto simp: parseNonNegativeInt64_def parsed_value_def atoi_def parse_signed_def int64_ok_def Let_def split: option.splits if_splits)

lemma fields_sound:
  assumes "obs \<in> set (observationsFromFields provider model scope dimension window limitRaw remainingRaw resetRaw now source pr)"
  shows "po_Provider obs = provider \<and> po_Model obs = model \<and> po_Scope obs = scope \<and> po_Dimension obs = dimension \<and>
    po_Window obs = window \<and> po_Classification obs = ''known'' \<and>
    (po_HasLimit obs \<longrightarrow> 0 \<le> po_Limit obs \<and> po_Limit obs \<le> max_int64) \<and>
    (po_HasLimit obs \<and> po_HasRemaining obs \<longrightarrow> 0 \<le> po_Remaining obs \<and> po_Remaining obs \<le> po_Limit obs)"
proof -
  have "parseNonNegativeInt64 limitRaw \<noteq> None \<Longrightarrow> 0 \<le> parsed_value limitRaw \<and> parsed_value limitRaw \<le> max_int64"
    "parseNonNegativeInt64 remainingRaw \<noteq> None \<Longrightarrow> 0 \<le> parsed_value remainingRaw"
    using parse_nonneg by force+
  with assms show ?thesis by (auto simp: observationsFromFields_def Let_def split: if_splits)
qed

lemma observations_sound:
  assumes "obs \<in> set (observeProviderQuota p clock provider model status headers body at0)" "po_Classification obs = ''known''"
  shows "po_Provider obs = provider \<and> po_Model obs = model \<and>
    (po_HasLimit obs \<and> po_HasRemaining obs \<longrightarrow> 0 \<le> po_Remaining obs \<and> po_Remaining obs \<le> po_Limit obs \<and> po_Limit obs \<le> max_int64) \<and>
    (po_Scope obs = ''free_pool'' \<longrightarrow> provider = providerOpenRouter)"
proof -
  let ?t = "if is_zero at0 then clock else at0"
  obtain o' where o': "obs = o'\<lparr>po_RetryAfter := parseRetryAfterAt p (headerValue headers ''Retry-After'') ?t\<rparr>"
    "o' \<in> set (if provider = providerOpenRouter then observeOpenRouterQuota p model status headers body ?t
             else if provider = providerCerebras then observeCerebrasQuota p model headers ?t
             else if provider = providerGroq then observeGroqQuota p model headers ?t else [])"
    using assms by (auto simp: observeProviderQuota_def Let_def split: if_splits)
  then show ?thesis
    unfolding observeOpenRouterQuota_def observeCerebrasQuota_def observeGroqQuota_def
    by (auto simp: Let_def split: if_splits option.splits dest!: fields_sound)
qed

end
