(* ===== verification/Registry.thy ===== *)
theory Registry
  imports Request_Body Breaker
begin

text \<open>
  From a policy decision to attempts with a target and a credential: the model policy
  (\<open>src/vendor/github.com/cervantesh/cervo-model-policy/policy.go\<close>), the planner
  (\<open>src/internal/router/router_model_attempts.go\<close>), the provider registry
  (\<open>router_provider_registry.go\<close>), the target resolver (\<open>router_targets.go\<close>), context windows
  (\<open>router_context_window.go\<close>) and per-profile deadlines (\<open>router_profile_timeout.go\<close>).

  JSON decoding happens before these definitions: they take the decoded value, \<open>None\<close> for a decoding
  error or a missing field. The resolver of stored credentials is a parameter.
\<close>

section \<open>The model policy\<close>

definition norm_name :: "string \<Rightarrow> string" where
  "norm_name s = to_lower (trim_space s)"

definition clean_chain :: "string list \<Rightarrow> string list" where
  "clean_chain chain = filter (\<lambda>m. m \<noteq> []) (map trim_space chain)"

definition norm_profile ::
  "string \<times> string list \<Rightarrow> (string, string list) gomap \<Rightarrow> (string, string list) gomap" where
  "norm_profile p out =
     (if norm_name (fst p) = [] \<or> clean_chain (snd p) = [] then out
      else m_set (norm_name (fst p)) (clean_chain (snd p)) out)"

definition norm_alias ::
  "(string, string list) gomap \<Rightarrow> string \<times> string \<Rightarrow> (string, string) gomap \<Rightarrow> (string, string) gomap" where
  "norm_alias profiles a out =
     (if norm_name (fst a) = [] \<or> norm_name (snd a) = [] \<or> m_get profiles (norm_name (snd a)) = None then out
      else m_set (norm_name (fst a)) (norm_name (snd a)) out)"

text \<open>When the default profile does not exist, Go takes whichever profile its map yields first: \<open>draw\<close> says
  which. The order of a list that stands for a map is the order in which its loop visits it, which
  decides between names that are the same once trimmed and lower-cased.\<close>

definition NormalizeConfig :: "nat \<Rightarrow> policyConfig \<Rightarrow> policyConfig" where
  "NormalizeConfig draw cfg =
     (let def = (if trim_space (pc_DefaultProfile cfg) = [] then ''default'' else norm_name (pc_DefaultProfile cfg));
          profiles = fold norm_profile (pc_Profiles cfg) [];
          empty = (profiles = []);
          profiles = (if empty then [(''default'', [''auto''])] else profiles);
          def = (if empty \<and> m_get profiles def = None then ''default'' else def);
          aliases = fold (norm_alias profiles) (pc_Aliases cfg) [];
          aliases = fold (\<lambda>p out. m_set (fst p) (fst p) out) profiles aliases;
          def = (if m_get profiles def = None then fst (profiles ! (draw mod length profiles)) else def)
      in \<lparr>pc_DefaultProfile = def, pc_Profiles = profiles, pc_Aliases = m_set ''default'' def aliases\<rparr>)"

text \<open>The loops over a \<open>seen\<close> map: the first element of each key stays.\<close>

fun first_of_key :: "('a \<Rightarrow> 'k) \<Rightarrow> 'k list \<Rightarrow> 'a list \<Rightarrow> 'a list" where
  "first_of_key key seen [] = []"
| "first_of_key key seen (x # xs) =
     (if key x \<in> set seen then first_of_key key seen xs else x # first_of_key key (key x # seen) xs)"

record modelDecision =
  md_Profile :: string
  md_ModelChain :: "string list"

definition Select :: "policyConfig \<Rightarrow> string \<Rightarrow> string \<Rightarrow> modelDecision" where
  "Select cfg reqProfile requestedModel =
     (let profile = norm_name reqProfile;
          profile = (if m_get (pc_Profiles cfg) profile = None then pc_DefaultProfile cfg else profile);
          selected = m_get_or [] (pc_Profiles cfg) profile;
          profile = (if selected = [] then pc_DefaultProfile cfg else profile);
          selected = (if selected = [] then m_get_or [] (pc_Profiles cfg) (pc_DefaultProfile cfg) else selected);
          model = trim_space requestedModel
      in if model = [] \<or> equal_fold model ''auto''
         then \<lparr>md_Profile = profile, md_ModelChain = selected\<rparr>
         else \<lparr>md_Profile = profile, md_ModelChain = model # first_of_key (\<lambda>m. m) [model] selected\<rparr>)"

definition ResolveProfileAlias :: "policyConfig \<Rightarrow> string \<Rightarrow> string option" where
  "ResolveProfileAlias cfg raw = (if norm_name raw = [] then None else m_get (pc_Aliases cfg) (norm_name raw))"

definition ResolveModelAlias :: "policyConfig \<Rightarrow> string \<Rightarrow> string \<Rightarrow> string \<times> string" where
  "ResolveModelAlias cfg profile requestedModel =
     (case (if trim_space requestedModel = [] then None else ResolveProfileAlias cfg (trim_space requestedModel)) of
        Some alias \<Rightarrow> (alias, ''auto'')
      | None \<Rightarrow> (profile, requestedModel))"

text \<open>The router's own resolution: a \<open>calvoproxy/\<close> prefix names a profile.\<close>

definition resolveModelAlias :: "policyConfig \<Rightarrow> string \<Rightarrow> string \<Rightarrow> string \<times> string" where
  "resolveModelAlias cfg category requestedModel =
     (let m = trim_space requestedModel;
          prefixed = (case index_byte m CHR ''/'' of
             Some n \<Rightarrow> if norm_name (take n m) = ''calvoproxy'' then ResolveProfileAlias cfg (drop (Suc n) m) else None
           | None \<Rightarrow> None)
      in case prefixed of
           Some alias \<Rightarrow> (alias, ''auto'')
         | None \<Rightarrow> ResolveModelAlias cfg category requestedModel)"

section \<open>Planning\<close>

record policyDecision =
  pd_Executor :: providerID
  pd_FallbackExecutors :: "providerID list"
  pd_BreakerPolicy :: BreakerPolicy

definition attempt_key :: "modelAttempt \<Rightarrow> string" where
  "attempt_key a = ma_Provider a @ [CHR 0x00] @ ma_Model a"

definition Plan :: "policyConfig \<Rightarrow> providerProfiles \<Rightarrow> policyDecision \<Rightarrow> string \<Rightarrow> string \<Rightarrow> modelAttempt list" where
  "Plan cfg profiles decision category requestedModel =
     (let d = Select cfg category requestedModel;
          targets = m_get_or [] profiles (md_Profile d);
          m = trim_space requestedModel
      in if targets \<noteq> [] \<and> (m = [] \<or> equal_fold m ''auto'' \<or> equal_fold m (md_Profile d))
         then map (\<lambda>t. newAttempt (md_Profile d) (pt_Model t) (pt_Provider t) (pd_BreakerPolicy decision)) targets
         else
           let providers = pd_Executor decision # pd_FallbackExecutors decision;
               providers = (if hd providers = [] then [providerOpenRouter] else providers)
           in first_of_key attempt_key []
                (concat (map (\<lambda>model. map (\<lambda>p. newAttempt (md_Profile d) model p (pd_BreakerPolicy decision)) providers)
                   (md_ModelChain d))))"

section \<open>Provider profiles and credentials\<close>

definition supportedDirectProviders :: "providerID list" where
  "supportedDirectProviders = [providerOpenRouter, providerCerebras, providerGroq, providerOllama]"

definition clean_target :: "providerModelTarget \<Rightarrow> providerModelTarget" where
  "clean_target t = \<lparr>pt_Provider = to_lower (trim_space (pt_Provider t)), pt_Model = trim_space (pt_Model t)\<rparr>"

definition target_ok :: "providerModelTarget \<Rightarrow> bool" where
  "target_ok t \<longleftrightarrow> pt_Provider t \<in> set supportedDirectProviders \<and> pt_Model t \<noteq> []"

definition target_key :: "providerModelTarget \<Rightarrow> string" where
  "target_key t = pt_Provider t @ [CHR 0x00] @ pt_Model t"

definition add_profile :: "string \<times> providerModelTarget list \<Rightarrow> providerProfiles \<Rightarrow> providerProfiles" where
  "add_profile p out =
     (let profile = trim_space (fst p);
          targets = first_of_key target_key [] (filter target_ok (map clean_target (snd p)))
      in if profile = [] \<or> targets = [] then out
         else m_set profile (m_get_or [] out profile @ targets) out)"

definition parseProviderProfiles :: "providerProfiles option \<Rightarrow> providerProfiles option" where
  "parseProviderProfiles decoded = map_option (\<lambda>profiles. fold add_profile profiles []) decoded"

text \<open>\<open>credentialProvider\<close> with the receiver \<open>None\<close> for nil.\<close>

definition credentialProvider :: "RouterService option \<Rightarrow> modelAttempt \<Rightarrow> providerID" where
  "credentialProvider s attempt =
     (if ma_Provider attempt \<noteq> [] then ma_Provider attempt
      else case s of None \<Rightarrow> providerOpenRouter | Some s \<Rightarrow> defaultPolicyProvider s)"

record credential_env =
  ce_env :: process_env
  ce_ambientAllowed :: bool
  ce_AmbientProviderCredential :: "(string \<Rightarrow> string option) option"

definition resolvedAmbientProviderCredential :: "credential_env \<Rightarrow> providerID \<Rightarrow> string" where
  "resolvedAmbientProviderCredential c provider = (case ce_AmbientProviderCredential c of
     None \<Rightarrow> []
   | Some resolver \<Rightarrow> (case resolver provider of None \<Rightarrow> [] | Some secret \<Rightarrow> trim_space secret))"

definition ambient_key :: "credential_env \<Rightarrow> string \<Rightarrow> providerID \<Rightarrow> string" where
  "ambient_key c name provider =
     (if \<not> ce_ambientAllowed c then []
      else if envValue (ce_env c) name \<noteq> [] then envValue (ce_env c) name
      else resolvedAmbientProviderCredential c provider)"

definition providerCredential ::
  "credential_env \<Rightarrow> RouterService option \<Rightarrow> modelAttempt \<Rightarrow> string \<Rightarrow> string option" where
  "providerCredential c s attempt openRouterRequestKey =
     (let p = ma_Provider attempt;
          key = (if p = providerCerebras then ambient_key c ''CEREBRAS_API_KEY'' p
                 else if p = providerGroq then ambient_key c ''GROQ_API_KEY'' p
                 else if p = providerOllama \<or> p = providerLocal then (if ce_ambientAllowed c then ''local'' else [])
                 else if credentialProvider s attempt = providerOpenRouter then trim_space openRouterRequestKey
                 else [])
      in if key = [] then None else Some key)"

definition chatCompletionsPath :: string where "chatCompletionsPath = ''/v1/chat/completions''"
definition messagesPath :: string where "messagesPath = ''/v1/messages''"

definition filterConfiguredAttempts ::
  "credential_env \<Rightarrow> RouterService \<Rightarrow> modelAttempt list \<Rightarrow> string \<Rightarrow> string \<Rightarrow> modelAttempt list" where
  "filterConfiguredAttempts c s attempts key opPath =
     filter (\<lambda>a. \<not> (opPath = messagesPath \<and> (ma_Provider a = providerCerebras \<or> ma_Provider a = providerGroq)) \<and>
       providerCredential c (Some s) a key \<noteq> None) attempts"

section \<open>Targets\<close>

fun replace_first :: "string \<Rightarrow> string \<Rightarrow> string \<Rightarrow> string" where
  "replace_first [] p r = (if p = [] then r else [])"
| "replace_first (c # s) p r =
     (if has_prefix (c # s) p then r @ drop (length p) (c # s) else c # replace_first s p r)"

definition trim_right :: "char \<Rightarrow> string \<Rightarrow> string" where
  "trim_right c s = rev (dropWhile (\<lambda>x. x = c) (rev s))"

definition targetURL :: "process_env \<Rightarrow> string \<Rightarrow> string \<Rightarrow> string" where
  "targetURL env name def = (if envValue env name \<noteq> [] then envValue env name else def)"

definition openRouterMessagesURL :: "process_env \<Rightarrow> string" where
  "openRouterMessagesURL env =
     (let u = envValue env ''PROXY_OPENROUTER_MESSAGES_URL''; chat = envValue env ''PROXY_OPENROUTER_URL''
      in if u \<noteq> [] then u
         else if chat = [] then ''https://openrouter.ai/api/v1/messages''
         else if contains chat ''/chat/completions'' then replace_first chat ''/chat/completions'' ''/messages''
         else trim_right CHR ''/'' chat @ ''/messages'')"

definition isAgenticProfile :: "string \<Rightarrow> bool" where
  "isAgenticProfile profile \<longleftrightarrow> profile \<in> {''agent'', ''agentic'', ''plan''}"

definition Resolve :: "process_env \<Rightarrow> modelAttempt \<Rightarrow> string \<Rightarrow> AttemptTarget" where
  "Resolve env attempt path =
     (let agentic = envValue env ''PROXY_AGENTIC_URL''; p = ma_Provider attempt
      in if isAgenticProfile (ma_Profile attempt) \<and> agentic \<noteq> [] then \<lparr>at_URL = agentic, at_Agentic = True\<rparr>
         else \<lparr>at_URL =
           (if p = providerCerebras then targetURL env ''PROXY_CEREBRAS_URL'' ''https://api.cerebras.ai/v1/chat/completions''
            else if p = providerGroq then targetURL env ''PROXY_GROQ_URL'' ''https://api.groq.com/openai/v1/chat/completions''
            else if p = providerAnthropic then targetURL env ''PROXY_ANTHROPIC_URL'' ''https://api.anthropic.com'' @ path
            else if p = providerOpenAI then targetURL env ''PROXY_OPENAI_URL'' ''https://api.openai.com'' @ path
            else if p = providerOllama \<or> p = providerLocal
            then targetURL env ''PROXY_OLLAMA_URL'' ''http://ollama:11434'' @ path
            else if path = messagesPath then openRouterMessagesURL env
            else targetURL env ''PROXY_OPENROUTER_URL'' ''https://openrouter.ai/api/v1/chat/completions''),
           at_Agentic = False\<rparr>)"

section \<open>Context windows and deadlines\<close>

definition providerModelKey :: "providerID \<Rightarrow> string \<Rightarrow> string" where
  "providerModelKey provider model = to_lower (trim_space provider) @ [CHR 0x00] @ trim_space model"

definition add_window ::
  "string \<Rightarrow> string \<times> contextWindow \<Rightarrow> (string, contextWindow) gomap \<Rightarrow> (string, contextWindow) gomap" where
  "add_window provider mw out =
     (if cw_ContextTokens (snd mw) \<le> 0 then out
      else m_set (providerModelKey provider (fst mw))
             ((snd mw)\<lparr>cw_OutputReserveTokens := max 0 (cw_OutputReserveTokens (snd mw))\<rparr>) out)"

definition parseContextWindows ::
  "(string, (string, contextWindow) gomap) gomap option \<Rightarrow> (string, contextWindow) gomap" where
  "parseContextWindows decoded = (case decoded of
     None \<Rightarrow> []
   | Some schema \<Rightarrow> fold (\<lambda>(provider, models) out. fold (add_window provider) models out) schema [])"

definition context_fits :: "(string, contextWindow) gomap \<Rightarrow> QuotaEstimate \<Rightarrow> modelAttempt \<Rightarrow> bool" where
  "context_fits windows estimate attempt =
     (case m_get windows (providerModelKey (ma_Provider attempt) (ma_Model attempt)) of
        None \<Rightarrow> True
      | Some window \<Rightarrow>
          let output = (if \<not> qe_OutputExplicit estimate \<and> cw_OutputReserveTokens window > 0
                        then cw_OutputReserveTokens window else qe_OutputTokens estimate)
          in wrap64 (qe_InputTokens estimate + output) \<le> cw_ContextTokens window)"

definition filterContextFit ::
  "RouterService \<Rightarrow> modelAttempt list \<Rightarrow> QuotaEstimate \<Rightarrow> modelAttempt list \<times> nat" where
  "filterContextFit s attempts estimate =
     (if rs_contextWindows s = [] then (attempts, 0)
      else (filter (context_fits (rs_contextWindows s) estimate) attempts,
            length (filter (\<lambda>a. \<not> context_fits (rs_contextWindows s) estimate a) attempts)))"

text \<open>The timeouts of the configuration file, in seconds.\<close>

definition add_timeout :: "string \<times> real \<Rightarrow> (string, duration) gomap \<Rightarrow> (string, duration) gomap" where
  "add_timeout e out =
     (if trim_space (fst e) = [] \<or> snd e \<le> 0 \<or> snd e > 600 then out
      else m_set (trim_space (fst e)) (float_to_int64 (snd e * 1000000000)) out)"

definition parseProfileTimeouts :: "(string, real) gomap option \<Rightarrow> (string, duration) gomap option" where
  "parseProfileTimeouts decoded = map_option (\<lambda>entries. fold add_timeout entries []) decoded"

definition attemptTimeoutForProfile :: "RouterService \<Rightarrow> string \<Rightarrow> duration \<Rightarrow> duration" where
  "attemptTimeoutForProfile s profile current =
     (case m_get (rs_profileTimeouts s) (trim_space profile) of
        None \<Rightarrow> current
      | Some override \<Rightarrow>
          if override \<le> 0 then current
          else if current > 0 \<and> override \<ge> current then current
          else override)"

section \<open>Lemmas\<close>

lemma first_of_key_set:
  "key ` set (first_of_key key seen xs) = key ` set xs - set seen"
  by (induction key seen xs rule: first_of_key.induct) auto

lemma first_of_key_subset: "set (first_of_key key seen xs) \<subseteq> set xs"
  by (induction key seen xs rule: first_of_key.induct) auto

lemma first_of_key_distinct: "distinct (map key (first_of_key key seen xs))"
proof (induction key seen xs rule: first_of_key.induct)
  case (2 key seen x xs)
  then show ?case using first_of_key_set [of key "key x # seen" xs] by auto
qed simp

lemma newAttempt_sel [simp]:
  "ma_Profile (newAttempt pr m p b) = pr" "ma_Model (newAttempt pr m p b) = m"
  "ma_Provider (newAttempt pr m p b) = p" "ma_BreakerPolicy (newAttempt pr m p b) = b"
  by (simp_all add: newAttempt_def)

text \<open>A policy the router holds is normalized; then a selection always names an existing profile.\<close>

definition config_ok :: "policyConfig \<Rightarrow> bool" where
  "config_ok cfg \<longleftrightarrow> m_get (pc_Profiles cfg) (pc_DefaultProfile cfg) \<noteq> None \<and>
     (\<forall>p chain. m_get (pc_Profiles cfg) p = Some chain \<longrightarrow> chain \<noteq> [] \<and> [] \<notin> set chain)"

lemma clean_chain_ok: "[] \<notin> set (clean_chain chain)"
  by (simp add: clean_chain_def)

lemma norm_profiles_ok:
  assumes "\<And>p chain. m_get out p = Some chain \<Longrightarrow> chain \<noteq> [] \<and> [] \<notin> set chain"
    "m_get (fold norm_profile ps out) p = Some chain"
  shows "chain \<noteq> [] \<and> [] \<notin> set chain"
  using assms
proof (induction ps arbitrary: out)
  case (Cons q ps)
  have "\<And>p chain. m_get (norm_profile q out) p = Some chain \<Longrightarrow> chain \<noteq> [] \<and> [] \<notin> set chain"
    using Cons.prems(1) clean_chain_ok by (auto simp: norm_profile_def split: if_splits)
  with Cons.IH [of "norm_profile q out"] Cons.prems(2) show ?case by simp
qed simp

lemma NormalizeConfig_ok: "config_ok (NormalizeConfig draw cfg)"
proof -
  let ?ps = "fold norm_profile (pc_Profiles cfg) []"
  let ?profiles = "if ?ps = [] then [(''default'', [''auto''])] else ?ps"
  have prof: "pc_Profiles (NormalizeConfig draw cfg) = ?profiles" by (simp add: NormalizeConfig_def Let_def)
  have "?profiles ! (draw mod length ?profiles) \<in> set ?profiles" by (intro nth_mem mod_less_divisor) auto
  then have drawn: "m_get ?profiles (fst (?profiles ! (draw mod length ?profiles))) \<noteq> None"
    unfolding map_of_eq_None_iff by blast
  have "m_get ?profiles (pc_DefaultProfile (NormalizeConfig draw cfg)) \<noteq> None"
    unfolding NormalizeConfig_def Let_def using drawn by (auto split: if_splits)
  moreover have "chain \<noteq> [] \<and> [] \<notin> set chain" if "m_get ?profiles p = Some chain" for p chain
    using that norm_profiles_ok [of "[]" "pc_Profiles cfg" p chain] by (auto split: if_splits)
  ultimately show ?thesis unfolding config_ok_def prof by blast
qed

lemma Select_profile:
  assumes "config_ok cfg"
  shows "m_get (pc_Profiles cfg) (md_Profile (Select cfg p m)) \<noteq> None" "md_ModelChain (Select cfg p m) \<noteq> []"
proof -
  obtain chain where d: "m_get (pc_Profiles cfg) (pc_DefaultProfile cfg) = Some chain" "chain \<noteq> []"
    using assms unfolding config_ok_def by (metis option.exhaust)
  show "m_get (pc_Profiles cfg) (md_Profile (Select cfg p m)) \<noteq> None"
    using d by (cases "m_get (pc_Profiles cfg) (norm_name p)") (auto simp: Select_def Let_def m_get_or_def)
  show "md_ModelChain (Select cfg p m) \<noteq> []"
    using d by (cases "m_get (pc_Profiles cfg) (norm_name p)") (auto simp: Select_def Let_def m_get_or_def)
qed

lemma Select_cases:
  assumes "config_ok cfg"
  shows "md_Profile (Select cfg p r) = (if m_get (pc_Profiles cfg) (norm_name p) = None then pc_DefaultProfile cfg else norm_name p)"
    "set (md_ModelChain (Select cfg p r)) =
      (if trim_space r = [] \<or> equal_fold (trim_space r) ''auto'' then {} else {trim_space r}) \<union>
      set (the (m_get (pc_Profiles cfg) (md_Profile (Select cfg p r))))"
proof -
  obtain chain where d: "m_get (pc_Profiles cfg) (pc_DefaultProfile cfg) = Some chain" "chain \<noteq> []"
    using assms unfolding config_ok_def by (metis option.exhaust)
  have ne: "c \<noteq> []" if "m_get (pc_Profiles cfg) n = Some c" for n c using that assms by (auto simp: config_ok_def)
  show profile: "md_Profile (Select cfg p r) = (if m_get (pc_Profiles cfg) (norm_name p) = None then pc_DefaultProfile cfg else norm_name p)"
    using d ne by (auto simp: Select_def Let_def m_get_or_def)
  have ins: "insert x (set (first_of_key (\<lambda>m. m) [x] xs)) = insert x (set xs)" for x xs
    using first_of_key_set [of "\<lambda>m. m" "[x]" xs] by auto
  have chain: "md_ModelChain (Select cfg p r) = (let c = the (m_get (pc_Profiles cfg) (md_Profile (Select cfg p r))) in
      if trim_space r = [] \<or> equal_fold (trim_space r) ''auto'' then c else trim_space r # first_of_key (\<lambda>m. m) [trim_space r] c)"
    using d ne unfolding profile by (auto simp: Select_def Let_def m_get_or_def)
  show "set (md_ModelChain (Select cfg p r)) =
      (if trim_space r = [] \<or> equal_fold (trim_space r) ''auto'' then {} else {trim_space r}) \<union>
      set (the (m_get (pc_Profiles cfg) (md_Profile (Select cfg p r))))"
    unfolding chain Let_def by (simp add: ins)
qed

lemma timeout_narrows:
  "0 < current \<Longrightarrow> attemptTimeoutForProfile s profile current \<le> current \<and> 0 < attemptTimeoutForProfile s profile current"
  by (auto simp: attemptTimeoutForProfile_def split: option.split)

section \<open>Properties\<close>

text \<open>C21. Credentials stay with their provider: the key of the caller's request is only ever used for an
  attempt whose provider is OpenRouter, and such an attempt goes to the OpenRouter endpoint (or to the
  agent endpoint the operator configured); the credential for Cerebras, Groq, Ollama and the local
  provider does not depend on the request, and there is none unless ambient credentials are allowed.\<close>

theorem credential_isolation:
  "(providerCredential c s a k1 \<noteq> providerCredential c s a k2 \<longrightarrow>
      credentialProvider s a = providerOpenRouter \<and>
      (\<not> at_Agentic (Resolve env a path) \<longrightarrow>
        at_URL (Resolve env a path) = (if path = messagesPath then openRouterMessagesURL env
          else targetURL env ''PROXY_OPENROUTER_URL'' ''https://openrouter.ai/api/v1/chat/completions''))) \<and>
   (ma_Provider a \<in> {providerCerebras, providerGroq, providerOllama, providerLocal} \<longrightarrow>
      providerCredential c s a k1 = providerCredential c s a k2 \<and>
      (\<not> ce_ambientAllowed c \<longrightarrow> providerCredential c s a k1 = None))"
  by (auto simp: providerCredential_def credentialProvider_def Resolve_def ambient_key_def Let_def provider_defs
      split: if_splits)

definition ex_credentials :: credential_env where
  "ex_credentials = \<lparr>ce_env = [(''GROQ_API_KEY'', ''gsk'')], ce_ambientAllowed = True,
     ce_AmbientProviderCredential = None\<rparr>"

theorem credential_isolation_witness:
  "providerCredential ex_credentials (Some ex_service) ex_attempt ''sk-or-1'' = Some ''gsk'' \<and>
   providerCredential ex_credentials (Some ex_service) ex_attempt ''sk-or-2'' = Some ''gsk''"
proof -
  have "providerCredential ex_credentials (Some ex_service) ex_attempt ''sk-or-1'' = Some ''gsk''"
    by (simp add: providerCredential_def ex_credentials_def ex_attempt_def newAttempt_def ambient_key_def envValue_def
        m_get_or_def trim_space_def is_space_def provider_defs)
  with credential_isolation [of ex_credentials "Some ex_service" ex_attempt "''sk-or-1''" "''sk-or-2''"]
  show ?thesis by (simp add: ex_attempt_def newAttempt_def providerGroq_def)
qed

text \<open>C22. Planning: every planned attempt belongs to the profile the request asks for, or to the default
  one when that does not exist, and carries the decision's breaker policy. When the caller names no model of its own (nothing, \<open>auto\<close> or the profile) and the
  profile has provider targets, the plan is exactly those targets in their order. Otherwise it has each
  pair of a chain model and an allowed provider exactly once, a model the caller names first, and the
  chain is that model, if any, and the models of the profile.\<close>

theorem plan_covers:
  fixes cfg profiles decision category requestedModel
  assumes "config_ok cfg"
  defines "d \<equiv> Select cfg category requestedModel"
    and "as \<equiv> Plan cfg profiles decision category requestedModel"
    and "providers \<equiv> (if pd_Executor decision = [] then [providerOpenRouter]
      else pd_Executor decision # pd_FallbackExecutors decision)"
    and "m \<equiv> trim_space requestedModel"
    and "targets \<equiv> m_get_or [] profiles (md_Profile (Select cfg category requestedModel))"
  shows "m_get (pc_Profiles cfg) (md_Profile d) \<noteq> None \<and>
    md_Profile d = (if m_get (pc_Profiles cfg) (norm_name category) = None then pc_DefaultProfile cfg else norm_name category) \<and>
    (\<forall>a\<in>set as. ma_Profile a = md_Profile d \<and> ma_BreakerPolicy a = pd_BreakerPolicy decision) \<and> as \<noteq> [] \<and>
    (if targets \<noteq> [] \<and> (m = [] \<or> equal_fold m ''auto'' \<or> equal_fold m (md_Profile d))
     then map (\<lambda>a. \<lparr>pt_Provider = ma_Provider a, pt_Model = ma_Model a\<rparr>) as = targets
     else distinct (map attempt_key as) \<and>
       attempt_key ` set as = {p @ [CHR 0x00] @ q | p q. p \<in> set providers \<and> q \<in> set (md_ModelChain d)} \<and>
       ma_Model (hd as) = hd (md_ModelChain d) \<and>
       set (md_ModelChain d) = (if m = [] \<or> equal_fold m ''auto'' then {} else {m}) \<union> set (the (m_get (pc_Profiles cfg) (md_Profile d))) \<and>
       (m \<noteq> [] \<and> \<not> equal_fold m ''auto'' \<longrightarrow> ma_Model (hd as) = m))"
proof -
  note sel = Select_profile [OF assms(1), of category requestedModel, folded d_def]
  note cases = Select_cases [OF assms(1), of category requestedModel, folded d_def m_def]
  let ?new = "\<lambda>m p. newAttempt (md_Profile d) m p (pd_BreakerPolicy decision)"
  show ?thesis
  proof (cases "targets \<noteq> [] \<and> (m = [] \<or> equal_fold m ''auto'' \<or> equal_fold m (md_Profile d))")
    case True
    then have as: "as = map (\<lambda>t. ?new (pt_Model t) (pt_Provider t)) targets"
      by (simp add: as_def Plan_def d_def m_def targets_def Let_def)
    have "map (\<lambda>a. \<lparr>pt_Provider = ma_Provider a, pt_Model = ma_Model a\<rparr>) as = targets"
      unfolding as by (simp add: comp_def map_idI)
    moreover have "\<forall>a\<in>set as. ma_Profile a = md_Profile d \<and> ma_BreakerPolicy a = pd_BreakerPolicy decision" "as \<noteq> []"
      using True by (auto simp: as)
    ultimately show ?thesis using True sel(1) cases(1) by (simp only: if_True simp_thms)
  next
    case False
    let ?all = "concat (map (\<lambda>q. map (\<lambda>p. ?new q p) providers) (md_ModelChain d))"
    have as: "as = first_of_key attempt_key [] ?all"
      unfolding as_def Plan_def d_def [symmetric] Let_def providers_def
      using False unfolding m_def targets_def d_def [symmetric] by (auto split: if_splits)
    obtain q qs where chain: "md_ModelChain d = q # qs" using sel(2) by (cases "md_ModelChain d") auto
    obtain p ps where prov: "providers = p # ps" by (cases providers) (auto simp: providers_def split: if_splits)
    have hd: "hd as = ?new q p" "as \<noteq> []" unfolding as chain prov by simp_all
    have keys: "attempt_key ` set as = {p @ [CHR 0x00] @ q | p q. p \<in> set providers \<and> q \<in> set (md_ModelChain d)}"
      unfolding as first_of_key_set by (force simp: attempt_key_def image_iff)
    have all: "\<forall>a\<in>set as. ma_Profile a = md_Profile d \<and> ma_BreakerPolicy a = pd_BreakerPolicy decision"
      using first_of_key_subset [of attempt_key "[]" ?all] unfolding as by auto
    have pinned: "m \<noteq> [] \<and> \<not> equal_fold m ''auto'' \<longrightarrow> ma_Model (hd as) = m"
      using chain hd(1) by (auto simp: d_def m_def Select_def Let_def)
    have first: "ma_Model (hd as) = hd (md_ModelChain d)" unfolding hd(1) chain by simp
    have "distinct (map attempt_key as)" unfolding as by (rule first_of_key_distinct)
    with False show ?thesis
      using sel(1) cases(1) all hd(2) keys first cases(2) pinned by (simp only: if_False simp_thms)
  qed
qed

definition ex_policy :: policyConfig where
  "ex_policy = \<lparr>pc_DefaultProfile = ''coding'', pc_Profiles = [(''coding'', [''a'', ''b''])], pc_Aliases = []\<rparr>"

definition ex_decision :: policyDecision where
  "ex_decision = \<lparr>pd_Executor = ''openrouter'', pd_FallbackExecutors = [], pd_BreakerPolicy = ma_BreakerPolicy ex_attempt\<rparr>"

theorem plan_covers_witness:
  "Plan ex_policy [] ex_decision ''coding'' ''x/y'' \<noteq> [] \<and>
   ma_Model (hd (Plan ex_policy [] ex_decision ''coding'' ''x/y'')) = ''x/y''"
proof -
  have "config_ok ex_policy" by (simp add: config_ok_def ex_policy_def)
  from plan_covers [where cfg = ex_policy and category = "''coding''" and requestedModel = "''x/y''" and profiles = "[]"
      and decision = ex_decision, OF this]
  show ?thesis
    by (auto simp: m_get_or_def trim_space_def is_space_def equal_fold_def to_lower_def)
qed

text \<open>A token limit close to the largest \<open>int64\<close> makes the sum wrap, and the request is taken to fit.\<close>

lemma context_check_overflow:
  "context_fits [(providerModelKey ''groq'' ''m'', \<lparr>cw_ContextTokens = 8192, cw_OutputReserveTokens = 1024\<rparr>)]
     \<lparr>qe_Requests = 1, qe_Tokens = 0, qe_InputTokens = 6000, qe_OutputTokens = 9223372036854774784,
      qe_OutputExplicit = True\<rparr> ex_attempt"
  by (simp add: context_fits_def ex_attempt_def wrap64_def)

end
