(* ===== verification/Quota_Routing.thy ===== *)
theory Quota_Routing
  imports Quota_Providers Registry
begin

text \<open>
  Quota-aware routing, \<open>src/internal/router/router_quota_routing.go\<close>: estimates, bootstrap quotas,
  what an attempt would reserve, ranking by quota pressure with the reservation of the primary,
  cooldowns, and the settlement of a ticket when a response arrives. The quota ledger is threaded
  through, since looking at it drops expired buckets.

  Parameters: the fingerprint of a credential (six bytes of its SHA-256 in hexadecimal), the JSON
  encoder and the decoder of a response's \<open>usage\<close>.
\<close>

section \<open>Estimates\<close>

definition quotaHoldSettle :: duration where
  "quotaHoldSettle = 150 * millisecond"

definition quotaHoldBudget :: "process_env \<Rightarrow> duration" where
  "quotaHoldBudget env = wrap64 (envInt env ''PROXY_QUOTA_HOLD_MAX_MS'' 75000 * millisecond)"

definition credentialQuotaScope :: "(string \<Rightarrow> string) \<Rightarrow> string \<Rightarrow> string \<Rightarrow> string" where
  "credentialQuotaScope fp scope credential =
     (if trim_space credential = [] then scope else scope @ '':'' @ fp (trim_space credential))"

definition publicQuotaScope :: "string \<Rightarrow> string" where
  "publicQuotaScope scope = (case index_byte scope CHR '':'' of Some n \<Rightarrow> take n scope | None \<Rightarrow> scope)"

definition numericInt64 :: "json option \<Rightarrow> int option" where
  "numericInt64 value = (case value of
     Some (JInt n) \<Rightarrow> Some n
   | Some (JFloat v) \<Rightarrow>
       if 0 \<le> v \<and> v \<le> 9223372036854775808 \<and> of_int \<lfloor>v\<rfloor> = v then Some (float_to_int64 v) else None
   | _ \<Rightarrow> None)"

text \<open>\<open>int64(math.Ceil(float64(n) / d))\<close> for a length, at least one.\<close>

definition ceil_tokens :: "nat \<Rightarrow> nat \<Rightarrow> int" where
  "ceil_tokens n d = max 1 (int ((n + d - 1) div d))"

fun first_numeric :: "body \<Rightarrow> string list \<Rightarrow> int option" where
  "first_numeric body [] = None"
| "first_numeric body (k # ks) = (case numericInt64 (m_get body k) of
     Some v \<Rightarrow> if 0 \<le> v then Some v else first_numeric body ks
   | None \<Rightarrow> first_numeric body ks)"

definition estimateRequestQuota :: "process_env \<Rightarrow> (body \<Rightarrow> string) \<Rightarrow> body \<Rightarrow> QuotaEstimate" where
  "estimateRequestQuota env marshal body =
     (let input = ceil_tokens (length (marshal body)) 4;
          explicit = first_numeric body [''max_completion_tokens'', ''max_tokens''];
          output = (case explicit of Some v \<Rightarrow> v | None \<Rightarrow> envInt env ''PROXY_DEFAULT_OUTPUT_TOKENS'' 1024)
      in \<lparr>qe_Requests = 1, qe_Tokens = wrap64 (input + output), qe_InputTokens = input,
          qe_OutputTokens = output, qe_OutputExplicit = (explicit \<noteq> None)\<rparr>)"

definition estimateRequestContext :: "process_env \<Rightarrow> (body \<Rightarrow> string) \<Rightarrow> body \<Rightarrow> QuotaEstimate" where
  "estimateRequestContext env marshal body =
     (let estimate = estimateRequestQuota env marshal body;
          input = ceil_tokens (length (marshal body)) 3
      in estimate\<lparr>qe_InputTokens := input, qe_Tokens := wrap64 (input + qe_OutputTokens estimate)\<rparr>)"

definition providerQuotaEstimate :: "process_env \<Rightarrow> modelAttempt \<Rightarrow> QuotaEstimate \<Rightarrow> QuotaEstimate" where
  "providerQuotaEstimate env attempt estimate =
     (if qe_OutputExplicit estimate \<or> qe_InputTokens estimate \<le> 0 then estimate
      else
        let output = (if ma_Provider attempt = providerCerebras
                      then envInt env ''PROXY_CEREBRAS_DEFAULT_MAX_COMPLETION_TOKENS'' 32768
                      else if ma_Provider attempt = providerGroq
                      then envInt env ''PROXY_GROQ_DEFAULT_MAX_COMPLETION_TOKENS'' 4096
                      else qe_OutputTokens estimate);
            output = (if output < 0 then 0 else output)
        in estimate\<lparr>qe_OutputTokens := output, qe_Tokens := wrap64 (qe_InputTokens estimate + output)\<rparr>)"

record usage =
  us_TotalTokens :: int
  us_InputTokens :: int
  us_OutputTokens :: int
  us_PromptTokens :: int
  us_CompletionTokens :: int

definition actualResponseTokens :: "usage option \<Rightarrow> int \<Rightarrow> int" where
  "actualResponseTokens decoded fallback = (case decoded of
     None \<Rightarrow> fallback
   | Some u \<Rightarrow>
       if us_TotalTokens u > 0 then us_TotalTokens u
       else if wrap64 (us_InputTokens u + us_OutputTokens u) > 0 then wrap64 (us_InputTokens u + us_OutputTokens u)
       else if wrap64 (us_PromptTokens u + us_CompletionTokens u) > 0
       then wrap64 (us_PromptTokens u + us_CompletionTokens u)
       else fallback)"

text \<open>The time origin is a midnight, so truncation to days gives the start of the UTC day.\<close>

definition nextUTCReset :: "go_time \<Rightarrow> go_time" where
  "nextUTCReset now = truncate_time now day + day"

definition nextMinuteReset :: "go_time \<Rightarrow> go_time" where
  "nextMinuteReset now = truncate_time now minute + minute"

section \<open>Bootstrap quotas and reservations\<close>

record quota_env =
  qv_env :: process_env
  qv_fingerprint :: "string \<Rightarrow> string"

definition is_free :: "modelAttempt \<Rightarrow> bool" where
  "is_free attempt \<longleftrightarrow> has_suffix (to_lower (ma_Model attempt)) '':free''"

definition observe_if_unknown :: "go_time \<Rightarrow> QuotaBucketKey \<times> int \<times> go_time \<Rightarrow> QuotaLedger \<Rightarrow> QuotaLedger" where
  "observe_if_unknown now e l = (case e of (key, limit, reset) \<Rightarrow>
     if limit \<le> 0 then l
     else case Snapshot l key now of
       (l, Some _) \<Rightarrow> l
     | (l, None) \<Rightarrow>
         fst (Observe l key \<lparr>qo_Limit = limit, qo_Remaining = limit, qo_ResetAt = reset, qo_Source = QuotaSourceConfig,
               qo_Confidence = QuotaConfidenceEstimated, qo_ObservedAt = now\<rparr> now))"

definition bucket_key :: "string \<Rightarrow> string \<Rightarrow> string \<Rightarrow> string \<Rightarrow> string \<Rightarrow> QuotaBucketKey" where
  "bucket_key provider scope pool dimension window =
     \<lparr>qk_Provider = provider, qk_Scope = scope, qk_ModelOrPool = pool, qk_Dimension = dimension, qk_Window = window\<rparr>"

text \<open>The published defaults of an attempt's provider: bucket, limit and reset.\<close>

definition bootstrap_limits ::
  "quota_env \<Rightarrow> RouterService \<Rightarrow> modelAttempt \<Rightarrow> string \<Rightarrow> go_time \<Rightarrow> (QuotaBucketKey \<times> int \<times> go_time) list" where
  "bootstrap_limits q s attempt credential now =
     (let env = qv_env q; provider = normalizedProvider s attempt; p = ma_Provider attempt;
          pool = credentialQuotaScope (qv_fingerprint q) ''free_pool'' credential;
          model = credentialQuotaScope (qv_fingerprint q) ''model'' credential;
          llama = contains (to_lower (ma_Model attempt)) ''llama-3.1-8b'';
          b = (\<lambda>dim win. bucket_key provider model (ma_Model attempt) dim win)
      in if p = providerOpenRouter then
           (if \<not> is_free attempt then []
            else [(bucket_key provider pool quotaFreePool QuotaDimensionRequests QuotaWindowDay,
                    envInt env ''PROXY_OPENROUTER_FREE_RPD'' 50, nextUTCReset now),
                  (bucket_key provider pool quotaFreePool QuotaDimensionRequests QuotaWindowMinute,
                    envInt env ''PROXY_OPENROUTER_FREE_RPM'' 20, nextMinuteReset now)])
         else if p = providerCerebras then
           [(b QuotaDimensionRequests QuotaWindowDay, envInt env ''PROXY_CEREBRAS_RPD'' 14400, now + day),
            (b QuotaDimensionRequests QuotaWindowMinute, envInt env ''PROXY_CEREBRAS_RPM'' 30, nextMinuteReset now),
            (b QuotaDimensionTokens QuotaWindowMinute, envInt env ''PROXY_CEREBRAS_TPM'' 64000, nextMinuteReset now),
            (b QuotaDimensionTokens QuotaWindowDay, envInt env ''PROXY_CEREBRAS_TPD'' 1000000, now + day)]
         else if p = providerGroq then
           [(b QuotaDimensionRequests QuotaWindowDay, envInt env ''PROXY_GROQ_RPD'' (if llama then 14400 else 1000), now + day),
            (b QuotaDimensionRequests QuotaWindowMinute, envInt env ''PROXY_GROQ_RPM'' 30, nextMinuteReset now),
            (b QuotaDimensionTokens QuotaWindowMinute, envInt env ''PROXY_GROQ_TPM'' (if llama then 6000 else 8000), nextMinuteReset now),
            (b QuotaDimensionTokens QuotaWindowDay, envInt env ''PROXY_GROQ_TPD'' (if llama then 500000 else 200000), now + day)]
         else [])"

definition ensureBootstrapQuota ::
  "quota_env \<Rightarrow> RouterService \<Rightarrow> modelAttempt \<Rightarrow> string \<Rightarrow> go_time \<Rightarrow> RouterService" where
  "ensureBootstrapQuota q s attempt credential now =
     s\<lparr>rs_quota := fold (observe_if_unknown now) (bootstrap_limits q s attempt credential now) (rs_quota s)\<rparr>"

definition reserves_key :: "quota_env \<Rightarrow> RouterService \<Rightarrow> modelAttempt \<Rightarrow> string \<Rightarrow> QuotaBucketKey \<Rightarrow> bool" where
  "reserves_key q s attempt credential key \<longleftrightarrow>
     (let free = (ma_Provider attempt = providerOpenRouter \<and> is_free attempt)
      in qk_Provider key = normalizedProvider s attempt \<and>
         qk_Scope key = credentialQuotaScope (qv_fingerprint q) (if free then ''free_pool'' else ''model'') credential \<and>
         (qk_ModelOrPool key = ma_Model attempt \<or> free \<and> qk_ModelOrPool key = quotaFreePool))"

definition key_cost :: "QuotaEstimate \<Rightarrow> QuotaBucketKey \<Rightarrow> int" where
  "key_cost estimate key =
     (if qk_Dimension key = QuotaDimensionTokens then qe_Tokens estimate else qe_Requests estimate)"

definition quotaReservations ::
  "quota_env \<Rightarrow> RouterService \<Rightarrow> modelAttempt \<Rightarrow> string \<Rightarrow> QuotaEstimate \<Rightarrow> go_time \<Rightarrow>
   RouterService \<times> QuotaReservation list" where
  "quotaReservations q s attempt credential estimate0 now =
     (let estimate = providerQuotaEstimate (qv_env q) attempt estimate0;
          s = ensureBootstrapQuota q s attempt credential now;
          (l, keys) = Keys (rs_quota s) now;
          s = s\<lparr>rs_quota := l\<rparr>
      in (s, map (\<lambda>key. \<lparr>qr_Key = key, qr_Cost = key_cost estimate key\<rparr>)
               (filter (\<lambda>key. reserves_key q s attempt credential key \<and> key_cost estimate key > 0) keys)))"

text \<open>The loop of \<open>quotaPressure\<close>: the highest predicted use, or 1 as soon as a bucket would overflow.\<close>

fun pressure_loop :: "go_time \<Rightarrow> QuotaReservation list \<Rightarrow> real \<Rightarrow> QuotaLedger \<Rightarrow> QuotaLedger \<times> real" where
  "pressure_loop now [] pressure l = (l, pressure)"
| "pressure_loop now (r # rs) pressure l = (case Snapshot l (qr_Key r) now of
     (l, None) \<Rightarrow> pressure_loop now rs pressure l
   | (l, Some snap) \<Rightarrow>
       let limit = qo_Limit (qs_Observation snap); predicted = wrap64 (qs_Available snap - qr_Cost r)
       in if limit \<le> 0 then pressure_loop now rs pressure l
          else if predicted < 0 then (l, 1)
          else let candidate = real_of_int (wrap64 (limit - predicted)) / real_of_int limit
               in pressure_loop now rs (if candidate > pressure then candidate else pressure) l)"

definition quotaPressure ::
  "quota_env \<Rightarrow> RouterService \<Rightarrow> modelAttempt \<Rightarrow> string \<Rightarrow> QuotaEstimate \<Rightarrow> go_time \<Rightarrow>
   RouterService \<times> real \<times> bool" where
  "quotaPressure q s attempt credential estimate now =
     (case quotaReservations q s attempt credential estimate now of
        (s, []) \<Rightarrow> (s, 0, False)
      | (s, rs) \<Rightarrow> (case pressure_loop now rs 0 (rs_quota s) of (l, p) \<Rightarrow> (s\<lparr>rs_quota := l\<rparr>, p, True)))"

fun can_fit_loop :: "go_time \<Rightarrow> QuotaReservation list \<Rightarrow> QuotaLedger \<Rightarrow> QuotaLedger \<times> bool" where
  "can_fit_loop now [] l = (l, True)"
| "can_fit_loop now (r # rs) l = (case Snapshot l (qr_Key r) now of
     (l, None) \<Rightarrow> can_fit_loop now rs l
   | (l, Some snap) \<Rightarrow>
       if qs_Available snap \<ge> qr_Cost r \<or>
          (qo_Confidence (qs_Observation snap) = QuotaConfidenceEstimated \<and> qs_Reserved snap = 0 \<and> \<not> qs_ProbeSettled snap)
       then can_fit_loop now rs l else (l, False))"

definition quotaCanFit ::
  "quota_env \<Rightarrow> RouterService \<Rightarrow> modelAttempt \<Rightarrow> string \<Rightarrow> QuotaEstimate \<Rightarrow> go_time \<Rightarrow> RouterService \<times> bool" where
  "quotaCanFit q s attempt credential estimate now =
     (case quotaReservations q s attempt credential estimate now of
        (s, rs) \<Rightarrow> (case can_fit_loop now rs (rs_quota s) of (l, ok) \<Rightarrow> (s\<lparr>rs_quota := l\<rparr>, ok)))"

section \<open>Cooldowns\<close>

definition quotaCooldownKey :: "RouterService \<Rightarrow> modelAttempt \<Rightarrow> string" where
  "quotaCooldownKey s attempt = normalizedProvider s attempt @ [CHR 0x00] @ ma_Model attempt"

definition quotaAttemptAvailable :: "RouterService \<Rightarrow> modelAttempt \<Rightarrow> go_time \<Rightarrow> bool" where
  "quotaAttemptAvailable s attempt now \<longleftrightarrow>
     \<not> after (m_get_or zero_time (rs_quotaCooldowns s) (quotaCooldownKey s attempt)) now"

definition setQuotaCooldown :: "modelAttempt \<Rightarrow> duration \<Rightarrow> go_time \<Rightarrow> RouterService \<Rightarrow> RouterService \<times> duration" where
  "setQuotaCooldown attempt duration now s =
     (let duration = (if duration \<le> 0 then 2 * second else duration);
          key = quotaCooldownKey s attempt;
          until = add_dur now duration
      in (if after until (m_get_or zero_time (rs_quotaCooldowns s) key)
          then s\<lparr>rs_quotaCooldowns := m_set key until (rs_quotaCooldowns s)\<rparr> else s, duration))"

definition quotaCooldownRemaining :: "RouterService \<Rightarrow> modelAttempt \<Rightarrow> go_time \<Rightarrow> duration" where
  "quotaCooldownRemaining s attempt now =
     (let until = m_get_or zero_time (rs_quotaCooldowns s) (quotaCooldownKey s attempt)
      in if \<not> after until now then 0 else sub_time until now)"

section \<open>Reserving and settling\<close>

definition reserveFallbackQuota ::
  "quota_env \<Rightarrow> RouterService \<Rightarrow> modelAttempt \<Rightarrow> string \<Rightarrow> QuotaEstimate \<Rightarrow> go_time \<Rightarrow>
   RouterService \<times> QuotaTicket \<times> bool" where
  "reserveFallbackQuota q s attempt credential estimate now =
     (if \<not> quotaAttemptAvailable s attempt now then (s, noTicket, False)
      else case quotaReservations q s attempt credential estimate now of
             (s, rs) \<Rightarrow> (case ReserveAll (rs_quota s) rs now of (l, t, ok) \<Rightarrow> (s\<lparr>rs_quota := l\<rparr>, t, ok)))"

text \<open>One observation of the first loop of \<open>observeAndSettleQuota\<close>.\<close>

definition observe_fact ::
  "quota_env \<Rightarrow> string \<Rightarrow> go_time \<Rightarrow> providerQuotaObservation \<Rightarrow>
   QuotaLedger \<times> (QuotaBucketKey, QuotaObservation) gomap \<Rightarrow> QuotaLedger \<times> (QuotaBucketKey, QuotaObservation) gomap" where
  "observe_fact q credential now obs acc = (case (acc, ledgerFact obs) of
     ((l, facts), Some (key, fct)) \<Rightarrow>
       let key = key\<lparr>qk_Scope := credentialQuotaScope (qv_fingerprint q) (po_Scope obs) credential\<rparr>;
           fct = (if is_zero (qo_ResetAt fct) \<and> qk_Window key = QuotaWindowMinute
                   then fct\<lparr>qo_ResetAt := nextMinuteReset now\<rparr> else fct)
       in (fst (Observe l key fct now), m_set key fct facts)
   | (_, None) \<Rightarrow> acc)"

definition settlement_for ::
  "(QuotaBucketKey, QuotaObservation) gomap \<Rightarrow> QuotaEstimate \<Rightarrow> int \<Rightarrow> QuotaReservation \<Rightarrow> QuotaSettlement" where
  "settlement_for facts estimate actualTokens r =
     \<lparr>st_Key = qr_Key r,
      st_Actual = (if qk_Dimension (qr_Key r) = QuotaDimensionTokens
                   then (if actualTokens \<le> 0 then qe_Tokens estimate else actualTokens)
                   else qe_Requests estimate),
      st_Observation = m_get facts (qr_Key r)\<rparr>"

definition observeAndSettleQuota ::
  "parsers \<Rightarrow> quota_env \<Rightarrow> go_time \<Rightarrow> QuotaTicket \<Rightarrow> modelAttempt \<Rightarrow> string \<Rightarrow> int \<Rightarrow> httpHeader \<Rightarrow> string \<Rightarrow> int \<Rightarrow> go_time \<Rightarrow>
   RouterService \<Rightarrow> RouterService \<times> providerQuotaObservation list" where
  "observeAndSettleQuota p q clock ticket attempt credential status headers body actualTokens now s =
     (let observations = observeProviderQuota p clock (ma_Provider attempt) (ma_Model attempt) status headers body now;
          (l, facts) = fold (observe_fact q credential now) observations (rs_quota s, []);
          s = s\<lparr>rs_quota := l\<rparr>
      in if \<not> Valid ticket then (if facts \<noteq> [] then markScoresDirty s else s, observations)
         else
           let settlements = map (settlement_for facts (ma_QuotaEstimate attempt) actualTokens) (Reservations l ticket)
           in (markScoresDirty (s\<lparr>rs_quota := fst (Reconcile l ticket settlements now)\<rparr>), observations))"

section \<open>Ranking\<close>

record quotaGroup =
  qg_provider :: providerID
  qg_attempts :: "modelAttempt list"
  qg_pressure :: real
  qg_known :: bool
  qg_reliability :: real
  qg_latency :: duration
  qg_samples :: int
  qg_order :: nat
  qg_preferred :: bool

text \<open>The clock readings of one call, and the latency statistics (sum in nanoseconds and count) by
  breaker key.\<close>

record rank_clock =
  rk_now :: go_time
  rk_affinity :: go_time
  rk_preferred :: go_time
  rk_score :: go_time

record rank_env =
  re_quota :: quota_env
  re_credentials :: credential_env
  re_affinityKey :: string
  re_latency :: "string \<Rightarrow> (int \<times> int) option"

definition absDuration :: "duration \<Rightarrow> duration" where
  "absDuration v = (if v < 0 then wrap64 (- v) else v)"

definition meanFirstTokenLatency :: "(string \<Rightarrow> (int \<times> int) option) \<Rightarrow> RouterService \<Rightarrow> modelAttempt \<Rightarrow> duration \<times> int" where
  "meanFirstTokenLatency stats s attempt = (case stats (breakerKey s attempt) of
     None \<Rightarrow> (0, 0)
   | Some (sumNanos, n) \<Rightarrow> if n \<le> 0 then (0, 0) else (sgn sumNanos * (\<bar>sumNanos\<bar> div n), n))"

definition credential_of :: "rank_env \<Rightarrow> RouterService \<Rightarrow> string \<Rightarrow> modelAttempt \<Rightarrow> string" where
  "credential_of r s key attempt =
     (case providerCredential (re_credentials r) (Some s) attempt key of None \<Rightarrow> [] | Some c \<Rightarrow> c)"

definition provider_order :: "RouterService \<Rightarrow> modelAttempt list \<Rightarrow> providerID \<Rightarrow> nat" where
  "provider_order s attempts provider =
     length (takeWhile (\<lambda>x. x \<noteq> provider) (first_of_key (\<lambda>x. x) [] (map (normalizedProvider s) attempts)))"

definition new_group :: "providerID \<Rightarrow> nat \<Rightarrow> quotaGroup" where
  "new_group provider order = \<lparr>qg_provider = provider, qg_attempts = [], qg_pressure = 0, qg_known = False,
     qg_reliability = 0, qg_latency = 0, qg_samples = 0, qg_order = order, qg_preferred = False\<rparr>"

definition on_route :: "affinityRoute option \<Rightarrow> modelAttempt \<Rightarrow> bool" where
  "on_route pref a = (case pref of
     None \<Rightarrow> False | Some r \<Rightarrow> ma_Provider a = af_Provider r \<and> ma_Model a = af_Model r)"

definition put_attempt :: "affinityRoute option \<Rightarrow> modelAttempt \<Rightarrow> quotaGroup \<Rightarrow> quotaGroup" where
  "put_attempt pref a g =
     g\<lparr>qg_attempts := qg_attempts g @ [a], qg_preferred := qg_preferred g \<or> on_route pref a\<rparr>"

definition group_add ::
  "(providerID \<Rightarrow> nat) \<Rightarrow> affinityRoute option \<Rightarrow> modelAttempt \<Rightarrow> quotaGroup list \<Rightarrow> quotaGroup list" where
  "group_add order pref a groups =
     (if ma_Provider a \<in> set (map qg_provider groups)
      then map (\<lambda>g. if qg_provider g = ma_Provider a then put_attempt pref a g else g) groups
      else groups @ [put_attempt pref a (new_group (ma_Provider a) (order (ma_Provider a)))])"

text \<open>The loop that keeps the attempts with quota and groups them by provider.\<close>

fun group_loop ::
  "rank_env \<Rightarrow> string \<Rightarrow> QuotaEstimate \<Rightarrow> go_time \<Rightarrow> (providerID \<Rightarrow> nat) \<Rightarrow> affinityRoute option \<Rightarrow> modelAttempt list \<Rightarrow>
   RouterService \<Rightarrow> quotaGroup list \<Rightarrow> RouterService \<times> quotaGroup list" where
  "group_loop r key estimate now order pref [] s groups = (s, groups)"
| "group_loop r key estimate now order pref (a # as) s groups =
     (let a = a\<lparr>ma_Provider := normalizedProvider s a\<rparr>
      in if \<not> quotaAttemptAvailable s a now then group_loop r key estimate now order pref as s groups
         else case quotaCanFit (re_quota r) s a (credential_of r s key a) estimate now of
           (s, False) \<Rightarrow> group_loop r key estimate now order pref as s groups
         | (s, True) \<Rightarrow> group_loop r key estimate now order pref as s (group_add order pref a groups))"

text \<open>The loop that fills in pressure, reliability and latency.\<close>

fun measure_loop ::
  "rank_env \<Rightarrow> string \<Rightarrow> QuotaEstimate \<Rightarrow> rank_clock \<Rightarrow> quotaGroup list \<Rightarrow> RouterService \<Rightarrow> RouterService \<times> quotaGroup list" where
  "measure_loop r key estimate c [] s = (s, [])"
| "measure_loop r key estimate c (g # gs) s =
     (let a = hd (qg_attempts g)
      in case quotaPressure (re_quota r) s a (credential_of r s key a) estimate (rk_now c) of
           (s, pressure, kn) \<Rightarrow>
             let g = g\<lparr>qg_pressure := pressure, qg_known := kn,
                       qg_reliability := scoreForAttempt s a (scoreEnv_of (qv_env (re_quota r)) (rk_score c) s),
                       qg_latency := fst (meanFirstTokenLatency (re_latency r) s a),
                       qg_samples := snd (meanFirstTokenLatency (re_latency r) s a)\<rparr>;
                 (s, gs) = measure_loop r key estimate c gs s
             in (s, g # gs))"

definition quota_less :: "process_env \<Rightarrow> quotaGroup \<Rightarrow> quotaGroup \<Rightarrow> bool" where
  "quota_less env g h \<longleftrightarrow>
     (if qg_preferred g \<noteq> qg_preferred h then qg_preferred g
      else if qg_known g \<and> qg_known h \<and> \<bar>qg_pressure g - qg_pressure h\<bar> > 5 / 100 then qg_pressure g < qg_pressure h
      else
        let minSamples = envInt env ''PROXY_QUOTA_LATENCY_MIN_SAMPLES'' 3;
            latencyBudget = wrap64 (envInt env ''PROXY_QUOTA_LATENCY_BUDGET_MS'' 1000 * millisecond)
        in if qg_samples g \<ge> minSamples \<and> qg_samples h \<ge> minSamples \<and>
              absDuration (wrap64 (qg_latency g - qg_latency h)) > latencyBudget
           then qg_latency g < qg_latency h
           else if qg_reliability g \<noteq> qg_reliability h then qg_reliability g > qg_reliability h
           else qg_order g < qg_order h)"

text \<open>Depth by depth, one attempt of each group, until a depth adds nothing.\<close>

definition interleave :: "'a list list \<Rightarrow> 'a list" where
  "interleave gs = concat (map (\<lambda>d. map (\<lambda>g. g ! d) (filter (\<lambda>g. d < length g) gs)) [0..<fold max (map length gs) 0])"

fun reserve_primary ::
  "rank_env \<Rightarrow> string \<Rightarrow> QuotaEstimate \<Rightarrow> go_time \<Rightarrow> modelAttempt list \<Rightarrow> RouterService \<Rightarrow> RouterService \<times> modelAttempt list" where
  "reserve_primary r key estimate now [] s = (s, [])"
| "reserve_primary r key estimate now (a # as) s =
     (case quotaReservations (re_quota r) s a (credential_of r s key a) estimate now of
        (s, rs) \<Rightarrow>
          (case ReserveAll (rs_quota s) rs now of
             (l, ticket, ok) \<Rightarrow>
               let s = s\<lparr>rs_quota := l\<rparr>
               in if ok
                  then (s, a\<lparr>ma_QuotaTicket := ticket,
                             ma_QuotaEstimate := providerQuotaEstimate (qv_env (re_quota r)) a estimate\<rparr> # as)
                  else reserve_primary r key estimate now as s))"

definition quotaRankAndReserve ::
  "rank_env \<Rightarrow> rank_clock \<Rightarrow> string \<Rightarrow> QuotaEstimate \<Rightarrow> modelAttempt list \<Rightarrow> affinityStore \<Rightarrow> RouterService \<Rightarrow>
   affinityStore \<times> RouterService \<times> modelAttempt list" where
  "quotaRankAndReserve r c key estimate attempts aff s =
     (if attempts = [] then (aff, s, [])
      else
        let env = qv_env (re_quota r);
            (aff, base) = applySessionAffinity (rk_affinity c) (re_affinityKey r) aff
              (rankAttemptsByScore env (rk_score c) s attempts);
            (aff, pref) = preferred (rk_preferred c) aff (re_affinityKey r);
            (s, groups) = group_loop r key estimate (rk_now c) (provider_order s attempts) pref base s [];
            (s, groups) = measure_loop r key estimate c groups s;
            ranked = interleave (map qg_attempts (slice_stable (quota_less env) groups));
            (s, ranked) = reserve_primary r key estimate (rk_now c) ranked s
        in (aff, s, ranked))"

section \<open>When quota will be back\<close>

fun ready_loop :: "go_time \<Rightarrow> QuotaReservation list \<Rightarrow> duration \<Rightarrow> QuotaLedger \<Rightarrow> QuotaLedger \<times> duration" where
  "ready_loop now [] readyIn l = (l, readyIn)"
| "ready_loop now (r # rs) readyIn l = (case Snapshot l (qr_Key r) now of
     (l, None) \<Rightarrow> ready_loop now rs readyIn l
   | (l, Some snap) \<Rightarrow>
       let reset = qo_ResetAt (qs_Observation snap); wait = sub_time reset now
       in if qs_Available snap \<ge> qr_Cost r \<or> is_zero reset \<or> \<not> after reset now then ready_loop now rs readyIn l
          else ready_loop now rs (if wait > readyIn then wait else readyIn) l)"

fun retry_after_loop ::
  "rank_env \<Rightarrow> string \<Rightarrow> QuotaEstimate \<Rightarrow> go_time \<Rightarrow> modelAttempt list \<Rightarrow> duration \<Rightarrow> RouterService \<Rightarrow> RouterService \<times> duration" where
  "retry_after_loop r key estimate now [] soonest s = (s, soonest)"
| "retry_after_loop r key estimate now (a # as) soonest s =
     (let cool = quotaCooldownRemaining s a now
      in case quotaReservations (re_quota r) s a (credential_of r s key a) estimate now of
           (s, rs) \<Rightarrow>
             (case ready_loop now rs cool (rs_quota s) of
                (l, readyIn) \<Rightarrow>
                  retry_after_loop r key estimate now as
                    (if readyIn > 0 \<and> (soonest = 0 \<or> readyIn < soonest) then readyIn else soonest) (s\<lparr>rs_quota := l\<rparr>)))"

definition quotaRetryAfterForAttempts ::
  "rank_env \<Rightarrow> string \<Rightarrow> QuotaEstimate \<Rightarrow> go_time \<Rightarrow> modelAttempt list \<Rightarrow> RouterService \<Rightarrow> RouterService \<times> duration" where
  "quotaRetryAfterForAttempts r key estimate now attempts s = retry_after_loop r key estimate now attempts 0 s"

section \<open>Operations that take no claim\<close>

definition quiet :: "QuotaLedger \<Rightarrow> QuotaLedger \<Rightarrow> bool" where
  "quiet l l' \<longleftrightarrow> (ledger_inv l \<longrightarrow> ledger_inv l') \<and> ql_self l' = ql_self l \<and> ql_tickets l' = ql_tickets l"

lemma quiet_refl [simp, intro]: "quiet l l"
  by (simp add: quiet_def)

lemma quiet_trans [trans]: "quiet a b \<Longrightarrow> quiet b c \<Longrightarrow> quiet a c"
  by (auto simp: quiet_def)

lemma quiet_live: "quiet l l' \<Longrightarrow> live_tickets l' = live_tickets l"
  by (simp add: quiet_def live_tickets_def)

lemma quiet_Snapshot: "quiet l (fst (Snapshot l key now))"
  using inv_Snapshot by (auto simp: quiet_def Snapshot_def purgeExpiredLocked_def Let_def split: option.split)

lemma quiet_Keys: "quiet l (fst (Keys l now))"
  using inv_Keys by (auto simp: quiet_def Keys_def purgeExpiredLocked_def Let_def)

lemma quiet_Observe: "qo_Limit obs \<le> max_int64 \<Longrightarrow> quiet l (fst (Observe l key obs now))"
  using inv_Observe by (auto simp: quiet_def Observe_def purgeExpiredLocked_def Let_def)

lemma envInt_ok: "int64_ok d \<Longrightarrow> int64_ok (envInt env k d)"
  by (auto simp: envInt_def atoi_def Let_def split: option.split)

lemma envInt_le: "d \<le> max_int64 \<Longrightarrow> envInt env k d \<le> max_int64"
  by (auto simp: envInt_def atoi_def int64_ok_def Let_def split: option.split)

lemma snapshot_split:
  obtains l1 sn where "Snapshot l key now = (l1, sn)" "quiet l l1"
  using quiet_Snapshot [of l key now] by (metis fst_conv prod.exhaust)

lemma quiet_observe_if_unknown:
  assumes lim: "fst (snd e) \<le> max_int64"
  shows "quiet l (observe_if_unknown now e l)"
proof -
  obtain key limit reset where e: "e = (key, limit, reset)" by (metis prod_cases3)
  obtain l1 sn where s: "Snapshot l key now = (l1, sn)" "quiet l l1" by (rule snapshot_split)
  have "quiet l (fst (Observe l1 key obs now))" if "qo_Limit obs = limit" for obs
    by (rule quiet_trans [OF s(2) quiet_Observe]) (use that lim e in simp)
  with e s show ?thesis by (cases sn) (simp_all add: observe_if_unknown_def)
qed

lemma quiet_fold: "(\<And>x l. x \<in> set xs \<Longrightarrow> quiet l (f x l)) \<Longrightarrow> quiet l (fold f xs l)"
proof (induction xs arbitrary: l)
  case (Cons x xs)
  have "quiet l (f x l)" using Cons.prems by simp
  moreover have "quiet (f x l) (fold f xs (f x l))" using Cons.prems by (intro Cons.IH) simp
  ultimately show ?case by (auto intro: quiet_trans)
qed simp

lemma bootstrap_limits_le:
  "e \<in> set (bootstrap_limits q s attempt credential now) \<Longrightarrow> fst (snd e) \<le> max_int64"
  by (auto simp: bootstrap_limits_def Let_def split: if_splits intro!: envInt_le) (simp_all add: max_int64_def)

lemma quiet_bootstrap: "quiet (rs_quota s) (rs_quota (ensureBootstrapQuota q s attempt credential now))"
  by (simp add: ensureBootstrapQuota_def quiet_fold quiet_observe_if_unknown bootstrap_limits_le)

definition est_ok :: "QuotaEstimate \<Rightarrow> bool" where
  "est_ok e \<longleftrightarrow> qe_Requests e \<le> max_int64 \<and> qe_Tokens e \<le> max_int64"

lemma wrap64_le: "wrap64 n \<le> max_int64"
  using wrap64_ok [of n] by (simp add: int64_ok_def)

lemma est_ok_provider: "est_ok e \<Longrightarrow> est_ok (providerQuotaEstimate env a e)"
  by (simp add: est_ok_def providerQuotaEstimate_def Let_def wrap64_le)

lemma est_ok_request: "est_ok (estimateRequestQuota env marshal body)"
  by (simp add: est_ok_def estimateRequestQuota_def Let_def wrap64_le) (simp add: max_int64_def)

lemma reservations_facts:
  assumes "quotaReservations q s a c e now = (s', rs)"
  shows "quiet (rs_quota s) (rs_quota s')" "s' = s\<lparr>rs_quota := rs_quota s'\<rparr>"
    "est_ok e \<Longrightarrow> list_all (\<lambda>r. 0 < qr_Cost r \<and> qr_Cost r \<le> max_int64) rs"
proof -
  let ?s1 = "ensureBootstrapQuota q s a c now"
  from assms have s': "s' = ?s1\<lparr>rs_quota := fst (Keys (rs_quota ?s1) now)\<rparr>"
    by (auto simp: quotaReservations_def Let_def split: prod.splits)
  show "quiet (rs_quota s) (rs_quota s')" unfolding s'
    using quiet_trans [OF quiet_bootstrap quiet_Keys] by simp
  show "s' = s\<lparr>rs_quota := rs_quota s'\<rparr>" unfolding s' by (simp add: ensureBootstrapQuota_def)
  show "est_ok e \<Longrightarrow> list_all (\<lambda>r. 0 < qr_Cost r \<and> qr_Cost r \<le> max_int64) rs"
    using assms est_ok_provider [of e "qv_env q" a]
    by (auto simp: quotaReservations_def Let_def list_all_iff key_cost_def est_ok_def split: prod.splits)
qed

lemma quiet_pressure_loop: "quiet l (fst (pressure_loop now rs p l))"
proof (induction rs arbitrary: p l)
  case (Cons r rs)
  obtain l1 sn where s: "Snapshot l (qr_Key r) now = (l1, sn)" "quiet l l1" by (rule snapshot_split)
  have "quiet l (fst (pressure_loop now rs q l1))" for q by (rule quiet_trans [OF s(2) Cons.IH])
  with s show ?case by (cases sn) (simp_all add: Let_def)
qed simp

lemma quiet_can_fit_loop: "quiet l (fst (can_fit_loop now rs l))"
proof (induction rs arbitrary: l)
  case (Cons r rs)
  obtain l1 sn where s: "Snapshot l (qr_Key r) now = (l1, sn)" "quiet l l1" by (rule snapshot_split)
  have "quiet l (fst (can_fit_loop now rs l1))" by (rule quiet_trans [OF s(2) Cons.IH])
  with s show ?case by (cases sn) (simp_all add: Let_def)
qed simp

lemma quiet_ready_loop: "quiet l (fst (ready_loop now rs d l))"
proof (induction rs arbitrary: d l)
  case (Cons r rs)
  obtain l1 sn where s: "Snapshot l (qr_Key r) now = (l1, sn)" "quiet l l1" by (rule snapshot_split)
  have "quiet l (fst (ready_loop now rs q l1))" for q by (rule quiet_trans [OF s(2) Cons.IH])
  with s show ?case by (cases sn) (simp_all add: Let_def)
qed simp

text \<open>The service after an operation that only looks: the same up to the ledger, which is quiet.\<close>

definition looks :: "RouterService \<Rightarrow> RouterService \<Rightarrow> bool" where
  "looks s s' \<longleftrightarrow> quiet (rs_quota s) (rs_quota s') \<and> s' = s\<lparr>rs_quota := rs_quota s'\<rparr>"

lemma looks_refl [simp, intro]: "looks s s"
  by (simp add: looks_def)

lemma looks_providers: "normalizedProvider (s\<lparr>rs_quota := l\<rparr>) = normalizedProvider s \<and>
    quotaAttemptAvailable (s\<lparr>rs_quota := l\<rparr>) = quotaAttemptAvailable s"
  by (simp add: fun_eq_iff normalizedProvider_def quotaAttemptAvailable_def quotaCooldownKey_def defaultPolicyProvider_def)

lemma looks_trans [trans]: "looks a b \<Longrightarrow> looks b c \<Longrightarrow> looks a c"
proof -
  assume ab: "looks a b" and bc: "looks b c"
  have "c = b\<lparr>rs_quota := rs_quota c\<rparr>" using bc by (simp add: looks_def)
  also have "b = a\<lparr>rs_quota := rs_quota b\<rparr>" using ab by (simp add: looks_def)
  finally have "c = a\<lparr>rs_quota := rs_quota c\<rparr>" by simp
  with ab bc show ?thesis by (auto simp: looks_def intro: quiet_trans)
qed

lemma looks_sel: "looks s s' \<Longrightarrow> normalizedProvider s' = normalizedProvider s \<and> quotaAttemptAvailable s' = quotaAttemptAvailable s"
  unfolding looks_def by (metis looks_providers)

lemma looks_inv: "looks s s' \<Longrightarrow> ledger_room (rs_quota s) \<Longrightarrow>
  ledger_room (rs_quota s') \<and> ql_self (rs_quota s') = ql_self (rs_quota s) \<and>
  live_tickets (rs_quota s') = live_tickets (rs_quota s)"
  by (simp add: looks_def quiet_def ledger_room_def live_tickets_def)

lemma looks_set: "looks s s' \<Longrightarrow> quiet (rs_quota s') l \<Longrightarrow> looks s (s'\<lparr>rs_quota := l\<rparr>)"
proof (rule looks_trans, assumption)
  show "quiet (rs_quota s') l \<Longrightarrow> looks s' (s'\<lparr>rs_quota := l\<rparr>)" by (simp add: looks_def)
qed

lemma looks_reservations: "quotaReservations q s a c e now = (s', rs) \<Longrightarrow> looks s s'"
  by (simp add: looks_def reservations_facts)

lemma looks_quotaCanFit: "looks s (fst (quotaCanFit q s a c e now))"
proof -
  obtain s1 rs where 1: "quotaReservations q s a c e now = (s1, rs)" by fastforce
  obtain l ok where 2: "can_fit_loop now rs (rs_quota s1) = (l, ok)" by fastforce
  have "quiet (rs_quota s1) l" using quiet_can_fit_loop [of "rs_quota s1" now rs] 2 by simp
  from looks_set [OF looks_reservations [OF 1] this] 1 2 show ?thesis by (simp add: quotaCanFit_def)
qed

lemma looks_quotaPressure: "looks s (fst (quotaPressure q s a c e now))"
proof -
  obtain s1 rs where 1: "quotaReservations q s a c e now = (s1, rs)" by fastforce
  obtain l p where 2: "pressure_loop now rs 0 (rs_quota s1) = (l, p)" by fastforce
  have "quiet (rs_quota s1) l" using quiet_pressure_loop [of "rs_quota s1" now rs 0] 2 by simp
  from looks_set [OF looks_reservations [OF 1] this] looks_reservations [OF 1] 1 2 show ?thesis
    by (auto simp: quotaPressure_def split: list.split simp del: pressure_loop.simps)
qed

section \<open>What the ranking keeps\<close>

definition offers :: "RouterService \<Rightarrow> go_time \<Rightarrow> modelAttempt list \<Rightarrow> modelAttempt set" where
  "offers s now attempts = {normalize s a | a. a \<in> set attempts \<and> quotaAttemptAvailable s (normalize s a) now}"

lemma offers_looks: "looks s s' \<Longrightarrow> offers s' now as = offers s now as"
  using looks_sel [of s s'] by (auto simp: offers_def normalize_def)

lemma normalize_again [simp]: "normalize s (normalize s a) = normalize s a"
  by (simp add: normalize_def normalizedProvider_def)

lemma offers_base: "set base \<subseteq> set attempts \<union> normalize s ` set attempts \<Longrightarrow> offers s now base \<subseteq> offers s now attempts"
  unfolding offers_def by force

definition grouped :: "modelAttempt set \<Rightarrow> quotaGroup list \<Rightarrow> bool" where
  "grouped S groups \<longleftrightarrow> (\<Union>g\<in>set groups. set (qg_attempts g)) \<subseteq> S"

lemma grouped_add: "grouped S groups \<Longrightarrow> a \<in> S \<Longrightarrow> grouped S (group_add order pref a groups)"
  by (auto simp: grouped_def group_add_def put_attempt_def new_group_def split: if_splits)

lemma group_loop_facts:
  assumes "group_loop r key estimate now order pref as s groups = (s', groups')"
    "grouped S groups" "offers s now as \<subseteq> S"
  shows "looks s s' \<and> grouped S groups'"
  using assms
proof (induction as arbitrary: s groups)
  case (Cons a as)
  let ?a = "normalize s a"
  have rest: "offers s now as \<subseteq> S" using Cons.prems(3) by (auto simp: offers_def)
  obtain s1 ok where fit: "quotaCanFit (re_quota r) s ?a (credential_of r s key ?a) estimate now = (s1, ok)" by fastforce
  have l: "looks s s1" using looks_quotaCanFit [of s "re_quota r" ?a] fit by (metis fst_conv)
  have rest1: "offers s1 now as \<subseteq> S" using rest offers_looks [OF l] by simp
  show ?case
  proof (cases "quotaAttemptAvailable s ?a now")
    case False
    with Cons.prems Cons.IH [OF _ _ rest] show ?thesis by (simp add: normalize_def)
  next
    case True
    then have "?a \<in> S" using Cons.prems(3) by (auto simp: offers_def)
    with True Cons.prems(1,2) fit show ?thesis
      using Cons.IH [OF _ _ rest1] looks_trans [OF l] grouped_add [OF Cons.prems(2), of ?a]
      by (cases ok) (fastforce simp: normalize_def)+
  qed
qed simp

lemma measure_loop_facts:
  "measure_loop r key estimate c groups s = (s', groups') \<Longrightarrow>
   looks s s' \<and> map qg_attempts groups' = map qg_attempts groups"
proof (induction groups arbitrary: s groups')
  case (Cons g gs)
  obtain s1 p kn where 1: "quotaPressure (re_quota r) s (hd (qg_attempts g))
      (credential_of r s key (hd (qg_attempts g))) estimate (rk_now c) = (s1, p, kn)" by (metis prod_cases3)
  have l: "looks s s1" using looks_quotaPressure 1 by (metis fst_conv)
  from Cons.prems 1 show ?case
    using Cons.IH [of s1] looks_trans [OF l] by (auto simp: Let_def split: prod.splits)
qed simp

lemma set_interleave: "set (interleave gs) \<subseteq> (\<Union>g\<in>set gs. set g)"
  by (auto simp: interleave_def)

section \<open>Reserving\<close>

lemma ReserveAll_self: "ql_self (fst (ReserveAll l rs now)) = ql_self l"
  using reserve_loop_sel
  by (auto simp: ReserveAll_def newTicketIDLocked_def purgeExpiredLocked_def Let_def split: option.split prod.split)

lemma looks_upd: "looks s s1 \<Longrightarrow> s1\<lparr>rs_quota := l\<rparr> = s\<lparr>rs_quota := l\<rparr>"
proof -
  assume "looks s s1"
  then have "s1\<lparr>rs_quota := l\<rparr> = s\<lparr>rs_quota := rs_quota s1, rs_quota := l\<rparr>" unfolding looks_def by metis
  then show ?thesis by simp
qed

lemma reserve_attempt:
  assumes "quotaReservations q s a c e now = (s1, rs)" "ReserveAll (rs_quota s1) rs now = (l, t, ok)"
    "est_ok e" "ledger_room (rs_quota s)"
  shows "ledger_inv l" "ql_self l = ql_self (rs_quota s)" "s1\<lparr>rs_quota := l\<rparr> = s\<lparr>rs_quota := l\<rparr>"
    "\<not> ok \<Longrightarrow> ql_tickets l = ql_tickets (rs_quota s)"
    "ok \<Longrightarrow> Valid t \<and> qt_ledger t = Some (ql_self (rs_quota s)) \<and> qt_id t \<notin> live_tickets (rs_quota s) \<and>
       live_tickets l = insert (qt_id t) (live_tickets (rs_quota s))"
proof -
  have lk: "looks s s1" by (rule looks_reservations [OF assms(1)])
  note room = looks_inv [OF lk assms(4)]
  have cost: "list_all (\<lambda>r. qr_Cost r \<le> max_int64) rs"
    using reservations_facts(3) [OF assms(1,3)] by (simp add: list_all_iff)
  show "ledger_inv l"
    using inv_ReserveAll [of "rs_quota s1" rs now] cost room assms(2) by (simp add: ledger_room_def)
  show "ql_self l = ql_self (rs_quota s)" using ReserveAll_self [of "rs_quota s1" rs now] assms(2) room by simp
  show "s1\<lparr>rs_quota := l\<rparr> = s\<lparr>rs_quota := l\<rparr>" by (rule looks_upd [OF lk])
  have tk: "ql_tickets (rs_quota s1) = ql_tickets (rs_quota s)" using lk by (simp add: looks_def quiet_def)
  note ra = ReserveAll_tickets [OF assms(2)]
  show "\<not> ok \<Longrightarrow> ql_tickets l = ql_tickets (rs_quota s)" using ra tk by simp
  show "ok \<Longrightarrow> Valid t \<and> qt_ledger t = Some (ql_self (rs_quota s)) \<and> qt_id t \<notin> live_tickets (rs_quota s) \<and>
       live_tickets l = insert (qt_id t) (live_tickets (rs_quota s))"
  proof -
    assume ok
    with assms(2) have "ReserveAll (rs_quota s1) rs now = (l, t, True)" by simp
    then obtain n where "n \<noteq> 0" "t = \<lparr>qt_ledger = Some (ql_self (rs_quota s1)), qt_id = n\<rparr>"
      by (rule ReserveAll_success) simp
    with \<open>ok\<close> ra tk room show ?thesis by (simp add: Valid_def live_tickets_iff)
  qed
qed

text \<open>What holding the first claim of a chain means, and that the loop over the ranked list delivers it.\<close>

definition holds_primary :: "RouterService \<Rightarrow> RouterService \<Rightarrow> modelAttempt list \<Rightarrow> bool" where
  "holds_primary s s' ranked \<longleftrightarrow>
     (case ranked of
        [] \<Rightarrow> live_tickets (rs_quota s') = live_tickets (rs_quota s)
      | a # _ \<Rightarrow>
          let t = ma_QuotaTicket a
          in Valid t \<and> qt_ledger t = Some (ql_self (rs_quota s)) \<and> qt_id t \<notin> live_tickets (rs_quota s) \<and>
             live_tickets (rs_quota s') = insert (qt_id t) (live_tickets (rs_quota s)))"

definition same_route :: "modelAttempt \<Rightarrow> modelAttempt \<Rightarrow> bool" where
  "same_route a b \<longleftrightarrow> b = a\<lparr>ma_QuotaTicket := ma_QuotaTicket b, ma_QuotaEstimate := ma_QuotaEstimate b\<rparr>"

lemma reserve_primary_facts:
  assumes "reserve_primary r key e now as s = (s', ranked)" "est_ok e" "ledger_room (rs_quota s)"
  shows "ledger_inv (rs_quota s') \<and> s' = s\<lparr>rs_quota := rs_quota s'\<rparr> \<and> holds_primary s s' ranked \<and>
    (ranked = [] \<or> (\<exists>a b rest pre. ranked = b # rest \<and> as = pre @ a # rest \<and> same_route a b))"
  using assms
proof (induction as arbitrary: s)
  case Nil
  then show ?case by (simp add: holds_primary_def ledger_room_def)
next
  case (Cons a as)
  obtain s1 rs where 1: "quotaReservations (re_quota r) s a (credential_of r s key a) e now = (s1, rs)" by fastforce
  obtain l t ok where 2: "ReserveAll (rs_quota s1) rs now = (l, t, ok)" by (metis prod_cases3)
  note f = reserve_attempt [OF 1 2 Cons.prems(2,3)]
  show ?case
  proof (cases ok)
    case True
    with Cons.prems(1) 1 2 f(3) have "s' = s\<lparr>rs_quota := l\<rparr>"
      "ranked = a\<lparr>ma_QuotaTicket := t, ma_QuotaEstimate := providerQuotaEstimate (qv_env (re_quota r)) a e\<rparr> # as"
      by simp_all
    with f(1) f(5) [OF True] show ?thesis by (auto simp: holds_primary_def same_route_def Let_def)
  next
    case False
    let ?s = "s\<lparr>rs_quota := l\<rparr>"
    have "reserve_primary r key e now as ?s = (s', ranked)" using Cons.prems(1) 1 2 f(3) False by simp
    moreover have "ledger_room (rs_quota ?s)" using f(1) f(4) [OF False] Cons.prems(3) by (simp add: ledger_room_def)
    ultimately have ih: "ledger_inv (rs_quota s') \<and> s' = ?s\<lparr>rs_quota := rs_quota s'\<rparr> \<and> holds_primary ?s s' ranked \<and>
      (ranked = [] \<or> (\<exists>a b rest pre. ranked = b # rest \<and> as = pre @ a # rest \<and> same_route a b))"
      using Cons.IH Cons.prems(2) by blast
    have "holds_primary ?s s' ranked = holds_primary s s' ranked"
      using f(2) f(4) [OF False] by (cases ranked) (simp_all add: holds_primary_def live_tickets_def)
    with ih show ?thesis by simp (metis append_Cons)
  qed
qed

lemma reserve_primary_routes:
  assumes "reserve_primary r key e now as s = (s', ranked)" "est_ok e" "ledger_room (rs_quota s)" "b \<in> set ranked"
  shows "\<exists>a\<in>set as. same_route a b"
proof -
  have refl: "same_route a a" for a by (simp add: same_route_def)
  from reserve_primary_facts [OF assms(1-3)] assms(4) obtain a c rest pre where
    "ranked = c # rest" "as = pre @ a # rest" "same_route a c" by auto
  with assms(4) refl show ?thesis by auto
qed

lemma applySessionAffinity_set: "set (snd (applySessionAffinity now key aff xs)) = set xs"
proof -
  have "set (promote q [] xs) = set xs" for q
    using arg_cong [OF promote_mset [of q "[]" xs], of set_mset] by simp
  then show ?thesis by (simp add: applySessionAffinity_def split: prod.split option.split)
qed

lemma base_set:
  "set (snd (applySessionAffinity now key aff (rankAttemptsByScore env t s attempts)))
     \<subseteq> set attempts \<union> normalize s ` set attempts"
proof -
  have "set (rankAttemptsLocked env s attempts senv) = normalize s ` set attempts" for senv
    using arg_cong [OF rankAttemptsLocked_mset [of env s attempts senv], of set_mset] by simp
  then show ?thesis by (simp add: applySessionAffinity_set rankAttemptsByScore_def)
qed

text \<open>Ranking never adds attempts, and every attempt of the chain has a representable estimate.\<close>

definition group_size :: "quotaGroup list \<Rightarrow> nat" where
  "group_size groups = sum_list (map (\<lambda>g. length (qg_attempts g)) groups)"

lemma group_add_size:
  assumes "distinct (map qg_provider groups)"
  shows "distinct (map qg_provider (group_add order pref a groups))"
    "group_size (group_add order pref a groups) = Suc (group_size groups)"
proof -
  let ?f = "\<lambda>g. if qg_provider g = ma_Provider a then put_attempt pref a g else g"
  have p: "map qg_provider (map ?f groups) = map qg_provider groups" by (auto simp: put_attempt_def)
  have size: "group_size (map ?f groups) = (if ma_Provider a \<in> set (map qg_provider groups) then Suc (group_size groups) else group_size groups)"
    using assms
  proof (induction groups)
    case (Cons g gs)
    then show ?case by (auto simp: group_size_def put_attempt_def)
  qed (simp add: group_size_def)
  show "distinct (map qg_provider (group_add order pref a groups))"
    using assms unfolding group_add_def by (auto simp only: p split: if_splits) (auto simp: put_attempt_def new_group_def)
  show "group_size (group_add order pref a groups) = Suc (group_size groups)"
    using size by (auto simp: group_add_def group_size_def put_attempt_def new_group_def)
qed

lemma group_loop_size:
  assumes "group_loop r key estimate now order pref as s groups = (s', groups')" "distinct (map qg_provider groups)"
  shows "group_size groups' \<le> group_size groups + length as"
  using assms
proof (induction as arbitrary: s groups)
  case (Cons a as)
  let ?a = "a\<lparr>ma_Provider := normalizedProvider s a\<rparr>"
  obtain s1 ok where 1: "quotaCanFit (re_quota r) s ?a (credential_of r s key ?a) estimate now = (s1, ok)" by fastforce
  show ?case
  proof (cases "quotaAttemptAvailable s ?a now \<and> ok")
    case True
    then have "group_loop r key estimate now order pref as s1 (group_add order pref ?a groups) = (s', groups')"
      using Cons.prems(1) 1 by (simp add: Let_def)
    from Cons.IH [OF this] group_add_size [OF Cons.prems(2)] show ?thesis by simp
  next
    case False
    then obtain s2 where "group_loop r key estimate now order pref as s2 groups = (s', groups')"
      using Cons.prems(1) 1 by (cases ok) (auto simp: Let_def split: if_splits)
    from Cons.IH [OF this Cons.prems(2)] show ?thesis by simp
  qed
qed simp

lemma length_interleave: "length (interleave gs) \<le> sum_list (map length gs)"
proof -
  have "length (filter (\<lambda>d. d < k) [0..<n]) \<le> min k n" for k n :: nat by (induction n) auto
  then have one: "length (filter (\<lambda>d. d < k) [0..<n]) \<le> k" for k n :: nat by (meson min.boundedE)
  have "length (concat (map (\<lambda>d. map (\<lambda>g. g ! d) (filter (\<lambda>g. d < length g) gs)) ds)) =
      sum_list (map (\<lambda>g. length (filter (\<lambda>d. d < length g) ds)) gs)" for ds
  proof (induction ds)
    case (Cons d ds)
    have "length (filter (\<lambda>g. d < length g) gs) + sum_list (map (\<lambda>g. length (filter (\<lambda>d. d < length g) ds)) gs) =
        sum_list (map (\<lambda>g. length (filter (\<lambda>d. d < length g) (d # ds))) gs)"
      by (induction gs) auto
    with Cons show ?case by simp
  qed (induction gs; simp)
  then show ?thesis unfolding interleave_def using one by (simp add: sum_list_mono)
qed

lemma reserve_primary_typed:
  "reserve_primary r key e now as s = (s', ranked) \<Longrightarrow> est_ok e \<Longrightarrow> \<forall>a\<in>set as. est_ok (ma_QuotaEstimate a) \<Longrightarrow>
   (\<forall>b\<in>set ranked. est_ok (ma_QuotaEstimate b)) \<and> length ranked \<le> length as"
  by (induction as arbitrary: s) (fastforce simp: Let_def est_ok_provider split: prod.splits if_splits)+


lemma reserve_primary_models:
  "reserve_primary r key e now as s = (s', ranked) \<Longrightarrow> ma_Model ` set ranked \<subseteq> ma_Model ` set as"
proof (induction as arbitrary: s)
  case (Cons a as)
  then have "(\<exists>b. ranked = b # as \<and> ma_Model b = ma_Model a) \<or> (\<exists>s. reserve_primary r key e now as s = (s', ranked))"
    by (auto simp: Let_def split: prod.splits if_splits)
  with Cons.IH show ?case by auto
qed simp

text \<open>What ranking hands to the reservation of the primary: offered attempts, no more than were asked for.\<close>

lemma rank_split:
  assumes run: "quotaRankAndReserve r c key e attempts aff s = (aff', s', ranked)"
  obtains il s2 where "reserve_primary r key e (rk_now c) il s2 = (s', ranked)" "looks s s2"
    "set il \<subseteq> offers s (rk_now c) attempts" "length il \<le> length attempts"
proof (cases "attempts = []")
  case True
  then show ?thesis using run that [of "[]" s] by (simp add: quotaRankAndReserve_def looks_refl)
next
  case False
  let ?base = "snd (applySessionAffinity (rk_affinity c) (re_affinityKey r) aff
    (rankAttemptsByScore (qv_env (re_quota r)) (rk_score c) s attempts))"
  obtain pref s1 gs s2 gs' where
    1: "group_loop r key e (rk_now c) (provider_order s attempts) pref ?base s [] = (s1, gs)" and
    2: "measure_loop r key e c gs s1 = (s2, gs')" and
    3: "reserve_primary r key e (rk_now c)
          (interleave (map qg_attempts (slice_stable (quota_less (qv_env (re_quota r))) gs'))) s2 = (s', ranked)"
    using run False by (auto simp: quotaRankAndReserve_def Let_def split: prod.splits)
  let ?as = "map qg_attempts (slice_stable (quota_less (qv_env (re_quota r))) gs')"
  have m: "looks s1 s2" "map qg_attempts gs' = map qg_attempts gs" using measure_loop_facts [OF 2] by simp_all
  have g: "looks s s1" "grouped (offers s (rk_now c) attempts) gs"
    using group_loop_facts [OF 1 _ offers_base [OF base_set]] by (simp_all add: grouped_def)
  have "length (snd (applySessionAffinity now k a xs)) = length xs" for now k a xs
    using mset_eq_length [OF promote_mset [of _ "[]" xs, simplified]]
    by (auto simp: applySessionAffinity_def split: prod.split option.split)
  moreover have "length (rankAttemptsByScore env t s attempts) = length attempts" for env t
    using mset_eq_length [OF rankAttemptsLocked_mset [of env s attempts]] by (simp add: rankAttemptsByScore_def)
  moreover have "sum_list (map length ?as) = group_size gs"
  proof -
    have "mset (map length ?as) = mset (map length (map qg_attempts gs'))" by (simp add: multiset.map_comp)
    then have "sum_list (map length ?as) = sum_list (map length (map qg_attempts gs'))" by (metis sum_mset_sum_list)
    then show ?thesis by (simp add: m(2) group_size_def comp_def)
  qed
  ultimately have "length (interleave ?as) \<le> length attempts"
    using group_loop_size [OF 1] length_interleave [of ?as] by (simp add: group_size_def)
  moreover have "(\<Union>g\<in>set gs'. set (qg_attempts g)) = (\<Union>g\<in>set gs. set (qg_attempts g))"
    using arg_cong [OF m(2), of "\<lambda>xs. \<Union>x\<in>set xs. set x"] by simp
  then have "set (interleave ?as) \<subseteq> offers s (rk_now c) attempts"
    using g(2) set_interleave [of ?as] by (simp add: grouped_def)
  ultimately show ?thesis using that [OF 3 looks_trans [OF g(1) m(1)]] by blast
qed

lemma rank_facts:
  assumes run: "quotaRankAndReserve r c key e attempts aff s = (aff', s', ranked)" and e: "est_ok e"
    and room: "ledger_room (rs_quota s)"
  shows "ledger_inv (rs_quota s')" "s' = s\<lparr>rs_quota := rs_quota s'\<rparr>" "holds_primary s s' ranked"
    "b \<in> set ranked \<Longrightarrow> \<exists>a\<in>offers s (rk_now c) attempts. same_route a b"
proof -
  obtain il s2 where rp: "reserve_primary r key e (rk_now c) il s2 = (s', ranked)" and lk: "looks s s2"
    and il: "set il \<subseteq> offers s (rk_now c) attempts" by (rule rank_split [OF run])
  note i = looks_inv [OF lk room]
  note p = reserve_primary_facts [OF rp e conjunct1 [OF i]] reserve_primary_routes [OF rp e conjunct1 [OF i], of b]
  have "holds_primary s s' ranked = holds_primary s2 s' ranked"
    using i by (cases ranked) (simp_all add: holds_primary_def)
  with p il looks_upd [OF lk, of "rs_quota s'"] show "ledger_inv (rs_quota s')" "s' = s\<lparr>rs_quota := rs_quota s'\<rparr>"
    "holds_primary s s' ranked" "b \<in> set ranked \<Longrightarrow> \<exists>a\<in>offers s (rk_now c) attempts. same_route a b" by auto
qed

lemma rank_typed:
  assumes run: "quotaRankAndReserve r c key e attempts aff s = (aff', s', ranked)" and e: "est_ok e"
    and typed: "\<forall>a\<in>set attempts. est_ok (ma_QuotaEstimate a)"
  shows "(\<forall>b\<in>set ranked. est_ok (ma_QuotaEstimate b)) \<and> length ranked \<le> length attempts"
proof -
  obtain il s2 where rp: "reserve_primary r key e (rk_now c) il s2 = (s', ranked)"
    and il: "set il \<subseteq> offers s (rk_now c) attempts" "length il \<le> length attempts" by (rule rank_split [OF run])
  have "\<forall>a\<in>set il. est_ok (ma_QuotaEstimate a)"
    using typed il(1) by (fastforce simp: offers_def normalize_def)
  with reserve_primary_typed [OF rp e] il(2) show ?thesis by auto
qed

lemma rank_models:
  assumes run: "quotaRankAndReserve r c key e attempts aff s = (aff', s', ranked)"
  shows "ma_Model ` set ranked \<subseteq> ma_Model ` set attempts"
proof -
  obtain il s2 where rp: "reserve_primary r key e (rk_now c) il s2 = (s', ranked)"
    and il: "set il \<subseteq> offers s (rk_now c) attempts" by (rule rank_split [OF run])
  have "ma_Model ` offers s (rk_now c) attempts \<subseteq> ma_Model ` set attempts"
    by (force simp: offers_def normalize_def)
  with reserve_primary_models [OF rp] il show ?thesis by blast
qed

lemma reserve_primary_self:
  "reserve_primary r key e now as s = (s', ranked) \<Longrightarrow> ql_self (rs_quota s') = ql_self (rs_quota s)"
proof (induction as arbitrary: s)
  case (Cons a as)
  obtain s1 rs where 1: "quotaReservations (re_quota r) s a (credential_of r s key a) e now = (s1, rs)" by fastforce
  obtain l t ok where 2: "ReserveAll (rs_quota s1) rs now = (l, t, ok)" by (metis prod_cases3)
  have "ql_self l = ql_self (rs_quota s)"
    using ReserveAll_self [of "rs_quota s1" rs now] 2 reservations_facts(1) [OF 1] by (simp add: quiet_def)
  with Cons 1 2 show ?case by (cases ok) (auto simp: Let_def)
qed simp

lemma rank_self:
  assumes "quotaRankAndReserve r c key e attempts aff s = (aff', s', ranked)"
  shows "ql_self (rs_quota s') = ql_self (rs_quota s)"
proof -
  obtain il s2 where "reserve_primary r key e (rk_now c) il s2 = (s', ranked)" "looks s s2" by (rule rank_split [OF assms])
  with reserve_primary_self show ?thesis by (simp add: looks_def quiet_def)
qed

lemma looks_retry_after: "looks s (fst (quotaRetryAfterForAttempts r key e now attempts s))"
proof -
  have "looks s (fst (retry_after_loop r key e now attempts soonest s))" for soonest
  proof (induction attempts arbitrary: soonest s)
    case (Cons a as)
    obtain s1 rs where 1: "quotaReservations (re_quota r) s a (credential_of r s key a) e now = (s1, rs)" by fastforce
    obtain l d where 2: "ready_loop now rs (quotaCooldownRemaining s a now) (rs_quota s1) = (l, d)" by fastforce
    have "looks s (s1\<lparr>rs_quota := l\<rparr>)"
      using looks_set [OF looks_reservations [OF 1]] quiet_ready_loop [of "rs_quota s1" now rs "quotaCooldownRemaining s a now"] 2
      by simp
    from looks_trans [OF this Cons.IH] show ?case using 1 2 by (simp add: Let_def)
  qed simp
  then show ?thesis by (simp add: quotaRetryAfterForAttempts_def)
qed

section \<open>Settling\<close>

lemma Reconcile_tickets:
  "ql_self (fst (Reconcile l ticket ss now)) = ql_self l \<and>
   live_tickets (fst (Reconcile l ticket ss now)) \<subseteq> live_tickets l"
  by (auto simp: Reconcile_def Let_def live_tickets_iff purgeExpiredLocked_def split: option.split if_splits)

lemma observe_fact_keeps:
  assumes "observe_fact q c now obs (l, facts) = (l', facts')"
    "\<And>key fct. ledgerFact obs = Some (key, fct) \<Longrightarrow> qo_Limit fct \<le> max_int64"
    "\<And>k f. m_get facts k = Some f \<Longrightarrow> qo_Limit f \<le> max_int64"
  shows "quiet l l' \<and> (\<forall>k f. m_get facts' k = Some f \<longrightarrow> qo_Limit f \<le> max_int64)"
  using assms by (auto simp: observe_fact_def Let_def split: option.splits prod.splits if_splits intro: quiet_Observe)

lemma ledgerFact_limit: "ledgerFact obs = Some (key, fct) \<Longrightarrow>
  qo_Limit fct = po_Limit obs \<and> po_Classification obs = ''known'' \<and> po_HasLimit obs \<and> po_HasRemaining obs"
  by (auto simp: ledgerFact_def split: if_splits)

lemma observe_facts_keep:
  assumes "\<And>ob. ob \<in> set obs \<Longrightarrow> \<forall>key fct. ledgerFact ob = Some (key, fct) \<longrightarrow> qo_Limit fct \<le> max_int64"
    "\<And>k f. m_get facts k = Some f \<Longrightarrow> qo_Limit f \<le> max_int64"
    "fold (observe_fact q c now) obs (l, facts) = (l', facts')"
  shows "quiet l l' \<and> (\<forall>k f. m_get facts' k = Some f \<longrightarrow> qo_Limit f \<le> max_int64)"
  using assms
proof (induction obs arbitrary: l facts)
  case (Cons o1 obs)
  obtain l1 facts1 where 1: "observe_fact q c now o1 (l, facts) = (l1, facts1)" by fastforce
  have k: "quiet l l1 \<and> (\<forall>k f. m_get facts1 k = Some f \<longrightarrow> qo_Limit f \<le> max_int64)"
    by (rule observe_fact_keeps [OF 1]) (use Cons.prems(1) [of o1] Cons.prems(2) in auto)
  then show ?case using Cons.IH [of facts1 l1] Cons.prems 1 by (auto intro: quiet_trans)
qed simp

lemma settle_keeps:
  assumes run: "observeAndSettleQuota p q clock ticket a cred status headers body actual now s = (s', obs)"
    and inv: "ledger_inv (rs_quota s)"
  shows "ledger_inv (rs_quota s')" "ql_self (rs_quota s') = ql_self (rs_quota s)"
    "live_tickets (rs_quota s') \<subseteq> live_tickets (rs_quota s)"
    "obs = observeProviderQuota p clock (ma_Provider a) (ma_Model a) status headers body now"
proof -
  obtain l facts where 1: "fold (observe_fact q cred now)
      (observeProviderQuota p clock (ma_Provider a) (ma_Model a) status headers body now) (rs_quota s, []) = (l, facts)"
    by fastforce
  have lim: "\<forall>key fct. ledgerFact ob = Some (key, fct) \<longrightarrow> qo_Limit fct \<le> max_int64"
    if "ob \<in> set (observeProviderQuota p clock (ma_Provider a) (ma_Model a) status headers body now)" for ob
    using observations_sound [OF that] ledgerFact_limit by metis
  from observe_facts_keep [OF lim _ 1] have k: "quiet (rs_quota s) l" "\<forall>k f. m_get facts k = Some f \<longrightarrow> qo_Limit f \<le> max_int64"
    by auto
  let ?st = "map (settlement_for facts (ma_QuotaEstimate a) actual) (Reservations l ticket)"
  have typed: "list_all settlement_typed ?st"
    using k(2) by (simp add: list_all_iff settlement_for_def settlement_typed_def split: option.split)
  have q: "ledger_inv l" "ql_self l = ql_self (rs_quota s)" "live_tickets l = live_tickets (rs_quota s)"
    using k(1) inv quiet_live [OF k(1)] by (simp_all add: quiet_def)
  note eq = run [unfolded observeAndSettleQuota_def Let_def 1 prod.case]
  have rs: "rs_quota s' = (if Valid ticket then fst (Reconcile l ticket ?st now) else l)"
    using eq by (cases "Valid ticket"; cases "facts = []") (auto simp: markScoresDirty_def)
  show "obs = observeProviderQuota p clock (ma_Provider a) (ma_Model a) status headers body now"
    using eq by (cases "Valid ticket") simp_all
  have r: "ledger_inv (fst (Reconcile l ticket ?st now))" by (rule inv_Reconcile [OF q(1) typed])
  have t: "ql_self (fst (Reconcile l ticket ss now)) = ql_self l \<and>
      live_tickets (fst (Reconcile l ticket ss now)) \<subseteq> live_tickets l" for ss by (rule Reconcile_tickets)
  show "ledger_inv (rs_quota s')" using r q rs by simp
  show "ql_self (rs_quota s') = ql_self (rs_quota s)" using t q rs by simp
  show "live_tickets (rs_quota s') \<subseteq> live_tickets (rs_quota s)" using t [of ?st] q rs by simp
qed

section \<open>Limits of the estimates and of the comparator\<close>

text \<open>A requested completion near the largest integer wraps the token estimate to a negative cost, and
  then no token bucket is charged.\<close>

lemma estimate_overflow:
  assumes "m_get body ''max_completion_tokens'' = Some (JInt max_int64)"
    "ceil_tokens (length (marshal body)) 4 \<le> max_int64"
  shows "qe_Tokens (estimateRequestQuota env marshal body) < 0"
proof -
  let ?i = "ceil_tokens (length (marshal body)) 4"
  have e: "qe_Tokens (estimateRequestQuota env marshal body) = wrap64 (?i + max_int64)"
    using assms(1) by (simp add: estimateRequestQuota_def Let_def numericInt64_def max_int64_def)
  have "0 \<le> ?i" "1 \<le> ?i" "0 \<le> max_int64" by (simp_all add: ceil_tokens_def max_int64_def)
  with wrap64_add_neg_iff [of ?i max_int64] assms(2) show ?thesis unfolding e by auto
qed

lemma no_token_charge:
  assumes "qe_Tokens e < 0" "qe_OutputExplicit e" "quotaReservations q s a c e now = (s', rs)" "rv \<in> set rs"
  shows "qk_Dimension (qr_Key rv) \<noteq> QuotaDimensionTokens"
  using assms
  by (auto simp: quotaReservations_def Let_def providerQuotaEstimate_def key_cost_def split: prod.splits if_splits)

text \<open>The band of five points makes the order of three groups a cycle: \<open>g\<close> before \<open>h\<close> and \<open>h\<close> before
  \<open>k\<close> by reliability, \<open>k\<close> before \<open>g\<close> by pressure.\<close>

definition ex_group :: "nat \<Rightarrow> real \<Rightarrow> real \<Rightarrow> quotaGroup" where
  "ex_group n pressure reliability =
     (new_group [] n)\<lparr>qg_known := True, qg_pressure := pressure, qg_reliability := reliability\<rparr>"

lemma quota_less_cycle:
  "quota_less [] (ex_group 0 (8/100) 3) (ex_group 1 (4/100) 2) \<and>
   quota_less [] (ex_group 1 (4/100) 2) (ex_group 2 0 1) \<and>
   quota_less [] (ex_group 2 0 1) (ex_group 0 (8/100) 3)"
  by (simp add: quota_less_def ex_group_def new_group_def envInt_def envValue_def m_get_or_def trim_space_def Let_def)

section \<open>Ranking and settling, as the chain relies on them\<close>

text \<open>C20. Ranking by quota returns a chain whose first attempt holds a claim of this ledger that was
  not live before, and no other claim is made; when nothing can be reserved the chain is empty and the
  claims are as they were. Every attempt of the chain is a requested one with its provider filled in,
  up to ticket and estimate, and none is cooling down. Only the ledger of the service changes, and its
  invariant holds.\<close>

theorem quota_primary_reserved:
  assumes "ledger_room (rs_quota s)"
  shows "case quotaRankAndReserve r c key (estimateRequestQuota env marshal body) attempts aff s of (aff', s', ranked) \<Rightarrow>
    ledger_inv (rs_quota s') \<and> s' = s\<lparr>rs_quota := rs_quota s'\<rparr> \<and>
    (ranked = [] \<longrightarrow> live_tickets (rs_quota s') = live_tickets (rs_quota s)) \<and>
    (ranked \<noteq> [] \<longrightarrow> (let t = ma_QuotaTicket (hd ranked) in
       Valid t \<and> qt_ledger t = Some (ql_self (rs_quota s)) \<and> qt_id t \<notin> live_tickets (rs_quota s) \<and>
       live_tickets (rs_quota s') = insert (qt_id t) (live_tickets (rs_quota s)))) \<and>
    (\<forall>b\<in>set ranked. \<exists>a\<in>set attempts. ma_Model b = ma_Model a \<and> ma_Provider b = normalizedProvider s a \<and>
       quotaAttemptAvailable s b (rk_now c))"
proof -
  obtain aff' s' ranked where
    run: "quotaRankAndReserve r c key (estimateRequestQuota env marshal body) attempts aff s = (aff', s', ranked)"
    by (metis prod_cases3)
  note f = rank_facts [OF run est_ok_request assms]
  have "\<exists>a\<in>set attempts. ma_Model b = ma_Model a \<and> ma_Provider b = normalizedProvider s a \<and>
      quotaAttemptAvailable s b (rk_now c)" if b: "b \<in> set ranked" for b
  proof -
    obtain a where a: "a \<in> set attempts" "quotaAttemptAvailable s (normalize s a) (rk_now c)" "same_route (normalize s a) b"
      using f(4) [OF b] by (auto simp: offers_def)
    then have "ma_Model b = ma_Model a" "ma_Provider b = normalizedProvider s a"
      unfolding same_route_def normalize_def
      by (metis modelAttempt.select_convs modelAttempt.surjective modelAttempt.update_convs)+
    with a show ?thesis
      by (auto simp: quotaAttemptAvailable_def quotaCooldownKey_def normalizedProvider_def normalize_def intro!: bexI [of _ a])
  qed
  with f(1-3) show ?thesis
    unfolding run prod.case holds_primary_def by (cases ranked) simp_all
qed

definition ex_rank_env :: rank_env where
  "ex_rank_env = \<lparr>re_quota = \<lparr>qv_env = [], qv_fingerprint = (\<lambda>_. ''f'')\<rparr>,
     re_credentials = \<lparr>ce_env = [], ce_ambientAllowed = False, ce_AmbientProviderCredential = None\<rparr>,
     re_affinityKey = [], re_latency = (\<lambda>_. None)\<rparr>"

definition ex_rank :: "affinityStore \<times> RouterService \<times> modelAttempt list" where
  "ex_rank = quotaRankAndReserve ex_rank_env \<lparr>rk_now = 5, rk_affinity = 5, rk_preferred = 5, rk_score = 5\<rparr> ''key''
     (estimateRequestQuota [] (\<lambda>_. ''abcd'') []) [ex_attempt] (newAffinityStore [] 0 2) ex_service"

lemma ex_rank_eval: "map ma_Model (snd (snd ex_rank)) = [''m''] \<and> live_tickets (rs_quota (fst (snd ex_rank))) = {1}"
  by code_simp

theorem quota_primary_reserved_witness:
  "ledger_inv (rs_quota (fst (snd ex_rank))) \<and> Valid (ma_QuotaTicket (hd (snd (snd ex_rank)))) \<and>
   qt_id (ma_QuotaTicket (hd (snd (snd ex_rank)))) = 1"
proof -
  have room: "ledger_room (rs_quota ex_service)"
    using empty_ledger_inv by (simp add: ledger_room_def ex_service_def NewQuotaLedger_def)
  have empty: "live_tickets (rs_quota ex_service) = {}" by (simp add: ex_service_def NewQuotaLedger_def live_tickets_def)
  obtain aff' s' ranked where eq: "ex_rank = (aff', s', ranked)" by (metis prod_cases3)
  note prim = quota_primary_reserved [OF room, where r = ex_rank_env
      and c = "\<lparr>rk_now = 5, rk_affinity = 5, rk_preferred = 5, rk_score = 5\<rparr>" and key = "''key''"
      and env = "[]" and marshal = "\<lambda>_. ''abcd''" and body = "[]" and attempts = "[ex_attempt]"
      and aff = "newAffinityStore [] 0 2", folded ex_rank_def, unfolded eq prod.case empty]
  from ex_rank_eval have "ranked \<noteq> []" "live_tickets (rs_quota s') = {1}" by (auto simp: eq)
  with prim show ?thesis by (simp add: eq Let_def)
qed

end
