(* ===== verification/Trace.thy ===== *)
theory Trace
  imports Request_Body Breaker "HOL-Library.Sublist"
begin

text \<open>
  The decision trace of a request: \<open>src/internal/router/router_trace.go\<close> (the record, the annotations
  and the short header) and \<open>router_trace_ring.go\<close> (the ring of recent traces and the two JSON views).

  A trace is a value; \<open>None\<close> stands for the nil trace of a request with tracing off. Its id, sixteen
  random hexadecimal digits, is an argument of \<open>newRouteTrace\<close>. Decimal printing of integers is
  \<open>itoa\<close>; printing of scores with a fixed number of decimals is \<open>format_fixed\<close>, which rounds the exact
  value to the nearest, ties to even.
\<close>

section \<open>The trace and its annotations\<close>

record policyTraceStep =
  ps_Name :: string
  ps_Matched :: bool
  ps_Detail :: string

record traceAttempt =
  ta_Model :: string
  ta_Index :: int
  ta_Score :: real
  ta_Status :: int
  ta_Kind :: string
  ta_Reason :: string

record routeTrace =
  rt_ID :: string
  rt_Profile :: string
  rt_RequestedModel :: string
  rt_RuleID :: string
  rt_PolicyReason :: string
  rt_PolicySteps :: "policyTraceStep list"
  rt_Outcome :: string
  rt_CapsRequired :: "string list"
  rt_Planned :: int
  rt_AfterCaps :: int
  rt_Eligible :: int
  rt_ExcludedByBreaker :: int
  rt_ExcludedByQuota :: int
  rt_Attempts :: "traceAttempt list"
  rt_Served :: "traceAttempt option"
  rt_compression :: compressionStat
  rt_scores :: "(string, real) gomap"

definition outcomeServed :: string where "outcomeServed = ''served''"
definition outcomeCapsPinned :: string where "outcomeCapsPinned = ''caps_pinned''"
definition outcomeCapsNone :: string where "outcomeCapsNone = ''caps_none''"
definition outcomeAllCooling :: string where "outcomeAllCooling = ''all_cooling''"
definition outcomeChainFailed :: string where "outcomeChainFailed = ''chain_failed''"
definition outcomeAdmissionAfterHold :: string where "outcomeAdmissionAfterHold = ''admission_after_hold''"

definition traceEnabled :: "process_env \<Rightarrow> bool" where
  "traceEnabled env = envBool env ''PROXY_ROUTE_TRACE'' True"

definition newRouteTrace :: "process_env \<Rightarrow> string \<Rightarrow> string \<Rightarrow> routeTrace option" where
  "newRouteTrace env traceID profile =
     (if \<not> traceEnabled env then None
      else Some \<lparr>rt_ID = traceID, rt_Profile = profile, rt_RequestedModel = [], rt_RuleID = [], rt_PolicyReason = [],
        rt_PolicySteps = [], rt_Outcome = [], rt_CapsRequired = [], rt_Planned = 0, rt_AfterCaps = 0, rt_Eligible = 0,
        rt_ExcludedByBreaker = 0, rt_ExcludedByQuota = 0, rt_Attempts = [], rt_Served = None,
        rt_compression = noCompression, rt_scores = []\<rparr>)"

definition recordPolicy :: "string \<Rightarrow> string \<Rightarrow> string \<Rightarrow> policyTraceStep list \<Rightarrow> routeTrace \<Rightarrow> routeTrace" where
  "recordPolicy ruleID reason requestedModel steps t =
     t\<lparr>rt_RuleID := ruleID, rt_PolicyReason := reason, rt_RequestedModel := requestedModel, rt_PolicySteps := steps\<rparr>"

definition recordChain :: "int \<Rightarrow> int \<Rightarrow> int \<Rightarrow> string list \<Rightarrow> routeTrace \<Rightarrow> routeTrace" where
  "recordChain planned afterCaps eligible required t =
     t\<lparr>rt_Planned := planned, rt_AfterCaps := afterCaps, rt_Eligible := eligible, rt_CapsRequired := required,
       rt_ExcludedByBreaker := max 0 (afterCaps - eligible - rt_ExcludedByQuota t)\<rparr>"

definition recordQuotaExclusions :: "int \<Rightarrow> routeTrace \<Rightarrow> routeTrace" where
  "recordQuotaExclusions n t = (if n \<le> 0 then t else t\<lparr>rt_ExcludedByQuota := n\<rparr>)"

definition recordCompression :: "compressionStat \<Rightarrow> routeTrace \<Rightarrow> routeTrace" where
  "recordCompression stat t = t\<lparr>rt_compression := stat\<rparr>"

definition recordScores :: "string list \<Rightarrow> real list \<Rightarrow> routeTrace \<Rightarrow> routeTrace" where
  "recordScores models scores t =
     (if length models \<noteq> length scores then t
      else t\<lparr>rt_scores := fold (\<lambda>(m, x). m_set m x) (zip models scores) []\<rparr>)"

definition recordAttemptFailure :: "string \<Rightarrow> int \<Rightarrow> int \<Rightarrow> string \<Rightarrow> string \<Rightarrow> routeTrace \<Rightarrow> routeTrace" where
  "recordAttemptFailure model index status kind reason t =
     t\<lparr>rt_Attempts := rt_Attempts t @ [\<lparr>ta_Model = model, ta_Index = index,
         ta_Score = m_get_or 0 (rt_scores t) model, ta_Status = status, ta_Kind = kind,
         ta_Reason = truncateReason reason\<rparr>]\<rparr>"

definition recordServed :: "string \<Rightarrow> int \<Rightarrow> routeTrace \<Rightarrow> routeTrace" where
  "recordServed model index t =
     t\<lparr>rt_Outcome := outcomeServed,
       rt_Served := Some \<lparr>ta_Model = model, ta_Index = index, ta_Score = m_get_or 0 (rt_scores t) model,
         ta_Status = 200, ta_Kind = ''ok'', ta_Reason = []\<rparr>\<rparr>"

definition traceKindFor :: "attemptError \<Rightarrow> string" where
  "traceKindFor attErr =
     (if ae_SkipModel attErr then ''skip'' else if ae_Timeout attErr then ''timeout'' else ''http'')"

section \<open>Printing\<close>

definition round_even :: "real \<Rightarrow> int" where
  "round_even x =
     (let f = \<lfloor>x\<rfloor>; d = x - of_int f
      in if d < 1 / 2 then f else if d > 1 / 2 then f + 1 else if even f then f else f + 1)"

text \<open>A number padded with zeros to a width, and a real with a fixed number of decimals.\<close>

definition pad_zeros :: "nat \<Rightarrow> string \<Rightarrow> string" where
  "pad_zeros w s = replicate (w - length s) CHR ''0'' @ s"

definition format_fixed :: "nat \<Rightarrow> real \<Rightarrow> string" where
  "format_fixed prec x =
     (let r = round_even (\<bar>x\<bar> * 10 ^ prec)
      in (if x < 0 then ''-'' else []) @ itoa (r div 10 ^ prec) @ ''.'' @ pad_zeros prec (itoa (r mod 10 ^ prec)))"

definition humanBytes :: "nat \<Rightarrow> string" where
  "humanBytes n = (if n \<ge> 1024 then format_fixed 1 (real n / 1024) @ ''k'' else itoa (int n))"

definition traceNoCompress :: string where "traceNoCompress = ''off''"

definition compression_header :: "compressionStat \<Rightarrow> string" where
  "compression_header c = (if cs_SavedBytes c = 0 then traceNoCompress else ''-'' @ humanBytes (cs_SavedBytes c))"

definition safe_char :: "char \<Rightarrow> bool" where
  "safe_char c \<longleftrightarrow>
     (let n = (of_char c :: nat) in 97 \<le> n \<and> n \<le> 122 \<or> 65 \<le> n \<and> n \<le> 90 \<or> 48 \<le> n \<and> n \<le> 57) \<or>
     c \<in> set ''._/+-''"

definition traceSanitize :: "string \<Rightarrow> string" where
  "traceSanitize value = map (\<lambda>c. if safe_char c then c else CHR ''_'') value"

definition traceMaxHeader :: nat where "traceMaxHeader = 512"
definition traceMaxRuleID :: nat where "traceMaxRuleID = 64"

definition traceRuleID :: "string \<Rightarrow> string" where
  "traceRuleID ruleID =
     (if ruleID = [] then []
      else let sanitized = traceSanitize ruleID in if length sanitized > traceMaxRuleID then [] else sanitized)"

text \<open>The part after the last slash, when there is one and it is not empty, without the suffix \<open>:free\<close>.\<close>

definition after_last_slash :: "string \<Rightarrow> string" where
  "after_last_slash model =
     (let tail = rev (takeWhile (\<lambda>c. c \<noteq> CHR ''/'') (rev model))
      in if CHR ''/'' \<in> set model \<and> tail \<noteq> [] then tail else model)"

definition trim_suffix :: "string \<Rightarrow> string \<Rightarrow> string" where
  "trim_suffix s suf = (if has_suffix s suf then take (length s - length suf) s else s)"

definition traceShortModel :: "string \<Rightarrow> string" where
  "traceShortModel model = traceSanitize (trim_suffix (after_last_slash model) '':free'')"

definition attemptCode :: "traceAttempt \<Rightarrow> string" where
  "attemptCode a =
     (if ta_Status a > 0 then itoa (ta_Status a)
      else if ta_Kind a \<noteq> [] then traceSanitize (ta_Kind a) else ''err'')"

section \<open>The short header\<close>

definition build_header :: "string list \<Rightarrow> string \<Rightarrow> string \<Rightarrow> string list \<Rightarrow> bool \<Rightarrow> string" where
  "build_header protected shape brk prev withShape =
     join '';''
       (protected @
        (if withShape then (if shape \<noteq> [] then [shape] else []) @ (if brk \<noteq> [] then [brk] else []) else []) @
        (if prev \<noteq> [] then [''prev='' @ join '','' prev] else []))"

definition truncated_mark :: string where "truncated_mark = '';trunc=1''"

text \<open>The loop that drops \<open>prev\<close> entries from the end: the longest prefix of fewer than \<open>n\<close> that fits.\<close>

fun trim_prev :: "string list \<Rightarrow> string \<Rightarrow> string \<Rightarrow> string list \<Rightarrow> nat \<Rightarrow> string option" where
  "trim_prev protected shape brk prev 0 = None"
| "trim_prev protected shape brk prev (Suc n) =
     (let out = build_header protected shape brk (take n prev) True
      in if length out + length truncated_mark \<le> traceMaxHeader then Some (out @ truncated_mark)
         else trim_prev protected shape brk prev n)"

definition renderTraceHeader :: "string list \<Rightarrow> string \<Rightarrow> string \<Rightarrow> string list \<Rightarrow> string" where
  "renderTraceHeader protected shape brk prev =
     (let out = build_header protected shape brk prev True
      in if length out \<le> traceMaxHeader then out
         else case trim_prev protected shape brk prev (length prev) of
                Some out \<Rightarrow> out
              | None \<Rightarrow> build_header protected shape brk [] False @ truncated_mark)"

definition protected_fields :: "routeTrace \<Rightarrow> string list" where
  "protected_fields t =
     [''v1'', ''p='' @ traceSanitize (rt_Profile t), ''cmp='' @ compression_header (rt_compression t)] @
     (if rt_Outcome t \<noteq> [] \<and> rt_Outcome t \<noteq> outcomeServed then [''o='' @ traceSanitize (rt_Outcome t)] else []) @
     (case rt_Served t of None \<Rightarrow> []
      | Some a \<Rightarrow> (''s='' @ format_fixed 2 (ta_Score a)) # (if ta_Index a > 1 then [''a='' @ itoa (ta_Index a)] else [])) @
     (if rt_CapsRequired t \<noteq> [] then [''caps='' @ traceSanitize (join ''+'' (rt_CapsRequired t))] else []) @
     (if traceRuleID (rt_RuleID t) \<noteq> [] then [''rid='' @ traceRuleID (rt_RuleID t)] else [])"

definition shape_field :: "routeTrace \<Rightarrow> string" where
  "shape_field t = ''n='' @ itoa (rt_Planned t) @ ''/'' @ itoa (rt_AfterCaps t) @ ''/'' @ itoa (rt_Eligible t)"

definition brk_field :: "routeTrace \<Rightarrow> string" where
  "brk_field t =
     (let brk = (if rt_ExcludedByBreaker t > 0 then ''brk='' @ itoa (rt_ExcludedByBreaker t) else [])
      in if rt_ExcludedByQuota t > 0
         then (if brk \<noteq> [] then brk @ '';'' else brk) @ ''q='' @ itoa (rt_ExcludedByQuota t) else brk)"

definition trace_header_text :: "routeTrace \<Rightarrow> string" where
  "trace_header_text t =
     renderTraceHeader (protected_fields t) (shape_field t) (brk_field t)
       (map (\<lambda>a. traceShortModel (ta_Model a) @ '':'' @ attemptCode a) (rt_Attempts t))"

section \<open>The two JSON views\<close>

record traceStepView =
  sv_Name :: string
  sv_Matched :: bool
  sv_Detail :: string

record traceAttemptView =
  av_Model :: string
  av_Index :: int
  av_Score :: real
  av_Status :: int
  av_Kind :: string
  av_Reason :: string

record traceView =
  tv_ID :: string
  tv_RuleID :: string
  tv_RequestedModel :: string
  tv_PolicyReason :: string
  tv_PolicySteps :: "traceStepView list"
  tv_Profile :: string
  tv_Outcome :: string
  tv_Caps :: "string list"
  tv_Planned :: int
  tv_Eligible :: int
  tv_Excluded :: int
  tv_Attempts :: "traceAttemptView list"
  tv_Served :: "traceAttemptView option"

definition attempt_view :: "bool \<Rightarrow> traceAttempt \<Rightarrow> traceAttemptView" where
  "attempt_view adminChannel a =
     \<lparr>av_Model = ta_Model a, av_Index = ta_Index a, av_Score = ta_Score a, av_Status = ta_Status a,
      av_Kind = ta_Kind a, av_Reason = (if adminChannel then ta_Reason a else [])\<rparr>"

definition step_view :: "bool \<Rightarrow> policyTraceStep \<Rightarrow> traceStepView" where
  "step_view adminChannel step =
     \<lparr>sv_Name = ps_Name step, sv_Matched = ps_Matched step, sv_Detail = (if adminChannel then ps_Detail step else [])\<rparr>"

definition view :: "bool \<Rightarrow> routeTrace \<Rightarrow> traceView" where
  "view adminChannel t =
     \<lparr>tv_ID = rt_ID t, tv_RuleID = rt_RuleID t, tv_RequestedModel = rt_RequestedModel t,
      tv_PolicyReason = (if adminChannel then rt_PolicyReason t else []),
      tv_PolicySteps = map (step_view adminChannel) (rt_PolicySteps t), tv_Profile = rt_Profile t,
      tv_Outcome = rt_Outcome t, tv_Caps = rt_CapsRequired t, tv_Planned = rt_Planned t, tv_Eligible = rt_Eligible t,
      tv_Excluded = rt_ExcludedByBreaker t, tv_Attempts = map (attempt_view adminChannel) (rt_Attempts t),
      tv_Served = map_option (attempt_view adminChannel) (rt_Served t)\<rparr>"

section \<open>The ring of recent traces\<close>

record traceRing =
  tr_entries :: "routeTrace option list"
  tr_byID :: "(string, routeTrace) gomap"
  tr_next :: nat

definition newTraceRing :: "int \<Rightarrow> traceRing" where
  "newTraceRing capacity =
     \<lparr>tr_entries = replicate (nat (if capacity < 1 then 1 else capacity)) None, tr_byID = [], tr_next = 0\<rparr>"

definition ring_add :: "routeTrace \<Rightarrow> traceRing \<Rightarrow> traceRing" where
  "ring_add trace r =
     (if rt_ID trace = [] then r
      else
        let byID = (case tr_entries r ! tr_next r of None \<Rightarrow> tr_byID r | Some evicted \<Rightarrow> m_del (rt_ID evicted) (tr_byID r))
        in \<lparr>tr_entries = (tr_entries r)[tr_next r := Some trace],
            tr_byID = m_set (rt_ID trace) trace byID,
            tr_next = (tr_next r + 1) mod length (tr_entries r)\<rparr>)"

definition ring_get :: "string \<Rightarrow> traceRing \<Rightarrow> routeTrace option" where
  "ring_get traceID r = m_get (tr_byID r) traceID"

text \<open>The loop of \<open>recent\<close>, \<open>i\<close> steps back from the next slot.\<close>

function recent_loop :: "traceRing \<Rightarrow> nat \<Rightarrow> nat \<Rightarrow> routeTrace list \<Rightarrow> routeTrace list" where
  "recent_loop r limit i out =
     (let size = length (tr_entries r)
      in if i \<le> size \<and> length out < limit
         then recent_loop r limit (i + 1)
                (case tr_entries r ! ((tr_next r + size - i) mod size) of None \<Rightarrow> out | Some entry \<Rightarrow> out @ [entry])
         else out)"
  by pat_completeness auto

termination
  by (relation "measure (\<lambda>(r, limit, i, out). length (tr_entries r) + 1 - i)") auto

declare recent_loop.simps [simp del]

definition recent :: "int \<Rightarrow> traceRing \<Rightarrow> routeTrace list" where
  "recent limit r = (if limit < 1 then [] else recent_loop r (nat limit) 1 [])"

definition RecentDecisions :: "int \<Rightarrow> traceRing \<Rightarrow> traceView list" where
  "RecentDecisions limit r = map (view True) (recent limit r)"

definition Decision :: "string \<Rightarrow> traceRing \<Rightarrow> traceView option" where
  "Decision traceID r = map_option (view True) (ring_get traceID r)"

definition finishTrace :: "routeTrace option \<Rightarrow> traceRing \<Rightarrow> traceRing" where
  "finishTrace trace r = (case trace of None \<Rightarrow> r | Some t \<Rightarrow> ring_add t r)"

section \<open>The bytes of the header\<close>

definition header_char :: "char \<Rightarrow> bool" where
  "header_char c \<longleftrightarrow> safe_char c \<or> c \<in> set '';=,:''"

definition clean :: "string \<Rightarrow> bool" where
  "clean s \<longleftrightarrow> list_all header_char s"

lemma clean_append [simp]: "clean (s @ t) \<longleftrightarrow> clean s \<and> clean t"
  by (simp add: clean_def)

lemma clean_Nil [simp]: "clean []"
  by (simp add: clean_def)

lemma clean_Cons [simp]: "clean (c # s) \<longleftrightarrow> header_char c \<and> clean s"
  by (simp add: clean_def)

lemma clean_sanitize [simp]: "clean (traceSanitize s)"
proof -
  have "safe_char CHR ''_''" by (simp add: safe_char_def)
  then have "header_char (if safe_char c then c else CHR ''_'')" for c by (simp add: header_char_def)
  then show ?thesis by (simp add: clean_def traceSanitize_def list.pred_map comp_def list.pred_True)
qed

lemma digit_header_char: "is_digit c \<Longrightarrow> header_char c"
  by (simp add: header_char_def safe_char_def is_digit_def Let_def)

lemma clean_digits: "list_all is_digit s \<Longrightarrow> clean s"
  by (auto simp: clean_def list_all_iff intro: digit_header_char)

lemma itoa_loop_digits_any: "list_all is_digit (itoa_loop n b) = list_all is_digit b"
proof (cases "0 \<le> n")
  case True
  then show ?thesis by (rule itoa_loop_digits)
next
  case False
  then show ?thesis by (subst itoa_loop.simps) simp
qed

lemma clean_itoa [simp]: "clean (itoa n)"
  using clean_digits [of "itoa_loop m []" for m] by (auto simp: itoa_def itoa_loop_digits_any Let_def header_char_def safe_char_def)

lemma clean_fixed [simp]: "clean (format_fixed p x)"
proof -
  have "clean (replicate n CHR ''0'')" for n by (simp add: clean_def list_all_iff header_char_def safe_char_def)
  then show ?thesis by (simp add: format_fixed_def pad_zeros_def Let_def header_char_def safe_char_def)
qed

lemma clean_compression [simp]: "clean (compression_header c)"
  by (simp add: compression_header_def humanBytes_def traceNoCompress_def header_char_def safe_char_def)

lemma clean_join: "clean sep \<Longrightarrow> list_all clean xs \<Longrightarrow> clean (join sep xs)"
  by (induction sep xs rule: join.induct) auto

lemma clean_attempt [simp]: "clean (traceShortModel m @ '':'' @ attemptCode a)"
  by (simp add: traceShortModel_def attemptCode_def header_char_def safe_char_def)

lemma clean_protected: "list_all clean (protected_fields t)"
  by (auto simp: protected_fields_def traceRuleID_def Let_def header_char_def safe_char_def split: option.split)

lemma clean_shape [simp]: "clean (shape_field t)" "clean (brk_field t)"
  by (simp_all add: shape_field_def brk_field_def Let_def header_char_def safe_char_def)

lemma clean_build:
  "list_all clean protected \<Longrightarrow> clean shape \<Longrightarrow> clean brk \<Longrightarrow> list_all clean prev \<Longrightarrow>
   clean (build_header protected shape brk prev withShape)"
  unfolding build_header_def
  by (intro clean_join) (auto simp: header_char_def safe_char_def intro!: clean_join)

lemma clean_trunc [simp]: "clean truncated_mark"
  by (simp add: truncated_mark_def header_char_def safe_char_def)

lemma clean_trim_prev:
  assumes "list_all clean protected" "clean shape" "clean brk" "list_all clean prev"
    "trim_prev protected shape brk prev n = Some out"
  shows "clean out \<and> length out \<le> traceMaxHeader \<and> (\<exists>body. out = body @ truncated_mark)"
  using assms(5)
proof (induction n)
  case (Suc n)
  have "list_all clean (take n prev)" using assms(4) by (auto simp: list_all_iff dest: in_set_takeD)
  with Suc clean_build [OF assms(1-3)] show ?case by (auto simp: Let_def split: if_splits)
qed simp

lemma render_facts:
  assumes "list_all clean protected" "clean shape" "clean brk" "list_all clean prev"
  shows "clean (renderTraceHeader protected shape brk prev)"
    "length (join '';'' protected) + length truncated_mark \<le> traceMaxHeader \<Longrightarrow>
     length (renderTraceHeader protected shape brk prev) \<le> traceMaxHeader"
    "renderTraceHeader protected shape brk prev = build_header protected shape brk prev True \<or>
     (\<exists>body. renderTraceHeader protected shape brk prev = body @ truncated_mark)"
proof -
  note t = clean_trim_prev [OF assms]
  have b: "build_header protected shape brk [] False = join '';'' protected" by (simp add: build_header_def)
  have c: "clean (build_header protected shape brk prev w)" "clean (build_header protected shape brk [] w)" for w
    using clean_build [OF assms(1-3)] assms(4) by simp_all
  show "clean (renderTraceHeader protected shape brk prev)"
    using t c by (auto simp: renderTraceHeader_def Let_def split: option.split)
  show "length (renderTraceHeader protected shape brk prev) \<le> traceMaxHeader"
    if "length (join '';'' protected) + length truncated_mark \<le> traceMaxHeader"
    using t that by (auto simp: renderTraceHeader_def b Let_def split: option.split)
  show "renderTraceHeader protected shape brk prev = build_header protected shape brk prev True \<or>
     (\<exists>body. renderTraceHeader protected shape brk prev = body @ truncated_mark)"
    using t by (auto simp: renderTraceHeader_def Let_def split: option.split)
qed

section \<open>The ring keeps a window\<close>

text \<open>The ring after the traces \<open>hist\<close>, oldest first: stepping back \<open>i\<close> slots finds the \<open>i\<close>th newest.\<close>

definition ring_rep :: "nat \<Rightarrow> routeTrace list \<Rightarrow> traceRing \<Rightarrow> bool" where
  "ring_rep cap hist r \<longleftrightarrow>
     0 < cap \<and> length (tr_entries r) = cap \<and> tr_next r = length hist mod cap \<and>
     (\<forall>i. 1 \<le> i \<and> i \<le> cap \<longrightarrow>
        tr_entries r ! ((tr_next r + cap - i) mod cap) =
          (if i \<le> length hist then Some (hist ! (length hist - i)) else None))"

lemma ring_rep_new: "ring_rep (nat (max 1 c)) [] (newTraceRing c)"
  by (auto simp: ring_rep_def newTraceRing_def max_def)

lemma ring_slot:
  fixes n cap i :: nat
  assumes "n < cap" "1 \<le> i" "i \<le> cap"
  shows "((n + 1) mod cap + cap - i) mod cap = (if i = 1 then n else (n + cap - (i - 1)) mod cap)"
    and "1 < i \<Longrightarrow> (n + cap - (i - 1)) mod cap \<noteq> n"
proof -
  show "((n + 1) mod cap + cap - i) mod cap = (if i = 1 then n else (n + cap - (i - 1)) mod cap)"
  proof (cases "n + 1 = cap")
    case True
    then have "n + cap - (i - 1) = (cap - i) + cap" using assms by simp
    then have "(n + cap - (i - 1)) mod cap = (cap - i) mod cap" by simp
    with True assms show ?thesis by auto
  next
    case False
    with assms show ?thesis by (auto simp: le_mod_geq)
  qed
  show "1 < i \<Longrightarrow> (n + cap - (i - 1)) mod cap \<noteq> n"
  proof (cases "i - 1 \<le> n")
    case True
    assume "1 < i"
    have "(n + cap - (i - 1)) mod cap = n - (i - 1)" using True assms by (simp add: le_mod_geq)
    with True \<open>1 < i\<close> show ?thesis by linarith
  next
    case False
    have "(n + cap - (i - 1)) mod cap = n + cap - (i - 1)" using False assms by simp
    with False assms show ?thesis by linarith
  qed
qed

lemma ring_rep_add:
  assumes rep: "ring_rep cap hist r" and "rt_ID t \<noteq> []"
  shows "ring_rep cap (hist @ [t]) (ring_add t r)"
proof -
  let ?n = "tr_next r" and ?r = "ring_add t r"
  have cap: "0 < cap" "length (tr_entries r) = cap" "?n = length hist mod cap" "?n < cap"
    and ent: "\<And>i. 1 \<le> i \<Longrightarrow> i \<le> cap \<Longrightarrow> tr_entries r ! ((?n + cap - i) mod cap) =
          (if i \<le> length hist then Some (hist ! (length hist - i)) else None)"
    using rep by (auto simp: ring_rep_def)
  have nx: "tr_next ?r = (?n + 1) mod cap" "tr_entries ?r = (tr_entries r)[?n := Some t]"
    using assms(2) cap(2) by (simp_all add: ring_add_def Let_def)
  have "tr_entries ?r ! ((tr_next ?r + cap - i) mod cap) =
      (if i \<le> length (hist @ [t]) then Some ((hist @ [t]) ! (length (hist @ [t]) - i)) else None)"
    if i: "1 \<le> i" "i \<le> cap" for i
  proof (cases "i = 1")
    case True
    then show ?thesis using ring_slot(1) [OF cap(4) i] cap by (simp add: nx)
  next
    case False
    with i have "1 < i" by simp
    with ring_slot [OF cap(4) i] have "tr_entries ?r ! ((tr_next ?r + cap - i) mod cap) =
        tr_entries r ! ((?n + cap - (i - 1)) mod cap)" by (simp add: nx)
    also have "\<dots> = (if i - 1 \<le> length hist then Some (hist ! (length hist - (i - 1))) else None)"
      using i \<open>1 < i\<close> by (intro ent) auto
    finally show ?thesis using \<open>1 < i\<close> by (auto simp: nth_append Suc_diff_le)
  qed
  moreover have "tr_next ?r = length (hist @ [t]) mod cap" using cap by (simp add: nx mod_Suc_eq)
  ultimately show ?thesis using cap by (simp add: ring_rep_def nx)
qed

definition window :: "nat \<Rightarrow> routeTrace list \<Rightarrow> routeTrace list" where
  "window cap hist = take cap (rev hist)"

lemma window_drop:
  assumes "1 \<le> i" "i \<le> cap"
  shows "drop (i - 1) (window cap hist) =
    (if i \<le> length hist then hist ! (length hist - i) # drop i (window cap hist) else [])"
proof (cases "i \<le> length hist")
  case True
  then have "i - 1 < length (window cap hist)" using assms by (auto simp: window_def)
  from Cons_nth_drop_Suc [OF this] True assms show ?thesis by (simp add: window_def rev_nth)
qed (use assms in \<open>simp add: window_def\<close>)

lemma recent_loop_window:
  assumes rep: "ring_rep cap hist r" and "1 \<le> i"
  shows "recent_loop r limit i out = out @ take (limit - length out) (drop (i - 1) (window cap hist))"
  using assms(2)
proof (induction "cap + 1 - i" arbitrary: i out)
  case 0
  then show ?case using rep by (subst recent_loop.simps) (simp add: ring_rep_def window_def)
next
  case (Suc k)
  then have i: "1 \<le> i" "i \<le> cap" by auto
  have ent: "tr_entries r ! ((tr_next r + length (tr_entries r) - i) mod length (tr_entries r)) =
      (if i \<le> length hist then Some (hist ! (length hist - i)) else None)" and len: "length (tr_entries r) = cap"
    using rep i unfolding ring_rep_def by (metis, metis)
  have ih: "recent_loop r limit (i + 1) o1 = o1 @ take (limit - length o1) (drop i (window cap hist))" for o1
    using Suc(1) [of "i + 1" o1] Suc(2) by simp
  show ?case
    by (subst recent_loop.simps, unfold Let_def ent ih window_drop [OF i])
      (auto simp: len i window_def take_Cons' Suc_diff_Suc)
qed

lemma recent_window:
  assumes "ring_rep cap hist r"
  shows "recent limit r = take (nat limit) (window cap hist)"
  using recent_loop_window [OF assms, of 1 "nat limit" "[]"] by (simp add: recent_def)

text \<open>The index, as long as no id was used twice.\<close>

definition index_rep :: "nat \<Rightarrow> routeTrace list \<Rightarrow> traceRing \<Rightarrow> bool" where
  "index_rep cap hist r \<longleftrightarrow> (\<forall>i. m_get (tr_byID r) i = find (\<lambda>t. rt_ID t = i) (window cap hist))"

lemma find_distinct_butlast:
  assumes "distinct (map f (xs @ [y]))" "f y \<noteq> i"
  shows "find (\<lambda>t. f t = i) (xs @ [y]) = find (\<lambda>t. f t = i) xs"
  using assms by (induction xs) auto

lemma window_add: "0 < cap \<Longrightarrow> window cap (hist @ [t]) = t # take (cap - 1) (window cap hist)"
  by (cases cap) (simp_all add: window_def min_def)

lemma index_rep_add:
  assumes rep: "ring_rep cap hist r" and idx: "index_rep cap hist r" and "rt_ID t \<noteq> []"
    and dist: "distinct (map rt_ID hist)"
  shows "index_rep cap (hist @ [t]) (ring_add t r)"
proof -
  let ?w = "window cap hist"
  have cap: "0 < cap" "length (tr_entries r) = cap" "tr_next r < cap" using rep by (auto simp: ring_rep_def)
  have slot: "tr_entries r ! tr_next r = (if cap \<le> length hist then Some (hist ! (length hist - cap)) else None)"
    using rep cap by (auto simp: ring_rep_def dest!: spec [of _ cap])
  have dw: "distinct (map rt_ID ?w)" using dist by (simp add: window_def take_map [symmetric] rev_map [symmetric])
  have del: "m_get (case tr_entries r ! tr_next r of None \<Rightarrow> tr_byID r | Some ev \<Rightarrow> m_del (rt_ID ev) (tr_byID r)) i =
      find (\<lambda>t. rt_ID t = i) (take (cap - 1) ?w)" for i
  proof (cases "cap \<le> length hist")
    case True
    let ?old = "hist ! (length hist - cap)"
    have w: "?w = take (cap - 1) ?w @ [?old]"
    proof -
      have "length ?w = cap" "?w ! (cap - 1) = ?old" using True cap(1) by (auto simp: window_def rev_nth)
      with cap(1) show ?thesis by (metis Suc_diff_1 lessI order.refl take_Suc_conv_app_nth take_all)
    qed
    have d: "distinct (map rt_ID (take (cap - 1) ?w @ [?old]))" using dw w by simp
    show ?thesis
    proof (cases "i = rt_ID ?old")
      case True
      with d have "find (\<lambda>t. rt_ID t = i) (take (cap - 1) ?w) = None"
        by (auto simp: find_None_iff) (metis image_eqI)
      with True \<open>cap \<le> length hist\<close> slot show ?thesis by simp
    next
      case False
      with find_distinct_butlast [OF d, of i] w idx \<open>cap \<le> length hist\<close> slot show ?thesis
        by (simp add: index_rep_def)
    qed
  next
    case False
    then have "take (cap - 1) ?w = ?w" by (simp add: window_def)
    with False slot idx show ?thesis by (simp add: index_rep_def)
  qed
  show ?thesis
    using assms(3) del by (auto simp: index_rep_def ring_add_def Let_def window_add [OF cap(1)])
qed

definition published :: "routeTrace list \<Rightarrow> routeTrace list" where
  "published ts = filter (\<lambda>t. rt_ID t \<noteq> []) ts"

lemma ring_after:
  assumes "ring_rep cap hist r"
  shows "ring_rep cap (hist @ published ts) (fold ring_add ts r)"
    "index_rep cap hist r \<Longrightarrow> distinct (map rt_ID (hist @ published ts)) \<Longrightarrow>
     index_rep cap (hist @ published ts) (fold ring_add ts r)"
  using assms
proof (induction ts arbitrary: hist r)
  case Nil
  case 1 then show ?case by (simp add: published_def)
  case 2 then show ?case by (simp add: published_def)
next
  case (Cons t ts)
  have skip: "rt_ID t = [] \<Longrightarrow> ring_add t r = r" for r by (simp add: ring_add_def)
  have pub: "hist @ published (t # ts) = (if rt_ID t = [] then hist else hist @ [t]) @ published ts" for hist
    by (simp add: published_def)
  { case 1
    then have "rt_ID t \<noteq> [] \<Longrightarrow> ring_rep cap (hist @ [t]) (ring_add t r)" by (rule ring_rep_add)
    with 1 Cons.IH(1) [of "hist @ [t]" "ring_add t r"] Cons.IH(1) [of hist r] skip show ?case
      unfolding pub by (cases "rt_ID t = []") simp_all }
  { case 2
    show ?case
    proof (cases "rt_ID t = []")
      case True
      with 2 Cons.IH(2) [of hist r] skip show ?thesis unfolding pub by simp
    next
      case False
      have "distinct (map rt_ID hist)" using 2 by (auto simp: published_def)
      from index_rep_add [OF 2(3) 2(1) False this] have "index_rep cap (hist @ [t]) (ring_add t r)" .
      with Cons.IH(2) [OF _ _ ring_rep_add [OF 2(3) False]] 2(2) False show ?thesis
        unfolding pub by (simp add: published_def)
    qed }
qed

lemma index_rep_new: "index_rep cap [] (newTraceRing c)"
  by (simp add: index_rep_def newTraceRing_def window_def)

section \<open>Properties\<close>

text \<open>C25. The ring is a window: after any sequence of traces, \<open>recent\<close> lists the newest published ones,
  newest first, at most the requested number and at most the capacity; and as long as no id was
  issued twice, looking an id up finds exactly the trace of that id among them.\<close>

theorem ring_is_window:
  "recent limit (fold ring_add ts (newTraceRing c)) = take (nat limit) (take (nat (max 1 c)) (rev (published ts))) \<and>
   (distinct (map rt_ID (published ts)) \<longrightarrow>
      ring_get i (fold ring_add ts (newTraceRing c)) =
        find (\<lambda>t. rt_ID t = i) (take (nat (max 1 c)) (rev (published ts))))"
  using recent_window [OF ring_after(1) [OF ring_rep_new [of c], of ts], of limit]
    ring_after(2) [OF ring_rep_new index_rep_new, of ts c]
  by (simp add: index_rep_def ring_get_def window_def)

definition ex_trace :: "string \<Rightarrow> routeTrace" where
  "ex_trace i = the (newRouteTrace [] i ''coding'')"

theorem ring_is_window_witness:
  "ring_get ''c'' (fold ring_add [ex_trace ''a'', ex_trace ''b'', ex_trace ''c''] (newTraceRing 2)) = Some (ex_trace ''c'') \<and>
   map rt_ID (recent 5 (fold ring_add [ex_trace ''a'', ex_trace ''b'', ex_trace ''c''] (newTraceRing 2))) = [''c'', ''b'']"
proof -
  have i: "rt_ID (ex_trace x) = x" for x
    by (simp add: ex_trace_def newRouteTrace_def traceEnabled_def envBool_def canonicalEnvValue_def envValue_def
        m_get_or_def trim_space_def to_lower_def)
  have "published [ex_trace ''a'', ex_trace ''b'', ex_trace ''c''] = [ex_trace ''a'', ex_trace ''b'', ex_trace ''c'']"
    by (simp add: published_def i)
  with ring_is_window [of 5 "[ex_trace ''a'', ex_trace ''b'', ex_trace ''c'']" 2 "''c''"] show ?thesis
    by (simp add: i numeral_eq_Suc)
qed

text \<open>The short header cannot break the framing of a response: whatever profile, model names, rule and
  error kinds the trace holds, the header has only letters, digits and the punctuation of its own
  grammar. It has at most 512 bytes as long as its fixed fields leave room, and a header from which
  a field was dropped says so.\<close>

theorem trace_header_safe:
  "list_all (\<lambda>c. safe_char c \<or> c \<in> set '';=,:'') (trace_header_text t) \<and>
   (length (join '';'' (protected_fields t)) + length truncated_mark \<le> traceMaxHeader \<longrightarrow>
      length (trace_header_text t) \<le> traceMaxHeader) \<and>
   (trace_header_text t =
      build_header (protected_fields t) (shape_field t) (brk_field t)
        (map (\<lambda>a. traceShortModel (ta_Model a) @ '':'' @ attemptCode a) (rt_Attempts t)) True \<or>
    (\<exists>body. trace_header_text t = body @ truncated_mark))"
proof -
  have "list_all clean (map (\<lambda>a. traceShortModel (ta_Model a) @ '':'' @ attemptCode a) (rt_Attempts t))"
    unfolding list_all_iff using clean_attempt by auto
  note r = render_facts [OF clean_protected [of t] clean_shape(1) [of t] clean_shape(2) [of t] this]
  from r(1) have "list_all (\<lambda>c. safe_char c \<or> c \<in> set '';=,:'') (trace_header_text t)"
    unfolding trace_header_text_def clean_def header_char_def .
  with r(2,3) show ?thesis unfolding trace_header_text_def by blast
qed

theorem trace_header_safe_witness:
  "trace_header_text (recordServed ''org/m:free'' 2 (ex_trace ''a'')) = ''v1;p=coding;cmp=off;s=0.00;a=2;n=0/0/0'' \<and>
   length (trace_header_text (recordServed ''org/m:free'' 2 (ex_trace ''a''))) \<le> 512"
proof -
  let ?t = "recordServed ''org/m:free'' 2 (ex_trace ''a'')"
  have "length (join '';'' (protected_fields ?t)) + length truncated_mark \<le> traceMaxHeader" by code_simp
  moreover have "trace_header_text ?t = ''v1;p=coding;cmp=off;s=0.00;a=2;n=0/0/0''" by code_simp
  ultimately show ?thesis using trace_header_safe [of ?t] by (simp add: traceMaxHeader_def)
qed

text \<open>Free text stays behind the admin gate: the view a client may ask for and the short header do not
  depend on the reason of the policy, on the details of its steps or on the upstream error texts of
  the attempts.\<close>

theorem public_view_hides_text:
  fixes t reason detail upstream
  defines "t' \<equiv> t\<lparr>rt_PolicyReason := reason,
     rt_PolicySteps := map (\<lambda>p. p\<lparr>ps_Detail := detail p\<rparr>) (rt_PolicySteps t),
     rt_Attempts := map (\<lambda>a. a\<lparr>ta_Reason := upstream a\<rparr>) (rt_Attempts t),
     rt_Served := map_option (\<lambda>a. a\<lparr>ta_Reason := upstream a\<rparr>) (rt_Served t)\<rparr>"
  shows "view False t' = view False t \<and> trace_header_text t' = trace_header_text t"
proof -
  have "protected_fields t' = protected_fields t" by (cases "rt_Served t") (simp_all add: t'_def protected_fields_def)
  moreover have "shape_field t' = shape_field t" "brk_field t' = brk_field t"
    by (simp_all add: t'_def shape_field_def brk_field_def)
  moreover have "map (\<lambda>a. traceShortModel (ta_Model a) @ '':'' @ attemptCode a) (rt_Attempts t') =
      map (\<lambda>a. traceShortModel (ta_Model a) @ '':'' @ attemptCode a) (rt_Attempts t)"
    by (simp add: t'_def attemptCode_def)
  ultimately have "trace_header_text t' = trace_header_text t" by (simp add: trace_header_text_def)
  moreover have "view False t' = view False t"
    by (cases "rt_Served t") (simp_all add: t'_def view_def attempt_view_def step_view_def)
  ultimately show ?thesis by simp
qed

end
