(* ===== verification/Http.thy ===== *)
theory Http
  imports Trace Quota_Providers
begin

text \<open>
  Requests to a provider and responses to the client: \<open>src/internal/router/router_http.go\<close>.

  A header maps canonical names to values. The writer of a response keeps its header, the status once
  the head is written, the header as it went out, and the body. The JSON of a trace view is a
  parameter; the propagation of telemetry headers is not modelled.
\<close>

section \<open>Headers\<close>

definition header_set :: "string \<Rightarrow> string \<Rightarrow> httpHeader \<Rightarrow> httpHeader" where
  "header_set name value h = m_set name [value] h"

definition header_add :: "string \<Rightarrow> string \<Rightarrow> httpHeader \<Rightarrow> httpHeader" where
  "header_add name value h = m_set name (m_get_or [] h name @ [value]) h"

definition header_get :: "httpHeader \<Rightarrow> string \<Rightarrow> string" where
  "header_get h name = (case m_get h name of Some (v # _) \<Rightarrow> v | _ \<Rightarrow> [])"

definition copyHeaders :: "string list \<Rightarrow> httpHeader \<Rightarrow> httpHeader \<Rightarrow> httpHeader" where
  "copyHeaders skipKeys src dst =
     fold (\<lambda>(key, values) dst.
       if to_lower key \<in> to_lower ` set skipKeys then dst else fold (header_add key) values dst) src dst"

definition proxyTitleHeader :: string where "proxyTitleHeader = ''CalvoProxy Smart Proxy''"

definition applyProxyHeaders :: "string \<Rightarrow> httpHeader \<Rightarrow> httpHeader" where
  "applyProxyHeaders apiKey h =
     header_set ''X-Title'' proxyTitleHeader
       (header_set ''Content-Type'' ''application/json'' (header_set ''Authorization'' (''Bearer '' @ apiKey) h))"

record upstreamRequest =
  uq_Method :: string
  uq_URL :: string
  uq_Header :: httpHeader
  uq_Body :: string

text \<open>\<open>http.NewRequestWithContext\<close> fails on a URL it cannot parse; \<open>bad\<close> is its error then.\<close>

definition newUpstreamRequest ::
  "(string \<Rightarrow> transportError option) \<Rightarrow> string \<Rightarrow> string \<Rightarrow> string \<Rightarrow> string \<Rightarrow> transportError + upstreamRequest" where
  "newUpstreamRequest bad meth targetURL body apiKey = (case bad targetURL of
     Some err \<Rightarrow> Inl err
   | None \<Rightarrow> Inr \<lparr>uq_Method = meth, uq_URL = targetURL, uq_Header = applyProxyHeaders apiKey [], uq_Body = body\<rparr>)"

section \<open>Responses\<close>

record httpResponse =
  rp_StatusCode :: int
  rp_Header :: httpHeader

record responseWriter =
  rw_Header :: httpHeader
  rw_Status :: "int option"
  rw_Sent :: httpHeader
  rw_Body :: string
  rw_Heads :: "int list"

definition newWriter :: responseWriter where
  "newWriter = \<lparr>rw_Header = [], rw_Status = None, rw_Sent = [], rw_Body = [], rw_Heads = []\<rparr>"

text \<open>The head is written once, and a later call does not change it (the server logs it as superfluous);
  \<open>rw_Heads\<close> lists the status of every call, so that a second answer shows. A body written first
  sends the head of a 200.\<close>

definition WriteHeader :: "int \<Rightarrow> responseWriter \<Rightarrow> responseWriter" where
  "WriteHeader code w = (case rw_Status w of
     Some _ \<Rightarrow> w\<lparr>rw_Heads := rw_Heads w @ [code]\<rparr>
   | None \<Rightarrow> w\<lparr>rw_Status := Some code, rw_Sent := rw_Header w, rw_Heads := rw_Heads w @ [code]\<rparr>)"

definition Write :: "string \<Rightarrow> responseWriter \<Rightarrow> responseWriter" where
  "Write bytes w = (let w = (if rw_Status w = None then WriteHeader 200 w else w) in w\<lparr>rw_Body := rw_Body w @ bytes\<rparr>)"

text \<open>Nothing has been sent, and: exactly one answer has been given, with this status.\<close>

definition no_answer :: "responseWriter \<Rightarrow> bool" where
  "no_answer w \<longleftrightarrow> rw_Status w = None \<and> rw_Body w = [] \<and> rw_Heads w = []"

definition one_answer :: "int \<Rightarrow> responseWriter \<Rightarrow> bool" where
  "one_answer code w \<longleftrightarrow> rw_Status w = Some code \<and> rw_Heads w = [code]"

definition traceHeader :: string where "traceHeader = ''X-Calvoproxy-Route''"
definition traceIDHeader :: string where "traceIDHeader = ''X-Calvoproxy-Decision-Id''"
definition traceJSONHeader :: string where "traceJSONHeader = ''X-Calvoproxy-Trace-Json''"

definition setRouteTraceHeaders :: "routeTrace option \<Rightarrow> httpHeader \<Rightarrow> httpHeader" where
  "setRouteTraceHeaders trace h = (case trace of
     None \<Rightarrow> h
   | Some t \<Rightarrow>
       let h = header_set traceHeader (trace_header_text t) h
       in if rt_ID t \<noteq> [] then header_set traceIDHeader (rt_ID t) h else h)"

text \<open>The parameters: whether the client asked for the full trace, and the JSON encoder.\<close>

definition setRouteTraceHeadersWithFull ::
  "bool \<Rightarrow> (traceView \<Rightarrow> string option) \<Rightarrow> routeTrace option \<Rightarrow> httpHeader \<Rightarrow> httpHeader" where
  "setRouteTraceHeadersWithFull full marshal trace h =
     (let h = setRouteTraceHeaders trace h
      in case trace of
           None \<Rightarrow> h
         | Some t \<Rightarrow>
             if \<not> full then h
             else case marshal (Trace.view False t) of None \<Rightarrow> h | Some raw \<Rightarrow> header_set traceJSONHeader raw h)"

definition setServedModelHeaders ::
  "bool \<Rightarrow> (traceView \<Rightarrow> string option) \<Rightarrow> routeTrace option \<Rightarrow> modelAttempt \<Rightarrow> httpHeader \<Rightarrow> httpHeader" where
  "setServedModelHeaders full marshal trace attempt h =
     (let h = header_set ''X-Calvoproxy-Model'' (ma_Model attempt) h;
          h = header_set ''X-Calvoproxy-Profile'' (ma_Profile attempt) h;
          h = (if ma_AttemptIndex attempt > 0
               then header_set ''X-Calvoproxy-Attempt'' (itoa (int (ma_AttemptIndex attempt))) h else h)
      in setRouteTraceHeadersWithFull full marshal trace h)"

definition writeProxyResponse :: "httpResponse \<Rightarrow> string \<Rightarrow> responseWriter \<Rightarrow> responseWriter" where
  "writeProxyResponse resp body w =
     (let h = copyHeaders [''content-length'', ''content-encoding''] (rp_Header resp) (rw_Header w);
          h = header_set ''Content-Length'' (itoa (int (length body))) h
      in Write body (WriteHeader (rp_StatusCode resp) (w\<lparr>rw_Header := h\<rparr>)))"

definition streamProxyResponse :: "httpResponse \<Rightarrow> responseWriter \<Rightarrow> responseWriter" where
  "streamProxyResponse resp w =
     WriteHeader (rp_StatusCode resp)
       (w\<lparr>rw_Header := copyHeaders [traceHeader, traceIDHeader] (rp_Header resp) (rw_Header w)\<rparr>)"

definition isEventStream :: "httpResponse \<Rightarrow> bool" where
  "isEventStream resp \<longleftrightarrow> contains (to_lower (header_get (rp_Header resp) ''Content-Type'')) ''text/event-stream''"

text \<open>The trace outcome and its headers on a failed request.\<close>

definition failTrace ::
  "bool \<Rightarrow> (traceView \<Rightarrow> string option) \<Rightarrow> string \<Rightarrow> routeTrace option \<Rightarrow> responseWriter \<Rightarrow>
   routeTrace option \<times> responseWriter" where
  "failTrace full marshal outcome trace w = (case trace of
     None \<Rightarrow> (None, w)
   | Some t \<Rightarrow>
       let t = t\<lparr>rt_Outcome := outcome\<rparr>
       in (Some t, w\<lparr>rw_Header := setRouteTraceHeadersWithFull full marshal (Some t) (rw_Header w)\<rparr>))"

section \<open>What a client reads\<close>

lemma WriteHeader_sel [simp]:
  "rw_Heads (WriteHeader code w) = rw_Heads w @ [code]"
  "rw_Status (WriteHeader code w) = (case rw_Status w of None \<Rightarrow> Some code | Some c \<Rightarrow> Some c)"
  "rw_Body (WriteHeader code w) = rw_Body w"
  by (simp_all add: WriteHeader_def split: option.split)

lemma Write_sel [simp]:
  "rw_Heads (Write bytes (WriteHeader code w)) = rw_Heads w @ [code]"
  "rw_Status (Write bytes (WriteHeader code w)) = rw_Status (WriteHeader code w)"
  by (simp_all add: Write_def Let_def split: option.split)

lemma header_add_get: "m_get (header_add k v h) j = (if j = k then Some (m_get_or [] h k @ [v]) else m_get h j)"
  by (simp add: header_add_def)

lemma header_adds_other: "j \<noteq> k \<Longrightarrow> m_get (fold (header_add k) vs h) j = m_get h j"
  by (induction vs arbitrary: h) (simp_all add: header_add_get)

lemma copyHeaders_skips:
  assumes "to_lower name \<in> to_lower ` set skipKeys"
  shows "m_get (copyHeaders skipKeys src dst) name = m_get dst name"
proof -
  have "m_get (fold (\<lambda>(key, values) dst. if to_lower key \<in> to_lower ` set skipKeys then dst
      else fold (header_add key) values dst) src dst) name = m_get dst name"
  proof (induction src arbitrary: dst)
    case (Cons kv src)
    obtain k vs where kv: "kv = (k, vs)" by fastforce
    have "name \<noteq> k" if "to_lower k \<notin> to_lower ` set skipKeys" using that assms by auto
    with Cons kv show ?case by (auto simp: header_adds_other)
  qed simp
  then show ?thesis by (simp add: copyHeaders_def)
qed

lemma header_adds_get: "m_get_or [] (fold (header_add k) vs h) k = m_get_or [] h k @ vs"
  by (induction vs arbitrary: h) (simp_all add: header_add_def m_get_or_def)

lemma copyHeaders_adds:
  assumes "to_lower name \<notin> to_lower ` set skipKeys" "distinct (map fst src)"
  shows "m_get_or [] (copyHeaders skipKeys src dst) name = m_get_or [] dst name @ m_get_or [] src name"
proof -
  have "m_get_or [] (fold (\<lambda>(key, values) dst. if to_lower key \<in> to_lower ` set skipKeys then dst
      else fold (header_add key) values dst) src dst) name = m_get_or [] dst name @ m_get_or [] src name"
    using assms(2)
  proof (induction src arbitrary: dst)
    case (Cons kv src)
    obtain k vs where kv: "kv = (k, vs)" by fastforce
    show ?case
    proof (cases "k = name")
      case True
      with Cons.prems kv have "m_get src name = None" by (auto simp: map_of_eq_None_iff)
      with Cons True kv assms(1) show ?thesis by (simp add: header_adds_get) (simp add: m_get_or_def)
    next
      case False
      then have "m_get_or [] (fold (header_add k) vs dst) name = m_get_or [] dst name"
        by (simp add: m_get_or_def header_adds_other)
      with Cons False kv show ?thesis by (auto simp: m_get_or_def)
    qed
  qed (simp add: m_get_or_def)
  then show ?thesis by (simp add: copyHeaders_def)
qed

lemma served_trace_header: "m_get (setServedModelHeaders full marshal (Some t) attempt h) traceHeader = Some [trace_header_text t]"
  by (simp add: setServedModelHeaders_def setRouteTraceHeadersWithFull_def setRouteTraceHeaders_def header_set_def Let_def
      traceHeader_def traceIDHeader_def traceJSONHeader_def split: option.split)

section \<open>Property\<close>

text \<open>Who speaks in the route header. On a streamed response it carries exactly the proxy's own trace,
  whatever the upstream sent under that name. On a buffered response the proxy's trace comes first,
  but every value the upstream sent under that name is appended to it.\<close>

theorem route_header_authority:
  assumes "distinct (map fst (rp_Header resp))" "rw_Status w = None"
    "rw_Header w = setServedModelHeaders full marshal (Some t) attempt h"
  shows "m_get_or [] (rw_Sent (streamProxyResponse resp w)) traceHeader = [trace_header_text t] \<and>
    m_get_or [] (rw_Sent (writeProxyResponse resp body w)) traceHeader =
      trace_header_text t # m_get_or [] (rp_Header resp) traceHeader"
proof -
  have own: "m_get_or [] (rw_Header w) traceHeader = [trace_header_text t]"
    using served_trace_header [of full marshal t attempt h] assms(3) by (simp add: m_get_or_def)
  have "m_get_or [] (rw_Sent (streamProxyResponse resp w)) traceHeader = [trace_header_text t]"
    using own copyHeaders_skips [of traceHeader "[traceHeader, traceIDHeader]" "rp_Header resp" "rw_Header w"] assms(2)
    by (simp add: streamProxyResponse_def WriteHeader_def m_get_or_def)
  moreover have "m_get_or [] (copyHeaders [''content-length'', ''content-encoding''] (rp_Header resp) (rw_Header w)) traceHeader =
      trace_header_text t # m_get_or [] (rp_Header resp) traceHeader"
    using own copyHeaders_adds [OF _ assms(1), of traceHeader "[''content-length'', ''content-encoding'']" "rw_Header w"]
    by (simp add: traceHeader_def to_lower_def)
  ultimately show ?thesis using assms(2)
    by (simp add: writeProxyResponse_def Write_def WriteHeader_def header_set_def m_get_or_def traceHeader_def Let_def)
qed

definition ex_echo :: httpResponse where
  "ex_echo = \<lparr>rp_StatusCode = 200, rp_Header = [(''X-Calvoproxy-Route'', [''forged''])]\<rparr>"

definition ex_writer :: responseWriter where
  "ex_writer = newWriter\<lparr>rw_Header := setServedModelHeaders False (\<lambda>_. None) (Some (ex_trace ''a'')) ex_attempt []\<rparr>"

theorem route_header_authority_witness:
  "m_get_or [] (rw_Sent (streamProxyResponse ex_echo ex_writer)) traceHeader = [trace_header_text (ex_trace ''a'')] \<and>
   m_get_or [] (rw_Sent (writeProxyResponse ex_echo ''ok'' ex_writer)) traceHeader =
     [trace_header_text (ex_trace ''a''), ''forged'']"
  using route_header_authority [of ex_echo ex_writer False "\<lambda>_. None" "ex_trace ''a''" ex_attempt "[]" "''ok''"]
  by (simp add: ex_echo_def ex_writer_def newWriter_def m_get_or_def traceHeader_def)

end
