(* ===== verification/Streaming.thy ===== *)
theory Streaming
  imports Env_Config "HOL-Library.Sublist"
begin

text \<open>
  Streamed responses, \<open>src/internal/router/router_stream.go\<close>: the copy loop that relays an upstream
  body to the client and says how it ended, and the wait for the first event that precedes it.

  The loop is a \<open>select\<close> over a channel of chunks, two timers and the request context. The model runs it
  on the list of the cases that win, in order; each case carries what the environment decides then:
  whether the write to the client succeeds and whether the request context is already cancelled. The
  result is \<open>None\<close> while the list ends before the loop does. The reader goroutine is the function
  \<open>reader\<close> from the results of \<open>body.Read\<close> to the chunks it sends.
\<close>

section \<open>Outcomes\<close>

datatype streamOutcome =
  streamCompleted | streamStalled | streamUpstreamError | streamMaxReached | streamClientGone

definition upstreamFault :: "streamOutcome \<Rightarrow> bool" where
  "upstreamFault o1 \<longleftrightarrow> o1 = streamStalled \<or> o1 = streamUpstreamError"

fun outcome_String :: "streamOutcome \<Rightarrow> string" where
  "outcome_String streamCompleted = ''completed''"
| "outcome_String streamStalled = ''stalled (idle timeout)''"
| "outcome_String streamUpstreamError = ''upstream read error''"
| "outcome_String streamMaxReached = ''max duration reached''"
| "outcome_String streamClientGone = ''client disconnected''"

section \<open>The copy loop\<close>

datatype read_err = EOF | ReadFailed

record chunk =
  ck_data :: string
  ck_err :: "read_err option"

text \<open>What the reader goroutine sends for a sequence of reads: the data when there is any, then the error,
  after which it stops.\<close>

fun reader :: "(string \<times> read_err option) list \<Rightarrow> chunk list" where
  "reader [] = []"
| "reader ((d, er) # rs) =
     (if d = [] then [] else [\<lparr>ck_data = d, ck_err = None\<rparr>]) @
     (case er of None \<Rightarrow> reader rs | Some x \<Rightarrow> [\<lparr>ck_data = [], ck_err = Some x\<rparr>])"

text \<open>The case of the \<open>select\<close> that wins. When the idle timer wins, the inner \<open>select\<close> finds a chunk or
  takes its default.\<close>

datatype select_case = OnChunk chunk | OnIdle "chunk option" | OnMax | OnCtxDone

record select_event =
  se_case :: select_case
  se_writeOk :: bool
  se_ctxErr :: bool

text \<open>The end of a case that received an error.\<close>

definition err_outcome :: "bool \<Rightarrow> read_err \<Rightarrow> streamOutcome" where
  "err_outcome ctxErr er =
     (if er = EOF then streamCompleted else if ctxErr then streamClientGone else streamUpstreamError)"

text \<open>A received chunk: the bytes written to the client, and the outcome when the loop returns.\<close>

definition on_chunk :: "select_event \<Rightarrow> chunk \<Rightarrow> string \<times> streamOutcome option" where
  "on_chunk ev c =
     (if ck_data c \<noteq> [] \<and> \<not> se_writeOk ev then ([], Some streamClientGone)
      else (ck_data c, map_option (err_outcome (se_ctxErr ev)) (ck_err c)))"

text \<open>The idle case handles a chunk that arrived together with the timer; data then wins over an error in
  the same chunk.\<close>

definition on_idle :: "select_event \<Rightarrow> chunk option \<Rightarrow> string \<times> streamOutcome option" where
  "on_idle ev pending = (case pending of
     None \<Rightarrow> ([], Some streamStalled)
   | Some c \<Rightarrow>
       if ck_data c \<noteq> [] then (if se_writeOk ev then (ck_data c, None) else ([], Some streamClientGone))
       else ([], map_option (err_outcome (se_ctxErr ev)) (ck_err c)))"

definition select_step :: "select_event \<Rightarrow> string \<times> streamOutcome option" where
  "select_step ev = (case se_case ev of
     OnChunk c \<Rightarrow> on_chunk ev c
   | OnIdle pending \<Rightarrow> on_idle ev pending
   | OnMax \<Rightarrow> ([], Some streamMaxReached)
   | OnCtxDone \<Rightarrow> ([], Some streamClientGone))"

fun streamCopy :: "select_event list \<Rightarrow> string \<times> streamOutcome option" where
  "streamCopy [] = ([], None)"
| "streamCopy (ev # evs) = (case select_step ev of
     (out, Some o1) \<Rightarrow> (out, Some o1)
   | (out, None) \<Rightarrow> (case streamCopy evs of (out', r) \<Rightarrow> (out @ out', r)))"

section \<open>Waiting for the first event\<close>

text \<open>\<open>ReadBytes('\n')\<close>: the line with its newline and the rest, or what is left when the stream ends.\<close>

fun read_line :: "string \<Rightarrow> string \<times> string \<times> bool" where
  "read_line [] = ([], [], False)"
| "read_line (c # cs) =
     (if c = CHR 0x0A then ([c], cs, True)
      else case read_line cs of (line, rest, ok) \<Rightarrow> (c # line, rest, ok))"

lemma read_line_append: "read_line s = (line, rest, ok) \<Longrightarrow> s = line @ rest"
  by (induction s arbitrary: line) (auto split: if_splits prod.splits)

lemma read_line_shrinks: "read_line s = (line, rest, True) \<Longrightarrow> length rest < length s"
proof (induction s arbitrary: line)
  case (Cons c cs)
  then show ?case
    by (cases "read_line cs") (auto split: if_splits simp: less_Suc_eq)
qed simp

definition keepalive :: "string \<Rightarrow> bool" where
  "keepalive line \<longleftrightarrow> trim_space line = [] \<or> hd (trim_space line) = CHR '':''"

definition carries_data :: "string \<Rightarrow> bool" where
  "carries_data line \<longleftrightarrow> has_prefix (trim_space line) ''data:''"

record firstEventResult =
  fr_consumed :: string
  fr_ok :: bool
  fr_rest :: string

function await_loop :: "string \<Rightarrow> string \<Rightarrow> firstEventResult" where
  "await_loop seen body = (case read_line body of
     (line, rest, False) \<Rightarrow> \<lparr>fr_consumed = seen @ line, fr_ok = False, fr_rest = rest\<rparr>
   | (line, rest, True) \<Rightarrow>
       if keepalive line then await_loop (seen @ line) rest
       else if carries_data line then \<lparr>fr_consumed = seen @ line, fr_ok = True, fr_rest = rest\<rparr>
       else await_loop (seen @ line) rest)"
  by pat_completeness auto

termination
  by (relation "measure (\<lambda>(seen, body). length body)") (auto dest: read_line_shrinks [OF sym])

declare await_loop.simps [simp del]

definition awaited_body :: "firstEventResult \<Rightarrow> string" where
  "awaited_body r = fr_consumed r @ fr_rest r"

text \<open>The reader that goes on, whether a payload event arrived, and whether the timer fired first. The
  pending reader of the last case waits for the same result and replays it.\<close>

definition awaitFirstStreamEvent :: "string \<Rightarrow> bool \<Rightarrow> string \<times> bool \<times> bool" where
  "awaitFirstStreamEvent body timerFirst =
     (let r = await_loop [] body
      in if timerFirst then (awaited_body r, False, True) else (awaited_body r, fr_ok r, False))"

section \<open>The wait loses nothing\<close>

lemma await_loop_body: "awaited_body (await_loop seen body) = seen @ body"
proof (induction seen body rule: await_loop.induct)
  case (1 seen body)
  obtain line rest ok where l: "read_line body = (line, rest, ok)" by (metis prod_cases3)
  from read_line_append [OF l] have "body = line @ rest" .
  with 1 l show ?case by (subst await_loop.simps) (auto simp: awaited_body_def split: bool.split)
qed

text \<open>The complete lines of a body, and the first of them that is no keepalive and carries data.\<close>

function lines_of :: "string \<Rightarrow> string list" where
  "lines_of body = (case read_line body of (line, rest, ok) \<Rightarrow> if ok then line # lines_of rest else [])"
  by pat_completeness auto

termination
  by (relation "measure length") (auto dest: read_line_shrinks [OF sym])

declare lines_of.simps [simp del]

definition payload_line :: "string \<Rightarrow> bool" where
  "payload_line line \<longleftrightarrow> \<not> keepalive line \<and> carries_data line"

lemma await_loop_ok: "fr_ok (await_loop seen body) \<longleftrightarrow> (\<exists>line\<in>set (lines_of body). payload_line line)"
proof (induction seen body rule: await_loop.induct)
  case (1 seen body)
  obtain line rest ok where l: "read_line body = (line, rest, ok)" by (metis prod_cases3)
  have lo: "lines_of body = (if ok then line # lines_of rest else [])" by (subst lines_of.simps) (simp add: l)
  from 1 l show ?case
    unfolding lo by (subst await_loop.simps) (cases ok; auto simp: payload_line_def)
qed

lemma await_loop_consumed:
  "fr_ok (await_loop seen body) \<Longrightarrow>
   fr_consumed (await_loop seen body) = seen @ concat (takeWhile (\<lambda>l. \<not> payload_line l) (lines_of body)) @
     hd (dropWhile (\<lambda>l. \<not> payload_line l) (lines_of body))"
proof (induction seen body rule: await_loop.induct)
  case (1 seen body)
  obtain line rest ok where l: "read_line body = (line, rest, ok)" by (metis prod_cases3)
  have lo: "lines_of body = (if ok then line # lines_of rest else [])" by (subst lines_of.simps) (simp add: l)
  have al: "await_loop seen body = (if \<not> ok then \<lparr>fr_consumed = seen @ line, fr_ok = False, fr_rest = rest\<rparr>
     else if payload_line line then \<lparr>fr_consumed = seen @ line, fr_ok = True, fr_rest = rest\<rparr>
     else await_loop (seen @ line) rest)"
    by (subst await_loop.simps) (simp add: l payload_line_def split: bool.split)
  show ?case
  proof (cases "ok \<and> \<not> payload_line line")
    case True
    then have "fr_ok (await_loop (seen @ line) rest)" using 1(3) al by simp
    moreover have "keepalive line \<or> \<not> carries_data line" using True by (simp add: payload_line_def)
    ultimately show ?thesis using 1(1,2) l True unfolding al lo by (cases "keepalive line") auto
  next
    case False
    with 1(3) show ?thesis unfolding al lo by (auto split: if_splits)
  qed
qed

section \<open>The copy is faithful\<close>

definition received :: "select_event list \<Rightarrow> chunk list" where
  "received evs = concat (map (\<lambda>ev. case se_case ev of OnChunk c \<Rightarrow> [c] | OnIdle (Some c) \<Rightarrow> [c] | _ \<Rightarrow> []) evs)"

definition all_data :: "chunk list \<Rightarrow> string" where
  "all_data cs = concat (map ck_data cs)"

definition ends_with :: "read_err \<Rightarrow> chunk list \<Rightarrow> bool" where
  "ends_with er cs \<longleftrightarrow> cs \<noteq> [] \<and> ck_err (last cs) = Some er"

text \<open>The shape of a channel's content: data without an error, and an error without data at the end.\<close>

fun wf_chunks :: "chunk list \<Rightarrow> bool" where
  "wf_chunks [] = True"
| "wf_chunks (c # cs) = (if ck_err c = None then ck_data c \<noteq> [] \<and> wf_chunks cs else ck_data c = [] \<and> cs = [])"

lemma wf_reader: "wf_chunks (reader reads)"
  by (induction reads rule: reader.induct) (auto split: option.split)

definition stops :: "select_event \<Rightarrow> bool" where
  "stops ev \<longleftrightarrow> se_case ev \<in> {OnMax, OnCtxDone, OnIdle None}"

definition honest :: "chunk list \<Rightarrow> select_event list \<Rightarrow> string \<times> streamOutcome option \<Rightarrow> bool" where
  "honest cs evs res \<longleftrightarrow>
     prefix (fst res) (all_data cs) \<and>
     (snd res = Some streamCompleted \<longrightarrow> ends_with EOF cs \<and> fst res = all_data cs) \<and>
     (snd res = Some streamUpstreamError \<longrightarrow>
        ends_with ReadFailed cs \<and> fst res = all_data cs \<and> (\<exists>ev\<in>set evs. \<not> se_ctxErr ev)) \<and>
     (snd res = Some streamStalled \<longrightarrow> (\<exists>ev\<in>set evs. se_case ev = OnIdle None)) \<and>
     (snd res = Some streamMaxReached \<longrightarrow> (\<exists>ev\<in>set evs. se_case ev = OnMax)) \<and>
     (snd res = Some streamClientGone \<longrightarrow>
        (\<exists>ev\<in>set evs. se_case ev = OnCtxDone \<or> \<not> se_writeOk ev \<or> se_ctxErr ev)) \<and>
     (snd res = None \<longrightarrow> fst res = all_data (received evs) \<and> list_all (\<lambda>ev. \<not> stops ev) evs)"

lemmas stream_defs = honest_def all_data_def ends_with_def stops_def received_def

lemma honest_next:
  assumes "honest cs evs (out, r)" "select_step ev = (ck_data c, None)" "received [ev] = [c]" "\<not> stops ev"
    "ck_err c = None"
  shows "honest (c # cs) (ev # evs) (ck_data c @ out, r)"
proof -
  have rc: "received (ev # evs) = c # received evs" using assms(3) by (simp add: received_def)
  show ?thesis using assms(1,4,5) rc by (auto simp: honest_def all_data_def ends_with_def)
qed

text \<open>A chunk that arrives together with the idle timer is treated like any other.\<close>

lemma received_step:
  assumes "received [ev] = [c]" "wf_chunks (c # cs)"
  shows "select_step ev = on_chunk ev c"
  using assms
  by (auto simp: received_def select_step_def on_idle_def on_chunk_def split: select_case.splits option.splits if_splits)

lemma streamCopy_honest:
  assumes "prefix (received evs) cs" "wf_chunks cs"
  shows "honest cs evs (streamCopy evs)"
  using assms
proof (induction evs arbitrary: cs)
  case Nil
  then show ?case by (simp add: stream_defs)
next
  case (Cons ev evs)
  show ?case
  proof (cases "stops ev")
    case True
    then show ?thesis by (auto simp: select_step_def on_idle_def stream_defs)
  next
    case ns: False
    then have "\<exists>c. received [ev] = [c]" by (cases "se_case ev") (auto simp: received_def stops_def split: option.split)
    then obtain c where rc: "received [ev] = [c]" by blast
    then obtain cs' where cs: "cs = c # cs'" and pre: "prefix (received evs) cs'"
      using Cons.prems(1) by (cases cs) (auto simp: received_def)
    from received_step [OF rc] Cons.prems(2) cs have st: "select_step ev = on_chunk ev c" by simp
    show ?thesis
    proof (cases "ck_err c = None \<and> se_writeOk ev")
      case True
      with Cons.prems(2) cs have wf: "wf_chunks cs'" by auto
      obtain out r where res: "streamCopy evs = (out, r)" by fastforce
      have st': "select_step ev = (ck_data c, None)" using True st by (simp add: on_chunk_def)
      from honest_next [OF _ st' rc ns] True Cons.IH [OF pre wf] res st' cs show ?thesis by simp
    next
      case False
      with Cons.prems(2) cs st show ?thesis
        by (cases "ck_err c"; cases "the (ck_err c)") (auto simp: on_chunk_def err_outcome_def stream_defs)
    qed
  qed
qed

text \<open>The event that decides how a stream ends.\<close>

lemma deciding_event:
  "snd (streamCopy evs) = Some out \<Longrightarrow>
   \<exists>pre ev post. evs = pre @ ev # post \<and> snd (streamCopy pre) = None \<and> snd (select_step ev) = Some out"
proof (induction evs)
  case (Cons ev evs)
  obtain w r where st: "select_step ev = (w, r)" by fastforce
  show ?case
  proof (cases r)
    case None
    with Cons st obtain pre ev' post where "evs = pre @ ev' # post" "snd (streamCopy pre) = None" "snd (select_step ev') = Some out"
      by (auto split: prod.splits)
    with None st show ?thesis by (intro exI [of _ "ev # pre"]) (auto split: prod.split)
  next
    case (Some o1)
    with Cons.prems st show ?thesis by (intro exI [of _ "[]"]) auto
  qed
qed simp

lemma blaming_step:
  assumes "snd (select_step ev) = Some out" "upstreamFault out"
  shows "se_case ev = OnIdle None \<and> out = streamStalled \<or>
    \<not> se_ctxErr ev \<and> out = streamUpstreamError \<and> (\<exists>c. received [ev] = [c] \<and> ck_err c = Some ReadFailed)"
  using assms
  by (auto simp: select_step_def on_chunk_def on_idle_def err_outcome_def upstreamFault_def received_def
      split: select_case.splits option.splits if_splits) (metis read_err.exhaust)+

section \<open>Properties\<close>

text \<open>C23. A relayed stream is honest. The reader's chunks reach the loop in order, some of them perhaps
  not at all. The client has received a prefix of what the upstream sent; the stream is called
  completed only after a clean end of the body and with every byte written; it is blamed on the
  upstream only by the event that ends the loop, which is an idle gap with nothing pending or the
  failed read itself, with the request not cancelled when it is handled; and the loop has ended once the
  lifetime limit, a cancellation or an idle gap occurred.\<close>

theorem stream_honest:
  assumes "prefix (received evs) (reader reads)"
  shows "prefix (fst (streamCopy evs)) (all_data (reader reads)) \<and>
    (snd (streamCopy evs) = Some streamCompleted \<longrightarrow>
       ends_with EOF (reader reads) \<and> fst (streamCopy evs) = all_data (reader reads)) \<and>
    (\<forall>out. snd (streamCopy evs) = Some out \<and> upstreamFault out \<longrightarrow>
       (\<exists>pre ev post. evs = pre @ ev # post \<and> snd (streamCopy pre) = None \<and>
          (se_case ev = OnIdle None \<or>
           \<not> se_ctxErr ev \<and> (\<exists>c. received [ev] = [c] \<and> ck_err c = Some ReadFailed) \<and> ends_with ReadFailed (reader reads)))) \<and>
    ((\<exists>ev\<in>set evs. se_case ev \<in> {OnMax, OnCtxDone, OnIdle None}) \<longrightarrow> snd (streamCopy evs) \<noteq> None)"
proof -
  have h: "honest (reader reads) evs (streamCopy evs)" by (rule streamCopy_honest [OF assms wf_reader])
  have "\<exists>pre ev post. evs = pre @ ev # post \<and> snd (streamCopy pre) = None \<and>
      (se_case ev = OnIdle None \<or>
       \<not> se_ctxErr ev \<and> (\<exists>c. received [ev] = [c] \<and> ck_err c = Some ReadFailed) \<and> ends_with ReadFailed (reader reads))"
    if out: "snd (streamCopy evs) = Some out" "upstreamFault out" for out
  proof -
    from deciding_event [OF out(1)] obtain pre ev post where
      ev: "evs = pre @ ev # post" "snd (streamCopy pre) = None" "snd (select_step ev) = Some out" by blast
    from blaming_step [OF ev(3) out(2)] h out(1) ev(1,2) show ?thesis unfolding honest_def by blast
  qed
  with h show ?thesis unfolding honest_def stops_def list_all_iff by blast
qed

definition ex_stream :: "select_event list" where
  "ex_stream =
     [\<lparr>se_case = OnChunk \<lparr>ck_data = ''ab'', ck_err = None\<rparr>, se_writeOk = True, se_ctxErr = False\<rparr>,
      \<lparr>se_case = OnIdle (Some \<lparr>ck_data = ''c'', ck_err = None\<rparr>), se_writeOk = True, se_ctxErr = False\<rparr>,
      \<lparr>se_case = OnChunk \<lparr>ck_data = [], ck_err = Some EOF\<rparr>, se_writeOk = True, se_ctxErr = False\<rparr>]"

theorem stream_honest_witness:
  "streamCopy ex_stream = (''abc'', Some streamCompleted) \<and>
   ends_with EOF (reader [(''ab'', None), (''c'', Some EOF)]) \<and>
   fst (streamCopy ex_stream) = all_data (reader [(''ab'', None), (''c'', Some EOF)])"
proof -
  have p: "prefix (received ex_stream) (reader [(''ab'', None), (''c'', Some EOF)])"
    by (simp add: ex_stream_def received_def)
  have run: "streamCopy ex_stream = (''abc'', Some streamCompleted)"
    by (simp add: ex_stream_def select_step_def on_chunk_def on_idle_def err_outcome_def)
  with stream_honest [OF p] show ?thesis by simp
qed

text \<open>C24. Waiting for the first event ends on every body and gives the body back: the reader handed on
  yields exactly the bytes of the upstream, whether an event arrived, the stream ended or the timer
  fired; an event is reported exactly when some complete line other than a keepalive comment carries
  data.\<close>

theorem first_event_replays:
  "case awaitFirstStreamEvent body timerFirst of (replayed, gotEvent, timedOut) \<Rightarrow>
     replayed = body \<and> timedOut = timerFirst \<and>
     gotEvent = (\<not> timerFirst \<and> (\<exists>line\<in>set (lines_of body). \<not> keepalive line \<and> carries_data line))"
  using await_loop_body [of "[]" body] await_loop_ok [of "[]" body]
  by (simp add: awaitFirstStreamEvent_def Let_def payload_line_def)

end
