(* ===== verification/Counters.thy ===== *)
theory Counters
  imports Fallback Streaming
begin

text \<open>
  The event counters of the router, \<open>src/internal/router/router_counters.go\<close>: 64-bit atomic integers,
  which wrap around, and the two tables of latency samples by breaker key.
\<close>

section \<open>Counters\<close>

record firstEventStat =
  fs_sumNanos :: int
  fs_count :: int

record routerCounters =
  rc_streamsCompleted :: int
  rc_streamsStalled :: int
  rc_streamsUpstreamErr :: int
  rc_streamsMaxReached :: int
  rc_streamsClientGone :: int
  rc_admissionRejected :: int
  rc_capabilityRefused :: int
  rc_unknownProfileRejected :: int
  rc_paidEmbeddingRefused :: int
  rc_streamFirstEventTimeout :: int
  rc_chainFailedCancelled :: int
  rc_chainFailedTotalTimeout :: int
  rc_chainFailedTerminal :: int
  rc_chainFailedExhausted :: int
  rc_chainFailedExecutorError :: int
  rc_allModelsCooling :: int
  rc_quotaHeld :: int
  rc_firstEventStats :: "(string, firstEventStat) gomap"
  rc_firstTokenStats :: "(string, firstEventStat) gomap"

definition bump :: "int \<Rightarrow> int" where
  "bump n = wrap64 (n + 1)"

definition observe_latency :: "string \<Rightarrow> duration \<Rightarrow> (string, firstEventStat) gomap \<Rightarrow> (string, firstEventStat) gomap" where
  "observe_latency key d into =
     (let stat = m_get_or \<lparr>fs_sumNanos = 0, fs_count = 0\<rparr> into key
      in m_set key \<lparr>fs_sumNanos = wrap64 (fs_sumNanos stat + d), fs_count = bump (fs_count stat)\<rparr> into)"

record ModelLatency =
  ml_Model :: string
  ml_SumSeconds :: real
  ml_Count :: int

definition snapshotLatency :: "(string, firstEventStat) gomap \<Rightarrow> ModelLatency list" where
  "snapshotLatency from =
     sort_key ml_Model (map (\<lambda>(model, stat).
       \<lparr>ml_Model = model, ml_SumSeconds = real_of_int (fs_sumNanos stat) / 1000000000, ml_Count = fs_count stat\<rparr>) from)"

fun recordChainFailure :: "chainFailureReason \<Rightarrow> routerCounters \<Rightarrow> routerCounters" where
  "recordChainFailure chainCancelled c = c\<lparr>rc_chainFailedCancelled := bump (rc_chainFailedCancelled c)\<rparr>"
| "recordChainFailure chainTotalTimeout c = c\<lparr>rc_chainFailedTotalTimeout := bump (rc_chainFailedTotalTimeout c)\<rparr>"
| "recordChainFailure chainTerminal c = c\<lparr>rc_chainFailedTerminal := bump (rc_chainFailedTerminal c)\<rparr>"
| "recordChainFailure chainExhausted c = c\<lparr>rc_chainFailedExhausted := bump (rc_chainFailedExhausted c)\<rparr>"
| "recordChainFailure chainExecutorError c = c\<lparr>rc_chainFailedExecutorError := bump (rc_chainFailedExecutorError c)\<rparr>"

fun recordStreamOutcome :: "streamOutcome \<Rightarrow> routerCounters \<Rightarrow> routerCounters" where
  "recordStreamOutcome streamCompleted c = c\<lparr>rc_streamsCompleted := bump (rc_streamsCompleted c)\<rparr>"
| "recordStreamOutcome streamStalled c = c\<lparr>rc_streamsStalled := bump (rc_streamsStalled c)\<rparr>"
| "recordStreamOutcome streamUpstreamError c = c\<lparr>rc_streamsUpstreamErr := bump (rc_streamsUpstreamErr c)\<rparr>"
| "recordStreamOutcome streamMaxReached c = c\<lparr>rc_streamsMaxReached := bump (rc_streamsMaxReached c)\<rparr>"
| "recordStreamOutcome streamClientGone c = c\<lparr>rc_streamsClientGone := bump (rc_streamsClientGone c)\<rparr>"

definition recordFirstEventLatency :: "RouterService \<Rightarrow> modelAttempt \<Rightarrow> duration \<Rightarrow> routerCounters \<Rightarrow> routerCounters" where
  "recordFirstEventLatency s attempt d c =
     c\<lparr>rc_firstEventStats := observe_latency (breakerKey s attempt) d (rc_firstEventStats c)\<rparr>"

definition recordFirstTokenLatency :: "RouterService \<Rightarrow> modelAttempt \<Rightarrow> duration \<Rightarrow> routerCounters \<Rightarrow> routerCounters" where
  "recordFirstTokenLatency s attempt d c =
     c\<lparr>rc_firstTokenStats := observe_latency (breakerKey s attempt) d (rc_firstTokenStats c)\<rparr>"

text \<open>The exported snapshot.\<close>

record RouterCounters =
  co_StreamsCompleted :: int
  co_StreamsStalled :: int
  co_StreamsUpstreamErr :: int
  co_StreamsMaxReached :: int
  co_StreamsClientGone :: int
  co_AdmissionRejected :: int
  co_CapabilityRefused :: int
  co_UnknownProfileRejected :: int
  co_PaidEmbeddingRefused :: int
  co_StreamFirstEventTimeout :: int
  co_ChainFailedCancelled :: int
  co_ChainFailedTotalTimeout :: int
  co_ChainFailedTerminal :: int
  co_ChainFailedExhausted :: int
  co_ChainFailedExecutorError :: int
  co_AllModelsCooling :: int
  co_QuotaHeld :: int
  co_FirstEventLatency :: "ModelLatency list"
  co_FirstTokenLatency :: "ModelLatency list"

definition Counters_of :: "routerCounters \<Rightarrow> RouterCounters" where
  "Counters_of c = \<lparr>co_StreamsCompleted = rc_streamsCompleted c, co_StreamsStalled = rc_streamsStalled c,
     co_StreamsUpstreamErr = rc_streamsUpstreamErr c, co_StreamsMaxReached = rc_streamsMaxReached c,
     co_StreamsClientGone = rc_streamsClientGone c, co_AdmissionRejected = rc_admissionRejected c,
     co_CapabilityRefused = rc_capabilityRefused c,
     co_UnknownProfileRejected = rc_unknownProfileRejected c,
     co_PaidEmbeddingRefused = rc_paidEmbeddingRefused c,
     co_StreamFirstEventTimeout = rc_streamFirstEventTimeout c,
     co_ChainFailedCancelled = rc_chainFailedCancelled c,
     co_ChainFailedTotalTimeout = rc_chainFailedTotalTimeout c,
     co_ChainFailedTerminal = rc_chainFailedTerminal c,
     co_ChainFailedExhausted = rc_chainFailedExhausted c,
     co_ChainFailedExecutorError = rc_chainFailedExecutorError c,
     co_AllModelsCooling = rc_allModelsCooling c, co_QuotaHeld = rc_quotaHeld c,
     co_FirstEventLatency = snapshotLatency (rc_firstEventStats c),
     co_FirstTokenLatency = snapshotLatency (rc_firstTokenStats c)\<rparr>"

section \<open>Snapshots\<close>

lemma snapshot_sorted: "sorted (map ml_Model (snapshotLatency from))"
  by (simp add: snapshotLatency_def)

lemma snapshot_complete: "ml_Model ` set (snapshotLatency from) = fst ` set from"
  by (simp add: snapshotLatency_def image_image case_prod_beta)

lemma observe_latency_get:
  "m_get (observe_latency key d into) k =
     (if k = key
      then Some \<lparr>fs_sumNanos = wrap64 (fs_sumNanos (m_get_or \<lparr>fs_sumNanos = 0, fs_count = 0\<rparr> into key) + d),
                 fs_count = bump (fs_count (m_get_or \<lparr>fs_sumNanos = 0, fs_count = 0\<rparr> into key))\<rparr>
      else m_get into k)"
  by (simp add: observe_latency_def Let_def)

end
