(* ===== verification/Upstream.thy ===== *)
theory Upstream
  imports Quota_Routing Http Counters
begin

text \<open>
  One attempt at one provider, \<open>executeAttempt\<close> of \<open>src/internal/router/router_upstream.go\<close>, and
  \<open>executeFallbacks\<close> of \<open>router_fallback.go\<close>, which runs a chain of such attempts.

  The world of the fallback chain is extended by the trace, the response writer and the counters of
  the router. What the environment does during an attempt is an \<open>exchange\<close>: the readings of the
  clock, numbered by call site, the result of the HTTP call, the bytes of the body and the error that
  ends it, and the cases the copy loop of a stream takes. Decoders, the JSON encoder of the trace and the response
  transformer are parameters (\<open>upstream_env\<close>). Telemetry spans and logs are not modelled.
\<close>

section \<open>The environment of an attempt\<close>

record upstream_env =
  ue_quota :: quota_env
  ue_credentials :: credential_env
  ue_parsers :: parsers
  ue_marshal :: "body \<Rightarrow> string"
  ue_Unmarshal :: "string \<Rightarrow> body"
  ue_usage :: "string \<Rightarrow> usage option"
  ue_transform :: "string \<Rightarrow> string"
  ue_badURL :: "string \<Rightarrow> transportError option"
  ue_traceFull :: bool
  ue_traceJSON :: "traceView \<Rightarrow> string option"

definition ue_env :: "upstream_env \<Rightarrow> process_env" where
  "ue_env u = qv_env (ue_quota u)"

record exchange =
  xc_clock :: "nat \<Rightarrow> go_time"
  xc_result :: "transportError + httpResponse"
  xc_canceled :: bool
  xc_body :: string
  xc_readErr :: "string option"
  xc_timerFirst :: bool
  xc_events :: "select_event list"

record net_world = world +
  nw_trace :: "routeTrace option"
  nw_writer :: responseWriter
  nw_counters :: routerCounters

abbreviation on_service :: "(RouterService \<Rightarrow> RouterService) \<Rightarrow> net_world \<Rightarrow> net_world" where
  "on_service f w \<equiv> w\<lparr>w_service := f (w_service w)\<rparr>"

abbreviation on_trace :: "(routeTrace \<Rightarrow> routeTrace) \<Rightarrow> net_world \<Rightarrow> net_world" where
  "on_trace f w \<equiv> w\<lparr>nw_trace := map_option f (nw_trace w)\<rparr>"

abbreviation on_counters :: "(routerCounters \<Rightarrow> routerCounters) \<Rightarrow> net_world \<Rightarrow> net_world" where
  "on_counters f w \<equiv> w\<lparr>nw_counters := f (nw_counters w)\<rparr>"

abbreviation on_writer :: "(responseWriter \<Rightarrow> responseWriter) \<Rightarrow> net_world \<Rightarrow> net_world" where
  "on_writer f w \<equiv> w\<lparr>nw_writer := f (nw_writer w)\<rparr>"

section \<open>Before the request is sent\<close>

definition attempt_estimate :: "upstream_env \<Rightarrow> string \<Rightarrow> modelAttempt \<Rightarrow> QuotaEstimate" where
  "attempt_estimate u body attempt =
     (let estimate = ma_QuotaEstimate attempt
      in if qe_Requests estimate \<le> 0 \<or> qe_Tokens estimate \<le> 0
         then providerQuotaEstimate (ue_env u) attempt
                (estimateRequestQuota (ue_env u) (ue_marshal u) (ue_Unmarshal u body))
         else estimate)"

text \<open>The deferred settlement of the ticket.\<close>

definition deferred ::
  "upstream_env \<Rightarrow> exchange \<Rightarrow> QuotaTicket \<Rightarrow> bool \<Rightarrow> bool \<Rightarrow> modelAttempt \<Rightarrow> string \<Rightarrow> net_world \<Rightarrow> net_world" where
  "deferred u x ticket sent settled attempt providerKey w =
     (if \<not> Valid ticket \<or> settled then w
      else if \<not> sent
      then on_service (\<lambda>s. s\<lparr>rs_quota := fst (Release (rs_quota s) ticket (xc_clock x 90))\<rparr>) w
      else on_service (\<lambda>s. fst (observeAndSettleQuota (ue_parsers u) (ue_quota u) (xc_clock x 91) ticket attempt providerKey
             0 [] [] (qe_Tokens (ma_QuotaEstimate attempt)) (xc_clock x 92) s)) w)"

definition soft_error :: "int \<Rightarrow> string \<Rightarrow> attemptError" where
  "soft_error status message =
     zeroError\<lparr>ae_StatusCode := status, ae_Retryable := True, ae_SkipModel := True, ae_Message := message\<rparr>"

definition settle_probes :: "modelAttempt \<Rightarrow> RouterService \<Rightarrow> RouterService" where
  "settle_probes attempt s = resolveProviderProbe (ma_Provider attempt) (resolveProbe attempt s)"

definition record_trace_failure :: "modelAttempt \<Rightarrow> int \<Rightarrow> string \<Rightarrow> string \<Rightarrow> net_world \<Rightarrow> net_world" where
  "record_trace_failure attempt status kind reason =
     on_trace (recordAttemptFailure (ma_Model attempt) (int (ma_AttemptIndex attempt)) status kind reason)"

section \<open>The upstream did not answer with 200\<close>

text \<open>The call failed: cancelled by the client, or a transport error.\<close>

definition transport_failed ::
  "upstream_env \<Rightarrow> exchange \<Rightarrow> modelAttempt \<Rightarrow> transportError \<Rightarrow> net_world \<Rightarrow> net_world \<times> attemptError" where
  "transport_failed u x attempt err w =
     (if xc_canceled x
      then (on_service (settle_probes attempt) w,
            zeroError\<lparr>ae_StatusCode := 503, ae_SkipModel := True,
              ae_Message := ''request cancelled before the upstream responded''\<rparr>)
      else
        let attErr = classifyTransportError err;
            w = record_trace_failure attempt 0 ''transport'' (ae_Message attErr) w;
            w = on_service (penalizeScore (ue_env u) (xc_clock x 10) attempt (ae_StatusCode attErr)) w;
            w = (if ae_BreakerEligible attErr
                 then on_service (recordFailure (xc_clock x 11) (xc_clock x 12) (xc_clock x 13) attempt
                        (ae_StatusCode attErr) (ae_Message attErr) None) w
                 else w);
            w = on_service (resolveProviderProbe (ma_Provider attempt)) w
        in (w, attErr))"

text \<open>Who refused: what a status and an error body say about the attempt. \<open>retryAfter\<close> is the wait the
  provider asks for, already fixed as a cooldown when the quota is exhausted, and \<open>pool\<close> whether it is
  the shared free pool that is spent.\<close>

definition quota_refusal :: "int \<Rightarrow> bool" where
  "quota_refusal status \<longleftrightarrow> status = 429 \<or> status = 413"

definition account_refusal :: "parsers \<Rightarrow> int \<Rightarrow> string \<Rightarrow> bool" where
  "account_refusal p status body \<longleftrightarrow>
     (status = 401 \<or> status = 403 \<or> status = 402) \<and> \<not> isProviderRelayedError p body"

definition refusal ::
  "parsers \<Rightarrow> modelAttempt \<Rightarrow> int \<Rightarrow> string \<Rightarrow> duration \<Rightarrow> bool \<Rightarrow> attemptError" where
  "refusal p attempt status body retryAfter pool =
     (let e = classifyHTTPError status;
          e = (if account_refusal p status body \<and> ma_Provider attempt \<noteq> providerOpenRouter
               then e\<lparr>ae_ProviderUnavailable := True\<rparr> else e);
          e = (if quota_refusal status
               then e\<lparr>ae_QuotaLimited := True, ae_SkipModel := True, ae_RetryAfter := retryAfter,
                      ae_QuotaPool := (if pool then quotaFreePool else ae_QuotaPool e)\<rparr> else e);
          e = (if status = 400 \<or> isProviderRelayedError p body then e\<lparr>ae_SkipModel := True\<rparr> else e)
      in if IsCompatibilityError (ma_Provider attempt) status body
         then e\<lparr>ae_SkipProvider := True, ae_SkipModel := True\<rparr> else e)"

definition longest_wait :: "duration \<Rightarrow> providerQuotaObservation list \<Rightarrow> duration" where
  "longest_wait d observations = fold (\<lambda>ob d. if po_RetryAfter ob > d then po_RetryAfter ob else d) observations d"

definition pool_exhausted :: "providerQuotaObservation list \<Rightarrow> bool" where
  "pool_exhausted observations \<longleftrightarrow> list_ex (\<lambda>ob. po_Exhausted ob \<and> po_Scope ob = ''free_pool'') observations"

definition http_refused ::
  "upstream_env \<Rightarrow> exchange \<Rightarrow> modelAttempt \<Rightarrow> string \<Rightarrow> QuotaTicket \<Rightarrow> httpResponse \<Rightarrow> net_world \<Rightarrow> net_world \<times> attemptError" where
  "http_refused u x attempt providerKey ticket resp w =
     (let body = take (nat maxErrorBodyBytes) (xc_body x);
          status = rp_StatusCode resp;
          wait = parseRetryAfter (ParseTime (ue_parsers u)) (xc_clock x 20) (header_get (rp_Header resp) ''Retry-After'');
          (s, observations) = observeAndSettleQuota (ue_parsers u) (ue_quota u) (xc_clock x 21) ticket attempt providerKey status
             (rp_Header resp) body (qe_Tokens (ma_QuotaEstimate attempt)) (xc_clock x 22) (w_service w);
          wait = longest_wait wait observations;
          limited = quota_refusal status;
          (s, wait) = (if limited then setQuotaCooldown attempt wait (xc_clock x 23) s else (s, wait));
          s = (if limited then settle_probes attempt s else s);
          attErr = refusal (ue_parsers u) attempt status body wait (pool_exhausted observations);
          w = record_trace_failure attempt status (traceKindFor attErr) (ae_Message attErr) (w\<lparr>w_service := s\<rparr>);
          nonModel = limited \<or> account_refusal (ue_parsers u) status body;
          w = (if \<not> nonModel then on_service (penalizeScore (ue_env u) (xc_clock x 24) attempt (ae_StatusCode attErr)) w else w);
          w = (if ae_BreakerEligible attErr \<and> \<not> nonModel
               then on_service (recordFailure (xc_clock x 25) (xc_clock x 26) (xc_clock x 27) attempt
                      (ae_StatusCode attErr) (ae_Message attErr) (Some wait)) w else w);
          w = (if ae_ProviderUnavailable attErr
               then on_service (recordProviderFailure (xc_clock x 28) attempt (ae_StatusCode attErr) (ae_Message attErr) True wait) w
               else on_service (resolveProviderProbe (ma_Provider attempt)) w);
          w = (if nonModel \<or> \<not> ae_BreakerEligible attErr then on_service (resolveProbe attempt) w else w)
      in (w, attErr))"

section \<open>A streamed answer\<close>

definition serve_headers :: "upstream_env \<Rightarrow> modelAttempt \<Rightarrow> net_world \<Rightarrow> net_world" where
  "serve_headers u attempt w =
     (let w = on_trace (recordServed (ma_Model attempt) (int (ma_AttemptIndex attempt))) w
      in on_writer (\<lambda>wr. wr\<lparr>rw_Header :=
           setServedModelHeaders (ue_traceFull u) (ue_traceJSON u) (nw_trace w) attempt (rw_Header wr)\<rparr>) w)"

definition stream_ended :: "upstream_env \<Rightarrow> exchange \<Rightarrow> modelAttempt \<Rightarrow> streamOutcome \<Rightarrow> RouterService \<Rightarrow> RouterService" where
  "stream_ended u x attempt outcome s =
     (if outcome = streamCompleted
      then resolveProviderSuccess (ma_Provider attempt) (recordSuccess (ue_env u) (xc_clock x 40) attempt s)
      else if upstreamFault outcome
      then resolveProviderProbe (ma_Provider attempt)
             (recordFailure (xc_clock x 41) (xc_clock x 42) (xc_clock x 43) attempt 502
                (''stream ended abnormally: '' @ outcome_String outcome) None
                (penalizeScore (ue_env u) (xc_clock x 44) attempt 502 s))
      else s)"

text \<open>The copy of the body, over the cases its \<open>select\<close> takes; the end of the request's context closes
  the list, so the loop has always ended (lemma \<open>copied_ended\<close>).\<close>

definition copied :: "exchange \<Rightarrow> string \<times> streamOutcome" where
  "copied x = (case streamCopy (xc_events x @ [\<lparr>se_case = OnCtxDone, se_writeOk = True, se_ctxErr = True\<rparr>]) of
     (out, Some outcome) \<Rightarrow> (out, outcome)
   | (out, None) \<Rightarrow> (out, streamClientGone))"

lemma streamCopy_closed: "snd (streamCopy (evs @ [\<lparr>se_case = OnCtxDone, se_writeOk = a, se_ctxErr = b\<rparr>])) \<noteq> None"
  by (induction evs) (auto simp: select_step_def split: prod.splits option.splits)

lemma copied_ended:
  "copied x = (out, outcome) \<longleftrightarrow>
   streamCopy (xc_events x @ [\<lparr>se_case = OnCtxDone, se_writeOk = True, se_ctxErr = True\<rparr>]) = (out, Some outcome)"
  using streamCopy_closed [of "xc_events x" True True] by (auto simp: copied_def split: prod.splits option.splits)

definition relay_stream :: "upstream_env \<Rightarrow> exchange \<Rightarrow> modelAttempt \<Rightarrow> httpResponse \<Rightarrow> net_world \<Rightarrow> net_world" where
  "relay_stream u x attempt resp w =
     (let w = serve_headers u attempt w;
          w = on_writer (streamProxyResponse resp) w;
          (out, outcome) = copied x;
          w = on_writer (\<lambda>wr. wr\<lparr>rw_Body := rw_Body wr @ out\<rparr>) w;
          w = on_counters (recordStreamOutcome outcome) w
      in on_service (stream_ended u x attempt outcome) w)"

definition scoreStatusSoftOnly :: int where "scoreStatusSoftOnly = 0"

definition abandon_stream :: "upstream_env \<Rightarrow> exchange \<Rightarrow> modelAttempt \<Rightarrow> net_world \<Rightarrow> net_world \<times> attemptError" where
  "abandon_stream u x attempt w =
     (let w = on_service (penalizeScore (ue_env u) (xc_clock x 30) attempt scoreStatusSoftOnly) w;
          w = on_counters (\<lambda>c. c\<lparr>rc_streamFirstEventTimeout := bump (rc_streamFirstEventTimeout c)\<rparr>) w
      in (w, soft_error 503 (''no stream event from '' @ ma_Model attempt @ '' within the first-event budget'')))"

definition await_stream ::
  "upstream_env \<Rightarrow> exchange \<Rightarrow> modelAttempt \<Rightarrow> httpResponse \<Rightarrow> net_world \<Rightarrow> net_world attempt_run" where
  "await_stream u x attempt resp w =
     (case awaitFirstStreamEvent (xc_body x) (xc_timerFirst x) of (replayed, gotEvent, timedOut) \<Rightarrow>
        let w = on_counters (recordFirstEventLatency (w_service w) attempt (sub_time (xc_clock x 32) (xc_clock x 31))) w;
            go_on = (\<lambda>w. Returned (relay_stream u x attempt resp
              (if gotEvent
               then on_counters (recordFirstTokenLatency (w_service w) attempt (sub_time (xc_clock x 33) (xc_clock x 5))) w
               else w)) None)
        in if timedOut
           then AsksFallback w (\<lambda>r. if snd r
                  then (case abandon_stream u x attempt (fst r) of (w, e) \<Rightarrow> Returned w (Some (AttErr e)))
                  else go_on (fst r))
           else go_on w)"

definition stream_answer ::
  "upstream_env \<Rightarrow> exchange \<Rightarrow> modelAttempt \<Rightarrow> string \<Rightarrow> QuotaTicket \<Rightarrow> httpResponse \<Rightarrow> net_world \<Rightarrow> net_world attempt_run" where
  "stream_answer u x attempt providerKey ticket resp w =
     (let w = on_service (\<lambda>s. settle_probes attempt (fst (observeAndSettleQuota (ue_parsers u) (ue_quota u) (xc_clock x 34) ticket
            attempt providerKey (rp_StatusCode resp) (rp_Header resp) [] (qe_Tokens (ma_QuotaEstimate attempt)) (xc_clock x 35) s))) w
      in if streamFirstEventTimeout (ue_env u) > 0 \<and> \<not> ma_LastInChain attempt
         then await_stream u x attempt resp w
         else Returned (relay_stream u x attempt resp w) None)"

section \<open>A buffered answer\<close>

text \<open>Reading at most \<open>n\<close> bytes: the error of the body shows only when it comes before the limit.\<close>

definition read_limited :: "exchange \<Rightarrow> int \<Rightarrow> string \<times> string option" where
  "read_limited x n = (take (nat n) (xc_body x), if int (length (xc_body x)) < n then xc_readErr x else None)"

definition bad_body ::
  "upstream_env \<Rightarrow> exchange \<Rightarrow> modelAttempt \<Rightarrow> string \<Rightarrow> net_world \<Rightarrow> net_world \<times> attemptError" where
  "bad_body u x attempt message w =
     (let attErr = zeroError\<lparr>ae_StatusCode := 502, ae_Retryable := True, ae_Message := message\<rparr>;
          w = on_service (penalizeScore (ue_env u) (xc_clock x 50) attempt 502) w;
          w = on_service (recordFailure (xc_clock x 51) (xc_clock x 52) (xc_clock x 53) attempt 502 message None) w;
          w = on_service (resolveProviderProbe (ma_Provider attempt)) w
      in (w, attErr))"

definition buffered_answer ::
  "upstream_env \<Rightarrow> exchange \<Rightarrow> modelAttempt \<Rightarrow> string \<Rightarrow> string \<Rightarrow> QuotaTicket \<Rightarrow> httpResponse \<Rightarrow> net_world \<Rightarrow>
   net_world \<times> bool \<times> attemptError option" where
  "buffered_answer u x attempt providerKey opPath ticket resp w =
     (let limit = maxResponseBytes (ue_env u);
          (respBytes, readErr) = read_limited x (wrap64 (limit + 1))
      in case readErr of
           Some e \<Rightarrow>
             (case bad_body u x attempt (''truncated upstream response: '' @ e) w of (w, er) \<Rightarrow> (w, False, Some er))
         | None \<Rightarrow>
             if int (length respBytes) > limit
             then (case bad_body u x attempt ''upstream response exceeds PROXY_MAX_RESPONSE_BYTES'' w of
                     (w, er) \<Rightarrow> (w, False, Some er))
             else
               let tokens = actualResponseTokens (ue_usage u respBytes) (qe_Tokens (ma_QuotaEstimate attempt));
                   w = on_service (\<lambda>s. fst (observeAndSettleQuota (ue_parsers u) (ue_quota u) (xc_clock x 60) ticket attempt
                         providerKey (rp_StatusCode resp) (rp_Header resp) respBytes tokens (xc_clock x 61) s)) w;
                   w = on_service (\<lambda>s. resolveProviderSuccess (ma_Provider attempt)
                         (recordSuccess (ue_env u) (xc_clock x 62) attempt s)) w;
                   respBytes = (if opPath = chatCompletionsPath then ue_transform u respBytes else respBytes);
                   w = on_writer (writeProxyResponse resp respBytes) (serve_headers u attempt w)
               in (w, True, None))"

section \<open>The attempt\<close>

text \<open>After the call, with the ticket held: the response decides.\<close>

definition after_call ::
  "upstream_env \<Rightarrow> exchange \<Rightarrow> modelAttempt \<Rightarrow> string \<Rightarrow> string \<Rightarrow> QuotaTicket \<Rightarrow> net_world \<Rightarrow> net_world attempt_run" where
  "after_call u x attempt providerKey opPath ticket w =
     (case xc_result x of
        Inl err \<Rightarrow>
          (case transport_failed u x attempt err w of (w, e) \<Rightarrow>
             Returned (deferred u x ticket True False attempt providerKey w) (Some (AttErr e)))
      | Inr resp \<Rightarrow>
          if rp_StatusCode resp \<noteq> 200
          then (case http_refused u x attempt providerKey ticket resp w of (w, e) \<Rightarrow> Returned w (Some (AttErr e)))
          else if isEventStream resp then stream_answer u x attempt providerKey ticket resp w
          else (case buffered_answer u x attempt providerKey opPath ticket resp w of (w, settled, er) \<Rightarrow>
                  Returned (deferred u x ticket True settled attempt providerKey w) (map_option AttErr er)))"

text \<open>The ticket of the attempt, or one reserved now.\<close>

definition claim_ticket ::
  "upstream_env \<Rightarrow> exchange \<Rightarrow> modelAttempt \<Rightarrow> string \<Rightarrow> net_world \<Rightarrow> net_world \<times> QuotaTicket \<times> bool" where
  "claim_ticket u x attempt providerKey w =
     (if Valid (ma_QuotaTicket attempt) then (w, ma_QuotaTicket attempt, True)
      else case reserveFallbackQuota (ue_quota u) (w_service w) attempt providerKey (ma_QuotaEstimate attempt) (xc_clock x 4) of
             (s, t, ok) \<Rightarrow> (w\<lparr>w_service := s\<rparr>, t, ok))"

definition send_attempt ::
  "upstream_env \<Rightarrow> exchange \<Rightarrow> string \<Rightarrow> modelAttempt \<Rightarrow> string \<Rightarrow> net_world \<Rightarrow> net_world attempt_run" where
  "send_attempt u x body attempt providerKey w =
     (let opPath = (if ma_Path attempt = [] then chatCompletionsPath else ma_Path attempt);
          target = Resolve (ue_env u) attempt opPath
      in case newUpstreamRequest (ue_badURL u) ''POST'' (at_URL target) body providerKey of
           Inl err \<Rightarrow>
             Returned (deferred u x (ma_QuotaTicket attempt) False False attempt providerKey (on_service (settle_probes attempt) w))
               (Some (AttErr (classifyTransportError err)))
         | Inr req \<Rightarrow>
             (case claim_ticket u x attempt providerKey w of
                (w, ticket, False) \<Rightarrow>
                  Returned (on_service (settle_probes attempt) w)
                    (Some (AttErr (zeroError\<lparr>ae_StatusCode := 429, ae_Retryable := True, ae_SkipModel := True,
                       ae_QuotaLimited := True, ae_Message := providerDisplayName (ma_Provider attempt) @
                         '' is temporarily rate-limited for this model; trying another provider''\<rparr>)))
              | (w, ticket, True) \<Rightarrow>
                  after_call u x attempt providerKey opPath ticket
                    (on_service (recordProviderAttempt (ma_Provider attempt) (ma_BalanceReserved attempt)) w)))"

definition executeAttempt ::
  "upstream_env \<Rightarrow> exchange \<Rightarrow> string \<Rightarrow> string \<Rightarrow> modelAttempt \<Rightarrow> net_world \<Rightarrow> net_world attempt_run" where
  "executeAttempt u x body apiKey attempt0 w =
     (case providerCredential (ue_credentials u) (Some (w_service w)) attempt0 apiKey of
        None \<Rightarrow> Returned w (Some (AttErr (soft_error 503 (''provider '' @ ma_Provider attempt0 @ '' is not configured''))))
      | Some providerKey \<Rightarrow>
          let attempt = attempt0\<lparr>ma_QuotaEstimate := attempt_estimate u body attempt0\<rparr>;
              ticket = ma_QuotaTicket attempt
          in case tryStartProvider (xc_clock x 0) (xc_clock x 1) attempt (w_service w) of
               (s, False) \<Rightarrow>
                 Returned (deferred u x ticket False False attempt providerKey (w\<lparr>w_service := s\<rparr>))
                   (Some (AttErr (soft_error 503 (''provider '' @ ma_Provider attempt @ '' is cooling down''))))
             | (s, True) \<Rightarrow>
                 (case tryStartAttempt (xc_clock x 2) (xc_clock x 3) attempt s of
                    (s, False) \<Rightarrow>
                      let w = w\<lparr>w_service := resolveProviderProbe (ma_Provider attempt) s\<rparr>;
                          w = record_trace_failure attempt 0 ''probe'' ''recovery probe already in flight'' w
                      in Returned (deferred u x ticket False False attempt providerKey w)
                           (Some (AttErr (soft_error 503 (''recovery probe already in flight for '' @ ma_Model attempt))))
                  | (s, True) \<Rightarrow> send_attempt u x body attempt providerKey (w\<lparr>w_service := s\<rparr>)))"

section \<open>The chain of the router\<close>

text \<open>\<open>net\<close> is the environment: the exchange of an attempt made in a world. \<open>clock\<close> reads the time when a
  fallback is reserved, and \<open>wait\<close> the time after a back-off timer of a given duration.\<close>

definition router_chain_env ::
  "upstream_env \<Rightarrow> (string \<Rightarrow> modelAttempt \<Rightarrow> net_world \<Rightarrow> exchange) \<Rightarrow> (duration \<Rightarrow> go_time \<Rightarrow> go_time) \<Rightarrow>
   net_world chain_env" where
  "router_chain_env u net wait =
     \<lparr>env_executor = (\<lambda>body key deadline attempt w. executeAttempt u (net body attempt w) body key attempt w),
      env_marshal = ue_marshal u, env_wait = (\<lambda>d w. w\<lparr>w_clock := wait d (w_clock w)\<rparr>)\<rparr>"

definition reserve_fallback ::
  "upstream_env \<Rightarrow> (net_world \<Rightarrow> go_time) \<Rightarrow> body \<Rightarrow> string \<Rightarrow> net_world \<Rightarrow> modelAttempt \<Rightarrow> net_world \<times> QuotaTicket \<times> bool" where
  "reserve_fallback u clock reqBody apiKey w attempt =
     (case providerCredential (ue_credentials u) (Some (w_service w)) attempt apiKey of
        None \<Rightarrow> (w, noTicket, False)
      | Some credential \<Rightarrow>
          let base = estimateRequestQuota (ue_env u) (ue_marshal u) reqBody;
              estimate = ma_QuotaEstimate attempt;
              estimate = (if qe_Requests estimate \<le> 0 \<or> qe_Tokens estimate \<le> 0
                          then providerQuotaEstimate (ue_env u) attempt base else estimate)
          in case reserveFallbackQuota (ue_quota u) (w_service w) attempt credential estimate (clock w) of
               (s, t, ok) \<Rightarrow> (w\<lparr>w_service := s\<rparr>, t, ok))"

definition wire_execution ::
  "upstream_env \<Rightarrow> (net_world \<Rightarrow> go_time) \<Rightarrow> string \<Rightarrow> net_world FallbackExecution \<Rightarrow> net_world FallbackExecution" where
  "wire_execution u clock affinityKey x =
     x\<lparr>fe_OnSuccess := (case fe_OnSuccess x of
          None \<Rightarrow> Some (\<lambda>a w. w\<lparr>w_affinity := recordAffinitySuccess (clock w) affinityKey a (w_affinity w)\<rparr>) | f \<Rightarrow> f),
       fe_OnFailure := (case fe_OnFailure x of
          None \<Rightarrow> Some (\<lambda>a w. w\<lparr>w_affinity := recordAffinityFailure affinityKey a (w_affinity w)\<rparr>) | f \<Rightarrow> f),
       fe_ReserveQuota := (case fe_ReserveQuota x of
          None \<Rightarrow> Some (reserve_fallback u clock (fe_RequestBody x) (fe_APIKey x)) | f \<Rightarrow> f)\<rparr>"

definition executeFallbacks ::
  "upstream_env \<Rightarrow> (string \<Rightarrow> modelAttempt \<Rightarrow> net_world \<Rightarrow> exchange) \<Rightarrow> (duration \<Rightarrow> go_time \<Rightarrow> go_time) \<Rightarrow>
   (net_world \<Rightarrow> go_time) \<Rightarrow> string \<Rightarrow> net_world FallbackExecution \<Rightarrow> modelAttempt list \<Rightarrow> net_world \<Rightarrow>
   net_world \<times> chainError option" where
  "executeFallbacks u net wait clock affinityKey x attempts w =
     Execute (Some (router_chain_env u net wait)) (wire_execution u clock affinityKey x) attempts w"

section \<open>Which operations leave the ledger alone\<close>

named_theorems quota_frame

lemma frame_breakers [quota_frame]:
  "rs_quota (upd_model_breaker k f s) = rs_quota s"
  "rs_quota (upd_provider_breaker p f s) = rs_quota s"
  "rs_quota (markScoresDirty s) = rs_quota s"
  "rs_quota (put_model k st s) = rs_quota s"
  "rs_quota (put_provider p st s) = rs_quota s"
  by (simp_all add: upd_model_breaker_def upd_provider_breaker_def markScoresDirty_def put_model_def put_provider_def
      split: option.split)

lemma frame_score [quota_frame]: "rs_quota (fst (countScoredAttempt env now s)) = rs_quota s"
  by (simp add: countScoredAttempt_def Let_def)

lemma frame_ops [quota_frame]:
  "rs_quota (resolveProbe a s) = rs_quota s"
  "rs_quota (resolveProviderProbe p s) = rs_quota s"
  "rs_quota (settle_probes a s) = rs_quota s"
  "rs_quota (recordFailure n1 n2 n3 a code reason ra s) = rs_quota s"
  "rs_quota (recordProviderFailure now a code reason imm d s) = rs_quota s"
  "rs_quota (resolveProviderSuccess p s) = rs_quota s"
  "rs_quota (recordProviderAttempt p b s) = rs_quota s"
  by (simp_all add: resolveProbe_def resolveProviderProbe_def settle_probes_def recordFailure_def recordProviderFailure_def
      resolveProviderSuccess_def recordProviderAttempt_def quota_frame split: option.split)

lemma frame_scores [quota_frame]:
  "rs_quota (penalizeScore env now a code s) = rs_quota s"
  "rs_quota (recordSuccess env now a s) = rs_quota s"
  using frame_score [of env now s]
  by (cases "countScoredAttempt env now s"; simp add: penalizeScore_def recordSuccess_def quota_frame)+

lemma frame_start [quota_frame]:
  "rs_quota (fst (tryStartProvider n1 n2 a s)) = rs_quota s"
  "rs_quota (fst (tryStartAttempt n1 n2 a s)) = rs_quota s"
  "rs_quota (fst (setQuotaCooldown a d now s)) = rs_quota s"
  by (simp_all add: tryStartProvider_def tryStartAttempt_def setQuotaCooldown_def Let_def quota_frame split: option.split prod.split)

lemma frame_stream [quota_frame]: "rs_quota (stream_ended u x a outcome s) = rs_quota s"
  by (simp add: stream_ended_def quota_frame)

lemma frame_world [quota_frame]:
  "w_service (record_trace_failure a st k r w) = w_service w"
  "w_service (serve_headers u a w) = w_service w"
  "rs_quota (w_service (relay_stream u x a resp w)) = rs_quota (w_service w)"
  "rs_quota (w_service (fst (abandon_stream u x a w))) = rs_quota (w_service w)"
  "rs_quota (w_service (fst (bad_body u x a m w))) = rs_quota (w_service w)"
  "rs_quota (w_service (fst (transport_failed u x a er w))) = rs_quota (w_service w)"
  by (simp_all add: record_trace_failure_def serve_headers_def relay_stream_def abandon_stream_def bad_body_def
      transport_failed_def quota_frame Let_def split: prod.split)

section \<open>A ticket the attempt reserved is always settled\<close>

text \<open>A live ticket of the ledger whose holds have valid keys and settle with a non-negative amount.\<close>

definition settleable :: "QuotaLedger \<Rightarrow> QuotaTicket \<Rightarrow> QuotaEstimate \<Rightarrow> bool" where
  "settleable l t e \<longleftrightarrow> ticket_mine l t \<and>
     (\<exists>st. m_get (ql_tickets l) (qt_id t) = Some st \<and> m_wf (ts_holds st) \<and>
        (\<forall>k h. m_get (ts_holds st) k = Some h \<longrightarrow> validQuotaKey k \<and> 0 \<le> key_cost e k))"

lemma settleable_quiet: "settleable l t e \<Longrightarrow> quiet l l' \<Longrightarrow> settleable l' t e"
  by (simp add: settleable_def quiet_def ticket_mine_def)

lemma settlements_by_key_succeeds:
  assumes "list_all settlement_ok ss" "distinct (map st_Key ss)" "\<forall>s\<in>set ss. m_get byKey (st_Key s) = None"
  shows "\<exists>out. settlements_by_key byKey ss = Some out \<and>
    (\<forall>k. m_get out k \<noteq> None \<longrightarrow> m_get byKey k \<noteq> None \<or> k \<in> st_Key ` set ss)"
  using assms
proof (induction ss arbitrary: byKey)
  case (Cons s ss)
  have "\<exists>out. settlements_by_key (m_set (st_Key s) s byKey) ss = Some out \<and>
    (\<forall>k. m_get out k \<noteq> None \<longrightarrow> m_get (m_set (st_Key s) s byKey) k \<noteq> None \<or> k \<in> st_Key ` set ss)"
    using Cons.prems by (intro Cons.IH) (auto simp: image_iff)
  then show ?case using Cons.prems by (auto simp: settlement_ok_def split: option.splits if_splits)
qed simp

lemma Reconcile_settles:
  assumes "settleable l t e"
    "\<And>r. st_Key (f r) = qr_Key r"
    "\<And>r. r \<in> set (Reservations l t) \<Longrightarrow> settlement_ok (f r)"
  shows "live_tickets (fst (Reconcile l t (map f (Reservations l t)) now)) = live_tickets l - {qt_id t}"
proof -
  obtain st where st: "ticket_mine l t" "m_get (ql_tickets l) (qt_id t) = Some st" "m_wf (ts_holds st)"
    using assms(1) by (auto simp: settleable_def)
  let ?ss = "map f (Reservations l t)"
  have res: "mset (map qr_Key (Reservations l t)) = mset (map fst (ts_holds st))"
    using st by (simp add: Reservations_def image_mset.compositionality comp_def case_prod_beta)
  have "distinct (map st_Key ?ss)"
    using res st(3) assms(2) by (simp add: comp_def) (metis mset_eq_imp_distinct_iff mset_map)
  moreover have "list_all settlement_ok ?ss" using assms(3) by (simp add: list_all_iff)
  ultimately obtain byKey where bk: "settlements_by_key [] ?ss = Some byKey"
    "\<And>k. m_get byKey k \<noteq> None \<Longrightarrow> k \<in> st_Key ` set ?ss"
    using settlements_by_key_succeeds [of ?ss "[]"] by auto
  have "st_Key ` set ?ss = fst ` set (ts_holds st)"
    using arg_cong [OF res, of set_mset] assms(2) by (simp add: image_image)
  with bk(2) have "list_all (\<lambda>(key, _). m_get (ts_holds st) key \<noteq> None) byKey"
    by (auto simp: list_all_iff map_of_eq_None_iff) (metis fst_conv image_eqI)
  then have "snd (Reconcile l t ?ss now)" using st bk(1) by (simp add: Reconcile_def Let_def)
  then have "Reconcile l t ?ss now = (fst (Reconcile l t ?ss now), True)" by (metis prod.collapse)
  from settled_ticket_gone [OF disjI2 [OF this]] show ?thesis by (auto simp: live_tickets_iff split: if_splits)
qed

lemma facts_nonneg:
  assumes "\<And>ob. ob \<in> set obs \<Longrightarrow> \<forall>key fct. ledgerFact ob = Some (key, fct) \<longrightarrow> 0 \<le> qo_Limit fct \<and> 0 \<le> qo_Remaining fct"
    "\<And>k f. m_get facts k = Some f \<Longrightarrow> 0 \<le> qo_Limit f \<and> 0 \<le> qo_Remaining f"
  shows "m_get (snd (fold (observe_fact q c now) obs (l, facts))) k = Some f \<Longrightarrow> 0 \<le> qo_Limit f \<and> 0 \<le> qo_Remaining f"
  using assms
proof (induction obs arbitrary: l facts)
  case (Cons o1 obs)
  obtain l1 facts1 where 1: "observe_fact q c now o1 (l, facts) = (l1, facts1)" by fastforce
  have ok: "0 \<le> qo_Limit f' \<and> 0 \<le> qo_Remaining f'" if "m_get facts1 k' = Some f'" for k' f'
    using 1 that Cons.prems(2) [of o1] Cons.prems(3) [of k' f']
    by (auto simp: observe_fact_def Let_def split: option.splits prod.splits if_splits)
  show ?case by (rule Cons.IH [of l1 facts1]) (use Cons.prems 1 ok in auto)
qed auto

lemma ledgerFact_nonneg:
  assumes "ob \<in> set (observeProviderQuota p clock provider model status headers body at0)" "ledgerFact ob = Some (key, fct)"
  shows "0 \<le> qo_Limit fct \<and> 0 \<le> qo_Remaining fct"
proof -
  have k: "po_Classification ob = ''known''" "po_HasLimit ob" "po_HasRemaining ob"
    "qo_Limit fct = po_Limit ob" "qo_Remaining fct = po_Remaining ob"
    using assms(2) by (auto simp: ledgerFact_def split: if_splits)
  with observations_sound [OF assms(1) k(1)] show ?thesis by auto
qed

lemma settle_consumes:
  assumes run: "observeAndSettleQuota p q clock t a cred status headers body actual now s = (s', obs)"
    and inv: "ledger_inv (rs_quota s)" and own: "settleable (rs_quota s) t (ma_QuotaEstimate a)"
  shows "live_tickets (rs_quota s') \<subseteq> live_tickets (rs_quota s) - {qt_id t}"
proof -
  let ?obs = "observeProviderQuota p clock (ma_Provider a) (ma_Model a) status headers body now"
  obtain l facts where 1: "fold (observe_fact q cred now) ?obs (rs_quota s, []) = (l, facts)" by fastforce
  have lim: "\<forall>key fct. ledgerFact ob = Some (key, fct) \<longrightarrow> qo_Limit fct \<le> max_int64" if "ob \<in> set ?obs" for ob
    using observations_sound [OF that] ledgerFact_limit by metis
  have k: "quiet (rs_quota s) l" using observe_facts_keep [OF lim _ 1] by auto
  have nn: "0 \<le> qo_Limit f \<and> 0 \<le> qo_Remaining f" if "m_get facts key = Some f" for key f
    using facts_nonneg [of ?obs "[]" q cred now "rs_quota s" key f] ledgerFact_nonneg 1 that by auto
  have own': "settleable l t (ma_QuotaEstimate a)" by (rule settleable_quiet [OF own k])
  let ?f = "settlement_for facts (ma_QuotaEstimate a) actual"
  have ok: "settlement_ok (?f r)" if r: "r \<in> set (Reservations l t)" for r
  proof -
    obtain st where st: "m_get (ql_tickets l) (qt_id t) = Some st" "m_wf (ts_holds st)" "ticket_mine l t"
      "\<And>k h. m_get (ts_holds st) k = Some h \<Longrightarrow> validQuotaKey k \<and> 0 \<le> key_cost (ma_QuotaEstimate a) k"
      using own' by (auto simp: settleable_def)
    obtain h where "(qr_Key r, h) \<in> set (ts_holds st)" using r st(1,3) by (auto simp: Reservations_def)
    then have "m_get (ts_holds st) (qr_Key r) = Some h" using st(2) by simp
    from st(4) [OF this] nn show ?thesis
      by (auto simp: settlement_ok_def settlement_for_def key_cost_def split: option.split)
  qed
  have "Valid t" using own by (simp add: settleable_def ticket_mine_def Valid_def)
  then have "rs_quota s' = fst (Reconcile l t (map ?f (Reservations l t)) now)"
    using run [unfolded observeAndSettleQuota_def Let_def 1 prod.case] by (auto simp: markScoresDirty_def)
  moreover have "live_tickets (fst (Reconcile l t (map ?f (Reservations l t)) now)) = live_tickets l - {qt_id t}"
    by (rule Reconcile_settles [OF own' _ ok]) (simp add: settlement_for_def)
  ultimately show ?thesis using quiet_live [OF k] by simp
qed

text \<open>A ticket reserved for an attempt is settleable under the estimate the attempt carries, as long as
  that estimate is not negative where the provider's version of it is positive.\<close>

lemma reserved_settleable:
  assumes run: "reserveFallbackQuota q s a cred e now = (s', t, True)" and e: "est_ok e" and room: "ledger_room (rs_quota s)"
    and pos: "\<And>k. 0 < key_cost (providerQuotaEstimate (qv_env q) a e) k \<Longrightarrow> 0 \<le> key_cost e k"
  shows "settleable (rs_quota s') t e"
proof -
  obtain s1 rs where 1: "quotaReservations q s a cred e now = (s1, rs)" by fastforce
  obtain l where 2: "ReserveAll (rs_quota s1) rs now = (l, t, True)" and s': "rs_quota s' = l"
    using run 1 by (auto simp: reserveFallbackQuota_def split: if_splits prod.splits)
  note r = reserve_attempt [OF 1 2 e room]
  have cost: "list_all (\<lambda>r. qr_Cost r \<le> max_int64) rs"
    using reservations_facts(3) [OF 1 e] by (simp add: list_all_iff)
  from 2 obtain am l1 h n where ra: "aggregateReservations rs = Some am"
    "reserve_loop am (purgeExpiredLocked now (rs_quota s1)) [] = (l1, h)" "n \<noteq> 0"
    "l = l1\<lparr>ql_nextTicketID := n, ql_tickets := m_set n \<lparr>ts_holds = h\<rparr> (ql_tickets (rs_quota s1))\<rparr>"
    "t = \<lparr>qt_ledger = Some (ql_self (rs_quota s1)), qt_id = n\<rparr>" by (rule ReserveAll_success) simp
  have st: "m_get (ql_tickets l) (qt_id t) = Some \<lparr>ts_holds = h\<rparr>" by (simp add: ra)
  have "m_wf h"
    using r(1) list_all_getD [of "\<lambda>(i, s). i \<noteq> 0 \<and> holds_ok l (ts_holds s)" "ql_tickets l", OF _ st]
    by (simp add: ledger_inv_def ledger_inv_with_def tickets_ok_def holds_ok_def)
  moreover have "validQuotaKey k \<and> 0 \<le> key_cost e k" if k: "m_get h k = Some hd" for k hd
  proof -
    have "m_wf am" using aggregateReservations_ok(1) [OF cost ra(1)] by (simp add: amounts_ok_def)
    from reserve_loop_holds [OF ra(2) this, of k] k have "m_get am k \<noteq> None" by (cases "m_get am k") simp_all
    then have "cost_of k rs \<noteq> 0" using amounts_get [OF cost ra(1), of k] by (simp split: if_splits)
    then have "filter (\<lambda>r. qr_Key r = k) rs \<noteq> []" by (auto simp: cost_of_def)
    then obtain rv where "rv \<in> set rs" "qr_Key rv = k" by (auto simp: filter_empty_conv)
    moreover from this have "0 < key_cost (providerQuotaEstimate (qv_env q) a e) k"
      using 1 by (auto simp: quotaReservations_def Let_def split: prod.splits)
    moreover have "list_all reservation_ok rs" by (rule aggregateReservations_ok(2) [OF cost ra(1)])
    ultimately show ?thesis using pos by (auto simp: list_all_iff reservation_ok_def)
  qed
  moreover have "ticket_mine l t" using r(2,5) by (simp add: ticket_mine_def Valid_def)
  ultimately show ?thesis using st unfolding s' settleable_def by auto
qed

lemma providerQuotaEstimate_again:
  "ma_Provider b = ma_Provider a \<Longrightarrow>
   providerQuotaEstimate env b (providerQuotaEstimate env a e) = providerQuotaEstimate env a e"
  by (simp add: providerQuotaEstimate_def Let_def)

lemma attempt_estimate_facts:
  assumes "attempt_typed a"
  shows "est_ok (attempt_estimate u body a)"
    "ma_Provider b = ma_Provider a \<Longrightarrow> 0 < key_cost (providerQuotaEstimate (ue_env u) b (attempt_estimate u body a)) k \<Longrightarrow>
     0 \<le> key_cost (attempt_estimate u body a) k"
proof -
  show "est_ok (attempt_estimate u body a)"
    using assms est_ok_provider [OF est_ok_request] by (simp add: attempt_estimate_def Let_def attempt_typed_def est_ok_def)
  show "0 \<le> key_cost (attempt_estimate u body a) k" if "ma_Provider b = ma_Provider a"
    "0 < key_cost (providerQuotaEstimate (ue_env u) b (attempt_estimate u body a)) k"
  proof (cases "qe_Requests (ma_QuotaEstimate a) \<le> 0 \<or> qe_Tokens (ma_QuotaEstimate a) \<le> 0")
    case True
    with that providerQuotaEstimate_again [OF that(1)] show ?thesis by (simp add: attempt_estimate_def Let_def)
  next
    case False
    then show ?thesis by (simp add: attempt_estimate_def Let_def key_cost_def)
  qed
qed

section \<open>An attempt leaves no claim behind\<close>

text \<open>A ledger with no claims outside \<open>L\<close>, and one that may hold, besides, the settleable claim of the
  attempt's own ticket.\<close>

definition claims_in :: "64 word set \<Rightarrow> nat \<Rightarrow> QuotaLedger \<Rightarrow> bool" where
  "claims_in L self l \<longleftrightarrow> ledger_inv l \<and> ql_self l = self \<and> live_tickets l \<subseteq> L"

definition owes :: "64 word set \<Rightarrow> nat \<Rightarrow> QuotaTicket \<Rightarrow> QuotaEstimate \<Rightarrow> QuotaLedger \<Rightarrow> bool" where
  "owes L self t e l \<longleftrightarrow> ledger_inv l \<and> ql_self l = self \<and>
     (live_tickets l \<subseteq> L \<or> settleable l t e \<and> live_tickets l \<subseteq> insert (qt_id t) L)"

lemma claims_in_owes: "claims_in L self l \<Longrightarrow> owes L self t e l"
  by (simp add: claims_in_def owes_def)

lemma settle_owes:
  assumes "owes L self t (ma_QuotaEstimate a) (rs_quota s)"
  shows "claims_in L self (rs_quota (fst (observeAndSettleQuota p q clock t a cred status headers body actual now s)))"
proof -
  obtain s' obs where run: "observeAndSettleQuota p q clock t a cred status headers body actual now s = (s', obs)" by fastforce
  have inv: "ledger_inv (rs_quota s)" using assms by (simp add: owes_def)
  note k = settle_keeps [OF run inv]
  show ?thesis
  proof (cases "settleable (rs_quota s) t (ma_QuotaEstimate a)")
    case True
    from settle_consumes [OF run inv True] k assms show ?thesis by (auto simp: run claims_in_def owes_def)
  qed (use k assms in \<open>auto simp: run claims_in_def owes_def\<close>)
qed

lemma Release_within: "claims_in L self l \<Longrightarrow> claims_in L self (fst (Release l t now))"
  using inv_Release [of l t now]
  by (auto simp: claims_in_def Release_def consumeTicketLocked_def purgeExpiredLocked_def Let_def live_tickets_iff
      split: option.splits if_splits)

lemma deferred_within:
  assumes "owes L self t (ma_QuotaEstimate a) (rs_quota (w_service w))"
    "\<not> sent \<or> settled \<or> \<not> Valid t \<Longrightarrow> claims_in L self (rs_quota (w_service w))"
  shows "claims_in L self (rs_quota (w_service (deferred u x t sent settled a key w)))"
  using assms settle_owes [OF assms(1)] Release_within by (auto simp: deferred_def)

primrec first_world :: "'w attempt_run \<Rightarrow> 'w" where
  "first_world (Returned w er) = w"
| "first_world (AsksFallback w k) = w"

primrec resumes :: "('a world_scheme) attempt_run \<Rightarrow> bool" where
  "resumes (Returned w er) \<longleftrightarrow> True"
| "resumes (AsksFallback w k) \<longleftrightarrow> (\<forall>r. run_keeps (k r) (fst r))"

lemma run_keeps_split: "run_keeps run w \<longleftrightarrow> keeps_claims w (first_world run) \<and> resumes run"
  by (cases run) simp_all

lemma keeps_same: "rs_quota (w_service w') = rs_quota (w_service w) \<Longrightarrow> keeps_claims w w'"
  by (simp add: keeps_claims_def ledger_room_def)

lemma resumes_stream: "resumes (stream_answer u x a key t resp w)"
  by (simp add: stream_answer_def await_stream_def Let_def keeps_same quota_frame split: prod.split)
     (auto intro!: keeps_same simp: quota_frame dest!: arg_cong [of _ _ "\<lambda>r. rs_quota (w_service (fst r))"])

lemma resumes_execute: "resumes (executeAttempt u x body key a w)"
  by (simp add: executeAttempt_def send_attempt_def after_call_def Let_def resumes_stream
      split: option.split prod.split bool.split sum.split)

lemma stream_within:
  assumes "owes L self t (ma_QuotaEstimate a) (rs_quota (w_service w))"
  shows "claims_in L self (rs_quota (w_service (first_world (stream_answer u x a key t resp w))))"
  using settle_owes [OF assms] by (simp add: stream_answer_def await_stream_def Let_def quota_frame split: prod.split)

lemma refused_within:
  assumes "owes L self t (ma_QuotaEstimate a) (rs_quota (w_service w))"
  shows "claims_in L self (rs_quota (w_service (fst (http_refused u x a key t resp w))))"
proof -
  obtain s1 obs where run: "observeAndSettleQuota (ue_parsers u) (ue_quota u) (xc_clock x 21) t a key (rp_StatusCode resp)
      (rp_Header resp) (take (nat maxErrorBodyBytes) (xc_body x)) (qe_Tokens (ma_QuotaEstimate a)) (xc_clock x 22) (w_service w) =
      (s1, obs)" by fastforce
  let ?d = "longest_wait (parseRetryAfter (ParseTime (ue_parsers u)) (xc_clock x 20) (header_get (rp_Header resp) ''Retry-After'')) obs"
  obtain s2 d where cool: "(if quota_refusal (rp_StatusCode resp) then setQuotaCooldown a ?d (xc_clock x 23) s1 else (s1, ?d)) = (s2, d)"
    by fastforce
  then have "rs_quota s2 = rs_quota s1" using frame_start(3) [of a ?d "xc_clock x 23" s1] by (auto split: if_splits)
  moreover have "claims_in L self (rs_quota s1)" using settle_owes [OF assms] run by (metis fst_conv)
  ultimately show ?thesis unfolding http_refused_def Let_def run prod.case cool by (simp add: quota_frame)
qed

lemma buffered_within:
  assumes "owes L self t (ma_QuotaEstimate a) (rs_quota (w_service w))" "buffered_answer u x a key path t resp w = (w', settled, er)"
  shows "owes L self t (ma_QuotaEstimate a) (rs_quota (w_service w'))"
    "settled \<Longrightarrow> claims_in L self (rs_quota (w_service w'))"
proof -
  have b: "rs_quota (w_service (fst (bad_body u x a m w))) = rs_quota (w_service w)" for m by (rule frame_world(5))
  have "settled \<and> claims_in L self (rs_quota (w_service w')) \<or> \<not> settled \<and> rs_quota (w_service w') = rs_quota (w_service w)"
    using assms(2) settle_owes [OF assms(1)] b
    by (auto simp: buffered_answer_def Let_def quota_frame split: prod.splits option.splits if_splits
        dest!: arg_cong [of "bad_body u x a _ w" _ "\<lambda>r. rs_quota (w_service (fst r))"])
  then show "owes L self t (ma_QuotaEstimate a) (rs_quota (w_service w'))"
    "settled \<Longrightarrow> claims_in L self (rs_quota (w_service w'))" using claims_in_owes assms(1) by auto
qed

lemma after_call_within:
  assumes "owes L self t (ma_QuotaEstimate a) (rs_quota (w_service w))" "Valid t"
  shows "claims_in L self (rs_quota (w_service (first_world (after_call u x a key path t w))))"
proof (cases "xc_result x")
  case (Inl err)
  have "rs_quota (w_service (fst (transport_failed u x a err w))) = rs_quota (w_service w)" by (rule frame_world(6))
  with assms Inl show ?thesis
    by (cases "transport_failed u x a err w") (auto simp: after_call_def intro!: deferred_within)
next
  case (Inr resp)
  obtain w1 settled er where b: "buffered_answer u x a key path t resp w = (w1, settled, er)" by (metis prod_cases3)
  have "claims_in L self (rs_quota (w_service (deferred u x t True settled a key w1)))"
    by (rule deferred_within) (use buffered_within [OF assms(1) b] assms(2) in auto)
  then show ?thesis using Inr stream_within [OF assms(1)] refused_within [OF assms(1), of u x key resp] b
    by (cases "http_refused u x a key t resp w") (simp add: after_call_def)
qed

lemma send_within:
  assumes room: "ledger_room (rs_quota (w_service w))" and e: "est_ok (ma_QuotaEstimate a)"
    and pos: "\<And>k. 0 < key_cost (providerQuotaEstimate (ue_env u) a (ma_QuotaEstimate a)) k \<Longrightarrow> 0 \<le> key_cost (ma_QuotaEstimate a) k"
  shows "claims_in (live_tickets (rs_quota (w_service w))) (ql_self (rs_quota (w_service w)))
    (rs_quota (w_service (first_world (send_attempt u x body a key w))))"
proof -
  let ?q = "rs_quota (w_service w)"
  let ?in = "claims_in (live_tickets ?q) (ql_self ?q)"
  have now: "?in ?q" using room by (simp add: claims_in_def ledger_room_def)
  have unsent: "?in (rs_quota (w_service (deferred u x t False False a key (on_service (settle_probes a) w))))" for t
    using deferred_within [OF claims_in_owes, of _ _ "on_service (settle_probes a) w"] now by (simp add: quota_frame)
  obtain w1 t ok where cl: "claim_ticket u x a key w = (w1, t, ok)" by (metis prod_cases3)
  have held: "if ok then Valid t \<and> owes (live_tickets ?q) (ql_self ?q) t (ma_QuotaEstimate a) (rs_quota (w_service w1))
     else ?in (rs_quota (w_service w1))"
  proof (cases "Valid (ma_QuotaTicket a)")
    case True
    with cl now show ?thesis by (auto simp: claim_ticket_def intro: claims_in_owes)
  next
    case False
    obtain s where rf: "reserveFallbackQuota (ue_quota u) (w_service w) a key (ma_QuotaEstimate a) (xc_clock x 4) = (s, t, ok)"
      and w1: "w1 = w\<lparr>w_service := s\<rparr>" using cl False by (auto simp: claim_ticket_def split: prod.splits)
    show ?thesis
    proof (cases "quotaAttemptAvailable (w_service w) a (xc_clock x 4)")
      case avail: True
      obtain s1 rs where 1: "quotaReservations (ue_quota u) (w_service w) a key (ma_QuotaEstimate a) (xc_clock x 4) = (s1, rs)" by fastforce
      obtain l where 2: "ReserveAll (rs_quota s1) rs (xc_clock x 4) = (l, t, ok)" and s: "rs_quota s = l"
        using rf 1 avail by (auto simp: reserveFallbackQuota_def split: prod.splits)
      note r = reserve_attempt [OF 1 2 e room]
      show ?thesis
      proof (cases ok)
        case True
        with rf have "settleable (rs_quota s) t (ma_QuotaEstimate a)"
          using reserved_settleable [OF _ e room] pos by (simp add: ue_env_def)
        with r True s show ?thesis by (simp add: w1 owes_def)
      next
        case False
        with r s show ?thesis by (simp add: w1 claims_in_def live_tickets_def)
      qed
    next
      case False
      with rf now show ?thesis by (auto simp: reserveFallbackQuota_def w1)
    qed
  qed
  show ?thesis
    unfolding send_attempt_def Let_def cl prod.case
    using unsent held after_call_within [of _ _ t a "on_service (recordProviderAttempt (ma_Provider a) (ma_BalanceReserved a)) w1"]
    by (simp add: quota_frame split: sum.split bool.split)
qed

lemma execute_within:
  assumes room: "ledger_room (rs_quota (w_service w))" and ty: "attempt_typed a"
  shows "claims_in (live_tickets (rs_quota (w_service w))) (ql_self (rs_quota (w_service w)))
    (rs_quota (w_service (first_world (executeAttempt u x body key a w))))"
proof (cases "providerCredential (ue_credentials u) (Some (w_service w)) a key")
  case None
  with room show ?thesis by (simp add: executeAttempt_def claims_in_def ledger_room_def)
next
  case (Some cred)
  let ?a = "a\<lparr>ma_QuotaEstimate := attempt_estimate u body a\<rparr>"
  let ?in = "claims_in (live_tickets (rs_quota (w_service w))) (ql_self (rs_quota (w_service w)))"
  obtain s1 ok1 where 1: "tryStartProvider (xc_clock x 0) (xc_clock x 1) ?a (w_service w) = (s1, ok1)" by fastforce
  obtain s2 ok2 where 2: "tryStartAttempt (xc_clock x 2) (xc_clock x 3) ?a s1 = (s2, ok2)" by fastforce
  have q: "rs_quota s1 = rs_quota (w_service w)" "rs_quota s2 = rs_quota (w_service w)"
    using frame_start(1) [of "xc_clock x 0" "xc_clock x 1" ?a "w_service w"]
      frame_start(2) [of "xc_clock x 2" "xc_clock x 3" ?a s1] 1 2 by simp_all
  have unsent: "?in (rs_quota (w_service (deferred u x t False False ?a cred w')))"
    if "rs_quota (w_service w') = rs_quota (w_service w)" for t w'
    by (intro deferred_within claims_in_owes) (use room that in \<open>auto simp: claims_in_def ledger_room_def\<close>)
  have send: "?in (rs_quota (w_service (first_world (send_attempt u x body ?a cred (w\<lparr>w_service := s2\<rparr>)))))"
  proof -
    have "0 \<le> key_cost (ma_QuotaEstimate ?a) k" if "0 < key_cost (providerQuotaEstimate (ue_env u) ?a (ma_QuotaEstimate ?a)) k" for k
      using attempt_estimate_facts(2) [OF ty, of ?a u body k] that by simp
    from send_within [of "w\<lparr>w_service := s2\<rparr>" ?a u x body cred, OF _ _ this] show ?thesis
      using room q attempt_estimate_facts(1) [OF ty] by simp
  qed
  show ?thesis unfolding executeAttempt_def Some option.case Let_def 1 2 prod.case
    by (cases ok1; cases ok2) (simp_all add: unsent send q quota_frame)
qed

lemma execute_keeps: "attempt_typed a \<Longrightarrow> run_keeps (executeAttempt u x body key a w) w"
  using execute_within [of w a u x body key]
  by (simp add: run_keeps_split resumes_execute keeps_claims_def claims_in_def)

lemma reserve_fallback_reserves: "reserves (reserve_fallback u clock body key)"
  unfolding reserves_def
proof (intro allI impI, elim conjE)
  fix w a w' t ok
  assume run: "reserve_fallback u clock body key w a = (w', t, ok)" and ty: "attempt_typed a" and room: "ledger_room (w_quota w)"
  let ?goal = "ledger_inv (w_quota w') \<and> ql_self (w_quota w') = ql_self (w_quota w) \<and>
     live_tickets (w_quota w') \<subseteq>
       (if ok \<and> qt_ledger t = Some (ql_self (w_quota w)) then insert (qt_id t) (live_tickets (w_quota w))
        else live_tickets (w_quota w))"
  let ?e0 = "ma_QuotaEstimate a"
  define e where "e = (if qe_Requests ?e0 \<le> 0 \<or> qe_Tokens ?e0 \<le> 0
    then providerQuotaEstimate (ue_env u) a (estimateRequestQuota (ue_env u) (ue_marshal u) body) else ?e0)"
  have e: "est_ok e" using ty est_ok_provider [OF est_ok_request] by (simp add: e_def attempt_typed_def est_ok_def)
  show ?goal
  proof (cases "providerCredential (ue_credentials u) (Some (w_service w)) a key")
    case None
    with run room show ?thesis by (auto simp: reserve_fallback_def ledger_room_def)
  next
    case (Some cred)
    obtain s where rf: "reserveFallbackQuota (ue_quota u) (w_service w) a cred e (clock w) = (s, t, ok)"
      and w': "w' = w\<lparr>w_service := s\<rparr>"
      using run Some by (auto simp: reserve_fallback_def Let_def e_def split: prod.splits)
    show ?thesis
    proof (cases "quotaAttemptAvailable (w_service w) a (clock w)")
      case True
      obtain s1 rs where 1: "quotaReservations (ue_quota u) (w_service w) a cred e (clock w) = (s1, rs)" by fastforce
      obtain l where 2: "ReserveAll (rs_quota s1) rs (clock w) = (l, t, ok)" and s: "rs_quota s = l"
        using rf 1 True by (auto simp: reserveFallbackQuota_def split: prod.splits)
      from reserve_attempt [OF 1 2 e room] s show ?thesis by (cases ok) (auto simp: w' live_tickets_def)
    next
      case False
      with rf room show ?thesis by (auto simp: reserveFallbackQuota_def w' ledger_room_def)
    qed
  qed
qed

lemma router_collaborators:
  assumes "fe_OnSuccess x = None" "fe_OnFailure x = None" "fe_ReserveQuota x = None"
  shows "collaborators_ok (router_chain_env u net wait) (wire_execution u clock affinityKey x)"
  using assms execute_keeps reserve_fallback_reserves
  by (auto simp: collaborators_ok_def router_chain_env_def wire_execution_def intro!: keeps_same)

section \<open>One answer\<close>

text \<open>Nothing of the response has left yet, and: the head of a 200 has, and no other.\<close>

definition unsent :: "net_world \<Rightarrow> bool" where
  "unsent w \<longleftrightarrow> no_answer (nw_writer w)"

definition served :: "net_world \<Rightarrow> bool" where
  "served w \<longleftrightarrow> one_answer 200 (nw_writer w)"

named_theorems writer_frame

lemma writer_service [writer_frame]: "nw_writer (deferred u x t sent settled a key w) = nw_writer w"
  by (simp add: deferred_def)

lemma writer_failures [writer_frame]:
  "nw_writer (record_trace_failure a st k r w) = nw_writer w"
  "nw_writer (fst (abandon_stream u x a w)) = nw_writer w"
  "nw_writer (fst (bad_body u x a m w)) = nw_writer w"
  "nw_writer (fst (transport_failed u x a er w)) = nw_writer w"
  by (simp_all add: record_trace_failure_def abandon_stream_def bad_body_def transport_failed_def Let_def)

lemma writer_refused [writer_frame]: "nw_writer (fst (http_refused u x a key t resp w)) = nw_writer w"
proof -
  have "nw_writer (record_trace_failure a st k r v) = nw_writer v" for st k r v by (rule writer_failures(1))
  then show ?thesis by (simp add: http_refused_def Let_def split: prod.split)
qed

lemma writer_claim [writer_frame]: "nw_writer (fst (claim_ticket u x a key w)) = nw_writer w"
  by (simp add: claim_ticket_def split: prod.split)

lemma serve_headers_writer:
  "no_answer (nw_writer (serve_headers u a w)) = no_answer (nw_writer w)"
  by (simp add: serve_headers_def no_answer_def Let_def)

lemma proxied_answers:
  "no_answer w \<Longrightarrow> one_answer (rp_StatusCode resp) (streamProxyResponse resp w)"
  "no_answer w \<Longrightarrow> one_answer (rp_StatusCode resp) (writeProxyResponse resp body w)"
  by (simp_all add: no_answer_def one_answer_def streamProxyResponse_def writeProxyResponse_def Let_def)

lemma one_answer_body [simp]: "one_answer code (w\<lparr>rw_Body := b\<rparr>) = one_answer code w"
  by (simp add: one_answer_def)

lemma relay_served: "unsent w \<Longrightarrow> rp_StatusCode resp = 200 \<Longrightarrow> served (relay_stream u x a resp w)"
  using proxied_answers(1) [of "nw_writer (serve_headers u a w)" resp] serve_headers_writer [of u a w]
  by (simp add: relay_stream_def Let_def served_def unsent_def split: prod.split)

lemma unsent_service [simp]: "unsent (w\<lparr>w_service := s\<rparr>) \<longleftrightarrow> unsent w"
  by (simp add: unsent_def)

lemma unsent_counters [simp]: "unsent (w\<lparr>nw_counters := c\<rparr>) \<longleftrightarrow> unsent w"
  by (simp add: unsent_def)

lemma run_ok_await:
  assumes "unsent w" "rp_StatusCode resp = 200"
  shows "run_ok unsent served (await_stream u x a resp w)"
proof -
  have ab: "unsent (fst (abandon_stream u x a v)) \<longleftrightarrow> unsent v" for v by (simp add: unsent_def writer_frame)
  obtain body gotEvent timedOut where aw: "awaitFirstStreamEvent (xc_body x) (xc_timerFirst x) = (body, gotEvent, timedOut)"
    by (metis prod_cases3)
  show ?thesis
    unfolding await_stream_def aw prod.case Let_def
    using assms ab by (cases timedOut; cases gotEvent) (simp_all add: relay_served case_prod_beta)
qed

lemma run_ok_stream:
  "unsent w \<Longrightarrow> rp_StatusCode resp = 200 \<Longrightarrow> run_ok unsent served (stream_answer u x a key t resp w)"
  by (simp add: stream_answer_def Let_def run_ok_await relay_served)

lemma run_ok_buffered:
  assumes "unsent w" "rp_StatusCode resp = 200" "buffered_answer u x a key path t resp w = (w', settled, er)"
  shows "if er = None then served w' else unsent w'"
proof -
  have b: "nw_writer (fst (bad_body u x a m w)) = nw_writer w" for m by (rule writer_failures(3))
  show ?thesis
    using assms serve_headers_writer [of u a] proxied_answers(2) [of _ resp]
    by (auto simp: buffered_answer_def Let_def unsent_def served_def split: prod.splits option.splits if_splits
        dest!: arg_cong [of "bad_body u x a _ w" _ "\<lambda>r. nw_writer (fst r)"] simp: b)
qed

lemma run_ok_call:
  assumes "unsent w"
  shows "run_ok unsent served (after_call u x a key path t w)"
proof (cases "xc_result x")
  case (Inl err)
  with assms writer_failures(4) [of u x a err w] show ?thesis
    by (cases "transport_failed u x a err w") (simp add: after_call_def unsent_def writer_frame)
next
  case (Inr resp)
  obtain w1 settled er where b: "buffered_answer u x a key path t resp w = (w1, settled, er)" by (metis prod_cases3)
  have "if er = None then served w1 else unsent w1" if "rp_StatusCode resp = 200" by (rule run_ok_buffered [OF assms that b])
  with Inr b assms run_ok_stream [OF assms] writer_refused [of u x a key t resp w] show ?thesis
    by (cases "http_refused u x a key t resp w"; cases er) (simp_all add: after_call_def unsent_def served_def writer_frame)
qed

lemma run_ok_send: "unsent w \<Longrightarrow> run_ok unsent served (send_attempt u x body a key w)"
proof -
  assume un: "unsent w"
  obtain w1 t ok where cl: "claim_ticket u x a key w = (w1, t, ok)" by (metis prod_cases3)
  have "unsent w1" using un writer_claim [of u x a key w] cl by (simp add: unsent_def)
  with un show ?thesis unfolding send_attempt_def Let_def cl prod.case
    by (auto simp: unsent_def writer_frame split: sum.split bool.split intro!: run_ok_call)
qed

lemma run_ok_execute: "unsent w \<Longrightarrow> run_ok unsent served (executeAttempt u x body key a w)"
  by (auto simp: executeAttempt_def Let_def unsent_def writer_frame split: option.split prod.split bool.split intro!: run_ok_send)

text \<open>The contract of the chain, on the router's own executor and callbacks.\<close>

interpretation answers: chain_contract "router_chain_env u net wait"
  "wire_execution u clock affinityKey (x\<lparr>fe_OnSuccess := None, fe_OnFailure := None, fe_ReserveQuota := None\<rparr>)" unsent served
  for u net wait clock affinityKey x
proof
  show "run_ok unsent served (env_executor (router_chain_env u net wait) body key d a w)" if "unsent w" for w body key d a
    using that by (simp add: router_chain_env_def run_ok_execute)
  show "unsent (env_wait (router_chain_env u net wait) delay w)" if "unsent w" for w delay
    using that by (simp add: router_chain_env_def unsent_def)
  show "unsent (release_ticket t w)" if "unsent w" for w t using that by (simp add: release_ticket_def)
  show "served (release_ticket t w)" if "served w" for w t using that by (simp add: release_ticket_def served_def)
qed (auto simp: wire_execution_def unsent_def served_def reserve_fallback_def Let_def split: option.split prod.split)

section \<open>The router's chain\<close>

lemma router_chain_claims:
  assumes "fe_OnSuccess x = None" "fe_OnFailure x = None" "fe_ReserveQuota x = None"
    "ledger_inv (rs_quota (w_service w))"
    "card (live_tickets (rs_quota (w_service w))) + length attempts + 3 \<le> 2 ^ 64"
    "list_all (\<lambda>a. est_ok (ma_QuotaEstimate a)) attempts"
    "executeFallbacks u net wait clock affinityKey x attempts w = (w', v)"
  shows "ledger_inv (rs_quota (w_service w')) \<and>
    live_tickets (rs_quota (w_service w')) \<subseteq>
      live_tickets (rs_quota (w_service w)) - ticket_ids (rs_quota (w_service w)) attempts"
  using chain_claims_gone [OF router_collaborators [OF assms(1-3)] assms(4) assms(7) [unfolded executeFallbacks_def] assms(5)] assms(6)
  by (simp add: attempt_typed_def [abs_def] est_ok_def [abs_def])

lemma router_chain_answer:
  assumes "fe_OnSuccess x = None" "fe_OnFailure x = None" "fe_ReserveQuota x = None" "unsent w"
    "executeFallbacks u net wait clock affinityKey x attempts w = (w', v)"
  shows "if v = None then served w' else unsent w'"
proof -
  have x: "x\<lparr>fe_OnSuccess := None, fe_OnFailure := None, fe_ReserveQuota := None\<rparr> = x" using assms(1-3) by simp
  from answers.Execute_holds [OF assms(4), of u net wait clock affinityKey x attempts w' v] show ?thesis
    using assms(5) unfolding x executeFallbacks_def by (simp split: if_splits)
qed

text \<open>Whatever the providers answer, and whichever branch each attempt takes (not configured, cooling
  down, not sent, transport error, refusal, stream, truncated or complete body), the router's own chain
  leaks no quota: after \<open>executeFallbacks\<close> the ledger's invariant holds, every outstanding claim was
  outstanding before, and the tickets the chain was given are gone.\<close>

theorem router_chain_leaks_no_quota:
  assumes "fe_OnSuccess x = None" "fe_OnFailure x = None" "fe_ReserveQuota x = None"
    "ledger_inv (rs_quota (w_service w))"
    "card (live_tickets (rs_quota (w_service w))) + length attempts + 3 \<le> 2 ^ 64"
    "list_all (\<lambda>a. est_ok (ma_QuotaEstimate a)) attempts"
    "executeFallbacks u net wait clock affinityKey x attempts w = (w', v)"
  shows "ledger_inv (rs_quota (w_service w')) \<and>
    live_tickets (rs_quota (w_service w')) \<subseteq>
      live_tickets (rs_quota (w_service w)) - ticket_ids (rs_quota (w_service w)) attempts"
  using assms by (rule router_chain_claims)

text \<open>One answer. When nothing of the response has been sent, the router's chain either serves it, and
  then the head that went out is that of a 200, or reports an error, and then no status and no byte has
  been sent: attempts that fail, for whichever reason, leave the response untouched for the next one and
  for the error answer.\<close>

theorem router_chain_answers_once:
  assumes "fe_OnSuccess x = None" "fe_OnFailure x = None" "fe_ReserveQuota x = None"
    "no_answer (nw_writer w)" "executeFallbacks u net wait clock affinityKey x attempts w = (w', v)"
  shows "if v = None then one_answer 200 (nw_writer w') else no_answer (nw_writer w')"
  using router_chain_answer [OF assms(1-3) _ assms(5)] assms(4) by (auto simp: unsent_def served_def split: if_splits)

definition ex_upstream :: upstream_env where
  "ex_upstream = \<lparr>ue_quota = re_quota ex_rank_env, ue_credentials = re_credentials ex_rank_env,
     ue_parsers = \<lparr>ParseTime = (\<lambda>_. None), ParseDuration = (\<lambda>_. None), decodeError = (\<lambda>_. None)\<rparr>,
     ue_marshal = (\<lambda>_. ''abcd''), ue_Unmarshal = (\<lambda>_. []), ue_usage = (\<lambda>_. None), ue_transform = id,
     ue_badURL = (\<lambda>_. None), ue_traceFull = False, ue_traceJSON = (\<lambda>_. None)\<rparr>"

definition ex_net :: "string \<Rightarrow> modelAttempt \<Rightarrow> net_world \<Rightarrow> exchange" where
  "ex_net body a w = \<lparr>xc_clock = (\<lambda>_. 6), xc_result = Inr \<lparr>rp_StatusCode = 500, rp_Header = []\<rparr>, xc_canceled = False,
     xc_body = ''down'', xc_readErr = None, xc_timerFirst = False, xc_events = []\<rparr>"

definition ex_net_world :: net_world where
  "ex_net_world = \<lparr>w_service = fst (snd ex_rank), w_affinity = fst ex_rank, w_clock = 5, nw_trace = None, nw_writer = newWriter,
     nw_counters = \<lparr>rc_streamsCompleted = 0, rc_streamsStalled = 0, rc_streamsUpstreamErr = 0, rc_streamsMaxReached = 0,
       rc_streamsClientGone = 0, rc_admissionRejected = 0, rc_capabilityRefused = 0, rc_unknownProfileRejected = 0,
       rc_paidEmbeddingRefused = 0, rc_streamFirstEventTimeout = 0, rc_chainFailedCancelled = 0, rc_chainFailedTotalTimeout = 0,
       rc_chainFailedTerminal = 0, rc_chainFailedExhausted = 0, rc_chainFailedExecutorError = 0, rc_allModelsCooling = 0,
       rc_quotaHeld = 0, rc_firstEventStats = [], rc_firstTokenStats = []\<rparr>\<rparr>"

definition ex_net_execution :: "net_world FallbackExecution" where
  "ex_net_execution = \<lparr>fe_RequestBody = [], fe_APIKey = ''key'', fe_RetryPolicy = rc_RetryPolicy (rs_runtimeConfig ex_service),
     fe_Stream = False, fe_PerAttemptTimeout = 0, fe_ReserveQuota = None, fe_BuildRequestBody = None,
     fe_OnSuccess = None, fe_OnFailure = None\<rparr>"

lemma ex_rank_typed:
  "length (snd (snd ex_rank)) = 1 \<and> list_all (\<lambda>a. est_ok (ma_QuotaEstimate a)) (snd (snd ex_rank)) \<and>
   map (\<lambda>a. (qt_ledger (ma_QuotaTicket a), qt_id (ma_QuotaTicket a))) (snd (snd ex_rank)) = [(Some 1, 1)] \<and>
   ql_self (rs_quota (fst (snd ex_rank))) = 1"
  unfolding est_ok_def by code_simp

lemma ex_rank_inv: "ledger_inv (rs_quota (fst (snd ex_rank)))"
proof -
  have room: "ledger_room (rs_quota ex_service)"
    using empty_ledger_inv by (simp add: ledger_room_def ex_service_def NewQuotaLedger_def)
  obtain aff s ranked where eq: "ex_rank = (aff, s, ranked)" by (metis prod_cases3)
  from rank_facts(1) [OF eq [unfolded ex_rank_def] est_ok_request room] show ?thesis by (simp add: eq)
qed

theorem router_chain_leaks_no_quota_witness:
  "live_tickets (rs_quota (w_service ex_net_world)) = {1} \<and>
   live_tickets (rs_quota (w_service (fst
     (executeFallbacks ex_upstream ex_net (\<lambda>d t. t + d) (\<lambda>_. 6) [] ex_net_execution (snd (snd ex_rank)) ex_net_world)))) = {}"
proof -
  have live: "live_tickets (rs_quota (w_service ex_net_world)) = {1}" using ex_rank_eval by (simp add: ex_net_world_def)
  have "1 \<in> ticket_ids (rs_quota (w_service ex_net_world)) (snd (snd ex_rank))"
    using ex_rank_typed by (cases "snd (snd ex_rank)") (auto simp: ticket_ids_def ex_net_world_def)
  moreover have "ledger_inv (rs_quota (w_service (fst
     (executeFallbacks ex_upstream ex_net (\<lambda>d t. t + d) (\<lambda>_. 6) [] ex_net_execution (snd (snd ex_rank)) ex_net_world)))) \<and>
     live_tickets (rs_quota (w_service (fst
     (executeFallbacks ex_upstream ex_net (\<lambda>d t. t + d) (\<lambda>_. 6) [] ex_net_execution (snd (snd ex_rank)) ex_net_world)))) \<subseteq>
      live_tickets (rs_quota (w_service ex_net_world)) - ticket_ids (rs_quota (w_service ex_net_world)) (snd (snd ex_rank))"
    by (rule router_chain_leaks_no_quota [OF _ _ _ _ _ _ surjective_pairing])
       (use ex_rank_inv live ex_rank_typed in \<open>simp_all add: ex_net_execution_def ex_net_world_def\<close>)
  ultimately show ?thesis using live by auto
qed

text \<open>The provider of the example answers 500.\<close>

lemma ex_net_fails:
  "snd (executeFallbacks ex_upstream ex_net (\<lambda>d t. t + d) (\<lambda>_. 6) [] ex_net_execution (snd (snd ex_rank)) ex_net_world) \<noteq> None"
  by code_simp

theorem router_chain_answers_once_witness:
  "rw_Status (nw_writer (fst (executeFallbacks ex_upstream ex_net (\<lambda>d t. t + d) (\<lambda>_. 6) [] ex_net_execution
     (snd (snd ex_rank)) ex_net_world))) = None"
proof -
  have "fe_OnSuccess ex_net_execution = None" "fe_OnFailure ex_net_execution = None" "fe_ReserveQuota ex_net_execution = None"
    "no_answer (nw_writer ex_net_world)"
    by (simp_all add: ex_net_execution_def ex_net_world_def newWriter_def no_answer_def)
  from router_chain_answers_once [OF this surjective_pairing, of ex_upstream ex_net "\<lambda>d t. t + d" "\<lambda>_. 6" "[]" "snd (snd ex_rank)"]
  show ?thesis using ex_net_fails by (simp add: no_answer_def)
qed

end
