(* ===== verification/Prompt.thy ===== *)
theory Prompt
  imports Request_Body
begin

text \<open>
  Classifying a prompt, \<open>src/internal/router/router_policy_prompt.go\<close>: the text of the last user
  message, searched for whole words, picks the profile of a request that names none; and whether any
  message carries an image.

  A pattern of the source is an alternative of words between two word boundaries; over bytes it is a
  search for a listed word at a position with a boundary on either side. Letters with an accent are
  their two UTF-8 bytes, which are no word characters for a boundary.
\<close>

section \<open>Word search\<close>

definition word_char :: "char \<Rightarrow> bool" where
  "word_char c \<longleftrightarrow>
     (let n = of_char c :: nat in 48 \<le> n \<and> n \<le> 57 \<or> 65 \<le> n \<and> n \<le> 90 \<or> 97 \<le> n \<and> n \<le> 122 \<or> n = 95)"

definition in_word :: "char option \<Rightarrow> bool" where
  "in_word c = (case c of None \<Rightarrow> False | Some c \<Rightarrow> word_char c)"

definition first_char :: "string \<Rightarrow> char option" where
  "first_char s = (case s of [] \<Rightarrow> None | c # _ \<Rightarrow> Some c)"

text \<open>A word at the start of \<open>s\<close>, when \<open>prev\<close> is the character before.\<close>

definition word_here :: "char option \<Rightarrow> string \<Rightarrow> string \<Rightarrow> bool" where
  "word_here prev s w \<longleftrightarrow>
     has_prefix s w \<and> in_word prev \<noteq> in_word (first_char s) \<and>
     in_word (if w = [] then prev else Some (last w)) \<noteq> in_word (first_char (drop (length w) s))"

fun match_words :: "string list \<Rightarrow> char option \<Rightarrow> string \<Rightarrow> bool" where
  "match_words ws prev [] = list_ex (word_here prev []) ws"
| "match_words ws prev (c # s) = (list_ex (word_here prev (c # s)) ws \<or> match_words ws (Some c) s)"

definition acute_a :: string where "acute_a = [CHR 0xC3, CHR 0xA1]"
definition acute_o :: string where "acute_o = [CHR 0xC3, CHR 0xB3]"

definition codingPromptPattern :: "string list" where
  "codingPromptPattern = [''code'', ''script'', ''error'', ''bug'', ''function'', ''funci'' @ acute_o @ ''n'', ''funcion'',
     ''bash'', ''python'', ''javascript'', ''golang'', ''go'', ''html'', ''css'', ''codex'', ''gemini'', ''refactor'',
     ''refactoriza'', ''debug'', ''depura'', ''program'', ''programa'', ''codigo'', ''c'' @ acute_o @ ''digo'', ''syntax'',
     ''sintaxis'']"

definition reasonPromptPattern :: "string list" where
  "reasonPromptPattern = [''think'', ''solve'', ''math'', ''why'', ''logic'', ''puzzle'', ''calculate'', ''analyze'',
     ''reason'', ''structure'', ''architecture'', ''explain'', ''razona'', ''piensa'', ''analiza'', ''analizar'',
     ''estructura'', ''resuelve'', ''matematica'', ''matem'' @ acute_a @ ''tica'', ''logica'', ''l'' @ acute_o @ ''gica'',
     ''calcula'', ''explicar'', ''explica'', ''arquitectura'']"

definition agentPromptPattern :: "string list" where
  "agentPromptPattern = [''execute'', ''terminal'', ''command'', ''task'', ''tool'', ''system'', ''sh'', ''run'', ''check'',
     ''use'', ''verify'', ''search'', ''find'', ''verifica'', ''chequea'', ''usa'', ''herramienta'', ''comandos'',
     ''comando'', ''ejecuta'', ''tarea'', ''sistema'', ''corre'', ''revisa'', ''busca'', ''encuentra'']"

section \<open>The content of messages\<close>

definition text_part :: "json \<Rightarrow> string option" where
  "text_part raw = (case raw of
     JObj part \<Rightarrow> if string_or_empty (m_get part ''type'') = ''text'' then as_string (m_get part ''text'') else None
   | _ \<Rightarrow> None)"

definition extractMessageText :: "json option \<Rightarrow> string" where
  "extractMessageText content = (case content of
     Some (JStr s) \<Rightarrow> s
   | Some (JArr parts) \<Rightarrow> join '' '' (List.map_filter text_part parts)
   | _ \<Rightarrow> [])"

definition image_part :: "json \<Rightarrow> bool" where
  "image_part raw = (case raw of
     JObj part \<Rightarrow> string_or_empty (m_get part ''type'') \<in> {''image_url'', ''input_image'', ''image''} \<or>
       m_get part ''image_url'' \<noteq> None \<or> m_get part ''image'' \<noteq> None
   | _ \<Rightarrow> False)"

definition contentContainsImage :: "json option \<Rightarrow> bool" where
  "contentContainsImage content = (case content of
     Some (JArr parts) \<Rightarrow> list_ex image_part parts
   | Some (JObj part) \<Rightarrow> m_get part ''image_url'' \<noteq> None \<or> m_get part ''image'' \<noteq> None
   | _ \<Rightarrow> False)"

definition hasImageContent :: "json list \<Rightarrow> bool" where
  "hasImageContent messages =
     list_ex (\<lambda>m. case m of JObj entry \<Rightarrow> contentContainsImage (m_get entry ''content'') | _ \<Rightarrow> False) messages"

text \<open>The last user message, lower-cased; empty when there is none.\<close>

definition last_user_text :: "json list \<Rightarrow> string" where
  "last_user_text messages =
     fold (\<lambda>m text. case m of
         JObj entry \<Rightarrow> if m_get entry ''role'' = Some (JStr ''user'')
                       then to_lower (extractMessageText (m_get entry ''content'')) else text
       | _ \<Rightarrow> text) messages []"

definition classifyPrompt :: "json list \<Rightarrow> string" where
  "classifyPrompt messages =
     (let text = last_user_text messages
      in if messages = [] then ''simple''
         else if match_words codingPromptPattern None text then ''coding''
         else if match_words reasonPromptPattern None text then ''reasoning''
         else if match_words agentPromptPattern None text then ''agent''
         else ''simple'')"

section \<open>What a match is\<close>

text \<open>A match is an occurrence of a listed word with a boundary on either side; \<open>q\<close> is the character before
  the text.\<close>

definition occurs :: "char option \<Rightarrow> string \<Rightarrow> string \<Rightarrow> bool" where
  "occurs q t w \<longleftrightarrow> (\<exists>p s. t = p @ w @ s \<and> word_here (if p = [] then q else Some (last p)) (w @ s) w)"

lemma word_here_split: "word_here q t w \<Longrightarrow> t = w @ drop (length w) t"
  by (metis append_take_drop_id has_prefix_def word_here_def)

lemma occurs_Nil: "occurs q [] w \<longleftrightarrow> word_here q [] w"
  by (auto simp: occurs_def dest: word_here_split)

lemma occurs_Cons: "occurs q (c # t) w \<longleftrightarrow> word_here q (c # t) w \<or> occurs (Some c) t w"
proof
  assume "occurs q (c # t) w"
  then obtain p s where p: "c # t = p @ w @ s" "word_here (if p = [] then q else Some (last p)) (w @ s) w"
    by (auto simp: occurs_def)
  show "word_here q (c # t) w \<or> occurs (Some c) t w"
  proof (cases p)
    case (Cons d p')
    with p have "t = p' @ w @ s" "word_here (if p' = [] then Some c else Some (last p')) (w @ s) w"
      by (auto split: if_splits)
    then show ?thesis unfolding occurs_def by blast
  qed (use p in simp)
next
  assume "word_here q (c # t) w \<or> occurs (Some c) t w"
  then show "occurs q (c # t) w"
  proof
    assume h: "word_here q (c # t) w"
    with word_here_split [OF h] show ?thesis unfolding occurs_def
      by (intro exI [of _ "[]"] exI [of _ "drop (length w) (c # t)"]) simp
  next
    assume "occurs (Some c) t w"
    then obtain p s where "t = p @ w @ s" "word_here (if p = [] then Some c else Some (last p)) (w @ s) w"
      by (auto simp: occurs_def)
    then have "c # t = (c # p) @ w @ s \<and> word_here (if c # p = [] then q else Some (last (c # p))) (w @ s) w" by (simp split: if_splits)
    then show ?thesis unfolding occurs_def by blast
  qed
qed

lemma match_words_iff: "match_words ws q t \<longleftrightarrow> (\<exists>w\<in>set ws. occurs q t w)"
proof (induction ws q t rule: match_words.induct)
  case (1 ws prev)
  show ?case by (simp add: list_ex_iff occurs_Nil)
next
  case (2 ws prev c t)
  then show ?case by (auto simp: list_ex_iff occurs_Cons)
qed

lemma classify_names: "classifyPrompt messages \<in> {''simple'', ''coding'', ''reasoning'', ''agent''}"
  by (simp add: classifyPrompt_def Let_def)

lemma classify_examples:
  "classifyPrompt [JObj [(''role'', JStr ''user''), (''content'', JStr ''Fix this BUG!'')]] = ''coding''"
  "classifyPrompt [JObj [(''role'', JStr ''user''), (''content'', JStr ''a debugger'')]] = ''simple''"
  by code_simp+

end
