(* ===== verification/Policy.thy ===== *)
theory Policy
  imports Http Prompt Registry
begin

text \<open>
  Authorization of a request. The generated policy engine
  (\<open>src/internal/router/policyrules/generated_policy.go\<close>) with its vocabulary and configuration
  (\<open>policyvocab/generated.go\<close>, \<open>router_policy_config.go\<close>), the facts a request carries
  (\<open>router_http_classifier.go\<close>, \<open>router_policy_facts.go\<close>, \<open>router_policy_request.go\<close>), limits and audit
  classes (\<open>router_policy_types.go\<close>), and the gate itself, \<open>authorizeOperationalRoute\<close> of
  \<open>operational_policy.go\<close>.

  Parameters: the facts the HTTP adapter library reads from a request, the decoders of JSON values in
  the environment, \<open>strconv.ParseFloat\<close>. An error is its text. Telemetry and logs are not modelled.
\<close>

section \<open>Vocabulary\<close>

definition capChatCompletion :: string where "capChatCompletion = ''chat_completion''"
definition capToolOrchestration :: string where "capToolOrchestration = ''tool_orchestration''"
definition capTelegramWebhook :: string where "capTelegramWebhook = ''telegram_webhook''"
definition capSecretLookup :: string where "capSecretLookup = ''secret_lookup''"
definition capPlanning :: string where "capPlanning = ''planning''"
definition capMediaRequest :: string where "capMediaRequest = ''media_request''"
definition capEmbedding :: string where "capEmbedding = ''embedding''"

lemmas cap_defs = capChatCompletion_def capToolOrchestration_def capTelegramWebhook_def capSecretLookup_def
  capPlanning_def capMediaRequest_def capEmbedding_def

definition FactBodyBytes :: string where "FactBodyBytes = ''body_bytes''"

record vocabulary =
  vo_operations :: "string list"
  vo_targets :: "string list"
  vo_executors :: "string list"

definition Vocabulary :: vocabulary where
  "Vocabulary = \<lparr>
     vo_operations = [capChatCompletion, capEmbedding, capMediaRequest, capPlanning, capSecretLookup, capTelegramWebhook,
       capToolOrchestration],
     vo_targets = [''cervobridge'', ''cervocore'', ''cervomedia'', ''cervovault_api'', ''crashito_brain''],
     vo_executors = [providerAnthropic, providerLocal, providerOllama, providerOpenAI, providerOpenRouter]\<rparr>"

text \<open>Names are compared without case and outer space.\<close>

definition allowed_name :: "string list \<Rightarrow> string \<Rightarrow> bool" where
  "allowed_name names n \<longleftrightarrow> to_lower (trim_space n) \<noteq> [] \<and> to_lower (trim_space n) \<in> set names"

section \<open>Configuration of the engine\<close>

record policyRuntimeConfig =
  pr_TrustedUsers :: "string list"
  pr_DefaultExecutor :: string
  pr_OperationTargets :: "(string, string) gomap"
  pr_ExecutorFallbacks :: "(string, string list) gomap"

definition DefaultConfig :: policyRuntimeConfig where
  "DefaultConfig = \<lparr>pr_TrustedUsers = [''cervantes''], pr_DefaultExecutor = ''openrouter'',
     pr_OperationTargets = [(capChatCompletion, ''cervocore''), (capEmbedding, ''cervocore''), (capPlanning, ''cervocore''),
       (capSecretLookup, ''cervovault_api''), (capTelegramWebhook, ''cervobridge''), (capToolOrchestration, ''cervocore'')],
     pr_ExecutorFallbacks = []\<rparr>"

definition mergePolicyRuntimeConfig :: "policyRuntimeConfig \<Rightarrow> policyRuntimeConfig \<Rightarrow> policyRuntimeConfig" where
  "mergePolicyRuntimeConfig base override =
     \<lparr>pr_TrustedUsers = (if pr_TrustedUsers override \<noteq> [] then pr_TrustedUsers override else pr_TrustedUsers base),
      pr_DefaultExecutor = (if pr_DefaultExecutor override \<noteq> [] then pr_DefaultExecutor override else pr_DefaultExecutor base),
      pr_OperationTargets = fold (\<lambda>(operation, target). m_set operation target) (pr_OperationTargets override)
        (pr_OperationTargets base),
      pr_ExecutorFallbacks = fold (\<lambda>(executor, fallbacks). m_set executor fallbacks) (pr_ExecutorFallbacks override)
        (pr_ExecutorFallbacks base)\<rparr>"

text \<open>The generated package merges once more; no condition evaluator is ever configured, which is the only
  difference between the two functions.\<close>

definition mergeRuntimeConfig :: "policyRuntimeConfig \<Rightarrow> policyRuntimeConfig \<Rightarrow> policyRuntimeConfig" where
  "mergeRuntimeConfig base override = mergePolicyRuntimeConfig base override"

text \<open>The fields that fail validation, in the order they are met (the code sorts its errors before it returns
  them).\<close>

definition ValidateConfig :: "policyRuntimeConfig \<Rightarrow> string list" where
  "ValidateConfig cfg =
     (if pr_DefaultExecutor cfg \<noteq> [] \<and> \<not> allowed_name (vo_executors Vocabulary) (pr_DefaultExecutor cfg)
      then [''defaults.executor''] else []) @
     concat (map (\<lambda>(operation, target).
       (if allowed_name (vo_operations Vocabulary) operation then [] else [''operation_targets['' @ operation @ '']'']) @
       (if allowed_name (vo_targets Vocabulary) target then [] else [''operation_targets['' @ operation @ ''].target'']))
       (pr_OperationTargets cfg)) @
     concat (map (\<lambda>(executor, fallbacks).
       (if allowed_name (vo_executors Vocabulary) executor then [] else [''executor_fallbacks['' @ executor @ '']'']) @
       concat (map (\<lambda>(i, f). if allowed_name (vo_executors Vocabulary) f then []
           else [''executor_fallbacks['' @ executor @ '']['' @ itoa (int i) @ '']'']) (enumerate 0 fallbacks)))
       (pr_ExecutorFallbacks cfg))"

section \<open>The engine\<close>

record policyRequest =
  pq_ID :: string
  pq_User :: string
  pq_Channel :: string
  pq_Operation :: string
  pq_Metadata :: "(string, string) gomap"

record factFrame =
  ff_BodyBytes :: int

text \<open>A predicate reports whether it matched and which leaf decided.\<close>

type_synonym ruleMatcher = "factFrame \<Rightarrow> bool \<times> string"

record generatedRoute =
  gr_target :: string
  gr_executor :: string
  gr_id :: string
  gr_reason :: string
  gr_requiresTrustedUser :: bool
  gr_requires :: "string list"
  gr_match :: "ruleMatcher option"

record generatedDeny =
  gd_operation :: string
  gd_id :: string
  gd_reason :: string
  gd_requires :: "string list"
  gd_match :: "ruleMatcher option"

record generatedEngine =
  ge_routes :: "(string, generatedRoute) gomap"
  ge_denies :: "generatedDeny list"
  ge_disabledDenies :: "(string, string) gomap"
  ge_trustedUsers :: "string list"
  ge_defaultExecutor :: string
  ge_executorFallbacks :: "(string, string list) gomap"
  ge_conditions :: "(string \<Rightarrow> policyRequest \<Rightarrow> string + bool) option"

definition route_to :: "string \<Rightarrow> string \<Rightarrow> bool \<Rightarrow> generatedRoute" where
  "route_to target name trusted = \<lparr>gr_target = target, gr_executor = [], gr_id = name, gr_reason = ''route matched'',
     gr_requiresTrustedUser = trusted, gr_requires = [], gr_match = None\<rparr>"

definition generated_routes :: "(string, generatedRoute) gomap" where
  "generated_routes =
     [(capChatCompletion, route_to ''cervocore'' ''chat_completion'' False),
      (capEmbedding, route_to ''cervocore'' ''embedding'' False),
      (capPlanning, route_to ''cervocore'' ''planning'' False),
      (capSecretLookup, route_to ''cervovault_api'' ''secret_lookup'' True),
      (capTelegramWebhook, route_to ''cervobridge'' ''telegram_webhook'' False),
      (capToolOrchestration, route_to ''cervocore'' ''tool_orchestration'' False)]"

definition disabled_routes :: "(string, generatedRoute) gomap" where
  "disabled_routes = [(capMediaRequest, (route_to ''cervomedia'' ''media_request'' False)\<lparr>gr_reason := ''runtime override''\<rparr>)]"

definition no_route :: generatedRoute where
  "no_route = \<lparr>gr_target = [], gr_executor = [], gr_id = [], gr_reason = [], gr_requiresTrustedUser = False, gr_requires = [],
     gr_match = None\<rparr>"

definition matchRule0DenyOversizedBody :: ruleMatcher where
  "matchRule0DenyOversizedBody f =
     (if ff_BodyBytes f > 67108864 then (True, ''body_bytes gt 67108864'') else (False, []))"

definition generated_denies :: "generatedDeny list" where
  "generated_denies = [\<lparr>gd_operation = [], gd_id = ''deny-oversized-body'',
     gd_reason = ''request body exceeds the size this policy allows'', gd_requires = [],
     gd_match = Some matchRule0DenyOversizedBody\<rparr>]"

text \<open>One runtime target: the route of its operation, made from a disabled one or from nothing when there is
  none.\<close>

definition apply_target ::
  "string \<Rightarrow> string \<times> string \<Rightarrow> (string, generatedRoute) gomap \<Rightarrow> (string, generatedRoute) gomap" where
  "apply_target defaultExecutor ot rs = (case ot of (operation, target) \<Rightarrow>
     let route = (case m_get rs operation of Some r \<Rightarrow> r | None \<Rightarrow> m_get_or no_route disabled_routes operation);
         route = route\<lparr>gr_target := target\<rparr>;
         route = (if gr_executor route = [] then route\<lparr>gr_executor := defaultExecutor\<rparr> else route);
         route = (if gr_id route = [] then route\<lparr>gr_id := operation\<rparr> else route);
         route = (if gr_reason route = [] then route\<lparr>gr_reason := ''runtime override''\<rparr> else route)
     in m_set operation route rs)"

definition Build :: "policyRuntimeConfig \<Rightarrow> string list + generatedEngine" where
  "Build cfg0 =
     (let cfg = mergeRuntimeConfig DefaultConfig cfg0; errs = ValidateConfig cfg
      in if errs \<noteq> [] then Inl errs
         else Inr \<lparr>ge_routes = fold (apply_target (pr_DefaultExecutor cfg)) (pr_OperationTargets cfg) generated_routes,
           ge_denies = generated_denies, ge_disabledDenies = [(capMediaRequest, ''media backend not configured'')],
           ge_trustedUsers = filter (\<lambda>u. u \<noteq> []) (map (\<lambda>u. to_lower (trim_space u)) (pr_TrustedUsers cfg)),
           ge_defaultExecutor = pr_DefaultExecutor cfg, ge_executorFallbacks = pr_ExecutorFallbacks cfg,
           ge_conditions = None\<rparr>)"

definition factRawValue :: "policyRequest \<Rightarrow> string \<Rightarrow> string option" where
  "factRawValue req name = (case m_get (pq_Metadata req) name of
     None \<Rightarrow> None | Some raw \<Rightarrow> if trim_space raw = [] then None else Some (trim_space raw))"

record factIntegerBounds =
  fb_def :: "int option"
  fb_min :: "int option"
  fb_max :: "int option"

definition factIntegerValue :: "policyRequest \<Rightarrow> string \<Rightarrow> factIntegerBounds \<Rightarrow> string + int" where
  "factIntegerValue req name bounds = (case factRawValue req name of
     None \<Rightarrow> (case fb_def bounds of
         Some d \<Rightarrow> Inr d
       | None \<Rightarrow> Inl ''fact is absent from request metadata and the policy declares no default'')
   | Some raw \<Rightarrow> (case atoi raw of
         None \<Rightarrow> Inl ''fact is not an integer''
       | Some v \<Rightarrow>
           if (case fb_min bounds of Some m \<Rightarrow> v < m | None \<Rightarrow> False) then Inl ''fact is below its declared minimum''
           else if (case fb_max bounds of Some m \<Rightarrow> v > m | None \<Rightarrow> False) then Inl ''fact is above its declared maximum''
           else Inr v))"

definition newFactFrame :: "policyRequest \<Rightarrow> string + factFrame" where
  "newFactFrame req = (case factIntegerValue req ''body_bytes'' \<lparr>fb_def = Some 0, fb_min = Some 0, fb_max = None\<rparr> of
     Inl e \<Rightarrow> Inl e | Inr v \<Rightarrow> Inr \<lparr>ff_BodyBytes = v\<rparr>)"

fun conditions_loop :: "(string \<Rightarrow> policyRequest \<Rightarrow> string + bool) \<Rightarrow> policyRequest \<Rightarrow> string list \<Rightarrow> string + bool" where
  "conditions_loop holds req [] = Inr True"
| "conditions_loop holds req (c # cs) = (case holds c req of
     Inl e \<Rightarrow> Inl e | Inr False \<Rightarrow> Inr False | Inr True \<Rightarrow> conditions_loop holds req cs)"

definition conditionsHold :: "generatedEngine \<Rightarrow> string list \<Rightarrow> policyRequest \<Rightarrow> string + bool" where
  "conditionsHold e required req =
     (if required = [] then Inr True
      else case ge_conditions e of
             None \<Rightarrow> Inl ''policy requires conditions but no evaluator is configured''
           | Some holds \<Rightarrow> conditions_loop holds req required)"

definition isTrustedUser :: "generatedEngine \<Rightarrow> string \<Rightarrow> bool" where
  "isTrustedUser e user \<longleftrightarrow>
     (let n = to_lower (trim_space user) in n \<noteq> [] \<and> n \<in> set (ge_trustedUsers e))"

record coreDecision =
  cd_Allow :: bool
  cd_Target :: string
  cd_Executor :: string
  cd_FallbackExecutors :: "string list"
  cd_Reason :: string

definition deny :: "string \<Rightarrow> coreDecision" where
  "deny reason = \<lparr>cd_Allow = False, cd_Target = [], cd_Executor = [], cd_FallbackExecutors = [], cd_Reason = reason\<rparr>"

record decisionResult =
  dr_Decision :: coreDecision
  dr_Steps :: "policyTraceStep list option"

definition noResult :: decisionResult where
  "noResult = \<lparr>dr_Decision = deny [], dr_Steps = None\<rparr>"

definition step_of :: "bool \<Rightarrow> string \<Rightarrow> bool \<Rightarrow> string \<Rightarrow> policyTraceStep list" where
  "step_of on name matched detail =
     (if on then [\<lparr>ps_Name = name, ps_Matched = matched, ps_Detail = detail\<rparr>] else [])"

definition finish :: "bool \<Rightarrow> policyTraceStep list \<Rightarrow> coreDecision \<Rightarrow> decisionResult" where
  "finish traceOn steps d = \<lparr>dr_Decision = d, dr_Steps = (if traceOn then Some steps else None)\<rparr>"

text \<open>The ordered deny rules: an error, the denial of the first that applies, or the steps taken when none
  does.\<close>

fun deny_loop ::
  "generatedEngine \<Rightarrow> bool \<Rightarrow> policyRequest \<Rightarrow> factFrame \<Rightarrow> generatedDeny list \<Rightarrow> policyTraceStep list \<Rightarrow>
   string + (string option \<times> policyTraceStep list)" where
  "deny_loop e traceOn req frame [] steps = Inr (None, steps)"
| "deny_loop e traceOn req frame (d # ds) steps =
     (if gd_operation d \<noteq> [] \<and> gd_operation d \<noteq> pq_Operation req then deny_loop e traceOn req frame ds steps
      else case conditionsHold e (gd_requires d) req of
             Inl err \<Rightarrow> Inl err
           | Inr applies \<Rightarrow>
               let (applies, detail) = (case gd_match d of
                     Some m \<Rightarrow> if applies then m frame else (applies, [])
                   | None \<Rightarrow> (applies, []));
                   steps = steps @ step_of traceOn (gd_id d) applies detail
               in if applies then Inr (Some (gd_reason d), steps) else deny_loop e traceOn req frame ds steps)"

definition decide_route ::
  "generatedEngine \<Rightarrow> bool \<Rightarrow> policyRequest \<Rightarrow> factFrame \<Rightarrow> policyTraceStep list \<Rightarrow> string + decisionResult" where
  "decide_route e traceOn req frame steps = (case m_get (ge_routes e) (pq_Operation req) of
     None \<Rightarrow>
       Inr (finish traceOn steps (deny (case m_get (ge_disabledDenies e) (pq_Operation req) of
         Some reason \<Rightarrow> reason
       | None \<Rightarrow> ''no route for operation '' @ pq_Operation req)))
   | Some route \<Rightarrow>
       if gr_requiresTrustedUser route \<and> \<not> isTrustedUser e (pq_User req)
       then Inr (finish traceOn steps (deny (''operation '' @ pq_Operation req @ '' requires trusted user'')))
       else case conditionsHold e (gr_requires route) req of
              Inl err \<Rightarrow> Inl err
            | Inr eligible \<Rightarrow>
                let (eligible, detail) = (case gr_match route of
                      Some m \<Rightarrow> if eligible then m frame else (eligible, [])
                    | None \<Rightarrow> (eligible, []));
                    steps = steps @ step_of traceOn (gr_id route) eligible detail;
                    executor = (if gr_executor route = [] then ge_defaultExecutor e else gr_executor route)
                in Inr (finish traceOn steps
                     (if \<not> eligible
                      then deny (''operation '' @ pq_Operation req @ '' did not satisfy its required conditions'')
                      else \<lparr>cd_Allow = True, cd_Target = gr_target route, cd_Executor = executor,
                            cd_FallbackExecutors = m_get_or [] (ge_executorFallbacks e) executor,
                            cd_Reason = gr_reason route\<rparr>)))"

text \<open>\<open>cancelled\<close> is the error of a context that is already done.\<close>

definition DecideWithOptions ::
  "generatedEngine \<Rightarrow> string option \<Rightarrow> policyRequest \<Rightarrow> bool \<Rightarrow> string + decisionResult" where
  "DecideWithOptions e cancelled req traceOn = (case cancelled of
     Some err \<Rightarrow> Inl err
   | None \<Rightarrow> (case newFactFrame req of
       Inl err \<Rightarrow> Inl err
     | Inr frame \<Rightarrow> (case deny_loop e traceOn req frame (ge_denies e) [] of
         Inl err \<Rightarrow> Inl err
       | Inr (Some reason, steps) \<Rightarrow> Inr (finish traceOn steps (deny reason))
       | Inr (None, steps) \<Rightarrow> decide_route e traceOn req frame steps)))"

section \<open>The facts of a request\<close>

text \<open>What the adapter library reads from an HTTP request.\<close>

record adapterFacts =
  hf_ID :: string
  hf_User :: string
  hf_Channel :: string
  hf_Risk :: string
  hf_Operation :: string

record requestFacts =
  rf_ID :: string
  rf_User :: string
  rf_Channel :: string
  rf_Risk :: string
  rf_OperationHint :: string
  rf_Metadata :: "(string, string) gomap"
  rf_Stream :: bool

definition trustUserHeader :: "process_env \<Rightarrow> bool" where
  "trustUserHeader env = equal_fold (trim_space (envValue env ''PROXY_TRUST_USER_HEADER'')) ''true''"

definition userFromHeader :: "process_env \<Rightarrow> string \<Rightarrow> string" where
  "userFromHeader env user = (if user = [] \<or> \<not> trustUserHeader env then [] else user)"

definition FactsFromHTTPRequest :: "process_env \<Rightarrow> adapterFacts \<Rightarrow> requestFacts" where
  "FactsFromHTTPRequest env h = \<lparr>rf_ID = hf_ID h, rf_User = userFromHeader env (hf_User h), rf_Channel = hf_Channel h,
     rf_Risk = hf_Risk h, rf_OperationHint = hf_Operation h, rf_Metadata = [], rf_Stream = False\<rparr>"

definition validateClientOperation :: "string \<Rightarrow> bool" where
  "validateClientOperation operation \<longleftrightarrow> operation = [] \<or> allowed_name (vo_operations Vocabulary) operation"

definition or_else :: "string \<Rightarrow> string \<Rightarrow> string" where
  "or_else override base = (if override \<noteq> [] then override else base)"

definition mergeRequestFacts :: "requestFacts \<Rightarrow> requestFacts \<Rightarrow> requestFacts" where
  "mergeRequestFacts base override =
     \<lparr>rf_ID = or_else (rf_ID override) (rf_ID base), rf_User = or_else (rf_User override) (rf_User base),
      rf_Channel = or_else (rf_Channel override) (rf_Channel base), rf_Risk = or_else (rf_Risk override) (rf_Risk base),
      rf_OperationHint = or_else (rf_OperationHint base) (rf_OperationHint override),
      rf_Metadata = fold (\<lambda>(k, v). m_set k v) (rf_Metadata override) (rf_Metadata base),
      rf_Stream = (rf_Stream override \<or> rf_Stream base)\<rparr>"

definition requestFromFacts :: "requestFacts \<Rightarrow> policyRequest" where
  "requestFromFacts facts =
     \<lparr>pq_ID = rf_ID facts, pq_User = rf_User facts, pq_Channel = rf_Channel facts, pq_Operation = rf_OperationHint facts,
      pq_Metadata = (if rf_Risk facts \<noteq> [] then m_set ''risk'' (rf_Risk facts) (rf_Metadata facts) else rf_Metadata facts)\<rparr>"

section \<open>Limits\<close>

record Limits =
  li_MaxBodyBytes :: int
  li_MaxTokens :: int
  li_AllowStream :: bool
  li_AllowTools :: bool
  li_AllowImages :: bool

record RequestedLimits =
  rl_BodyBytes :: int
  rl_MaxTokens :: int
  rl_Stream :: bool
  rl_Tools :: bool
  rl_Images :: bool

record Violation =
  vi_Field :: string
  vi_Reason :: string

definition Check :: "Limits \<Rightarrow> RequestedLimits \<Rightarrow> Violation list" where
  "Check budget requested =
     (if li_MaxBodyBytes budget > 0 \<and> rl_BodyBytes requested > li_MaxBodyBytes budget
      then [\<lparr>vi_Field = ''body_bytes'', vi_Reason =
        ''request body exceeds policy limit of '' @ itoa (li_MaxBodyBytes budget) @ '' bytes''\<rparr>] else []) @
     (if li_MaxTokens budget > 0 \<and> rl_MaxTokens requested > li_MaxTokens budget
      then [\<lparr>vi_Field = ''max_tokens'', vi_Reason = ''max_tokens exceeds policy limit of '' @ itoa (li_MaxTokens budget)\<rparr>] else []) @
     (if rl_Stream requested \<and> \<not> li_AllowStream budget
      then [\<lparr>vi_Field = ''stream'', vi_Reason = ''streaming is not allowed by policy''\<rparr>] else []) @
     (if rl_Tools requested \<and> \<not> li_AllowTools budget
      then [\<lparr>vi_Field = ''tools'', vi_Reason = ''tools are not allowed by policy''\<rparr>] else []) @
     (if rl_Images requested \<and> \<not> li_AllowImages budget
      then [\<lparr>vi_Field = ''images'', vi_Reason = ''images are not allowed by policy''\<rparr>] else [])"

definition noLimits :: Limits where
  "noLimits = \<lparr>li_MaxBodyBytes = 0, li_MaxTokens = 0, li_AllowStream = False, li_AllowTools = False, li_AllowImages = False\<rparr>"

definition hasCustomLimits :: "Limits \<Rightarrow> bool" where
  "hasCustomLimits l \<longleftrightarrow>
     li_AllowStream l \<or> li_AllowTools l \<or> li_AllowImages l \<or> li_MaxBodyBytes l \<noteq> 0 \<or> li_MaxTokens l \<noteq> 0"

definition limitsForOperation :: "string \<Rightarrow> Limits \<Rightarrow> Limits" where
  "limitsForOperation operation override =
     (if hasCustomLimits override then override
      else if operation = capChatCompletion
      then noLimits\<lparr>li_AllowStream := True, li_AllowImages := True, li_AllowTools := True\<rparr>
      else if operation = capToolOrchestration then noLimits\<lparr>li_AllowTools := True\<rparr>
      else noLimits)"

text \<open>\<open>decode\<close> unmarshals a JSON text over given limits, and keeps what it read when it fails.\<close>

definition loadLimitsFromEnv :: "(string \<Rightarrow> Limits \<Rightarrow> Limits) \<Rightarrow> process_env \<Rightarrow> Limits" where
  "loadLimitsFromEnv decode env =
     (let raw = envValue env ''PROXY_LIMITS_JSON''; limits = (if raw \<noteq> [] then decode raw noLimits else noLimits);
          raw = envValue env ''PROXY_MAX_BODY_BYTES''
      in if raw = [] then limits
         else case atoi raw of Some parsed \<Rightarrow> limits\<lparr>li_MaxBodyBytes := parsed\<rparr> | None \<Rightarrow> limits)"

definition requestedPolicyLimits :: "requestFacts \<Rightarrow> nat \<Rightarrow> RequestedLimits option \<Rightarrow> RequestedLimits" where
  "requestedPolicyLimits facts bodyLen requested = (case requested of
     Some r \<Rightarrow> r
   | None \<Rightarrow> \<lparr>rl_BodyBytes = int bodyLen, rl_MaxTokens = 0, rl_Stream = rf_Stream facts, rl_Tools = False, rl_Images = False\<rparr>)"

record policyRequestFacts =
  pf_Metadata :: "(string, string) gomap"
  pf_RequestedLimits :: RequestedLimits

definition requestPolicyFacts ::
  "body \<Rightarrow> string \<Rightarrow> string \<Rightarrow> bool \<Rightarrow> bool \<Rightarrow> bool \<Rightarrow> int \<Rightarrow> policyRequestFacts" where
  "requestPolicyFacts reqBody profile requestedModel stream hasTools hasImages bodyBytes =
     (let requested = \<lparr>rl_BodyBytes = bodyBytes,
            rl_MaxTokens = (case requestedMaxTokens (m_get reqBody ''max_tokens'') of Some n \<Rightarrow> n | None \<Rightarrow> 0),
            rl_Stream = stream, rl_Tools = hasTools, rl_Images = hasImages\<rparr>;
          metadata = (if trim_space profile \<noteq> [] then m_set ''profile'' (trim_space profile) [] else []);
          metadata = (if trim_space requestedModel \<noteq> [] then m_set ''requested_model'' (trim_space requestedModel) metadata
                      else metadata)
      in \<lparr>pf_Metadata = metadata, pf_RequestedLimits = requested\<rparr>)"

text \<open>\<open>derivePolicyFacts\<close>: at most 32 facts, none with a blank value.\<close>

definition add_fact :: "string \<times> string \<Rightarrow> (string \<times> string) list \<Rightarrow> (string \<times> string) list" where
  "add_fact pv facts = (case pv of (p, v) \<Rightarrow>
     if trim_space v = [] \<or> length facts \<ge> 32 then facts else facts @ [(p, trim_space v)])"

definition derivePolicyFacts :: "requestFacts \<Rightarrow> policyRequestFacts \<Rightarrow> healthSummary \<Rightarrow> (string \<times> string) list" where
  "derivePolicyFacts request p health =
     (let l = pf_RequestedLimits p
      in fold add_fact
        ([(''request_operation'', rf_OperationHint request), (''request_channel'', rf_Channel request),
          (''request_risk'', rf_Risk request), (''request_profile'', m_get_or [] (pf_Metadata p) ''profile'')] @
         (if rf_Stream request \<or> rl_Stream l then [(''request_feature'', ''stream'')] else []) @
         (if rl_Tools l then [(''request_feature'', ''tools'')] else []) @
         (if rl_Images l then [(''request_feature'', ''images'')] else []) @
         (if rl_MaxTokens l > 0 then [(''request_requested_tokens'', itoa (rl_MaxTokens l))] else []) @
         (if hs_Status health \<noteq> [] then [(''proxy_status'', hs_Status health)] else []) @
         (if hs_Ready health then [(''proxy_readiness'', ''ready'')]
          else if hs_Status health \<noteq> [] then [(''proxy_readiness'', ''not_ready'')] else []) @
         (if hs_OpenCircuitCount health > 0 then [(''proxy_circuit_state'', ''has_open_circuits'')] else [])) [])"

section \<open>Decisions\<close>

record routeDecision = policyDecision +
  pd_Allow :: bool
  pd_Target :: string
  pd_Reason :: string
  pd_RuleID :: string
  pd_PolicySteps :: "policyTraceStep list"
  pd_AuditClass :: string
  pd_RequiresAudit :: bool
  pd_Timeout :: duration
  pd_RetryPolicy :: RetryPolicy
  pd_Limits :: Limits

definition noRetry :: RetryPolicy where
  "noRetry = \<lparr>rp_MaxAttempts = 0, rp_RetryHTTPStatuses = [], rp_RetryOnEOF = False, rp_RetryOnTimeout = False,
     rp_BackoffMin = 0, rp_BackoffMax = 0\<rparr>"

definition noDecision :: routeDecision where
  "noDecision = \<lparr>pd_Executor = [], pd_FallbackExecutors = [],
     pd_BreakerPolicy = \<lparr>bp_FailureThreshold = 0, bp_Cooldown = 0, bp_Eligible = False\<rparr>,
     pd_Allow = False, pd_Target = [], pd_Reason = [], pd_RuleID = [], pd_PolicySteps = [], pd_AuditClass = [],
     pd_RequiresAudit = False, pd_Timeout = 0, pd_RetryPolicy = noRetry, pd_Limits = noLimits\<rparr>"

definition defaultAllowedDecision :: routeDecision where
  "defaultAllowedDecision = noDecision\<lparr>pd_Allow := True, pd_Target := ''cervocore'', pd_Executor := providerOpenRouter,
     pd_Timeout := 45 * second, pd_RetryPolicy := noRetry\<lparr>rp_MaxAttempts := 1\<rparr>,
     pd_BreakerPolicy := \<lparr>bp_FailureThreshold = 3, bp_Cooldown = 60 * second, bp_Eligible = True\<rparr>\<rparr>"

text \<open>Go ranges over the metadata in an unspecified order; here in the order of the list.\<close>

fun audit_loop :: "string list \<Rightarrow> string" where
  "audit_loop [] = ''none''"
| "audit_loop (v # vs) =
     (let lower = to_lower v
      in if contains lower ''secret'' \<or> contains lower ''vault'' \<or> contains lower ''credential'' then ''sensitive''
         else if contains lower ''deploy'' \<or> contains lower ''proxmox'' then ''admin''
         else audit_loop vs)"

definition auditClassForRequest :: "policyRequest \<Rightarrow> string" where
  "auditClassForRequest req =
     (if pq_Operation req = capSecretLookup then ''sensitive'' else audit_loop (map snd (pq_Metadata req)))"

text \<open>The parts of the service the gate reads besides the router's state.\<close>

datatype policyEngine = DenyAll string | Generated generatedEngine

record policyState =
  po_engine :: "policyEngine option"
  po_ExecutorFallbacks :: "(string, string list) gomap"
  po_LimitsConfig :: Limits

definition proxyDecision :: "policyState \<Rightarrow> RouterService \<Rightarrow> policyRequest \<Rightarrow> coreDecision \<Rightarrow> routeDecision" where
  "proxyDecision p s req d =
     (let class = auditClassForRequest req;
          out = \<lparr>pd_Executor = cd_Executor d, pd_FallbackExecutors = cd_FallbackExecutors d,
            pd_BreakerPolicy = rc_BreakerPolicy (rs_runtimeConfig s), pd_Allow = cd_Allow d, pd_Target = cd_Target d,
            pd_Reason = cd_Reason d, pd_RuleID = ''route.'' @ pq_Operation req, pd_PolicySteps = [],
            pd_AuditClass = class, pd_RequiresAudit = (class \<noteq> ''none''),
            pd_Timeout = rc_DefaultTimeout (rs_runtimeConfig s), pd_RetryPolicy = rc_RetryPolicy (rs_runtimeConfig s),
            pd_Limits = limitsForOperation (pq_Operation req) (po_LimitsConfig p)\<rparr>
      in if \<not> pd_Allow out then out
         else
           let out = (if pd_Executor out = [] then out\<lparr>pd_Executor := defaultPolicyProvider s\<rparr> else out);
               out = (if pd_FallbackExecutors out = []
                      then out\<lparr>pd_FallbackExecutors := m_get_or [] (po_ExecutorFallbacks p) (pd_Executor out)\<rparr> else out)
           in if pq_Operation req = capSecretLookup
              then out\<lparr>pd_RuleID := ''secret.route'', pd_AuditClass := ''sensitive'', pd_RequiresAudit := True\<rparr> else out)"

definition engine_decide :: "policyEngine \<Rightarrow> string option \<Rightarrow> policyRequest \<Rightarrow> bool \<Rightarrow> decisionResult \<times> string option" where
  "engine_decide e cancelled req traceOn = (case e of
     DenyAll message \<Rightarrow>
       let reason = (if message = [] then ''policy unavailable'' else message)
       in (finish traceOn [] (deny reason), Some reason)
   | Generated g \<Rightarrow> (case DecideWithOptions g cancelled req traceOn of
       Inl err \<Rightarrow> (noResult, Some err) | Inr r \<Rightarrow> (r, None)))"

section \<open>When the engine explains itself\<close>

definition fnv32a :: "string \<Rightarrow> 32 word" where
  "fnv32a s = fold (\<lambda>c h. xor h (of_nat (of_char c)) * 16777619) s 2166136261"

definition shouldSamplePolicyObservation :: "string \<Rightarrow> real \<Rightarrow> bool" where
  "shouldSamplePolicyObservation reqID rate \<longleftrightarrow>
     (if rate \<le> 0 then False
      else if rate \<ge> 1 then True
      else real (unat (fnv32a reqID) mod 10000) / 10000 < rate)"

text \<open>\<open>ParseFloat\<close> is a parameter; the model has no NaN.\<close>

definition envFloat :: "(string \<Rightarrow> real option) \<Rightarrow> process_env \<Rightarrow> string \<Rightarrow> real \<Rightarrow> real" where
  "envFloat ParseFloat env key fallback =
     (let raw = envValue env key
      in if raw = [] then fallback else case ParseFloat raw of None \<Rightarrow> fallback | Some v \<Rightarrow> v)"

definition clampPolicySampleRate :: "real \<Rightarrow> real" where
  "clampPolicySampleRate rate = (if rate < 0 then 0 else if rate > 1 then 1 else rate)"

definition explain :: "(string \<Rightarrow> real option) \<Rightarrow> process_env \<Rightarrow> policyRequest \<Rightarrow> bool" where
  "explain ParseFloat env req \<longleftrightarrow>
     envBool env ''CERVO_POLICY_DEBUG_INCLUDE_TRACE'' False \<or>
     shouldSamplePolicyObservation (pq_ID req)
       (clampPolicySampleRate (envFloat ParseFloat env ''CERVO_POLICY_OBSERVATION_SAMPLE_RATE'' 0)) \<or>
     traceEnabled env"

definition policyStepsFromResult :: "decisionResult \<Rightarrow> policyTraceStep list" where
  "policyStepsFromResult r = (case dr_Steps r of None \<Rightarrow> [] | Some steps \<Rightarrow> steps)"

section \<open>The gate\<close>

definition writeJSONError :: "(string \<Rightarrow> string) \<Rightarrow> int \<Rightarrow> string \<Rightarrow> responseWriter \<Rightarrow> responseWriter" where
  "writeJSONError enc status message w =
     Write (enc message) (WriteHeader status (w\<lparr>rw_Header := header_set ''Content-Type'' ''application/json'' (rw_Header w)\<rparr>))"

definition validateDecisionLimits ::
  "(string \<Rightarrow> string) \<Rightarrow> routeDecision \<Rightarrow> RequestedLimits \<Rightarrow> responseWriter \<Rightarrow> responseWriter \<times> bool" where
  "validateDecisionLimits enc decision requested w =
     (case Check (pd_Limits decision) requested of
        [] \<Rightarrow> (w, True)
      | v # vs \<Rightarrow> (case find (\<lambda>v. vi_Field v = ''body_bytes'') (v # vs) of
          Some b \<Rightarrow> (writeJSONError enc 413 (vi_Reason b) w, False)
        | None \<Rightarrow> (writeJSONError enc 403 (vi_Reason v) w, False)))"

record policy_env =
  pe_env :: process_env
  pe_ParseFloat :: "string \<Rightarrow> real option"
  pe_errorJSON :: "string \<Rightarrow> string"
  pe_cancelled :: "string option"

text \<open>The request the engine sees: the merged facts with the measured body size and the health of the
  proxy.\<close>

definition policy_request ::
  "requestFacts \<Rightarrow> nat \<Rightarrow> RequestedLimits \<Rightarrow> healthSummary \<Rightarrow> policyRequest" where
  "policy_request facts bodyLen requested health =
     (let req = requestFromFacts facts;
          md = pq_Metadata req;
          md = (if bodyLen > 0 then m_set FactBodyBytes (itoa (int bodyLen)) md else md);
          derived = derivePolicyFacts facts \<lparr>pf_Metadata = md, pf_RequestedLimits = requested\<rparr> health;
          md = (if hs_Status health \<noteq> []
                then m_set ''proxy_ready'' (if hs_Ready health then ''true'' else ''false'')
                       (m_set ''proxy_status'' (hs_Status health) md) else md);
          md = (if hs_OpenCircuitCount health > 0 then m_set ''proxy_circuit_state'' ''has_open_circuits'' md else md);
          md = m_set ''derived_policy_fact_count'' (itoa (int (length derived))) md
      in req\<lparr>pq_Metadata := md\<rparr>)"

definition authorizeOperationalRoute ::
  "policy_env \<Rightarrow> policyState \<Rightarrow> RouterService \<Rightarrow> healthSummary \<Rightarrow> adapterFacts \<Rightarrow> requestFacts \<Rightarrow> nat \<Rightarrow>
   RequestedLimits option \<Rightarrow> responseWriter \<Rightarrow> responseWriter \<times> routeDecision \<times> bool" where
  "authorizeOperationalRoute e p s health http facts0 bodyLen limits w = (case po_engine p of
     None \<Rightarrow> (w, defaultAllowedDecision\<lparr>pd_Timeout := bc_RequestTimeout (rs_config s)\<rparr>, True)
   | Some engine \<Rightarrow>
       let httpFacts = FactsFromHTTPRequest (pe_env e) http
       in if \<not> validateClientOperation (rf_OperationHint httpFacts)
          then (writeJSONError (pe_errorJSON e) 400 (''unknown X-Cervo-Capability: '' @ rf_OperationHint httpFacts) w,
                noDecision\<lparr>pd_Reason := ''unknown operation''\<rparr>, False)
          else
            let facts = mergeRequestFacts httpFacts facts0;
                requested = requestedPolicyLimits facts bodyLen limits;
                req = policy_request facts bodyLen requested health;
                (result, err) = engine_decide engine (pe_cancelled e) req (explain (pe_ParseFloat e) (pe_env e) req);
                decision = (proxyDecision p s req (dr_Decision result))\<lparr>pd_PolicySteps := policyStepsFromResult result\<rparr>
            in if err \<noteq> None then (writeJSONError (pe_errorJSON e) 500 ''policy decision failed'' w, decision, False)
               else if \<not> pd_Allow decision then (writeJSONError (pe_errorJSON e) 403 (pd_Reason decision) w, decision, False)
               else (case validateDecisionLimits (pe_errorJSON e) decision requested w of
                       (w, ok) \<Rightarrow> (w, decision, ok)))"

section \<open>Loading the engine\<close>

record ruleConfig =
  ru_runtime :: policyRuntimeConfig
  ru_DefaultTimeout :: duration
  ru_RetryPolicy :: RetryPolicy
  ru_BreakerPolicy :: BreakerPolicy
  ru_Limits :: Limits

definition normalizeRuleConfig :: "ruleConfig \<Rightarrow> ruleConfig" where
  "normalizeRuleConfig cfg =
     (let b = ru_BreakerPolicy cfg
      in cfg\<lparr>ru_DefaultTimeout := (if ru_DefaultTimeout cfg \<le> 0 then 45 * second else ru_DefaultTimeout cfg),
         ru_runtime := (if pr_DefaultExecutor (ru_runtime cfg) = []
           then (ru_runtime cfg)\<lparr>pr_DefaultExecutor := providerOpenRouter\<rparr> else ru_runtime cfg),
         ru_BreakerPolicy := \<lparr>bp_FailureThreshold = (if bp_FailureThreshold b \<le> 0 then 3 else bp_FailureThreshold b),
           bp_Cooldown = (if bp_Cooldown b \<le> 0 then 60 * second else bp_Cooldown b), bp_Eligible = True\<rparr>\<rparr>)"

definition buildPolicyFlow :: "ruleConfig \<Rightarrow> string list + generatedEngine" where
  "buildPolicyFlow cfg = Build (mergePolicyRuntimeConfig DefaultConfig (ru_runtime (normalizeRuleConfig cfg)))"

text \<open>The decoders of the JSON variables.\<close>

record config_decoders =
  de_limits :: "string \<Rightarrow> Limits \<Rightarrow> Limits"
  de_retry :: "string \<Rightarrow> RetryPolicy \<Rightarrow> RetryPolicy"
  de_fallbacks :: "string \<Rightarrow> (string, string list) gomap option"

definition loadRouteOverridesFromEnv :: "process_env \<Rightarrow> (string, string) gomap" where
  "loadRouteOverridesFromEnv env =
     fold (\<lambda>(name, operation) rs. let service = canonicalEnvValue env name
             in if service \<noteq> [] then m_set operation service rs else rs)
       [(''PROXY_PLANNING_SERVICE'', capPlanning), (''PROXY_MEDIA_SERVICE'', capMediaRequest)] []"

definition loadExecutorFallbacksFromEnv :: "config_decoders \<Rightarrow> process_env \<Rightarrow> (string, string list) gomap" where
  "loadExecutorFallbacksFromEnv d env =
     (let raw = envValue env ''PROXY_PROVIDER_FALLBACKS_JSON''
      in if raw = [] then [] else case de_fallbacks d raw of None \<Rightarrow> [] | Some fallbacks \<Rightarrow> fallbacks)"

definition loadRetryPolicyFromEnv :: "config_decoders \<Rightarrow> process_env \<Rightarrow> RetryPolicy" where
  "loadRetryPolicyFromEnv d env =
     (let raw = envValue env ''PROXY_RETRY_POLICY_JSON'' in if raw = [] then noRetry else de_retry d raw noRetry)"

definition loadRuleConfig :: "config_decoders \<Rightarrow> process_env \<Rightarrow> duration \<Rightarrow> int \<Rightarrow> duration \<Rightarrow> ruleConfig" where
  "loadRuleConfig d env defaultTimeout failureThreshold cooldown =
     \<lparr>ru_runtime = \<lparr>pr_TrustedUsers = splitCSV (envValue env ''PROXY_TRUSTED_USERS''),
        pr_DefaultExecutor = canonicalEnvValue env ''PROXY_DEFAULT_PROVIDER'',
        pr_OperationTargets = loadRouteOverridesFromEnv env, pr_ExecutorFallbacks = loadExecutorFallbacksFromEnv d env\<rparr>,
      ru_DefaultTimeout = defaultTimeout, ru_RetryPolicy = loadRetryPolicyFromEnv d env,
      ru_BreakerPolicy = \<lparr>bp_FailureThreshold = failureThreshold, bp_Cooldown = cooldown, bp_Eligible = True\<rparr>,
      ru_Limits = loadLimitsFromEnv (de_limits d) env\<rparr>"

text \<open>A configuration that does not build denies every request.\<close>

definition loadPolicyFlow ::
  "config_decoders \<Rightarrow> process_env \<Rightarrow> duration \<Rightarrow> int \<Rightarrow> duration \<Rightarrow> policyEngine \<times> ruleConfig" where
  "loadPolicyFlow d env defaultTimeout failureThreshold cooldown =
     (let cfg = loadRuleConfig d env defaultTimeout failureThreshold cooldown
      in (case buildPolicyFlow cfg of Inl errs \<Rightarrow> DenyAll ''policy flow compile failed'' | Inr e \<Rightarrow> Generated e, cfg))"

section \<open>Lemmas\<close>

lemma writeJSONError_status [simp]: "rw_Status w = None \<Longrightarrow> rw_Status (writeJSONError enc code m w) = Some code"
  by (simp add: writeJSONError_def)

lemma writeJSONError_heads [simp]: "rw_Heads (writeJSONError enc code m w) = rw_Heads w @ [code]"
  by (simp add: writeJSONError_def)

lemma writeJSONError_answers: "no_answer w \<Longrightarrow> one_answer code (writeJSONError enc code m w)"
  by (simp add: no_answer_def one_answer_def)

lemma writeJSONError_answered: "no_answer w \<Longrightarrow> \<exists>c. one_answer c (writeJSONError enc code m w)"
  using writeJSONError_answers by blast

lemma trim_space_digits: "list_all is_digit s \<Longrightarrow> trim_space s = s"
proof -
  have *: "dropWhile is_space t = t" if "list_all is_digit t" for t
    using that by (cases t) (auto simp: is_digit_def is_space_def)
  assume "list_all is_digit s"
  then show ?thesis by (simp add: trim_space_def * list.pred_set)
qed

lemma itoa_digits:
  assumes "0 \<le> n"
  shows "list_all is_digit (itoa n)" "itoa n \<noteq> []"
  using assms parse_itoa_loop [of n] by (cases "n = 0"; simp add: itoa_def is_digit_def)+

text \<open>A runtime target never lifts the trusted-user requirement of a route.\<close>

lemma apply_target_trust:
  "m_get rs operation = Some r \<Longrightarrow>
   \<exists>r'. m_get (fold (apply_target d) ts rs) operation = Some r' \<and> gr_requiresTrustedUser r' = gr_requiresTrustedUser r"
proof (induction ts arbitrary: rs r)
  case (Cons ot ts)
  have "\<exists>r'. m_get (apply_target d ot rs) operation = Some r' \<and> gr_requiresTrustedUser r' = gr_requiresTrustedUser r"
    using Cons.prems by (cases ot) (auto simp: apply_target_def Let_def)
  then obtain r' where "m_get (apply_target d ot rs) operation = Some r'" "gr_requiresTrustedUser r' = gr_requiresTrustedUser r"
    by blast
  with Cons.IH [of "apply_target d ot rs" r'] show ?case by simp
qed simp

lemma Build_engine:
  assumes "Build cfg = Inr g"
  shows "ge_denies g = generated_denies" "ge_conditions g = None"
    and "\<exists>r. m_get (ge_routes g) capSecretLookup = Some r \<and> gr_requiresTrustedUser r"
proof -
  let ?cfg = "mergeRuntimeConfig DefaultConfig cfg"
  from assms show "ge_denies g = generated_denies" "ge_conditions g = None"
    by (auto simp: Build_def Let_def split: if_splits)
  have "ge_routes g = fold (apply_target (pr_DefaultExecutor ?cfg)) (pr_OperationTargets ?cfg) generated_routes"
    using assms by (auto simp: Build_def Let_def split: if_splits)
  moreover have "m_get generated_routes capSecretLookup = Some (route_to ''cervovault_api'' ''secret_lookup'' True)"
    by (simp add: generated_routes_def cap_defs)
  ultimately show "\<exists>r. m_get (ge_routes g) capSecretLookup = Some r \<and> gr_requiresTrustedUser r"
    using apply_target_trust [of generated_routes capSecretLookup] by (fastforce simp: route_to_def)
qed

text \<open>A decision that allows: the size rule did not match and the route's user requirement holds.\<close>

lemma DecideWithOptions_allows:
  assumes "DecideWithOptions g c req t = Inr r" "cd_Allow (dr_Decision r)" "ge_denies g = generated_denies"
  obtains frame route where "newFactFrame req = Inr frame" "ff_BodyBytes frame \<le> 67108864"
    "m_get (ge_routes g) (pq_Operation req) = Some route"
    "gr_requiresTrustedUser route \<longrightarrow> isTrustedUser g (pq_User req)"
proof -
  from assms(1) have c: "c = None" by (auto simp: DecideWithOptions_def split: option.splits)
  obtain frame where f: "newFactFrame req = Inr frame"
    using assms(1) c by (auto simp: DecideWithOptions_def split: sum.splits)
  have denies: "deny_loop g t req frame generated_denies [] =
      (if ff_BodyBytes frame > 67108864
       then Inr (Some ''request body exceeds the size this policy allows'',
                 step_of t ''deny-oversized-body'' True ''body_bytes gt 67108864'')
       else Inr (None, step_of t ''deny-oversized-body'' False []))"
    by (simp add: generated_denies_def conditionsHold_def matchRule0DenyOversizedBody_def)
  have size: "ff_BodyBytes frame \<le> 67108864"
    using assms c f denies by (auto simp: DecideWithOptions_def finish_def deny_def split: if_splits)
  then have "decide_route g t req frame (step_of t ''deny-oversized-body'' False []) = Inr r"
    using assms c f denies by (simp add: DecideWithOptions_def)
  then obtain route where "m_get (ge_routes g) (pq_Operation req) = Some route"
      "gr_requiresTrustedUser route \<longrightarrow> isTrustedUser g (pq_User req)"
    using assms(2) by (auto simp: decide_route_def finish_def deny_def split: option.splits if_splits)
  with f size that show thesis by blast
qed

lemma policy_request_fields [simp]:
  "pq_Operation (policy_request facts n requested health) = rf_OperationHint facts"
  "pq_User (policy_request facts n requested health) = rf_User facts"
  by (simp_all add: policy_request_def requestFromFacts_def Let_def)

lemma policy_request_size:
  assumes "newFactFrame (policy_request facts n requested health) = Inr frame" "int n \<le> max_int64" "0 < n"
  shows "ff_BodyBytes frame = int n"
proof -
  have raw: "m_get (pq_Metadata (policy_request facts n requested health)) ''body_bytes'' = Some (itoa (int n))"
    using assms(3) by (simp add: policy_request_def requestFromFacts_def Let_def FactBodyBytes_def)
  have "atoi (itoa (int n)) = Some (int n)"
    using assms by (intro atoi_itoa) (auto simp: int64_ok_def min_int64_def)
  then show ?thesis
    using assms(1) raw by (auto simp: newFactFrame_def factIntegerValue_def factRawValue_def trim_space_digits itoa_digits)
qed

text \<open>The gate, outcome by outcome.\<close>

lemma validateDecisionLimits_outcome:
  assumes "validateDecisionLimits enc d requested w = (w', ok)"
  shows "ok \<longleftrightarrow> Check (pd_Limits d) requested = []" "ok \<Longrightarrow> w' = w"
    and "rw_Status w = None \<Longrightarrow> \<not> ok \<Longrightarrow> rw_Status w' \<in> {Some 403, Some 413}"
    and "no_answer w \<Longrightarrow> \<not> ok \<Longrightarrow> \<exists>code. one_answer code w'"
  using assms
  by (auto simp: validateDecisionLimits_def intro: writeJSONError_answered split: list.splits option.splits)

lemma gate_writer:
  assumes "authorizeOperationalRoute e p s health http facts0 n limits w = (w', d, ok)" "rw_Status w = None"
  shows "if ok then w' = w else rw_Status w' \<in> {Some 400, Some 403, Some 413, Some 500}"
  using assms
  by (auto simp: authorizeOperationalRoute_def Let_def case_prod_beta prod_eq_iff split: option.splits if_splits
      dest: validateDecisionLimits_outcome(2,3) [OF surjective_pairing])

lemma gate_answers:
  assumes "authorizeOperationalRoute e p s health http facts0 n limits w = (w', d, False)" "no_answer w"
  shows "\<exists>code. one_answer code w'"
  using assms
  by (auto simp: authorizeOperationalRoute_def Let_def case_prod_beta prod_eq_iff split: option.splits if_splits
      intro: writeJSONError_answered dest: validateDecisionLimits_outcome(4) [OF surjective_pairing])

lemma gate_cases:
  assumes "authorizeOperationalRoute e p s health http facts0 n limits w = (w', d, ok)" "po_engine p = Some (Generated g)"
  defines "facts \<equiv> mergeRequestFacts (FactsFromHTTPRequest (pe_env e) http) facts0"
  defines "requested \<equiv> requestedPolicyLimits facts n limits"
  shows "\<not> ok \<Longrightarrow> rw_Status w = None \<Longrightarrow> rw_Status w' \<in> {Some 400, Some 403, Some 413, Some 500}"
    and "ok \<Longrightarrow> w' = w \<and> pd_Allow d \<and> Check (pd_Limits d) requested = [] \<and>
           (\<exists>c t r. DecideWithOptions g c (policy_request facts n requested health) t = Inr r \<and> cd_Allow (dr_Decision r))"
proof -
  let ?req = "policy_request facts n requested health"
  let ?t = "explain (pe_ParseFloat e) (pe_env e) ?req"
  let ?w = "writeJSONError (pe_errorJSON e)"
  have allow: "pd_Allow (proxyDecision p s req c) = cd_Allow c" for req c
    by (simp add: proxyDecision_def Let_def)
  consider (unknown) m d' where "(w', d, ok) = (?w 400 m w, d', False)"
    | (err) m d' where "(w', d, ok) = (?w 500 m w, d', False)"
    | (denied) m d' where "(w', d, ok) = (?w 403 m w, d', False)"
    | (limits) r where "DecideWithOptions g (pe_cancelled e) ?req ?t = Inr r" "pd_Allow d" "cd_Allow (dr_Decision r)"
        "validateDecisionLimits (pe_errorJSON e) d requested w = (w', ok)"
    using assms(1,2) unfolding facts_def requested_def
    by (auto simp: authorizeOperationalRoute_def engine_decide_def allow Let_def case_prod_beta prod_eq_iff
        split: if_splits sum.splits)
  note c = this
  show "\<not> ok \<Longrightarrow> rw_Status w = None \<Longrightarrow> rw_Status w' \<in> {Some 400, Some 403, Some 413, Some 500}"
    by (cases rule: c) (auto dest: validateDecisionLimits_outcome(3))
  show "ok \<Longrightarrow> w' = w \<and> pd_Allow d \<and> Check (pd_Limits d) requested = [] \<and>
      (\<exists>c t r. DecideWithOptions g c (policy_request facts n requested health) t = Inr r \<and> cd_Allow (dr_Decision r))"
    using validateDecisionLimits_outcome by (cases rule: c) blast+
qed

text \<open>Setting only the body cap makes the limits custom, so the defaults of a chat no longer apply: streaming,
  tools and images are refused.\<close>

lemma body_cap_refuses_streams:
  assumes "envValue env ''PROXY_LIMITS_JSON'' = []" "envValue env ''PROXY_MAX_BODY_BYTES'' = itoa m"
    and "0 < m" "m \<le> max_int64" "rl_Stream r \<or> rl_Tools r \<or> rl_Images r"
  shows "Check (limitsForOperation capChatCompletion (loadLimitsFromEnv decode env)) r \<noteq> []"
    and "Check (limitsForOperation capChatCompletion noLimits) r = []"
proof -
  have "atoi (itoa m) = Some m"
    using assms by (intro atoi_itoa) (auto simp: int64_ok_def min_int64_def)
  then have "loadLimitsFromEnv decode env = noLimits\<lparr>li_MaxBodyBytes := m\<rparr>"
    using assms(1-3) itoa_digits(2) [of m] by (simp add: loadLimitsFromEnv_def)
  with assms show "Check (limitsForOperation capChatCompletion (loadLimitsFromEnv decode env)) r \<noteq> []"
    by (auto simp: limitsForOperation_def hasCustomLimits_def noLimits_def Check_def)
  show "Check (limitsForOperation capChatCompletion noLimits) r = []"
    by (simp add: limitsForOperation_def hasCustomLimits_def noLimits_def Check_def)
qed

text \<open>The audit class of a request follows the order in which its metadata is read.\<close>

lemma audit_class_order:
  "audit_loop [''vault'', ''deploy''] = ''sensitive''" "audit_loop [''deploy'', ''vault''] = ''admin''"
  by code_simp+

section \<open>Properties\<close>

text \<open>C26. The gate fails closed. A request it lets through leaves the response untouched, was allowed by the
  engine, has a body of at most 64 MiB and breaks none of the limits of the decision; a secret lookup got
  through only for a trusted user whose name came from the header the operator chose to trust, whatever
  runtime targets are configured. A request it stops has been answered 400, 403, 413 or 500.\<close>

theorem authorization_fails_closed:
  assumes "Build cfg = Inr g" "po_engine p = Some (Generated g)" "rw_Status w = None" "int n \<le> max_int64"
    and "rf_User facts0 = []"
    and run: "authorizeOperationalRoute e p s health http facts0 n limits w = (w', d, ok)"
  defines "facts \<equiv> mergeRequestFacts (FactsFromHTTPRequest (pe_env e) http) facts0"
  shows "if ok then w' = w \<and> pd_Allow d \<and> int n \<le> 67108864 \<and> Check (pd_Limits d) (requestedPolicyLimits facts n limits) = [] \<and>
           (rf_OperationHint facts = capSecretLookup \<longrightarrow>
              trustUserHeader (pe_env e) \<and> to_lower (trim_space (hf_User http)) \<in> set (ge_trustedUsers g))
         else rw_Status w' \<in> {Some 400, Some 403, Some 413, Some 500}"
proof (cases ok)
  case True
  note gate = gate_cases(2) [OF run assms(2) True, folded facts_def]
  then obtain c t r where "DecideWithOptions g c (policy_request facts n (requestedPolicyLimits facts n limits) health) t = Inr r"
    "cd_Allow (dr_Decision r)" by blast
  then obtain frame route where dec:
      "newFactFrame (policy_request facts n (requestedPolicyLimits facts n limits) health) = Inr frame"
      "ff_BodyBytes frame \<le> 67108864" "m_get (ge_routes g) (rf_OperationHint facts) = Some route"
      "gr_requiresTrustedUser route \<longrightarrow> isTrustedUser g (rf_User facts)"
    using DecideWithOptions_allows [OF _ _ Build_engine(1) [OF assms(1)]] by (metis policy_request_fields)
  have "int n \<le> 67108864"
    using policy_request_size [OF dec(1) assms(4)] dec(2) by (cases "n = 0") auto
  moreover have "trustUserHeader (pe_env e) \<and> to_lower (trim_space (hf_User http)) \<in> set (ge_trustedUsers g)"
    if "rf_OperationHint facts = capSecretLookup"
  proof -
    have "isTrustedUser g (rf_User facts)"
      using Build_engine(3) [OF assms(1)] dec(3,4) that by auto
    moreover have "rf_User facts = userFromHeader (pe_env e) (hf_User http)"
      using assms(5) by (simp add: facts_def mergeRequestFacts_def FactsFromHTTPRequest_def or_else_def)
    ultimately show ?thesis
      by (auto simp: isTrustedUser_def userFromHeader_def trim_space_def to_lower_def Let_def split: if_splits)
  qed
  ultimately show ?thesis using gate True by simp
next
  case False
  then show ?thesis using gate_cases(1) [OF run assms(2) _ assms(3)] by simp
qed

definition ex_engine :: generatedEngine where
  "ex_engine = (case Build DefaultConfig of Inr g \<Rightarrow> g | Inl _ \<Rightarrow> \<lparr>ge_routes = [], ge_denies = [], ge_disabledDenies = [],
     ge_trustedUsers = [], ge_defaultExecutor = [], ge_executorFallbacks = [], ge_conditions = None\<rparr>)"

definition ex_policy_env :: policy_env where
  "ex_policy_env = \<lparr>pe_env = [(''PROXY_TRUST_USER_HEADER'', ''True'')], pe_ParseFloat = (\<lambda>_. None), pe_errorJSON = (\<lambda>m. m),
     pe_cancelled = None\<rparr>"

definition ex_gate :: "string \<Rightarrow> nat \<Rightarrow> responseWriter \<times> routeDecision \<times> bool" where
  "ex_gate user n = authorizeOperationalRoute ex_policy_env
     \<lparr>po_engine = Some (Generated ex_engine), po_ExecutorFallbacks = [], po_LimitsConfig = noLimits\<rparr> ex_service
     \<lparr>hs_Status = ''ok'', hs_Ready = True, hs_OpenCircuitCount = 0\<rparr>
     \<lparr>hf_ID = ''r1'', hf_User = user, hf_Channel = [], hf_Risk = [], hf_Operation = capSecretLookup\<rparr>
     \<lparr>rf_ID = [], rf_User = [], rf_Channel = [], rf_Risk = [], rf_OperationHint = [], rf_Metadata = [], rf_Stream = False\<rparr>
     n None newWriter"

lemma ex_gate_runs:
  "snd (snd (ex_gate '' Cervantes'' 100))" "\<not> snd (snd (ex_gate ''mallory'' 100))"
  by code_simp+

theorem authorization_fails_closed_witness:
  "fst (ex_gate '' Cervantes'' 100) = newWriter \<and> to_lower (trim_space '' Cervantes'') \<in> set (ge_trustedUsers ex_engine)"
proof -
  have "ValidateConfig (mergeRuntimeConfig DefaultConfig DefaultConfig) = []" by code_simp
  then have "Build DefaultConfig = Inr ex_engine" by (simp add: ex_engine_def Build_def Let_def)
  then show ?thesis
    using authorization_fails_closed [OF _ _ _ _ _ ex_gate_def [of "'' Cervantes''" 100, symmetric,
        THEN trans, OF surjective_pairing [THEN trans, OF arg_cong2 [OF refl surjective_pairing, of Pair]]]] ex_gate_runs(1)
    by (simp add: ex_policy_env_def newWriter_def max_int64_def mergeRequestFacts_def FactsFromHTTPRequest_def or_else_def)
qed

end
