(* ===== verification/Policy_Loading.thy ===== *)
theory Policy_Loading
  imports Policy
begin

text \<open>
  Loading and reloading the model policy: \<open>src/internal/router/router_policy_model.go\<close>, the setters and
  \<open>ReloadModelPolicy\<close> of \<open>router.go\<close>, the loaders of the sections of the policy file, and the
  validation and the environment configuration of \<open>cervo-model-policy\<close> (\<open>validation.go\<close>,
  \<open>config.go\<close>).

  A reload re-reads the policy file for every section and updates the service in several critical
  sections of \<open>policyMu\<close>. \<open>reload_step\<close> is one of them; \<open>policy_step\<close> interleaves any number of
  reloads, with any contents of the files and the environment at each of them. The contents of a file
  are a string; the JSON decoders are arguments, with the error text on the left of a sum or \<open>None\<close>
  where the code drops it. Log output is not modelled; the clone functions are the identity on values.
\<close>

section \<open>Validation\<close>

datatype ValidationCode = ValidationDefaultProfileMissing | ValidationProfileNameEmpty
  | ValidationProfileChainEmpty | ValidationModelNameEmpty | ValidationModelDuplicate
  | ValidationModelChainTooLong | ValidationAliasNameEmpty | ValidationAliasTargetMissing
  | RuntimeConfigInvalid

record ValidationIssue =
  vi_Code :: ValidationCode
  vi_Field :: string
  vi_Message :: string

definition issue_of :: "ValidationCode \<Rightarrow> string \<Rightarrow> string \<Rightarrow> ValidationIssue" where
  "issue_of code field message = \<lparr>vi_Code = code, vi_Field = field, vi_Message = message\<rparr>"

definition defaultMaxModelChainLength :: nat where
  "defaultMaxModelChainLength = 8"

text \<open>The loop of \<open>validateModelChain\<close>; \<open>q\<close> is the \<open>%q\<close> of \<open>fmt\<close>.\<close>

fun chain_issues :: "(string \<Rightarrow> string) \<Rightarrow> string \<Rightarrow> nat \<Rightarrow> string list \<Rightarrow> string list \<Rightarrow> ValidationIssue list" where
  "chain_issues q profile i seen [] = []"
| "chain_issues q profile i seen (model # models) =
     (let m = trim_space model;
          field = ''Profiles['' @ q profile @ ''][''  @ itoa (int i) @ '']''
      in if m = [] then issue_of ValidationModelNameEmpty field ''model name is empty'' #
                        chain_issues q profile (Suc i) seen models
         else if m \<in> set seen
         then issue_of ValidationModelDuplicate field
                (''model '' @ q m @ '' appears more than once in profile '' @ q profile) #
              chain_issues q profile (Suc i) seen models
         else chain_issues q profile (Suc i) (m # seen) models)"

definition validateModelChain :: "(string \<Rightarrow> string) \<Rightarrow> string \<Rightarrow> string list \<Rightarrow> ValidationIssue list" where
  "validateModelChain q profile chain =
     (let valid = length (filter (\<lambda>m. trim_space m \<noteq> []) chain); field = ''Profiles['' @ q profile @ '']''
      in chain_issues q profile 0 [] chain @
         (if valid = 0 then [issue_of ValidationProfileChainEmpty field ''profile model chain has no usable models''] else []) @
         (if valid > defaultMaxModelChainLength
          then [issue_of ValidationModelChainTooLong field
                  (''profile model chain has '' @ itoa (int valid) @ '' models; recommended maximum is '' @
                   itoa (int defaultMaxModelChainLength))] else []))"

definition profile_issues :: "(string \<Rightarrow> string) \<Rightarrow> string \<times> string list \<Rightarrow> ValidationIssue list" where
  "profile_issues q p =
     (if norm_name (fst p) = [] then [issue_of ValidationProfileNameEmpty ''Profiles'' ''profile name is empty'']
      else if snd p = []
      then [issue_of ValidationProfileChainEmpty (''Profiles['' @ q (fst p) @ '']'') ''profile model chain is empty'']
      else validateModelChain q (fst p) (snd p))"

definition known_profiles :: "(string, string list) gomap \<Rightarrow> string list" where
  "known_profiles profiles = filter (\<lambda>n. n \<noteq> []) (map (norm_name \<circ> fst) profiles)"

definition alias_issues :: "(string \<Rightarrow> string) \<Rightarrow> string list \<Rightarrow> string \<times> string \<Rightarrow> ValidationIssue list" where
  "alias_issues q names a =
     (if norm_name (fst a) = [] then [issue_of ValidationAliasNameEmpty ''Aliases'' ''alias name is empty'']
      else if norm_name (snd a) \<notin> set names
      then [issue_of ValidationAliasTargetMissing (''Aliases['' @ q (fst a) @ '']'')
              (''alias '' @ q (fst a) @ '' points to missing profile '' @ q (snd a))]
      else [])"

definition ValidateModelConfig :: "(string \<Rightarrow> string) \<Rightarrow> policyConfig \<Rightarrow> ValidationIssue list" where
  "ValidateModelConfig q cfg =
     (let def = norm_name (pc_DefaultProfile cfg); names = known_profiles (pc_Profiles cfg)
      in (if def = [] then [issue_of ValidationDefaultProfileMissing ''DefaultProfile'' ''default profile is empty''] else []) @
         concat (map (profile_issues q) (pc_Profiles cfg)) @
         (if def \<noteq> [] \<and> def \<notin> set names
          then [issue_of ValidationDefaultProfileMissing ''DefaultProfile''
                  (''default profile '' @ q (pc_DefaultProfile cfg) @ '' is not defined'')] else []) @
         concat (map (alias_issues q names) (pc_Aliases cfg)))"

section \<open>Files and decoders\<close>

record policy_json =
  pj_config :: "string \<Rightarrow> string + policyConfig"
  pj_profiles :: "string \<Rightarrow> string + (string, string list) gomap"
  pj_aliases :: "string \<Rightarrow> string + (string, string) gomap"
  pj_capabilities :: "string \<Rightarrow> (string, string list) gomap option"
  pj_providerProfiles :: "string \<Rightarrow> providerProfiles option"
  pj_reasoning :: "string \<Rightarrow> (string, string) gomap option"
  pj_timeouts :: "string \<Rightarrow> (string, real) gomap option"
  pj_windows :: "string \<Rightarrow> (string, (string, contextWindow) gomap) gomap option"

text \<open>\<open>pio_exeFile\<close> is \<open>model-policy.json\<close> next to the executable, \<open>None\<close> when \<open>os.Executable\<close> fails;
  \<open>pio_read\<close> is \<open>os.ReadFile\<close>. \<open>pio_draw\<close> says which profile Go's map yields first to each of the
  normalizations of a load: of the embedded policy, of the file and of the merged policy, and of the
  setter and of the model policy it builds.\<close>

record policy_io =
  pio_env :: process_env
  pio_exeFile :: "string option"
  pio_read :: "string \<Rightarrow> string option"
  pio_embedded :: string
  pio_json :: policy_json
  pio_quote :: "string \<Rightarrow> string"
  pio_draw :: "nat \<Rightarrow> nat"

definition modelPolicyFileCandidates :: "policy_io \<Rightarrow> string list" where
  "modelPolicyFileCandidates io =
     (let p = envValue (pio_env io) ''PROXY_MODEL_POLICY_FILE'' in if p \<noteq> [] then [p] else []) @
     (case pio_exeFile io of None \<Rightarrow> [] | Some f \<Rightarrow> [f]) @ [''model-policy.json'']"

text \<open>The loop every loader starts with: the first candidate that can be read.\<close>

fun first_readable :: "(string \<Rightarrow> string option) \<Rightarrow> string list \<Rightarrow> (string \<times> string) option" where
  "first_readable read [] = None"
| "first_readable read (path # paths) =
     (case read path of None \<Rightarrow> first_readable read paths | Some data \<Rightarrow> Some (path, data))"

definition policy_file :: "policy_io \<Rightarrow> (string \<times> string) option" where
  "policy_file io = first_readable (pio_read io) (modelPolicyFileCandidates io)"

definition emptyModelConfig :: policyConfig where
  "emptyModelConfig = \<lparr>pc_DefaultProfile = [], pc_Profiles = [], pc_Aliases = []\<rparr>"

definition loadModelConfigFile :: "policy_io \<Rightarrow> policyConfig \<times> string \<times> bool" where
  "loadModelConfigFile io = (case policy_file io of
     None \<Rightarrow> (emptyModelConfig, [], False)
   | Some (path, data) \<Rightarrow> (case pj_config (pio_json io) data of
        Inl err \<Rightarrow> (emptyModelConfig, path, False)
      | Inr cfg \<Rightarrow> (NormalizeConfig (pio_draw io 1) cfg, path, True)))"

definition DefaultModelConfig :: policyConfig where
  "DefaultModelConfig = \<lparr>pc_DefaultProfile = ''default'', pc_Profiles = [(''default'', [''auto''])],
     pc_Aliases = [(''default'', ''default'')]\<rparr>"

definition defaultModelConfig :: "policy_io \<Rightarrow> policyConfig" where
  "defaultModelConfig io = (case pj_config (pio_json io) (pio_embedded io) of
     Inl err \<Rightarrow> DefaultModelConfig
   | Inr cfg \<Rightarrow> NormalizeConfig (pio_draw io 0) cfg)"

definition loadCapabilityOverrides :: "policy_io \<Rightarrow> (string, string list) gomap" where
  "loadCapabilityOverrides io =
     (let parse = (\<lambda>data. case pj_capabilities (pio_json io) data of None \<Rightarrow> [] | Some caps \<Rightarrow> caps);
          merged = fold (\<lambda>(k, v). m_set k v) (parse (pio_embedded io)) []
      in case policy_file io of
           None \<Rightarrow> merged
         | Some (path, data) \<Rightarrow> fold (\<lambda>(k, v). m_set k v) (parse data) merged)"

text \<open>The sections read from the file, or from the embedded policy when there is no file; nil is the
  empty map.\<close>

definition policy_source :: "policy_io \<Rightarrow> string" where
  "policy_source io = (case policy_file io of None \<Rightarrow> pio_embedded io | Some (path, data) \<Rightarrow> data)"

definition loadProviderProfiles :: "policy_io \<Rightarrow> providerProfiles" where
  "loadProviderProfiles io =
     (case parseProviderProfiles (pj_providerProfiles (pio_json io) (policy_source io)) of
        None \<Rightarrow> [] | Some profiles \<Rightarrow> profiles)"

definition loadReasoningProfiles :: "policy_io \<Rightarrow> (string, reasoningEffort) gomap" where
  "loadReasoningProfiles io =
     (case parseReasoningProfiles (pj_reasoning (pio_json io) (policy_source io)) of
        None \<Rightarrow> [] | Some profiles \<Rightarrow> profiles)"

definition loadProfileTimeouts :: "policy_io \<Rightarrow> (string, duration) gomap" where
  "loadProfileTimeouts io =
     (case parseProfileTimeouts (pj_timeouts (pio_json io) (policy_source io)) of
        None \<Rightarrow> [] | Some timeouts \<Rightarrow> timeouts)"

text \<open>A write to the nil map of an embedded policy that does not decode is a panic, \<open>None\<close>.\<close>

definition loadContextWindows :: "policy_io \<Rightarrow> (string, contextWindow) gomap option" where
  "loadContextWindows io =
     (let embedded = pj_windows (pio_json io) (pio_embedded io);
          windows = (case policy_file io of
             None \<Rightarrow> [] | Some (path, data) \<Rightarrow> parseContextWindows (pj_windows (pio_json io) data))
      in if embedded = None \<and> windows \<noteq> [] then None
         else Some (fold (\<lambda>(k, w). m_set k w) windows (parseContextWindows embedded)))"

section \<open>The configuration of the environment\<close>

record ModelRuntimeConfig =
  mc_DefaultModel :: string
  mc_Allowed :: "string list"
  mc_Mode :: string
  mc_DefaultProfile :: string
  mc_Profiles :: "(string, string list) gomap"
  mc_Aliases :: "(string, string) gomap"

text \<open>What \<open>Loader.Decode\<close> puts into the fields read from one variable each.\<close>

definition decode_model_env :: "process_env \<Rightarrow> ModelRuntimeConfig" where
  "decode_model_env env = \<lparr>mc_DefaultModel = envValue env ''CERVO_MODEL_DEFAULT'',
     mc_Allowed = (let raw = envValue env ''CERVO_MODEL_ALLOWED'' in if raw = [] then [] else splitCSV raw),
     mc_Mode = (let raw = envValue env ''CERVO_MODEL_POLICY_MODE'' in if raw = [] then ''strict'' else raw),
     mc_DefaultProfile = envValue env ''CERVO_MODEL_DEFAULT_PROFILE'', mc_Profiles = [], mc_Aliases = []\<rparr>"

definition decodeRuntimeJSON :: "(string \<Rightarrow> string + ('k, 'v) gomap) \<Rightarrow> string \<Rightarrow> string \<Rightarrow> string + ('k, 'v) gomap" where
  "decodeRuntimeJSON dec raw field =
     (if raw = [] then Inr []
      else case dec raw of Inl err \<Rightarrow> Inl (field @ '': '' @ err) | Inr m \<Rightarrow> Inr m)"

definition complete_runtime :: "ModelRuntimeConfig \<Rightarrow> ModelRuntimeConfig" where
  "complete_runtime c =
     (let c = (if mc_DefaultProfile c = [] then c\<lparr>mc_DefaultProfile := mc_Mode c\<rparr> else c);
          c = (if mc_Profiles c = [] \<and> mc_DefaultModel c \<noteq> []
               then (let c = (if mc_Allowed c = [] then c\<lparr>mc_Allowed := [mc_DefaultModel c]\<rparr> else c);
                         c = (if mc_Mode c = [] then c\<lparr>mc_Mode := ''strict''\<rparr> else c)
                     in c\<lparr>mc_Profiles := [(mc_Mode c, mc_Allowed c)]\<rparr>)
               else c)
      in if mc_Aliases c = [] \<and> mc_DefaultProfile c \<noteq> []
         then c\<lparr>mc_Aliases := m_set (mc_DefaultProfile c) (mc_DefaultProfile c) [(''default'', mc_DefaultProfile c)]\<rparr>
         else c)"

text \<open>The warnings \<open>LoadConfig\<close> adds to its result are not read by the router.\<close>

definition LoadModelConfig :: "policy_json \<Rightarrow> process_env \<Rightarrow> string + ModelRuntimeConfig" where
  "LoadModelConfig d env =
     (case decodeRuntimeJSON (pj_profiles d) (envValue env ''CERVO_MODEL_PROFILES_JSON'') ''CERVO_MODEL_PROFILES_JSON'' of
        Inl err \<Rightarrow> Inl err
      | Inr profiles \<Rightarrow>
          (case decodeRuntimeJSON (pj_aliases d) (envValue env ''CERVO_MODEL_ALIASES_JSON'') ''CERVO_MODEL_ALIASES_JSON'' of
             Inl err \<Rightarrow> Inl err
           | Inr aliases \<Rightarrow>
               Inr (complete_runtime ((decode_model_env env)\<lparr>mc_Profiles := profiles, mc_Aliases := aliases\<rparr>))))"

section \<open>Loading the policy\<close>

definition hasAnyEnv :: "process_env \<Rightarrow> string list \<Rightarrow> bool" where
  "hasAnyEnv env keys = list_ex (\<lambda>k. envValue env k \<noteq> []) keys"

definition shouldUseRuntimeDefaultProfile :: "process_env \<Rightarrow> bool" where
  "shouldUseRuntimeDefaultProfile env =
     hasAnyEnv env [''CERVO_MODEL_DEFAULT_PROFILE'', ''CERVO_MODEL_DEFAULT'', ''CERVO_MODEL_POLICY_MODE'']"

definition modelPolicyRuntimeWarning :: "string \<Rightarrow> string \<Rightarrow> ValidationIssue" where
  "modelPolicyRuntimeWarning field message = issue_of RuntimeConfigInvalid field message"

text \<open>The assignments of the non-empty fields of one source over the policy so far.\<close>

definition overlay ::
  "(string, string list) gomap \<Rightarrow> (string, string) gomap \<Rightarrow> string \<Rightarrow> policyConfig \<Rightarrow> policyConfig" where
  "overlay profiles aliases def policy =
     (let policy = (if profiles \<noteq> [] then policy\<lparr>pc_Profiles := profiles\<rparr> else policy);
          policy = (if aliases \<noteq> [] then policy\<lparr>pc_Aliases := aliases\<rparr> else policy)
      in if def \<noteq> [] then policy\<lparr>pc_DefaultProfile := def\<rparr> else policy)"

definition apply_file :: "policy_io \<Rightarrow> policyConfig \<Rightarrow> policyConfig" where
  "apply_file io policy = (case loadModelConfigFile io of (cfg, path, ok) \<Rightarrow>
     if ok then overlay (pc_Profiles cfg) (pc_Aliases cfg) (pc_DefaultProfile cfg) policy else policy)"

definition apply_model_env :: "policy_io \<Rightarrow> policyConfig \<Rightarrow> policyConfig \<times> ValidationIssue list" where
  "apply_model_env io policy =
     (if hasAnyEnv (pio_env io) [''CERVO_MODEL_DEFAULT_PROFILE'', ''CERVO_MODEL_PROFILES_JSON'', ''CERVO_MODEL_ALIASES_JSON'',
           ''CERVO_MODEL_DEFAULT'', ''CERVO_MODEL_ALLOWED'', ''CERVO_MODEL_POLICY_MODE'']
      then (case LoadModelConfig (pio_json io) (pio_env io) of
              Inl err \<Rightarrow> (policy, [modelPolicyRuntimeWarning ''CERVO_MODEL'' err])
            | Inr c \<Rightarrow> (overlay (mc_Profiles c) (mc_Aliases c)
                 (if shouldUseRuntimeDefaultProfile (pio_env io) then mc_DefaultProfile c else []) policy, []))
      else (policy, []))"

definition apply_json_env ::
  "(string \<Rightarrow> string + 'm) \<Rightarrow> process_env \<Rightarrow> string \<Rightarrow> ('m \<Rightarrow> policyConfig \<Rightarrow> policyConfig) \<Rightarrow>
   policyConfig \<times> ValidationIssue list \<Rightarrow> policyConfig \<times> ValidationIssue list" where
  "apply_json_env dec env name put pw = (case pw of (policy, warnings) \<Rightarrow>
     let raw = envValue env name
     in if raw = [] then (policy, warnings)
        else case dec raw of
               Inl err \<Rightarrow> (policy, warnings @ [modelPolicyRuntimeWarning name err])
             | Inr candidate \<Rightarrow> (put candidate policy, warnings))"

definition merged_policy :: "policy_io \<Rightarrow> policyConfig \<times> ValidationIssue list" where
  "merged_policy io =
     (let pw = apply_model_env io (apply_file io (defaultModelConfig io));
          pw = apply_json_env (pj_profiles (pio_json io)) (pio_env io) ''PROXY_PROVIDER_PROFILES_JSON''
                 (\<lambda>m policy. policy\<lparr>pc_Profiles := m\<rparr>) pw;
          (policy, warnings) = apply_json_env (pj_aliases (pio_json io)) (pio_env io) ''PROXY_PROVIDER_ALIASES_JSON''
                 (\<lambda>m policy. policy\<lparr>pc_Aliases := m\<rparr>) pw;
          raw = canonicalEnvValue (pio_env io) ''PROXY_DEFAULT_PROFILE''
      in (if raw \<noteq> [] then policy\<lparr>pc_DefaultProfile := raw\<rparr> else policy, warnings))"

record modelPolicyRuntime =
  mr_Config :: policyConfig
  mr_Warnings :: "ValidationIssue list"
  mr_Strict :: bool

definition loadModelPolicyRuntime :: "policy_io \<Rightarrow> modelPolicyRuntime" where
  "loadModelPolicyRuntime io = (case merged_policy io of (policy, warnings) \<Rightarrow>
     \<lparr>mr_Config = NormalizeConfig (pio_draw io 2) policy, mr_Warnings = warnings @ ValidateModelConfig (pio_quote io) policy,
      mr_Strict = envBool (pio_env io) ''CERVO_MODEL_POLICY_STRICT'' False\<rparr>)"

section \<open>The state under policyMu\<close>

text \<open>The fields of \<open>RouterService\<close> that loading sets. \<open>PolicyEngine\<close> is set by \<open>NewRouterService\<close> only.\<close>

record policy_state =
  ps_PolicyEngine :: policyEngine
  ps_policy :: policyConfig
  ps_modelPolicy :: "policyConfig option"
  ps_providerProfiles :: providerProfiles
  ps_reasoningProfiles :: "(string, reasoningEffort) gomap"
  ps_profileTimeouts :: "(string, duration) gomap"
  ps_contextWindows :: "(string, contextWindow) gomap"
  ps_modelWarnings :: "ValidationIssue list"
  ps_modelStrict :: bool
  ps_capabilities :: "capabilityIndex option"

definition NewPolicy :: "nat \<Rightarrow> policyConfig \<Rightarrow> policyConfig" where
  "NewPolicy draw cfg = NormalizeConfig draw cfg"

definition activeModelPolicy :: "nat \<Rightarrow> policy_state \<Rightarrow> policyConfig" where
  "activeModelPolicy draw s = (case ps_modelPolicy s of Some mp \<Rightarrow> mp | None \<Rightarrow> NewPolicy draw (ps_policy s))"

definition setModelPolicyConfig :: "(nat \<Rightarrow> nat) \<Rightarrow> policyConfig \<Rightarrow> policy_state \<Rightarrow> policy_state" where
  "setModelPolicyConfig draw policy s =
     (let normalized = NormalizeConfig (draw 3) policy
      in s\<lparr>ps_policy := normalized, ps_providerProfiles := [], ps_reasoningProfiles := [], ps_profileTimeouts := [],
           ps_modelPolicy := Some (NewPolicy (draw 4) normalized)\<rparr>)"

definition setProviderProfiles :: "providerProfiles \<Rightarrow> policy_state \<Rightarrow> policy_state" where
  "setProviderProfiles profiles s = s\<lparr>ps_providerProfiles := profiles\<rparr>"

definition setReasoningProfiles :: "(string, reasoningEffort) gomap \<Rightarrow> policy_state \<Rightarrow> policy_state" where
  "setReasoningProfiles profiles s = s\<lparr>ps_reasoningProfiles := profiles\<rparr>"

definition setProfileTimeouts :: "(string, duration) gomap \<Rightarrow> policy_state \<Rightarrow> policy_state" where
  "setProfileTimeouts timeouts s = s\<lparr>ps_profileTimeouts := timeouts\<rparr>"

record ModelPolicyHealth =
  mh_DefaultProfile :: string
  mh_Profiles :: "string list"
  mh_Aliases :: "string list"
  mh_Strict :: bool
  mh_ValidationWarnings :: "ValidationIssue list"

definition aliasNames :: "(string, string) gomap \<Rightarrow> string list" where
  "aliasNames aliases = sort (m_keys aliases)"

text \<open>The health report reads the policy and the warnings in two critical sections, at the states \<open>s\<close>
  and \<open>s'\<close>.\<close>

definition modelPolicyHealth :: "policy_state \<Rightarrow> policy_state \<Rightarrow> ModelPolicyHealth" where
  "modelPolicyHealth s s' =
     \<lparr>mh_DefaultProfile = pc_DefaultProfile (ps_policy s), mh_Profiles = profileNames (pc_Profiles (ps_policy s)),
      mh_Aliases = aliasNames (pc_Aliases (ps_policy s)), mh_Strict = ps_modelStrict s',
      mh_ValidationWarnings = ps_modelWarnings s'\<rparr>"

text \<open>\<open>planModelAttempts\<close> reads the provider profiles at \<open>s\<close> and the model policy at \<open>s'\<close>; the policy
  itself, which it reads first, is not used when there is a model policy.\<close>

definition plan_at :: "nat \<Rightarrow> policy_state \<Rightarrow> policy_state \<Rightarrow> policyDecision \<Rightarrow> string \<Rightarrow> string \<Rightarrow> modelAttempt list" where
  "plan_at draw s s' decision category requestedModel =
     Plan (activeModelPolicy draw s') (ps_providerProfiles s) decision category requestedModel"

section \<open>Start and reload\<close>

definition strict_failure :: "modelPolicyRuntime \<Rightarrow> bool" where
  "strict_failure rt \<longleftrightarrow> mr_Strict rt \<and> mr_Warnings rt \<noteq> []"

text \<open>The part of \<open>NewRouterService\<close> that loads the policies, after \<open>bridgeLegacyPolicyEnv\<close>, with files that do
  not change meanwhile; \<open>None\<close> is a panic.\<close>

definition start_policy :: "config_decoders \<Rightarrow> policy_io \<Rightarrow> policy_state option" where
  "start_policy d io0 =
     (let io = io0\<lparr>pio_env := bridgeLegacyPolicyEnv (pio_env io0)\<rparr>; env = pio_env io;
          threshold = max 1 (envInt env ''PROXY_BREAKER_FAILURE_THRESHOLD'' 3);
          engine = fst (loadPolicyFlow d env (envDurationSeconds env ''PROXY_REQUEST_TIMEOUT_SECONDS'' (45 * second))
             threshold (envDurationSeconds env ''PROXY_BREAKER_COOLDOWN_SECONDS'' (60 * second)));
          rt = loadModelPolicyRuntime io
      in case loadContextWindows io of
           None \<Rightarrow> None
         | Some windows \<Rightarrow> Some
             \<lparr>ps_PolicyEngine = (if strict_failure rt then DenyAll ''model policy strict validation failed'' else engine),
              ps_policy = mr_Config rt, ps_modelPolicy = Some (NewPolicy (pio_draw io 4) (mr_Config rt)),
              ps_providerProfiles = loadProviderProfiles io, ps_reasoningProfiles = loadReasoningProfiles io,
              ps_profileTimeouts = loadProfileTimeouts io, ps_contextWindows = windows,
              ps_modelWarnings = mr_Warnings rt, ps_modelStrict = mr_Strict rt,
              ps_capabilities = Some (newCapabilityIndex (loadCapabilityOverrides io))\<rparr>)"

text \<open>Where a reload is: the next critical section it will run. \<open>Panicked\<close> is the nil map of
  \<open>loadContextWindows\<close>, with the lock held.\<close>

datatype reload_pc = Reading | SettingPolicy modelPolicyRuntime | SettingProviders modelPolicyRuntime
  | SettingReasoning modelPolicyRuntime | SettingTimeouts modelPolicyRuntime | SettingRest modelPolicyRuntime
  | SettingCapabilities | Reloaded | Refused string | Panicked

fun reload_step :: "policy_io \<Rightarrow> reload_pc \<times> policy_state \<Rightarrow> reload_pc \<times> policy_state" where
  "reload_step io (Reading, s) =
     (let rt = loadModelPolicyRuntime io
      in if strict_failure rt
         then (Refused (''model policy strict validation failed ('' @ itoa (int (length (mr_Warnings rt))) @
                 '' warnings); keeping current policy''), s)
         else (SettingPolicy rt, s))"
| "reload_step io (SettingPolicy rt, s) = (SettingProviders rt, setModelPolicyConfig (pio_draw io) (mr_Config rt) s)"
| "reload_step io (SettingProviders rt, s) = (SettingReasoning rt, setProviderProfiles (loadProviderProfiles io) s)"
| "reload_step io (SettingReasoning rt, s) = (SettingTimeouts rt, setReasoningProfiles (loadReasoningProfiles io) s)"
| "reload_step io (SettingTimeouts rt, s) = (SettingRest rt, setProfileTimeouts (loadProfileTimeouts io) s)"
| "reload_step io (SettingRest rt, s) = (case loadContextWindows io of
     None \<Rightarrow> (Panicked, s)
   | Some windows \<Rightarrow> (SettingCapabilities, s\<lparr>ps_contextWindows := windows, ps_modelWarnings := mr_Warnings rt,
        ps_modelStrict := mr_Strict rt\<rparr>))"
| "reload_step io (SettingCapabilities, s) =
     (Reloaded, s\<lparr>ps_capabilities := map_option (setOverrides (loadCapabilityOverrides io)) (ps_capabilities s)\<rparr>)"
| "reload_step io (Reloaded, s) = (Reloaded, s)"
| "reload_step io (Refused err, s) = (Refused err, s)"
| "reload_step io (Panicked, s) = (Panicked, s)"


text \<open>Reloads started by requests and signals, and the refresh of the derived capabilities. Every
  section may see other files and another environment; a panic keeps the lock for ever.\<close>

inductive policy_step :: "policy_state \<times> reload_pc list \<Rightarrow> policy_state \<times> reload_pc list \<Rightarrow> bool" where
  ps_start: "policy_step (s, rs) (s, rs @ [Reading])"
| ps_section: "policy_step (s, rs) (s', rs[i := pc'])"
    if "i < length rs" "Panicked \<notin> set rs" "reload_step io (rs ! i, s) = (pc', s')"
| ps_refresh: "policy_step (s, rs) (s\<lparr>ps_capabilities := map_option (setAuto auto) (ps_capabilities s)\<rparr>, rs)"

section \<open>Normalizing twice\<close>

lemma char_lower_idem [simp]: "char_lower (char_lower c) = char_lower c"
proof (cases "65 \<le> (of_char c :: nat) \<and> (of_char c :: nat) \<le> 90")
  case True
  then have "of_char (char_of (of_char c + 32 :: nat) :: char) = (of_char c + 32 :: nat)" by simp
  with True show ?thesis by (simp add: char_lower_def)
qed (auto simp: char_lower_def)

lemma is_space_lower [simp]: "is_space (char_lower c) \<longleftrightarrow> is_space c"
proof (cases "65 \<le> (of_char c :: nat) \<and> (of_char c :: nat) \<le> 90")
  case True
  let ?d = "char_of (of_char c + 32 :: nat) :: char"
  from True have d: "of_char ?d = (of_char c + 32 :: nat)" by simp
  have "\<not> is_space x" if "65 \<le> (of_char x :: nat)" for x using that by (auto simp: is_space_def)
  from this [of c] this [of ?d] True d show ?thesis by (simp add: char_lower_def)
qed (auto simp: char_lower_def)

lemma trim_to_lower: "trim_space (to_lower s) = to_lower (trim_space s)"
proof -
  have "is_space \<circ> char_lower = is_space" by (simp add: fun_eq_iff)
  then show ?thesis by (simp add: trim_space_def to_lower_def dropWhile_map rev_map)
qed

lemma norm_name_idem [simp]: "norm_name (norm_name s) = norm_name s"
proof -
  have "to_lower (to_lower t) = to_lower t" for t by (simp add: to_lower_def)
  then show ?thesis by (simp add: norm_name_def trim_to_lower)
qed

lemma clean_chain_idem [simp]: "clean_chain (clean_chain c) = clean_chain c"
  by (induction c) (auto simp: clean_chain_def)

text \<open>A loop that writes every entry under its own fresh key copies the map.\<close>

lemma fold_copy:
  assumes "m_wf (m @ out)" "\<And>e o'. e \<in> set m \<Longrightarrow> f e o' = m_set (fst e) (snd e) o'"
  shows "fold f m out = out @ m"
  using assms
proof (induction m arbitrary: out)
  case (Cons e m)
  have "m_get out (fst e) = None" using Cons.prems(1) by (auto simp: map_of_eq_None_iff)
  then have "f e out = out @ [e]" using Cons.prems(2) by (simp add: m_set_fresh)
  with Cons show ?case by simp
qed simp

definition profile_stable :: "string \<times> string list \<Rightarrow> bool" where
  "profile_stable p \<longleftrightarrow> fst p \<noteq> [] \<and> norm_name (fst p) = fst p \<and> snd p \<noteq> [] \<and> clean_chain (snd p) = snd p"

definition alias_stable :: "(string, string list) gomap \<Rightarrow> string \<times> string \<Rightarrow> bool" where
  "alias_stable profiles a \<longleftrightarrow> fst a \<noteq> [] \<and> snd a \<noteq> [] \<and> norm_name (fst a) = fst a \<and> norm_name (snd a) = snd a \<and> m_get profiles (snd a) \<noteq> None"

lemma norm_profiles_stable:
  "m_wf out \<Longrightarrow> list_all profile_stable out \<Longrightarrow>
   m_wf (fold norm_profile ps out) \<and> list_all profile_stable (fold norm_profile ps out)"
proof (induction ps arbitrary: out)
  case (Cons p ps)
  have "m_wf (norm_profile p out)" "list_all profile_stable (norm_profile p out)"
    using Cons.prems by (simp_all add: norm_profile_def profile_stable_def [of "(_, _)"])
  with Cons.IH show ?case by simp
qed simp

lemma norm_aliases_stable:
  assumes "list_all profile_stable profiles"
  shows "m_wf out \<Longrightarrow> list_all (alias_stable profiles) out \<Longrightarrow>
    m_wf (fold (norm_alias profiles) al out) \<and> list_all (alias_stable profiles) (fold (norm_alias profiles) al out)"
proof (induction al arbitrary: out)
  case (Cons a al)
  have "m_wf (norm_alias profiles a out)" "list_all (alias_stable profiles) (norm_alias profiles a out)"
    using Cons.prems by (simp_all add: norm_alias_def alias_stable_def [of _ "(_, _)"])
  with Cons.IH show ?case by simp
qed simp

lemma profile_aliases_stable:
  assumes "list_all profile_stable profiles" "\<And>p. p \<in> set ps \<Longrightarrow> m_get profiles (fst p) \<noteq> None \<and> profile_stable p"
  shows "m_wf out \<Longrightarrow> list_all (alias_stable profiles) out \<Longrightarrow>
    m_wf (fold (\<lambda>p out. m_set (fst p) (fst p) out) ps out) \<and>
    list_all (alias_stable profiles) (fold (\<lambda>p out. m_set (fst p) (fst p) out) ps out)"
  using assms(2)
proof (induction ps arbitrary: out)
  case (Cons p ps)
  have "m_wf (m_set (fst p) (fst p) out)" "list_all (alias_stable profiles) (m_set (fst p) (fst p) out)"
    using Cons.prems(1,2) Cons.prems(3) [of p] by (simp_all add: alias_stable_def [of _ "(_, _)"] profile_stable_def)
  with Cons.IH Cons.prems(3) show ?case by simp
qed simp

lemma profile_aliases_get:
  "m_get (fold (\<lambda>p out. m_set (fst p) (fst p) out) ps out) j = (if j \<in> fst ` set ps then Some j else m_get out j)"
  by (induction ps arbitrary: out) auto

definition config_stable :: "policyConfig \<Rightarrow> bool" where
  "config_stable cfg \<longleftrightarrow> m_wf (pc_Profiles cfg) \<and> list_all profile_stable (pc_Profiles cfg) \<and>
     m_get (pc_Profiles cfg) (pc_DefaultProfile cfg) \<noteq> None \<and>
     m_wf (pc_Aliases cfg) \<and> list_all (alias_stable (pc_Profiles cfg)) (pc_Aliases cfg) \<and>
     m_get (pc_Aliases cfg) ''default'' = Some (pc_DefaultProfile cfg) \<and>
     (\<forall>p. m_get (pc_Profiles cfg) p \<noteq> None \<and> p \<noteq> ''default'' \<longrightarrow> m_get (pc_Aliases cfg) p = Some p)"

lemma m_get_Some_iff: "m_get m k \<noteq> None \<longleftrightarrow> k \<in> fst ` set m"
  by (simp add: map_of_eq_None_iff)

lemma NormalizeConfig_stable: "config_stable (NormalizeConfig draw cfg)"
proof -
  let ?ps = "fold norm_profile (pc_Profiles cfg) []"
  let ?profiles = "if ?ps = [] then [(''default'', [''auto''])] else ?ps"
  let ?aliases = "fold (\<lambda>p out. m_set (fst p) (fst p) out) ?profiles (fold (norm_alias ?profiles) (pc_Aliases cfg) [])"
  let ?N = "NormalizeConfig draw cfg"
  have prof: "pc_Profiles ?N = ?profiles" by (simp add: NormalizeConfig_def Let_def)
  have al: "pc_Aliases ?N = m_set ''default'' (pc_DefaultProfile ?N) ?aliases"
    by (simp add: NormalizeConfig_def Let_def)
  have dft: "m_get ?profiles (pc_DefaultProfile ?N) \<noteq> None"
    using NormalizeConfig_ok [of draw cfg] unfolding config_ok_def prof by blast
  have "profile_stable (''default'', [''auto''])" by code_simp
  then have P: "m_wf ?profiles" "list_all profile_stable ?profiles"
    using norm_profiles_stable [of "[]" "pc_Profiles cfg"] by auto
  have "m_get ?profiles (fst p) \<noteq> None \<and> profile_stable p" if "p \<in> set ?profiles" for p
    using that P(2) unfolding m_get_Some_iff by (auto simp: list_all_iff simp del: fold_simps)
  from profile_aliases_stable [OF P(2) this]
  have A: "m_wf ?aliases" "list_all (alias_stable ?profiles) ?aliases"
    using norm_aliases_stable [OF P(2), of "[]" "pc_Aliases cfg"] by simp_all
  have "alias_stable ?profiles (''default'', pc_DefaultProfile ?N)"
    using dft P(2) by (auto simp: alias_stable_def profile_stable_def norm_name_def dest!: list_all_getD) code_simp+
  with A have "m_wf (pc_Aliases ?N)" "list_all (alias_stable ?profiles) (pc_Aliases ?N)"
    unfolding al by simp_all
  moreover have "m_get (pc_Aliases ?N) ''default'' = Some (pc_DefaultProfile ?N)" unfolding al by simp
  moreover have "m_get (pc_Aliases ?N) p = Some p" if "m_get ?profiles p \<noteq> None" "p \<noteq> ''default''" for p
    using that(2) that(1) [unfolded m_get_Some_iff] unfolding al by (simp only: m_get_set profile_aliases_get if_False if_True)
  ultimately show ?thesis using P dft unfolding config_stable_def prof by blast
qed

lemma restore_default:
  assumes "\<And>p. p \<in> set ps \<Longrightarrow> fst p \<noteq> ''default'' \<Longrightarrow> m_get m (fst p) = Some (fst p)"
    "out = m \<or> out = m_set ''default'' ''default'' m"
  shows "m_set ''default'' v (fold (\<lambda>p out. m_set (fst p) (fst p) out) ps out) = m_set ''default'' v m"
  using assms
proof (induction ps arbitrary: out)
  case Nil
  then show ?case by (auto simp: update_last)
next
  case (Cons p ps)
  have "m_set (fst p) (fst p) out = m \<or> m_set (fst p) (fst p) out = m_set ''default'' ''default'' m"
    using Cons.prems(1) [of p] Cons.prems(2) by (cases "fst p = ''default''") (auto simp: update_last update_triv)
  with Cons.IH Cons.prems(1) show ?case by simp
qed

lemma stable_config_fixed:
  assumes "config_stable cfg"
  shows "NormalizeConfig draw cfg = cfg"
proof -
  let ?P = "pc_Profiles cfg"
  have st: "m_wf ?P" "list_all profile_stable ?P" "m_get ?P (pc_DefaultProfile cfg) \<noteq> None" "m_wf (pc_Aliases cfg)"
    "list_all (alias_stable ?P) (pc_Aliases cfg)" using assms by (auto simp: config_stable_def)
  have ne: "?P \<noteq> []" using st(3) by auto
  have d: "pc_DefaultProfile cfg \<noteq> []" "norm_name (pc_DefaultProfile cfg) = pc_DefaultProfile cfg"
    using st(2,3) by (auto simp: profile_stable_def dest!: list_all_getD)
  have tr: "trim_space (pc_DefaultProfile cfg) \<noteq> []" using d by (metis list.map_disc_iff norm_name_def to_lower_def)
  have fp: "fold norm_profile ?P [] = ?P"
    using st(1,2) by (subst fold_copy) (auto simp: norm_profile_def profile_stable_def list_all_iff)
  have fa: "fold (norm_alias ?P) (pc_Aliases cfg) [] = pc_Aliases cfg"
    using st(4,5) by (subst fold_copy) (auto simp: norm_alias_def alias_stable_def list_all_iff)
  have "m_get ?P (fst p) \<noteq> None" if "p \<in> set ?P" for p using that unfolding m_get_Some_iff by simp
  then have "fst p \<noteq> ''default'' \<Longrightarrow> m_get (pc_Aliases cfg) (fst p) = Some (fst p)" if "p \<in> set ?P" for p
    using that assms unfolding config_stable_def by blast
  from restore_default [OF this, of ?P "pc_Aliases cfg"]
  have "m_set ''default'' v (fold (\<lambda>p out. m_set (fst p) (fst p) out) ?P (pc_Aliases cfg)) = m_set ''default'' v (pc_Aliases cfg)" for v
    by simp
  moreover have "m_set ''default'' (pc_DefaultProfile cfg) (pc_Aliases cfg) = pc_Aliases cfg"
    using assms by (intro update_triv) (simp add: config_stable_def)
  ultimately show ?thesis using ne tr d st(3) by (auto simp: NormalizeConfig_def Let_def fp fa)
qed

lemmas NormalizeConfig_idem [simp] = stable_config_fixed [OF NormalizeConfig_stable]



section \<open>Every state of an interleaved reload\<close>

definition targets_ok :: "string \<times> providerModelTarget list \<Rightarrow> bool" where
  "targets_ok p \<longleftrightarrow> list_all target_ok (snd p)"

definition window_ok :: "string \<times> contextWindow \<Rightarrow> bool" where
  "window_ok w \<longleftrightarrow> 0 < cw_ContextTokens (snd w) \<and> 0 \<le> cw_OutputReserveTokens (snd w)"

definition effort_ok :: "string \<times> reasoningEffort \<Rightarrow> bool" where
  "effort_ok e \<longleftrightarrow> snd e \<in> {''low'', ''medium'', ''high''}"

definition policy_state_ok :: "policy_state \<Rightarrow> bool" where
  "policy_state_ok s \<longleftrightarrow> config_stable (ps_policy s) \<and> ps_modelPolicy s = Some (ps_policy s) \<and>
     list_all targets_ok (ps_providerProfiles s) \<and> list_all effort_ok (ps_reasoningProfiles s) \<and>
     list_all window_ok (ps_contextWindows s)"

lemma fold_list_all:
  assumes "\<And>x m. x \<in> set xs \<Longrightarrow> list_all P m \<Longrightarrow> list_all P (f x m)"
  shows "list_all P m \<Longrightarrow> list_all P (fold f xs m)"
  using assms by (induction xs arbitrary: m) auto

lemma loadProviderProfiles_ok: "list_all targets_ok (loadProviderProfiles io)"
proof -
  have "list_all targets_ok (add_profile p m)" if "list_all targets_ok m" for p m
  proof -
    let ?n = "trim_space (fst p)"
    let ?t = "first_of_key target_key [] (filter target_ok (map clean_target (snd p)))"
    have "list_all target_ok (m_get_or [] m ?n)"
      using that by (auto simp: m_get_or_def targets_ok_def dest!: list_all_getD split: option.splits)
    moreover have "list_all target_ok ?t"
      using first_of_key_subset [of target_key "[]" "filter target_ok (map clean_target (snd p))"] by (auto simp: list_all_iff)
    ultimately show ?thesis using that by (simp add: add_profile_def Let_def targets_ok_def [of "(_, _)"])
  qed
  then show ?thesis
    by (auto simp: loadProviderProfiles_def parseProviderProfiles_def split: option.splits intro!: fold_list_all)
qed

lemma loadReasoningProfiles_ok: "list_all effort_ok (loadReasoningProfiles io)"
proof -
  have "list_all effort_ok (reasoning_profile p m)" if "list_all effort_ok m" for p m
    using that by (auto simp: reasoning_profile_def parseReasoningEffort_def Let_def effort_ok_def [of "(_, _)"] split: option.splits)
  then show ?thesis
    by (auto simp: loadReasoningProfiles_def parseReasoningProfiles_def split: option.splits intro!: fold_list_all)
qed

lemma parseContextWindows_ok: "list_all window_ok (parseContextWindows decoded)"
proof -
  have "list_all window_ok (add_window pr w m)" if "list_all window_ok m" for pr w m
    using that by (simp add: add_window_def window_ok_def [of "(_, _)"])
  then show ?thesis
    by (auto simp: parseContextWindows_def split: option.splits intro!: fold_list_all)
qed

lemma loadContextWindows_ok:
  assumes "loadContextWindows io = Some w"
  shows "list_all window_ok w"
proof -
  define ws where "ws = (case policy_file io of None \<Rightarrow> [] | Some (path, data) \<Rightarrow> parseContextWindows (pj_windows (pio_json io) data))"
  have ws: "list_all window_ok ws" using parseContextWindows_ok by (auto simp: ws_def split: option.splits)
  have "w = fold (\<lambda>(k, w). m_set k w) ws (parseContextWindows (pj_windows (pio_json io) (pio_embedded io)))"
    using assms unfolding loadContextWindows_def Let_def ws_def [symmetric] by (simp split: if_splits)
  then show ?thesis using parseContextWindows_ok ws by (auto simp: list_all_iff [of _ ws] intro!: fold_list_all)
qed

lemma reload_step_ok: "policy_state_ok s \<Longrightarrow> reload_step io (pc, s) = (pc', s') \<Longrightarrow> policy_state_ok s'"
  using NormalizeConfig_stable loadProviderProfiles_ok loadReasoningProfiles_ok loadContextWindows_ok
  by (cases pc) (auto simp: policy_state_ok_def NewPolicy_def setModelPolicyConfig_def setProviderProfiles_def setReasoningProfiles_def
      setProfileTimeouts_def Let_def split: if_splits option.splits)

lemma policy_step_ok: "policy_step x y \<Longrightarrow> policy_state_ok (fst x) \<Longrightarrow> policy_state_ok (fst y)"
proof (induction rule: policy_step.induct)
  case (ps_section i rs io s pc' s')
  then show ?case using reload_step_ok by simp
qed (simp_all add: policy_state_ok_def)

lemma policy_steps_ok: "policy_step\<^sup>*\<^sup>* x y \<Longrightarrow> policy_state_ok (fst x) \<Longrightarrow> policy_state_ok (fst y)"
  by (induction rule: rtranclp_induct) (auto intro: policy_step_ok)

lemma start_policy_ok: "start_policy d io = Some s \<Longrightarrow> policy_state_ok s"
  using NormalizeConfig_stable loadProviderProfiles_ok loadReasoningProfiles_ok loadContextWindows_ok
  by (auto simp: start_policy_def Let_def policy_state_ok_def NewPolicy_def loadModelPolicyRuntime_def split: option.splits prod.splits)

lemma stable_config_ok:
  assumes "config_stable cfg"
  shows "config_ok cfg"
proof -
  have "chain \<noteq> [] \<and> [] \<notin> set chain" if "m_get (pc_Profiles cfg) p = Some chain" for p chain
  proof -
    have "profile_stable (p, chain)" using assms that list_all_getD unfolding config_stable_def by fast
    then show ?thesis using clean_chain_ok [of chain] by (simp add: profile_stable_def)
  qed
  with assms show ?thesis by (auto simp: config_ok_def config_stable_def)
qed

text \<open>The model policy and the configuration a reader finds always belong together.\<close>

lemma state_ok_active:
  assumes "policy_state_ok s"
  shows "activeModelPolicy draw s = ps_policy s" "config_ok (ps_policy s)"
  using assms stable_config_ok stable_config_fixed [of "ps_policy s"]
  by (auto simp: policy_state_ok_def activeModelPolicy_def NewPolicy_def)

lemma Select_models: "config_ok cfg \<Longrightarrow> [] \<notin> set (md_ModelChain (Select cfg p m))"
proof -
  assume ok: "config_ok cfg"
  have "[] \<notin> set (m_get_or [] (pc_Profiles cfg) n)" for n
    using ok by (cases "m_get (pc_Profiles cfg) n") (auto simp: config_ok_def m_get_or_def)
  moreover have "[] \<notin> set (first_of_key (\<lambda>m. m) seen c)" if "[] \<notin> set c" for seen c :: "string list"
    using that first_of_key_subset [of "\<lambda>m. m" seen c] by blast
  ultimately show ?thesis by (auto simp: Select_def Let_def)
qed

lemma Plan_usable:
  assumes "config_ok cfg" "list_all targets_ok profiles"
  shows "Plan cfg profiles decision category m \<noteq> []"
    and "a \<in> set (Plan cfg profiles decision category m) \<Longrightarrow>
      ma_Model a \<noteq> [] \<and> m_get (pc_Profiles cfg) (ma_Profile a) \<noteq> None"
proof -
  let ?d = "Select cfg category m"
  let ?providers = "if pd_Executor decision = [] then [providerOpenRouter] else pd_Executor decision # pd_FallbackExecutors decision"
  let ?all = "concat (map (\<lambda>model. map (\<lambda>p. newAttempt (md_Profile ?d) model p (pd_BreakerPolicy decision)) ?providers) (md_ModelChain ?d))"
  let ?targets = "m_get_or [] profiles (md_Profile ?d)"
  have t: "list_all target_ok ?targets"
    using assms(2) by (auto simp: m_get_or_def targets_ok_def dest!: list_all_getD split: option.splits)
  have plan: "Plan cfg profiles decision category m = map (\<lambda>t. newAttempt (md_Profile ?d) (pt_Model t) (pt_Provider t) (pd_BreakerPolicy decision)) ?targets \<and> ?targets \<noteq> []
      \<or> Plan cfg profiles decision category m = first_of_key attempt_key [] ?all"
    by (simp add: Plan_def Let_def)
  have "?all \<noteq> []" using Select_profile(2) [OF assms(1), of category m] by (cases "md_ModelChain ?d") auto
  then have "first_of_key attempt_key [] ?all \<noteq> []"
    using first_of_key_set [of attempt_key "[]" ?all] by (metis Diff_empty empty_set image_is_empty set_empty)
  with plan show "Plan cfg profiles decision category m \<noteq> []" by auto
  assume "a \<in> set (Plan cfg profiles decision category m)"
  with plan have "a \<in> (\<lambda>t. newAttempt (md_Profile ?d) (pt_Model t) (pt_Provider t) (pd_BreakerPolicy decision)) ` set ?targets
      \<or> a \<in> set ?all"
    using first_of_key_subset [of attempt_key "[]" ?all] by (elim disjE conjE) (simp_all only: set_map, blast+)
  then show "ma_Model a \<noteq> [] \<and> m_get (pc_Profiles cfg) (ma_Profile a) \<noteq> None"
  proof
    assume "a \<in> (\<lambda>t. newAttempt (md_Profile ?d) (pt_Model t) (pt_Provider t) (pd_BreakerPolicy decision)) ` set ?targets"
    with t Select_profile(1) [OF assms(1), of category m] show ?thesis by (auto simp: list_all_iff target_ok_def)
  next
    assume "a \<in> set ?all"
    then have "ma_Model a \<in> set (md_ModelChain ?d)" "ma_Profile a = md_Profile ?d" by auto
    with Select_profile(1) [OF assms(1), of category m] Select_models [OF assms(1), of category m] show ?thesis by metis
  qed
qed

lemma reload_step_engine: "ps_PolicyEngine (snd (reload_step io (pc, s))) = ps_PolicyEngine s"
  by (cases pc) (auto simp: setModelPolicyConfig_def setProviderProfiles_def setReasoningProfiles_def
      setProfileTimeouts_def Let_def split: option.splits)

text \<open>No reload replaces the policy engine: a service that started with an invalid policy under strict
  validation denies every request for ever, also after a reload that accepts a corrected policy.\<close>

lemma reload_never_lifts_deny_all:
  "policy_step\<^sup>*\<^sup>* x y \<Longrightarrow> ps_PolicyEngine (fst y) = ps_PolicyEngine (fst x)"
proof (induction rule: rtranclp_induct)
  case (step y z)
  from step(2) have "ps_PolicyEngine (fst z) = ps_PolicyEngine (fst y)"
  proof (induction rule: policy_step.induct)
    case (ps_section i rs io s pc' s')
    then show ?case using reload_step_engine [of io "rs ! i" s] by simp
  qed simp_all
  with step show ?case by simp
qed simp

section \<open>What validation accepts\<close>










section \<open>Where the sources overlap\<close>

text \<open>The file is normalized before its fields are compared with empty, so none of the comparisons ever
  fails: a readable file replaces the whole embedded policy, also the profiles it does not mention.\<close>

lemma NormalizeConfig_nonempty:
  "pc_Profiles (NormalizeConfig draw cfg) \<noteq> []" "pc_Aliases (NormalizeConfig draw cfg) \<noteq> []" "pc_DefaultProfile (NormalizeConfig draw cfg) \<noteq> []"
proof -
  let ?N = "NormalizeConfig draw cfg"
  have st: "config_stable ?N" by (rule NormalizeConfig_stable)
  then show "pc_Profiles ?N \<noteq> []" "pc_Aliases ?N \<noteq> []" by (auto simp: config_stable_def)
  obtain chain where "m_get (pc_Profiles ?N) (pc_DefaultProfile ?N) = Some chain" using st by (auto simp: config_stable_def)
  then have "profile_stable (pc_DefaultProfile ?N, chain)" using st list_all_getD unfolding config_stable_def by fast
  then show "pc_DefaultProfile ?N \<noteq> []" by (simp add: profile_stable_def)
qed

lemma file_discards_embedded:
  "policy_file io = Some (path, data) \<Longrightarrow> pj_config (pio_json io) data = Inr cfg \<Longrightarrow> apply_file io base = NormalizeConfig (pio_draw io 1) cfg"
  by (simp add: apply_file_def loadModelConfigFile_def overlay_def NormalizeConfig_nonempty)

text \<open>A file that only names a default profile leaves one profile, and the name it asks for is gone.\<close>

lemma default_only_file_drops_profiles:
  "policy_file io = Some (path, data) \<Longrightarrow>
   pj_config (pio_json io) data = Inr \<lparr>pc_DefaultProfile = ''coding'', pc_Profiles = [], pc_Aliases = []\<rparr> \<Longrightarrow>
   apply_file io base = DefaultModelConfig"
proof -
  assume "policy_file io = Some (path, data)"
    "pj_config (pio_json io) data = Inr \<lparr>pc_DefaultProfile = ''coding'', pc_Profiles = [], pc_Aliases = []\<rparr>"
  moreover have "NormalizeConfig draw \<lparr>pc_DefaultProfile = ''coding'', pc_Profiles = [], pc_Aliases = []\<rparr> = DefaultModelConfig" for draw
    by (simp add: NormalizeConfig_def DefaultModelConfig_def Let_def)
  ultimately show ?thesis using file_discards_embedded by simp
qed

text \<open>A file that does not decode is no warning: strict validation accepts the load and the embedded
  profiles replace the current ones, without the provider profiles that belong to them.\<close>

lemma malformed_file_accepted:
  assumes "policy_file io = Some (path, data)" "pj_config (pio_json io) data = Inl err"
    "pj_providerProfiles (pio_json io) data = None"
  shows "loadModelPolicyRuntime io = loadModelPolicyRuntime (io\<lparr>pio_read := \<lambda>_. None\<rparr>)" "loadProviderProfiles io = []"
proof -
  let ?io = "io\<lparr>pio_read := \<lambda>_. None\<rparr>"
  have n: "first_readable (\<lambda>_. None) paths = None" for paths by (induction paths) auto
  have f: "apply_file io base = base" "apply_file ?io base = base" for base
    using assms n by (simp_all add: apply_file_def loadModelConfigFile_def policy_file_def)
  have "apply_model_env ?io = apply_model_env io" "defaultModelConfig ?io = defaultModelConfig io"
    by (simp_all add: fun_eq_iff apply_model_env_def defaultModelConfig_def split: sum.split)
  with f show "loadModelPolicyRuntime io = loadModelPolicyRuntime ?io"
    by (simp add: loadModelPolicyRuntime_def merged_policy_def)
  show "loadProviderProfiles io = []"
    using assms by (simp add: loadProviderProfiles_def policy_source_def parseProviderProfiles_def)
qed

text \<open>The environment configuration always has a default profile, so it always brings aliases of its own
  and replaces the table of the policy.\<close>

lemma LoadModelConfig_aliases: "LoadModelConfig d env = Inr c \<Longrightarrow> mc_Aliases c \<noteq> []"
proof -
  assume "LoadModelConfig d env = Inr c"
  then obtain profiles aliases where c: "c = complete_runtime ((decode_model_env env)\<lparr>mc_Profiles := profiles, mc_Aliases := aliases\<rparr>)"
    by (auto simp: LoadModelConfig_def split: sum.splits)
  have "mc_Mode (decode_model_env env) \<noteq> []" by (simp add: decode_model_env_def Let_def)
  then show ?thesis by (auto simp: c complete_runtime_def Let_def update_conv')
qed

section \<open>Examples\<close>

definition ex_model_config :: policyConfig where
  "ex_model_config = \<lparr>pc_DefaultProfile = ''coding'', pc_Profiles = [(''coding'', [''a/x'', ''b/y'']), (''vision'', [''a/v''])],
     pc_Aliases = [(''code'', ''coding'')]\<rparr>"

definition ex_policy_json :: policy_json where
  "ex_policy_json = \<lparr>pj_config = (\<lambda>_. Inr ex_model_config), pj_profiles = (\<lambda>_. Inr [(''fast'', [''a/x''])]),
     pj_aliases = (\<lambda>_. Inr []), pj_capabilities = (\<lambda>_. Some [(''a/v'', [''vision''])]),
     pj_providerProfiles = (\<lambda>_. Some [(''coding'', [\<lparr>pt_Provider = ''groq'', pt_Model = ''llama''\<rparr>])]),
     pj_reasoning = (\<lambda>_. None), pj_timeouts = (\<lambda>_. None), pj_windows = (\<lambda>_. Some [])\<rparr>"

definition ex_policy_io :: "process_env \<Rightarrow> policy_io" where
  "ex_policy_io env = \<lparr>pio_env = env, pio_exeFile = None, pio_read = (\<lambda>_. None), pio_embedded = ''{}'', pio_json = ex_policy_json,
     pio_quote = (\<lambda>q. q), pio_draw = (\<lambda>_. 0)\<rparr>"

definition ex_config_decoders :: config_decoders where
  "ex_config_decoders = \<lparr>de_limits = (\<lambda>_ l. l), de_retry = (\<lambda>_ r. r), de_fallbacks = (\<lambda>_. None)\<rparr>"

lemma ex_embedded_accepted: "mr_Warnings (loadModelPolicyRuntime (ex_policy_io [])) = []"
  by code_simp

text \<open>Profiles of the environment alone are refused under strict validation: the aliases made up for
  them name a profile \<open>strict\<close> that does not exist.\<close>

lemma profiles_variable_alone_refused:
  "map vi_Code (mr_Warnings (loadModelPolicyRuntime (ex_policy_io [(''CERVO_MODEL_PROFILES_JSON'', ''{}''),
     (''PROXY_DEFAULT_PROFILE'', ''fast'')]))) = [ValidationAliasTargetMissing, ValidationAliasTargetMissing]"
  by code_simp

lemma ex_bridge: "bridgeLegacyPolicyEnv (pio_env (ex_policy_io [])) = pio_env (ex_policy_io [])"
  by code_simp

lemma ex_start:
  obtains s where "start_policy ex_config_decoders (ex_policy_io []) = Some s"
proof -
  have "loadContextWindows (ex_policy_io []) = Some []" by code_simp
  moreover have "ex_policy_io []\<lparr>pio_env := []\<rparr> = ex_policy_io []" by (simp add: ex_policy_io_def)
  ultimately have "\<exists>s. start_policy ex_config_decoders (ex_policy_io []) = Some s"
    using ex_bridge by (simp add: start_policy_def Let_def ex_policy_io_def)
  then show thesis using that by blast
qed

text \<open>Between two sections of a reload the new policy stands without its provider profiles.\<close>

lemma reload_torn:
  assumes "\<not> strict_failure (loadModelPolicyRuntime io)"
  shows "\<exists>s' rt. policy_step\<^sup>*\<^sup>* (s, []) (s', [SettingProviders rt]) \<and> ps_policy s' = mr_Config (loadModelPolicyRuntime io) \<and>
    ps_providerProfiles s' = []"
proof -
  let ?rt = "loadModelPolicyRuntime io"
  let ?s = "setModelPolicyConfig (pio_draw io) (mr_Config ?rt) s"
  have "policy_step (s, []) (s, [Reading])" using ps_start [of s "[]"] by simp
  moreover have "policy_step (s, [Reading]) (s, [SettingPolicy ?rt])"
    using ps_section [of 0 "[Reading]" io s "SettingPolicy ?rt" s] assms by (simp add: Let_def)
  moreover have "policy_step (s, [SettingPolicy ?rt]) (?s, [SettingProviders ?rt])"
    using ps_section [of 0 "[SettingPolicy ?rt]" io s "SettingProviders ?rt" ?s] by simp
  ultimately have "policy_step\<^sup>*\<^sup>* (s, []) (?s, [SettingProviders ?rt])"
    by (meson converse_rtranclp_into_rtranclp rtranclp.rtrancl_refl)
  moreover have "ps_policy ?s = mr_Config ?rt" "ps_providerProfiles ?s = []"
    by (simp_all add: setModelPolicyConfig_def Let_def loadModelPolicyRuntime_def split: prod.splits)
  ultimately show ?thesis by blast
qed

section \<open>Properties\<close>

text \<open>C38. Whatever reloads run at the same time, with whatever files and environment at each of their
  sections, a reader always finds a usable policy: the configuration and the model policy agree, the
  default profile exists and no chain is empty; and a plan made from provider profiles read at one
  moment and the model policy read later has an attempt, and names a model and an existing profile in
  each of its attempts.\<close>

theorem reload_keeps_policy_usable:
  assumes "start_policy d io = Some s0" "policy_step\<^sup>*\<^sup>* (s0, []) (s, rs)" "policy_step\<^sup>*\<^sup>* (s, rs) (s', rs')"
  shows "activeModelPolicy draw s = ps_policy s \<and> config_ok (ps_policy s) \<and>
    plan_at draw s s' decision category m \<noteq> [] \<and>
    (\<forall>a \<in> set (plan_at draw s s' decision category m).
       ma_Model a \<noteq> [] \<and> m_get (pc_Profiles (ps_policy s')) (ma_Profile a) \<noteq> None)"
proof -
  have ok: "policy_state_ok s" using policy_steps_ok [OF assms(2)] start_policy_ok [OF assms(1)] by simp
  then have ok': "policy_state_ok s'" using policy_steps_ok [OF assms(3)] by simp
  have "list_all targets_ok (ps_providerProfiles s)" using ok by (simp add: policy_state_ok_def)
  then show ?thesis
    using Plan_usable [OF state_ok_active(2) [OF ok']] state_ok_active [OF ok] state_ok_active(1) [OF ok']
    by (simp add: plan_at_def)
qed

theorem reload_keeps_policy_usable_witness:
  "\<exists>s0 s rt. start_policy ex_config_decoders (ex_policy_io []) = Some s0 \<and>
     policy_step\<^sup>*\<^sup>* (s0, []) (s, [SettingProviders rt]) \<and> ps_providerProfiles s = [] \<and>
     plan_at 0 s s \<lparr>pd_Executor = [], pd_FallbackExecutors = [], pd_BreakerPolicy = \<lparr>bp_FailureThreshold = 3, bp_Cooldown = 0, bp_Eligible = True\<rparr>\<rparr>
       ''coding'' ''auto'' \<noteq> []"
proof -
  obtain s0 where s0: "start_policy ex_config_decoders (ex_policy_io []) = Some s0" by (rule ex_start)
  have "\<not> strict_failure (loadModelPolicyRuntime (ex_policy_io []))" using ex_embedded_accepted by (simp add: strict_failure_def)
  from reload_torn [OF this, of s0] obtain s rt where
    s: "policy_step\<^sup>*\<^sup>* (s0, []) (s, [SettingProviders rt])" "ps_providerProfiles s = []" by blast
  with reload_keeps_policy_usable [OF s0 s(1) rtranclp.rtrancl_refl] s0 show ?thesis by blast
qed



lemma NewPolicy_loaded [simp]: "NewPolicy draw (mr_Config (loadModelPolicyRuntime io)) = mr_Config (loadModelPolicyRuntime io)"
  by (simp add: NewPolicy_def loadModelPolicyRuntime_def split: prod.splits)






end
