(* ===== verification/Dispatch.thy ===== *)
theory Dispatch
  imports Upstream Policy Admission
begin

text \<open>
  The dispatch of a request, \<open>src/internal/router/router.go\<close>: the profile of a request, the capability
  gate and its rescue, the loop that ranks the chain by quota and may park the request until a quota
  reset (\<open>holdForQuotaReset\<close> of \<open>router_quota_routing.go\<close>), \<open>dispatchChain\<close>, and the entry point
  \<open>RouteRequestWithProvider\<close> with admission, body limit, embeddings and the two chat wires.

  What the clock, the timers and the other requests do during one round of the hold loop is a
  \<open>hold_round\<close>; they may change everything that is shared while the request sleeps. The parsed URL, the
  JSON decoder and encoder, and the two tunnels are parameters. Logs and spans are not modelled.
\<close>

section \<open>The profile of a request\<close>

definition resolveProfileAlias :: "RouterService \<Rightarrow> string \<Rightarrow> string option" where
  "resolveProfileAlias s raw = ResolveProfileAlias (rs_policy s) raw"

definition visionChainServes :: "capabilityIndex \<Rightarrow> string list \<Rightarrow> bool \<Rightarrow> bool" where
  "visionChainServes caps chain hasTools \<longleftrightarrow>
     (let required = capVision # (if hasTools then [capTools] else [])
      in list_ex (\<lambda>model. \<not> known caps model \<or> satisfies caps model required) chain)"

text \<open>Each source that names a profile overrides the ones before it.\<close>

definition override_profile :: "RouterService \<Rightarrow> string \<Rightarrow> string \<Rightarrow> string" where
  "override_profile s raw selected = (case resolveProfileAlias s raw of Some alias \<Rightarrow> alias | None \<Rightarrow> selected)"

record profile_request =
  pq_forced :: string
  pq_query :: "string \<Rightarrow> string"
  pq_header :: "string \<Rightarrow> string"

definition determineProfile ::
  "capabilityIndex \<Rightarrow> RouterService \<Rightarrow> profile_request \<Rightarrow> json list \<Rightarrow> bool \<Rightarrow> string" where
  "determineProfile caps s r messages hasTools =
     (let selected = fold (override_profile s)
            [pq_forced r, pq_query r ''provider'', pq_query r ''category'',
             pq_header r ''X-Cervo-Provider'', pq_header r ''X-Cervo-Category''] (classifyPrompt messages);
          pol = rs_policy s;
          selected = (if hasImageContent messages
            then (case m_get (pc_Profiles pol) ''vision'' of
                    Some chain \<Rightarrow> if visionChainServes caps chain hasTools then ''vision'' else selected
                  | None \<Rightarrow> selected)
            else selected)
      in if m_get (pc_Profiles pol) selected = None then pc_DefaultProfile pol else selected)"

definition unknown_name :: "RouterService \<Rightarrow> string \<Rightarrow> bool" where
  "unknown_name s requestedModel \<longleftrightarrow>
     (let name = trim_space requestedModel; pol = rs_policy s
      in name \<noteq> [] \<and> \<not> contains name ''/'' \<and> \<not> equal_fold name ''auto'' \<and> resolveProfileAlias s name = None \<and>
         m_get (pc_Profiles pol) name = None \<and>
         \<not> list_ex (\<lambda>chain. list_ex (\<lambda>model. equal_fold (trim_space model) name) chain) (map snd (pc_Profiles pol)))"

text \<open>\<open>quote\<close> is the \<open>%q\<close> of \<open>fmt\<close>.\<close>

definition rejectUnknownProfile ::
  "(string \<Rightarrow> string) \<Rightarrow> (string \<Rightarrow> string) \<Rightarrow> process_env \<Rightarrow> RouterService \<Rightarrow> string \<Rightarrow>
   routerCounters \<times> responseWriter \<Rightarrow> (routerCounters \<times> responseWriter) \<times> bool" where
  "rejectUnknownProfile quote enc env s requestedModel cw = (case cw of (c, w) \<Rightarrow>
     if \<not> unknown_name s requestedModel then ((c, w), False)
     else
       let c = c\<lparr>rc_unknownProfileRejected := bump (rc_unknownProfileRejected c)\<rparr>
       in if \<not> envBool env ''PROXY_STRICT_PROFILE_NAMES'' False then ((c, w), False)
          else ((c, writeJSONError enc 404 (''unknown profile '' @ quote (trim_space requestedModel) @ ''; known profiles: '' @
                   join '', '' (profileNames (pc_Profiles (rs_policy s))) @
                   '' (pin a specific model with its full vendor/model id)'') w), True))"

definition planModelAttempts :: "RouterService \<Rightarrow> routeDecision \<Rightarrow> string \<Rightarrow> string \<Rightarrow> modelAttempt list" where
  "planModelAttempts s decision category requestedModel =
     Plan (rs_policy s) (rs_providerProfiles s) (policyDecision.truncate decision) category requestedModel"

section \<open>The capability gate\<close>

definition rescue_attempt :: "RouterService \<Rightarrow> string \<Rightarrow> string \<Rightarrow> string \<Rightarrow> providerID \<Rightarrow> modelAttempt" where
  "rescue_attempt s category opPath model provider =
     (newAttempt category model provider (defaultBreakerPolicy s))\<lparr>ma_Path := opPath\<rparr>"

definition capabilityRescue ::
  "capabilityIndex \<Rightarrow> RouterService \<Rightarrow> string \<Rightarrow> string \<Rightarrow> string list \<Rightarrow> modelAttempt list" where
  "capabilityRescue caps s category opPath required =
     (let profiles = rs_providerProfiles s
      in if profiles \<noteq> []
         then map (\<lambda>t. rescue_attempt s category opPath (pt_Model t) (pt_Provider t))
           (first_of_key target_key []
              (concat (map (\<lambda>provider. concat (map (\<lambda>profile.
                 filter (\<lambda>t. pt_Provider t = provider \<and> satisfies caps (pt_Model t) required) (m_get_or [] profiles profile))
                 (sort (m_keys profiles))))
                 [providerOpenRouter, providerCerebras, providerGroq])))
         else map (\<lambda>m. rescue_attempt s category opPath m (defaultPolicyProvider s))
           (sort (filter (\<lambda>m. satisfies caps m required)
              (first_of_key (\<lambda>m. m) [] (concat (map snd (pc_Profiles (rs_policy s))))))))"

definition applyCapabilityFilter ::
  "capabilityIndex \<Rightarrow> RouterService \<Rightarrow> modelAttempt list \<Rightarrow> string \<Rightarrow> string \<Rightarrow> string list \<Rightarrow> modelAttempt list" where
  "applyCapabilityFilter caps s attempts category opPath required =
     (let capable = filter (\<lambda>a. satisfies caps (ma_Model a) required) attempts
      in if capable \<noteq> [] then capable else capabilityRescue caps s category opPath required)"

section \<open>Holding for a quota reset\<close>

text \<open>The shared state other requests may change while this one sleeps, and the state of a dispatch.
  \<open>ds_sleeps\<close> lists how long the request was parked each time, newest last.\<close>

record shared_state =
  sh_service :: RouterService
  sh_affinity :: affinityStore
  sh_counters :: routerCounters
  sh_admission :: admission_state

record dispatch_state =
  ds_net :: net_world
  ds_admission :: admission_state
  ds_ring :: traceRing
  ds_sleeps :: "duration list"

text \<open>One round of the loop: the readings of the clock, whether the timer ran out before the context was
  done and when the context ended otherwise (\<open>hr_cut\<close>, from the start of the timer), the case
  \<open>reacquire\<close> picks, and what the other requests did meanwhile.\<close>

record hold_round =
  hr_breakers :: "nat \<Rightarrow> go_time"
  hr_rank :: rank_clock
  hr_reset :: go_time
  hr_until :: go_time
  hr_timer :: bool
  hr_cut :: duration
  hr_wake :: wake
  hr_others :: "shared_state \<Rightarrow> shared_state"

record dispatch_env =
  dx_up :: upstream_env
  dx_caps :: capabilityIndex
  dx_reasoning :: "(string, reasoningEffort) gomap"
  dx_effort :: "reasoningEffort option"
  dx_valid :: "string \<Rightarrow> bool"
  dx_errorJSON :: "string \<Rightarrow> string"
  dx_affinityKey :: string
  dx_traceID :: string
  dx_net :: "string \<Rightarrow> modelAttempt \<Rightarrow> net_world \<Rightarrow> exchange"
  dx_wait :: "duration \<Rightarrow> go_time \<Rightarrow> go_time"
  dx_clock :: "net_world \<Rightarrow> go_time"
  dx_rounds :: "nat \<Rightarrow> hold_round"
  dx_refusal :: go_time
  dx_request :: nat
  dx_deadline :: "go_time option"
  dx_start :: go_time
  dx_after :: ctx_state

abbreviation dx_env :: "dispatch_env \<Rightarrow> process_env" where
  "dx_env e \<equiv> ue_env (dx_up e)"

abbreviation on_net :: "(net_world \<Rightarrow> net_world) \<Rightarrow> dispatch_state \<Rightarrow> dispatch_state" where
  "on_net f st \<equiv> st\<lparr>ds_net := f (ds_net st)\<rparr>"

definition shared_of :: "dispatch_state \<Rightarrow> shared_state" where
  "shared_of st = \<lparr>sh_service = w_service (ds_net st), sh_affinity = w_affinity (ds_net st),
     sh_counters = nw_counters (ds_net st), sh_admission = ds_admission st\<rparr>"

definition with_shared :: "shared_state \<Rightarrow> dispatch_state \<Rightarrow> dispatch_state" where
  "with_shared sh st = st\<lparr>ds_net := (ds_net st)\<lparr>w_service := sh_service sh, w_affinity := sh_affinity sh,
     nw_counters := sh_counters sh\<rparr>, ds_admission := sh_admission sh\<rparr>"

text \<open>The answer of a refusal: the trace's outcome and headers, then the error body.\<close>

definition refuse :: "dispatch_env \<Rightarrow> string \<Rightarrow> int \<Rightarrow> string \<Rightarrow> net_world \<Rightarrow> net_world" where
  "refuse e outcome status message w =
     (case failTrace (ue_traceFull (dx_up e)) (ue_traceJSON (dx_up e)) outcome (nw_trace w) (nw_writer w) of
        (trace, writer) \<Rightarrow> w\<lparr>nw_trace := trace, nw_writer := writeJSONError (dx_errorJSON e) status message writer\<rparr>)"

definition set_retry_after :: "int \<Rightarrow> net_world \<Rightarrow> net_world" where
  "set_retry_after secs = on_writer (\<lambda>w. w\<lparr>rw_Header := header_set ''Retry-After'' (itoa secs) (rw_Header w)\<rparr>)"

text \<open>\<open>int(wait.Seconds())\<close> of a positive wait, at least one.\<close>

definition retry_seconds :: "duration \<Rightarrow> int" where
  "retry_seconds wait = max 1 (wait div second)"

text \<open>Whether the deadline leaves room for a hold, and the hold: the timer runs the wait and the settle
  time, and the context may end before it.\<close>

definition deadline_allows :: "go_time option \<Rightarrow> go_time \<Rightarrow> duration \<Rightarrow> bool" where
  "deadline_allows deadline now wait = (case deadline of
     None \<Rightarrow> True
   | Some d \<Rightarrow> \<not> sub_time d now < wrap64 (wrap64 (wait + quotaHoldSettle) + 2 * second))"

definition holdForQuotaReset ::
  "hold_round \<Rightarrow> go_time option \<Rightarrow> duration \<Rightarrow> dispatch_state \<Rightarrow> dispatch_state \<times> bool" where
  "holdForQuotaReset h deadline wait st =
     (if \<not> deadline_allows deadline (hr_until h) wait then (st, False)
      else
        let st = on_net (on_counters (\<lambda>c. c\<lparr>rc_quotaHeld := bump (rc_quotaHeld c)\<rparr>)) st;
            st = with_shared (hr_others h (shared_of st)) st;
            timer = max 0 (wrap64 (wait + quotaHoldSettle));
            parked = (if hr_timer h then timer else max 0 (min (hr_cut h) timer))
        in (st\<lparr>ds_sleeps := ds_sleeps st @ [parked]\<rparr>, hr_timer h))"

text \<open>Taking the slot again. A \<open>select\<close> whose case is not ready goes on waiting and ends with the timer.\<close>

definition reacquire_slot :: "wake \<Rightarrow> nat \<Rightarrow> admission_state \<Rightarrow> admission_state \<times> bool" where
  "reacquire_slot wk r a = (case hold_reacquire wk r a of Some res \<Rightarrow> res | None \<Rightarrow> (a, False))"

datatype hold_outcome = NotHeld | NoCapacity | Held duration

definition try_hold ::
  "dispatch_env \<Rightarrow> rank_env \<Rightarrow> hold_round \<Rightarrow> go_time option \<Rightarrow> string \<Rightarrow> QuotaEstimate \<Rightarrow> modelAttempt list \<Rightarrow> duration \<Rightarrow>
   dispatch_state \<Rightarrow> dispatch_state \<times> hold_outcome" where
  "try_hold e r h deadline key quota fit budget st =
     (if fit = [] then (st, NotHeld)
      else case quotaRetryAfterForAttempts r key quota (hr_reset h) fit (w_service (ds_net st)) of
        (s, holdWait) \<Rightarrow>
          let st = on_net (\<lambda>w. w\<lparr>w_service := s\<rparr>) st
          in if \<not> (0 < holdWait \<and> holdWait \<le> budget) then (st, NotHeld)
             else case holdForQuotaReset h deadline holdWait (st\<lparr>ds_admission := hold_release (dx_request e) (ds_admission st)\<rparr>) of
                 (st, False) \<Rightarrow> (st, NotHeld)
               | (st, True) \<Rightarrow> (case reacquire_slot (hr_wake h) (dx_request e) (ds_admission st) of
                   (a, True) \<Rightarrow> (st\<lparr>ds_admission := a\<rparr>, Held holdWait)
                 | (a, False) \<Rightarrow>
                     (on_net (\<lambda>w. refuse e outcomeAdmissionAfterHold 503
                        ''Server at capacity (PROXY_MAX_CONCURRENT) after waiting for quota. Retry shortly.''
                        (set_retry_after (retryAfterSeconds (as_ctrl a))
                          (on_counters (\<lambda>c. c\<lparr>rc_admissionRejected := bump (rc_admissionRejected c)\<rparr>) w)))
                        (st\<lparr>ds_admission := a\<rparr>), NoCapacity)))"

lemma try_hold_held:
  assumes "try_hold e r h deadline key quota fit budget st = (st', Held d)"
  shows "0 < d" "d \<le> budget" "fit \<noteq> []"
  using assms by (auto simp: try_hold_def Let_def split: if_splits prod.splits bool.splits)

section \<open>The hold loop\<close>

definition rank_env_of :: "dispatch_env \<Rightarrow> net_world \<Rightarrow> rank_env" where
  "rank_env_of e w = \<lparr>re_quota = ue_quota (dx_up e), re_credentials = ue_credentials (dx_up e), re_affinityKey = dx_affinityKey e,
     re_latency = (\<lambda>k. map_option (\<lambda>st. (fs_sumNanos st, fs_count st)) (m_get (rc_firstTokenStats (nw_counters w)) k))\<rparr>"

text \<open>The scores \<open>quotaRankAndReserve\<close> leaves in the trace.\<close>

definition trace_scores :: "dispatch_env \<Rightarrow> rank_clock \<Rightarrow> modelAttempt list \<Rightarrow> net_world \<Rightarrow> net_world" where
  "trace_scores e c attempts w =
     (if attempts = [] then w
      else
        let s = w_service w; env = dx_env e;
            base = snd (applySessionAffinity (rk_affinity c) (dx_affinityKey e) (w_affinity w)
              (rankAttemptsByScore env (rk_score c) s attempts))
        in on_trace (recordScores (map ma_Model base)
             (map (\<lambda>a. scoreForAttempt s a (scoreEnv_of env (rk_score c) s)) base)) w)"

definition rank_round ::
  "dispatch_env \<Rightarrow> hold_round \<Rightarrow> string \<Rightarrow> QuotaEstimate \<Rightarrow> modelAttempt list \<Rightarrow> net_world \<Rightarrow> net_world \<times> modelAttempt list" where
  "rank_round e h key quota fit w =
     (case quotaRankAndReserve (rank_env_of e w) (hr_rank h) key quota fit (w_affinity w) (w_service w) of
        (aff, s, ranked) \<Rightarrow>
          (on_trace (recordQuotaExclusions (int (length fit) - int (length ranked)))
             ((trace_scores e (hr_rank h) fit w)\<lparr>w_affinity := aff, w_service := s\<rparr>), ranked))"

text \<open>Nothing can run: the soonest reset, and a reason.\<close>

definition refuse_cooling :: "dispatch_env \<Rightarrow> string \<Rightarrow> QuotaEstimate \<Rightarrow> modelAttempt list \<Rightarrow> net_world \<Rightarrow> net_world" where
  "refuse_cooling e key quota attempts w =
     (let now = dx_refusal e; breakerWait = retryAfterForAttempts now (w_service w) attempts
      in case quotaRetryAfterForAttempts (rank_env_of e w) key quota now attempts (w_service w) of (s, quotaWait) \<Rightarrow>
           let wait = (if breakerWait \<le> 0 \<or> (quotaWait > 0 \<and> quotaWait < breakerWait) then quotaWait else breakerWait);
               w = on_counters (\<lambda>c. c\<lparr>rc_allModelsCooling := bump (rc_allModelsCooling c)\<rparr>) (w\<lparr>w_service := s\<rparr>);
               w = (if wait > 0 then set_retry_after (retry_seconds wait) w else w);
               quotaMessage = dailyFreeQuotaReasonForAttempts now (w_service w) attempts;
               message = (if quotaMessage \<noteq> [] then quotaMessage
                 else if quotaWait > 0
                 then ''All configured model providers are temporarily rate-limited for this request size. Retrying after the earliest quota reset; your request was not sent upstream. Compact the conversation or start a new session if this repeats.''
                 else ''All models are temporarily rate-limited or unhealthy. Cooling down before retry.'')
           in refuse e outcomeAllCooling 503 message w)"

lemma wrap64_diff_wrap64: "wrap64 (b - wrap64 x) = wrap64 (b - x)"
proof -
  have "b - wrap64 x + 9223372036854775808 = b + 18446744073709551616 - (x + 9223372036854775808) mod 18446744073709551616"
    by (simp add: wrap64_def)
  then show ?thesis
    unfolding wrap64_def [of "b - wrap64 x"] wrap64_def [of "b - x"] by (simp only: mod_diff_right_eq) (simp add: algebra_simps)
qed

lemma wrap64_budget:
  assumes "0 < d" "d \<le> budget"
  shows "wrap64 (budget - wrap64 (d + quotaHoldSettle)) < budget"
    and "budget \<le> max_int64 \<Longrightarrow> wrap64 (budget - wrap64 (d + quotaHoldSettle)) = budget - (d + quotaHoldSettle)"
proof -
  note mod = wrap64_diff_wrap64 [of budget "d + quotaHoldSettle"]
  show exact: "budget \<le> max_int64 \<Longrightarrow> wrap64 (budget - wrap64 (d + quotaHoldSettle)) = budget - (d + quotaHoldSettle)"
    unfolding mod using assms
    by (intro wrap64_id) (simp add: int64_ok_def min_int64_def max_int64_def quotaHoldSettle_def)
  show "wrap64 (budget - wrap64 (d + quotaHoldSettle)) < budget"
  proof (cases "budget \<le> max_int64")
    case True
    with assms show ?thesis unfolding exact [OF True] by (simp add: quotaHoldSettle_def)
  next
    case False
    then show ?thesis using wrap64_le [of "budget - wrap64 (d + quotaHoldSettle)"] by linarith
  qed
qed

lemma held_decreases:
  assumes "(st', oc) = try_hold e r h deadline key quota fit budget st" "oc = Held d"
  shows "wrap64 (budget - wrap64 (d + quotaHoldSettle)) < budget \<and> 0 < budget"
  using try_hold_held [of e r h deadline key quota fit budget st st' d] assms wrap64_budget(1) by fastforce

text \<open>The attempts whose circuit and context window allow the request, and whether the window excludes every
  attempt whose circuit does.\<close>

definition round_fit ::
  "dispatch_env \<Rightarrow> nat \<Rightarrow> QuotaEstimate \<Rightarrow> modelAttempt list \<Rightarrow> RouterService \<Rightarrow> modelAttempt list \<times> bool" where
  "round_fit e n contextEst attempts s =
     (let available = filterAvailableAttempts (hr_breakers (dx_rounds e n)) s attempts;
          (fit, excluded) = filterContextFit s available contextEst
      in (fit, available \<noteq> [] \<and> fit = [] \<and> excluded = length available))"

text \<open>Rank the chain; when quota alone empties it, sleep until the soonest reset and try again, within the
  budget. The result is the ranked chain, or nothing when the request has been answered.\<close>

function hold_loop ::
  "dispatch_env \<Rightarrow> go_time option \<Rightarrow> string \<Rightarrow> QuotaEstimate \<Rightarrow> QuotaEstimate \<Rightarrow> modelAttempt list \<Rightarrow> nat \<Rightarrow> duration \<Rightarrow>
   dispatch_state \<Rightarrow> dispatch_state \<times> modelAttempt list option" where
  "hold_loop e deadline key quota contextEst attempts n budget st =
     (case round_fit e n contextEst attempts (w_service (ds_net st)) of (fit, tooLong) \<Rightarrow>
        if tooLong
        then (on_net (refuse e outcomeAllCooling 422
                ''Request context exceeds every eligible model's safe window. Compact the conversation or start a new session.'') st,
              None)
        else (case rank_round e (dx_rounds e n) key quota fit (ds_net st) of (w, ranked) \<Rightarrow>
          if ranked \<noteq> [] then (st\<lparr>ds_net := w\<rparr>, Some ranked)
          else (case try_hold e (rank_env_of e w) (dx_rounds e n) deadline key quota fit budget (st\<lparr>ds_net := w\<rparr>) of (st, held) \<Rightarrow>
            (case held of
               Held d \<Rightarrow>
                 hold_loop e deadline key quota contextEst attempts (Suc n) (wrap64 (budget - wrap64 (d + quotaHoldSettle))) st
             | NoCapacity \<Rightarrow> (st, None)
             | NotHeld \<Rightarrow> (on_net (refuse_cooling e key quota attempts) st, None)))))"
  by pat_completeness auto

termination hold_loop
  apply (relation "measure (\<lambda>(e, deadline, key, quota, contextEst, attempts, n, budget, st). nat budget)")
   apply simp
  apply (drule (1) held_decreases)
  apply simp
  done

declare hold_loop.simps [simp del]

section \<open>Dispatching the chain\<close>

definition dispatch_deadline :: "dispatch_env \<Rightarrow> RouterService \<Rightarrow> bool \<Rightarrow> go_time option" where
  "dispatch_deadline e s stream =
     (let total = bc_TotalTimeout (rs_config s)
      in if stream \<or> total \<le> 0 then dx_deadline e
         else let own = add_dur (dx_start e) total
              in Some (case dx_deadline e of Some d \<Rightarrow> if before d own then d else own | None \<Rightarrow> own))"

definition on_path :: "string \<Rightarrow> modelAttempt list \<Rightarrow> modelAttempt list" where
  "on_path opPath attempts = (if opPath = [] then attempts else map (\<lambda>a. a\<lparr>ma_Path := opPath\<rparr>) attempts)"

text \<open>The configured and capable attempts of a request.\<close>

definition candidates ::
  "dispatch_env \<Rightarrow> RouterService \<Rightarrow> modelAttempt list \<Rightarrow> string \<Rightarrow> string \<Rightarrow> string \<Rightarrow> string list \<Rightarrow> modelAttempt list" where
  "candidates e s planned key category opPath required =
     (let c = ue_credentials (dx_up e);
          attempts = filterConfiguredAttempts c s (on_path opPath planned) key opPath
      in if required = [] then attempts
         else filterConfiguredAttempts c s (applyCapabilityFilter (dx_caps e) s attempts category opPath required) key opPath)"

definition incapable_pin :: "dispatch_env \<Rightarrow> string \<Rightarrow> string list \<Rightarrow> bool" where
  "incapable_pin e requestedModel required \<longleftrightarrow>
     required \<noteq> [] \<and> requestedModel \<noteq> [] \<and> \<not> equal_fold (trim_space requestedModel) ''auto'' \<and>
     \<not> satisfies (dx_caps e) requestedModel required"

text \<open>The end of a chain that failed.\<close>

definition chain_failed :: "dispatch_env \<Rightarrow> chainError \<Rightarrow> net_world \<Rightarrow> net_world" where
  "chain_failed e err w =
     (let w = on_counters (recordChainFailure (classifyChainFailure (dx_after e) (Inr err))) w;
          (statusCode, message) = fallbackErrorResponse (Some err);
          wait = fallbackRetryAfter err;
          w = (if wait > 0 then set_retry_after (retry_seconds wait) w else w)
      in refuse e outcomeChainFailed statusCode message w)"

definition attempt_timeout :: "RouterService \<Rightarrow> routeDecision \<Rightarrow> string \<Rightarrow> duration" where
  "attempt_timeout s decision category =
     (let perAttempt = bc_RequestTimeout (rs_config s);
          perAttempt = (if 0 < pd_Timeout decision \<and> pd_Timeout decision < perAttempt then pd_Timeout decision else perAttempt)
      in attemptTimeoutForProfile s category perAttempt)"

definition dispatch_execution ::
  "dispatch_env \<Rightarrow> RouterService \<Rightarrow> routeDecision \<Rightarrow> body \<Rightarrow> string \<Rightarrow> string \<Rightarrow> bool \<Rightarrow> net_world FallbackExecution" where
  "dispatch_execution e s decision reqBody key category stream =
     \<lparr>fe_RequestBody = reqBody, fe_APIKey = key, fe_RetryPolicy = pd_RetryPolicy decision, fe_Stream = stream,
      fe_PerAttemptTimeout = attempt_timeout s decision category, fe_ReserveQuota = None,
      fe_BuildRequestBody = Some (requestBodyForAttempt (dx_env e) (dx_reasoning e) (dx_effort e) (Some (dx_caps e))),
      fe_OnSuccess = None, fe_OnFailure = None\<rparr>"

definition truncate_chain :: "RetryPolicy \<Rightarrow> modelAttempt list \<Rightarrow> modelAttempt list" where
  "truncate_chain policy ranked =
     (if rp_MaxAttempts policy > 0 \<and> int (length ranked) > rp_MaxAttempts policy
      then take (nat (rp_MaxAttempts policy)) ranked else ranked)"

text \<open>The ranked chain runs; the deferred release of the primary's ticket comes last. Its clock reading is
  that of the \<open>defer\<close> statement.\<close>

definition run_ranked ::
  "dispatch_env \<Rightarrow> routeDecision \<Rightarrow> body \<Rightarrow> string \<Rightarrow> string \<Rightarrow> bool \<Rightarrow> string list \<Rightarrow> nat \<Rightarrow> nat \<Rightarrow> modelAttempt list \<Rightarrow>
   net_world \<Rightarrow> net_world" where
  "run_ranked e decision reqBody key category stream required planned afterCaps ranked w =
     (let ticket = ma_QuotaTicket (hd ranked); deferredAt = dx_clock e w;
          chain = truncate_chain (pd_RetryPolicy decision) ranked;
          w = on_trace (recordChain (int planned) (int afterCaps) (int (length chain)) required) w;
          (w, err) = executeFallbacks (dx_up e) (dx_net e) (dx_wait e) (dx_clock e) (dx_affinityKey e)
            (dispatch_execution e (w_service w) decision reqBody key category stream) chain w;
          w = (case err of None \<Rightarrow> w | Some err \<Rightarrow> chain_failed e err w)
      in if Valid ticket
         then on_service (\<lambda>s. s\<lparr>rs_quota := fst (Release (rs_quota s) ticket deferredAt)\<rparr>) w else w)"

definition dispatch_body ::
  "dispatch_env \<Rightarrow> routeDecision \<Rightarrow> body \<Rightarrow> string \<Rightarrow> string \<Rightarrow> string \<Rightarrow> bool \<Rightarrow> string \<Rightarrow> string list \<Rightarrow>
   dispatch_state \<Rightarrow> dispatch_state" where
  "dispatch_body e decision reqBody key category requestedModel stream opPath required st =
     (let s = w_service (ds_net st); refused = on_counters (\<lambda>c. c\<lparr>rc_capabilityRefused := bump (rc_capabilityRefused c)\<rparr>)
      in if incapable_pin e requestedModel required
         then on_net (\<lambda>w. refuse e outcomeCapsPinned 422
                (''requested model '' @ requestedModel @ '' does not support '' @ join ''+'' required) (refused w)) st
         else
           let planned = planModelAttempts s decision category requestedModel;
               attempts = candidates e s planned key category opPath required
           in if required \<noteq> [] \<and> attempts = []
              then on_net (\<lambda>w. refuse e outcomeCapsNone 503
                     (''No available model supports '' @ join ''+'' required @ '' for this request.'') (refused w)) st
              else
                let (compressed, cstat) = compressRequest (dx_env e) (dx_valid e) reqBody;
                    reqBody = (if cs_SavedBytes cstat > 0 then compressed else reqBody);
                    st = on_net (on_trace (recordCompression cstat)) st;
                    marshal = ue_marshal (dx_up e)
                in case hold_loop e (dispatch_deadline e s stream) key (estimateRequestQuota (dx_env e) marshal reqBody)
                          (estimateRequestContext (dx_env e) marshal reqBody) attempts 0 (quotaHoldBudget (dx_env e)) st of
                     (st, None) \<Rightarrow> st
                   | (st, Some ranked) \<Rightarrow>
                       on_net (run_ranked e decision reqBody key category stream required (length planned) (length attempts)
                         ranked) st)"

definition dispatchChain ::
  "dispatch_env \<Rightarrow> routeDecision \<Rightarrow> body \<Rightarrow> string \<Rightarrow> string \<Rightarrow> string \<Rightarrow> bool \<Rightarrow> string \<Rightarrow> string list \<Rightarrow>
   dispatch_state \<Rightarrow> dispatch_state" where
  "dispatchChain e decision reqBody key category requestedModel stream opPath required st =
     (let trace = map_option (recordPolicy (pd_RuleID decision) (pd_Reason decision) requestedModel (pd_PolicySteps decision))
            (newRouteTrace (dx_env e) (dx_traceID e) category);
          st = dispatch_body e decision reqBody key category requestedModel stream opPath required
            (on_net (\<lambda>w. w\<lparr>nw_trace := trace\<rparr>) st)
      in st\<lparr>ds_ring := finishTrace (nw_trace (ds_net st)) (ds_ring st)\<rparr>)"

section \<open>The entry point\<close>

text \<open>\<open>http.Error\<close>.\<close>

definition http_error :: "int \<Rightarrow> string \<Rightarrow> responseWriter \<Rightarrow> responseWriter" where
  "http_error code message w =
     Write (message @ [CHR 0x0A]) (WriteHeader code
       (w\<lparr>rw_Header := header_set ''X-Content-Type-Options'' ''nosniff''
          (header_set ''Content-Type'' ''text/plain; charset=utf-8'' (m_del ''Content-Length'' (rw_Header w)))\<rparr>))"

text \<open>Both tunnels, over the exchange they make.\<close>

definition tunnel :: "dispatch_env \<Rightarrow> string \<Rightarrow> string \<Rightarrow> string \<Rightarrow> exchange \<Rightarrow> responseWriter \<Rightarrow> responseWriter" where
  "tunnel e url body key x w = (case newUpstreamRequest (ue_badURL (dx_up e)) ''POST'' url body key of
     Inl err \<Rightarrow> writeJSONError (dx_errorJSON e) 502 (te_text err) w
   | Inr _ \<Rightarrow> (case xc_result x of
       Inl err \<Rightarrow> writeJSONError (dx_errorJSON e) 502 (te_text err) w
     | Inr resp \<Rightarrow> (let w = streamProxyResponse resp w in w\<lparr>rw_Body := rw_Body w @ fst (copied x)\<rparr>)))"

definition tunnelToOpenRouterMessages where
  "tunnelToOpenRouterMessages e body key x w = tunnel e (openRouterMessagesURL (dx_env e)) body key x w"

definition tunnelToOpenRouterEmbeddings where
  "tunnelToOpenRouterEmbeddings e body key x w = tunnel e ''https://openrouter.ai/api/v1/embeddings'' body key x w"

record client_request =
  cq_Path :: string
  cq_header :: "string \<Rightarrow> string"
  cq_query :: "string \<Rightarrow> string"
  cq_forced :: string
  cq_bytes :: string
  cq_readErr :: bool
  cq_facts :: adapterFacts

record route_env =
  ro_dispatch :: dispatch_env
  ro_policy :: policyState
  ro_ParseFloat :: "string \<Rightarrow> real option"
  ro_cancelled :: "string option"
  ro_guard :: guard_text
  ro_Unmarshal :: "string \<Rightarrow> body option"
  ro_mac :: "string \<Rightarrow> string \<Rightarrow> string"
  ro_quote :: "string \<Rightarrow> string"
  ro_now :: go_time
  ro_clock :: "nat \<Rightarrow> go_time"
  ro_wake :: wake
  ro_tunnel :: exchange

definition authorize ::
  "route_env \<Rightarrow> client_request \<Rightarrow> string \<Rightarrow> bool \<Rightarrow> policyRequestFacts option \<Rightarrow> dispatch_state \<Rightarrow>
   dispatch_state \<times> routeDecision \<times> bool" where
  "authorize ro r operation stream facts st =
     (let s = w_service (ds_net st)
      in case authorizeOperationalRoute
           \<lparr>pe_env = dx_env (ro_dispatch ro), pe_ParseFloat = ro_ParseFloat ro, pe_errorJSON = dx_errorJSON (ro_dispatch ro),
            pe_cancelled = ro_cancelled ro\<rparr> (ro_policy ro) s (healthFacts (ro_now ro) (ro_clock ro) s) (cq_facts r)
           \<lparr>rf_ID = [], rf_User = [], rf_Channel = [], rf_Risk = [], rf_OperationHint = operation,
            rf_Metadata = (case facts of Some p \<Rightarrow> pf_Metadata p | None \<Rightarrow> []), rf_Stream = stream\<rparr>
           (length (cq_bytes r)) (map_option pf_RequestedLimits facts) (nw_writer (ds_net st)) of
         (w, decision, ok) \<Rightarrow> (on_net (on_writer (\<lambda>_. w)) st, decision, ok))"

text \<open>What chat and messages share, after their body has been decoded.\<close>

definition route_body ::
  "route_env \<Rightarrow> dispatch_env \<Rightarrow> client_request \<Rightarrow> string \<Rightarrow> (body \<Rightarrow> body) \<Rightarrow> string \<Rightarrow> body \<Rightarrow> dispatch_state \<Rightarrow> dispatch_state" where
  "route_body ro e r key inject opPath reqBody st =
     (let s = w_service (ds_net st);
          messagesRaw = (case as_array (m_get reqBody ''messages'') of Some ms \<Rightarrow> ms | None \<Rightarrow> []);
          hasTools = hasRequestTools reqBody; hasImages = hasImageContent messagesRaw;
          category = determineProfile (dx_caps e) s
            \<lparr>pq_forced = cq_forced r, pq_query = cq_query r, pq_header = cq_header r\<rparr> messagesRaw hasTools;
          requestedModel = string_or_empty (m_get reqBody ''model'');
          ((c, w), rejected) = rejectUnknownProfile (ro_quote ro) (dx_errorJSON e) (dx_env e) s requestedModel
            (nw_counters (ds_net st), nw_writer (ds_net st));
          st = on_net (\<lambda>n. n\<lparr>nw_counters := c, nw_writer := w\<rparr>) st
      in if rejected then st
         else
           let (category, requestedModel) = resolveModelAlias (rs_policy s) category requestedModel;
               stream = (m_get reqBody ''stream'' = Some (JBool True));
               facts = requestPolicyFacts reqBody category requestedModel stream hasTools hasImages (int (length (cq_bytes r)))
           in case authorize ro r capChatCompletion stream (Some facts) st of
                (st, decision, ok) \<Rightarrow>
                  if \<not> ok then st
                  else dispatchChain e decision (inject reqBody) key category requestedModel stream opPath
                         (capsRequired hasImages hasTools) st)"

definition route_embeddings ::
  "route_env \<Rightarrow> dispatch_env \<Rightarrow> client_request \<Rightarrow> string \<Rightarrow> dispatch_state \<Rightarrow> dispatch_state" where
  "route_embeddings ro e r key st =
     (if \<not> envBool (dx_env e) ''PROXY_ALLOW_PAID_EMBEDDINGS'' False
      then on_net (\<lambda>w. on_writer (writeJSONError (dx_errorJSON e) 402
             ''/v1/embeddings is disabled: OpenRouter has no free embedding model, so this endpoint spends real credit and is not covered by the model chain, breaker or fallback. Set PROXY_ALLOW_PAID_EMBEDDINGS=true to allow it.'')
             (on_counters (\<lambda>c. c\<lparr>rc_paidEmbeddingRefused := bump (rc_paidEmbeddingRefused c)\<rparr>) w)) st
      else case authorize ro r capEmbedding False None st of
             (st, decision, ok) \<Rightarrow>
               if \<not> ok then st
               else on_net (on_writer (tunnelToOpenRouterEmbeddings e (cq_bytes r) key (ro_tunnel ro))) st)"

definition route_messages ::
  "route_env \<Rightarrow> dispatch_env \<Rightarrow> client_request \<Rightarrow> string \<Rightarrow> dispatch_state \<Rightarrow> dispatch_state" where
  "route_messages ro e r key st = (case ro_Unmarshal ro (cq_bytes r) of
     None \<Rightarrow> (case authorize ro r capChatCompletion False None st of
         (st, decision, ok) \<Rightarrow>
           if \<not> ok then st else on_net (on_writer (tunnelToOpenRouterMessages e (cq_bytes r) key (ro_tunnel ro))) st)
   | Some msgBody \<Rightarrow> route_body ro e r key (injectLocalAgentGuardrailForMessages (ro_guard ro)) messagesPath msgBody st)"

definition route_chat ::
  "route_env \<Rightarrow> dispatch_env \<Rightarrow> client_request \<Rightarrow> string \<Rightarrow> dispatch_state \<Rightarrow> dispatch_state" where
  "route_chat ro e r key st = (case ro_Unmarshal ro (cq_bytes r) of
     None \<Rightarrow> on_net (on_writer (http_error 400 ''Invalid JSON'')) st
   | Some reqBody \<Rightarrow>
       route_body ro e r key (injectLocalAgentGuardrail (ro_guard ro)) []
         (clampRequestMaxTokens (envInt (dx_env e) ''PROXY_MAX_COMPLETION_TOKENS'' 0) reqBody) st)"

definition headerReasoning :: string where "headerReasoning = ''X-Cervo-Reasoning''"

text \<open>The context of a request: its affinity key and reasoning effort.\<close>

definition request_env :: "route_env \<Rightarrow> client_request \<Rightarrow> string \<Rightarrow> affinityStore \<Rightarrow> dispatch_env" where
  "request_env ro r key aff = (ro_dispatch ro)\<lparr>
     dx_affinityKey := keyForRequest (ro_mac ro) aff (cq_header r) key,
     dx_effort := requestReasoningEffort (cq_header r headerReasoning) (cq_query r ''reasoning'')\<rparr>"

definition read_and_route ::
  "route_env \<Rightarrow> dispatch_env \<Rightarrow> client_request \<Rightarrow> string \<Rightarrow> dispatch_state \<Rightarrow> dispatch_state" where
  "read_and_route ro e r key st =
     (if cq_readErr r \<or> int (length (cq_bytes r)) > maxRequestBodyBytes (dx_env e)
      then on_net (on_writer (http_error 413 ''Request body too large or unreadable'')) st
      else if contains (cq_Path r) ''embeddings'' then route_embeddings ro e r key st
      else if contains (cq_Path r) ''messages'' then route_messages ro e r key st
      else route_chat ro e r key st)"

definition RouteRequestWithProvider :: "route_env \<Rightarrow> client_request \<Rightarrow> string \<Rightarrow> dispatch_state \<Rightarrow> dispatch_state" where
  "RouteRequestWithProvider ro r key st =
     (let e = request_env ro r key (w_affinity (ds_net st)); n = dx_request e
      in case hold_acquire (ro_wake ro) n (ds_admission st) of
           Some (a, True) \<Rightarrow>
             (let st = read_and_route ro e r key (st\<lparr>ds_admission := a\<rparr>)
              in st\<lparr>ds_admission := hold_release n (ds_admission st)\<rparr>)
         | _ \<Rightarrow>
             on_net (\<lambda>w. on_writer (writeJSONError (dx_errorJSON e) 503
                    ''Server at capacity (PROXY_MAX_CONCURRENT). Retry shortly.'')
                 (set_retry_after (retryAfterSeconds (as_ctrl (ds_admission st)))
                   (on_counters (\<lambda>c. c\<lparr>rc_admissionRejected := bump (rc_admissionRejected c)\<rparr>) w))) st)"

section \<open>The sleep is bounded\<close>

lemma wrap64_settle: "0 < d \<Longrightarrow> d \<le> max_int64 \<Longrightarrow> max 0 (wrap64 (d + quotaHoldSettle)) \<le> d + quotaHoldSettle"
  using wrap64_add_neg_iff [of d quotaHoldSettle] wrap64_eq_id [of "d + quotaHoldSettle"]
  by (cases "d + quotaHoldSettle \<le> max_int64") (auto simp: quotaHoldSettle_def max_int64_def)

lemma holdForQuotaReset_facts:
  assumes "holdForQuotaReset h deadline d st = (st', held)"
  shows "0 < d \<Longrightarrow> d \<le> max_int64 \<Longrightarrow>
      \<exists>ds. ds_sleeps st' = ds_sleeps st @ ds \<and> length ds \<le> 1 \<and> (\<forall>t\<in>set ds. 0 \<le> t \<and> t \<le> d + quotaHoldSettle)"
    and "nw_writer (ds_net st') = nw_writer (ds_net st)"
  using assms wrap64_settle [of d] by (auto simp: holdForQuotaReset_def with_shared_def Let_def split: if_splits)

lemma try_hold_facts:
  assumes "try_hold e r h deadline key quota fit budget st = (st', oc)" "budget \<le> max_int64"
  shows "ds_sleeps st' = ds_sleeps st \<or>
    (\<exists>d t. 0 < d \<and> d \<le> budget \<and> ds_sleeps st' = ds_sleeps st @ [t] \<and> 0 \<le> t \<and> t \<le> d + quotaHoldSettle \<and> (oc = Held d \<or> (\<forall>x. oc \<noteq> Held x)))"
proof -
  obtain s d where q: "quotaRetryAfterForAttempts r key quota (hr_reset h) fit (w_service (ds_net st)) = (s, d)" by fastforce
  let ?st = "(on_net (\<lambda>w. w\<lparr>w_service := s\<rparr>) st)\<lparr>ds_admission := hold_release (dx_request e) (ds_admission st)\<rparr>"
  obtain st1 held where h: "holdForQuotaReset h deadline d ?st = (st1, held)" by fastforce
  show ?thesis
  proof (cases "fit \<noteq> [] \<and> 0 < d \<and> d \<le> budget")
    case False
    with assms(1) q show ?thesis by (auto simp: try_hold_def Let_def split: if_splits)
  next
    case True
    with holdForQuotaReset_facts(1) [OF h] assms(2) obtain ds where
      ds: "ds_sleeps st1 = ds_sleeps st @ ds" "length ds \<le> 1" "\<forall>t\<in>set ds. 0 \<le> t \<and> t \<le> d + quotaHoldSettle" by auto
    moreover have "ds_sleeps st' = ds_sleeps st1" "oc = Held d \<or> (\<forall>x. oc \<noteq> Held x)"
      using assms(1) q h True by (auto simp: try_hold_def Let_def split: bool.splits prod.splits)
    ultimately show ?thesis using True by (cases ds) auto
  qed
qed

text \<open>A wait of the whole budget is held, and the request is parked for the settle time beyond it.\<close>

lemma hold_exceeds_budget:
  assumes "fit \<noteq> []" "snd (quotaRetryAfterForAttempts r key quota (hr_reset h) fit (w_service (ds_net st))) = budget"
    "0 < budget" "budget + quotaHoldSettle \<le> max_int64" "hr_timer h"
  shows "ds_sleeps (fst (try_hold e r h None key quota fit budget st)) = ds_sleeps st @ [budget + quotaHoldSettle]"
proof -
  have w: "wrap64 (budget + quotaHoldSettle) = budget + quotaHoldSettle" "0 \<le> budget + quotaHoldSettle"
    using assms(3,4) by (auto simp: wrap64_eq_id quotaHoldSettle_def)
  show ?thesis
    using assms w by (auto simp: try_hold_def holdForQuotaReset_def deadline_allows_def with_shared_def Let_def
        split: prod.splits bool.splits)
qed

lemma filterAvailable_subset:
  "set (filterAvailableAttempts clk s as) \<subseteq> set as \<and> length (filterAvailableAttempts clk s as) \<le> length as"
  by (induction clk s as rule: filterAvailableAttempts.induct) (auto simp: Let_def split: if_splits)

lemma round_fit_subset:
  "set (fst (round_fit e n contextEst attempts s)) \<subseteq> set attempts \<and>
   length (fst (round_fit e n contextEst attempts s)) \<le> length attempts"
  using filterAvailable_subset [of "hr_breakers (dx_rounds e n)" s attempts] le_trans [OF length_filter_le]
  by (auto simp: round_fit_def filterContextFit_def Let_def)

text \<open>The contract of the hold loop: \<open>I\<close> holds before a round, \<open>J\<close> after a ranking that came back empty, \<open>Q\<close> of
  the outcome.\<close>

locale hold_contract =
  fixes e :: dispatch_env and deadline :: "go_time option" and key :: string and quota contextEst :: QuotaEstimate
    and attempts :: "modelAttempt list" and I J :: "duration \<Rightarrow> dispatch_state \<Rightarrow> bool"
    and Q :: "dispatch_state \<Rightarrow> modelAttempt list option \<Rightarrow> bool"
  assumes too_long: "I b st \<Longrightarrow> Q (on_net (refuse e outcomeAllCooling 422 m) st) None"
    and ranked: "I b st \<Longrightarrow> rank_round e (dx_rounds e n) key quota fit (ds_net st) = (w, chain) \<Longrightarrow> set fit \<subseteq> set attempts \<Longrightarrow>
      length fit \<le> length attempts \<Longrightarrow> chain \<noteq> [] \<Longrightarrow> Q (st\<lparr>ds_net := w\<rparr>) (Some chain)"
    and blocked: "I b st \<Longrightarrow> rank_round e (dx_rounds e n) key quota fit (ds_net st) = (w, []) \<Longrightarrow> J b (st\<lparr>ds_net := w\<rparr>)"
    and held: "J b st \<Longrightarrow> try_hold e r (dx_rounds e n) deadline key quota fit b st = (st', Held d) \<Longrightarrow>
      I (wrap64 (b - wrap64 (d + quotaHoldSettle))) st'"
    and no_capacity: "J b st \<Longrightarrow> try_hold e r (dx_rounds e n) deadline key quota fit b st = (st', NoCapacity) \<Longrightarrow> Q st' None"
    and not_held: "J b st \<Longrightarrow> try_hold e r (dx_rounds e n) deadline key quota fit b st = (st', NotHeld) \<Longrightarrow>
      Q (on_net (refuse_cooling e key quota attempts) st') None"
begin

lemma hold_loop_holds:
  assumes "I b st"
  shows "case_prod Q (hold_loop e deadline key quota contextEst attempts n b st)"
  using assms
proof (induction "nat b" arbitrary: n b st rule: less_induct)
  case less
  obtain fit tooLong where rf: "round_fit e n contextEst attempts (w_service (ds_net st)) = (fit, tooLong)" by fastforce
  then have sub: "set fit \<subseteq> set attempts" "length fit \<le> length attempts"
    using round_fit_subset [of e n contextEst attempts "w_service (ds_net st)"] by simp_all
  obtain w chain where rr: "rank_round e (dx_rounds e n) key quota fit (ds_net st) = (w, chain)" by fastforce
  obtain st2 oc where th:
    "try_hold e (rank_env_of e w) (dx_rounds e n) deadline key quota fit b (st\<lparr>ds_net := w\<rparr>) = (st2, oc)" by fastforce
  have rest: "case_prod Q (case oc of
      Held d \<Rightarrow> hold_loop e deadline key quota contextEst attempts (Suc n) (wrap64 (b - wrap64 (d + quotaHoldSettle))) st2
    | NoCapacity \<Rightarrow> (st2, None)
    | NotHeld \<Rightarrow> (on_net (refuse_cooling e key quota attempts) st2, None))" if "chain = []"
  proof -
    have J: "J b (st\<lparr>ds_net := w\<rparr>)" using blocked less.prems rr that by blast
    show ?thesis
    proof (cases oc)
      case (Held d)
      have "nat (wrap64 (b - wrap64 (d + quotaHoldSettle))) < nat b"
        using held_decreases [OF th [symmetric] Held] by simp
      with less.hyps held [OF J th [unfolded Held]] Held show ?thesis by simp
    qed (use no_capacity not_held J th in auto)
  qed
  show ?case
    unfolding hold_loop.simps [of e deadline key quota contextEst attempts n b st] rf rr th prod.case
    using too_long [OF less.prems] ranked [OF less.prems rr sub] rest by simp
qed

end

text \<open>The request has been parked for no more than the budget used up; and in the end for no more than the
  budget and one settle time.\<close>

definition slept :: "duration list \<Rightarrow> duration \<Rightarrow> duration \<Rightarrow> dispatch_state \<Rightarrow> bool" where
  "slept old total0 b st \<longleftrightarrow> b \<le> max_int64 \<and>
     (\<exists>ds. ds_sleeps st = old @ ds \<and> (\<forall>d\<in>set ds. 0 \<le> d) \<and> sum_list ds \<le> total0 - b \<and>
       (if ds = [] then b \<le> total0 else 0 < total0 \<and> - quotaHoldSettle \<le> b))"

definition slept_within :: "duration list \<Rightarrow> duration \<Rightarrow> dispatch_state \<Rightarrow> bool" where
  "slept_within old total0 st \<longleftrightarrow>
     (\<exists>ds. ds_sleeps st = old @ ds \<and> (\<forall>d\<in>set ds. 0 \<le> d) \<and>
       (ds \<noteq> [] \<longrightarrow> 0 < total0 \<and> sum_list ds \<le> total0 + quotaHoldSettle))"

lemma slept_frame [simp]:
  "slept old total0 b (st\<lparr>ds_net := w\<rparr>) = slept old total0 b st"
  "slept_within old total0 (st\<lparr>ds_net := w\<rparr>) = slept_within old total0 st"
  by (simp_all add: slept_def slept_within_def)

lemma slept_within: "slept old total0 b st \<Longrightarrow> slept_within old total0 st"
  by (fastforce simp: slept_def slept_within_def split: if_splits)

lemma slept_step:
  assumes "slept old total0 b st" "0 < d" "d \<le> b" "ds_sleeps st' = ds_sleeps st @ [t]" "0 \<le> t" "t \<le> d + quotaHoldSettle"
  shows "slept old total0 (wrap64 (b - wrap64 (d + quotaHoldSettle))) st'"
proof -
  from assms(1) obtain ds where ds: "b \<le> max_int64" "ds_sleeps st = old @ ds" "\<forall>d\<in>set ds. 0 \<le> d"
    "sum_list ds \<le> total0 - b" by (auto simp: slept_def)
  have "0 \<le> sum_list ds" using ds(3) by (intro sum_list_nonneg) auto
  then show ?thesis unfolding slept_def wrap64_budget(2) [OF assms(2,3) ds(1)]
    using ds assms(2-6) by (intro conjI exI [of _ "ds @ [t]"]) (auto simp: quotaHoldSettle_def)
qed

lemma slept_held:
  assumes "slept old total0 b st" "try_hold e r h deadline key quota fit b st = (st', oc)"
  shows "oc = Held d \<Longrightarrow> slept old total0 (wrap64 (b - wrap64 (d + quotaHoldSettle))) st'" "slept_within old total0 st'"
proof -
  have b: "b \<le> max_int64" using assms(1) by (simp add: slept_def)
  show "slept_within old total0 st'"
    using try_hold_facts [OF assms(2) b] slept_step [OF assms(1), THEN slept_within] slept_within [OF assms(1)]
    by (auto simp: slept_within_def)
  assume oc: "oc = Held d"
  with assms(2) have grew: "ds_sleeps st' \<noteq> ds_sleeps st"
    by (auto simp: try_hold_def holdForQuotaReset_def with_shared_def Let_def split: if_splits prod.splits bool.splits)
  with try_hold_facts [OF assms(2) b] oc slept_step [OF assms(1)]
  show "slept old total0 (wrap64 (b - wrap64 (d + quotaHoldSettle))) st'" by auto
qed

lemma rank_round_frame: "rank_round e h key quota fit w = (w', chain) \<Longrightarrow> nw_writer w' = nw_writer w"
  by (auto simp: rank_round_def trace_scores_def Let_def split: prod.splits)

interpretation sleeps: hold_contract e deadline key quota contextEst attempts "slept old total0" "slept old total0"
  "\<lambda>st r. slept_within old total0 st" for e deadline key quota contextEst attempts old total0
  by unfold_locales (auto dest: slept_within slept_held)

section \<open>Every request is answered\<close>

text \<open>The response before and after: nothing sent, and exactly one answer given.\<close>

abbreviation pending :: "dispatch_state \<Rightarrow> bool" where
  "pending st \<equiv> unsent (ds_net st)"

definition answered :: "dispatch_state \<Rightarrow> bool" where
  "answered st \<longleftrightarrow> (\<exists>code. one_answer code (nw_writer (ds_net st)))"

lemma answered_if: "(c \<Longrightarrow> answered x) \<Longrightarrow> (\<not> c \<Longrightarrow> answered y) \<Longrightarrow> answered (if c then x else y)"
  by simp

lemma answered_pair: "(\<And>a b. answered (f a b)) \<Longrightarrow> answered (case p of (a, b) \<Rightarrow> f a b)"
  by (cases p) simp

lemma answered_option: "answered x \<Longrightarrow> (\<And>v. answered (f v)) \<Longrightarrow> answered (case m of None \<Rightarrow> x | Some v \<Rightarrow> f v)"
  by (cases m) simp_all

lemmas answered_intros = answered_if answered_pair answered_option

lemma unsent_cong: "nw_writer w' = nw_writer w \<Longrightarrow> unsent w' = unsent w"
  by (simp add: unsent_def)

lemma failTrace_status:
  "failTrace full marshal oc t w = (t', w') \<Longrightarrow> rw_Status w' = rw_Status w \<and> rw_Body w' = rw_Body w \<and> rw_Heads w' = rw_Heads w"
  by (auto simp: failTrace_def Let_def split: option.splits)

lemma refuse_answers: "rw_Status (nw_writer w) = None \<Longrightarrow> rw_Status (nw_writer (refuse e oc code m w)) = Some code"
  by (auto simp: refuse_def failTrace_status split: prod.split)

lemma refuse_once: "no_answer (nw_writer w) \<Longrightarrow> one_answer code (nw_writer (refuse e oc code m w))"
  by (auto simp: refuse_def no_answer_def failTrace_status intro!: writeJSONError_answers split: prod.split)

lemma set_retry_after_writer [simp]: "no_answer (nw_writer (set_retry_after n w)) = no_answer (nw_writer w)"
  by (simp add: set_retry_after_def no_answer_def)

lemma refuse_cooling_once:
  "no_answer (nw_writer w) \<Longrightarrow> one_answer 503 (nw_writer (refuse_cooling e key quota attempts w))"
  by (auto simp: refuse_cooling_def refuse_once Let_def split: prod.split)

lemma try_hold_writer:
  assumes "try_hold e r h deadline key quota fit budget st = (st', oc)" "pending st"
  shows "if oc = NoCapacity then one_answer 503 (nw_writer (ds_net st')) else pending st'"
  using assms holdForQuotaReset_facts(2)
  by (fastforce simp: try_hold_def refuse_once unsent_def Let_def split: if_splits prod.splits bool.splits)

definition held_answer :: "dispatch_state \<Rightarrow> modelAttempt list option \<Rightarrow> bool" where
  "held_answer st r \<longleftrightarrow> (case r of None \<Rightarrow> answered st | Some chain \<Rightarrow> pending st \<and> chain \<noteq> [])"

interpretation answering: hold_contract e deadline key quota contextEst attempts "\<lambda>b. pending" "\<lambda>b. pending" held_answer
  for e deadline key quota contextEst attempts
proof
  show "held_answer (on_net (refuse e outcomeAllCooling 422 m) st) None" if "pending st" for st m
    using that refuse_once by (fastforce simp: held_answer_def answered_def unsent_def)
  show "held_answer (on_net (refuse_cooling e key quota attempts) st') None"
    if "pending st" "try_hold e r (dx_rounds e n) deadline key quota fit b st = (st', NotHeld)" for st r n fit b st'
    using try_hold_writer [OF that(2,1)] refuse_cooling_once by (fastforce simp: held_answer_def answered_def unsent_def)
qed (auto simp: held_answer_def answered_def dest: rank_round_frame [THEN unsent_cong] dest!: try_hold_writer)

lemma chain_failed_once:
  assumes "unsent w"
  shows "one_answer (fst (fallbackErrorResponse (Some err))) (nw_writer (chain_failed e err w))"
proof -
  obtain code m where "fallbackErrorResponse (Some err) = (code, m)" by fastforce
  with assms show ?thesis by (simp add: chain_failed_def refuse_once unsent_def Let_def)
qed

lemma run_ranked_answers:
  assumes "unsent w"
  shows "\<exists>code. one_answer code (nw_writer (run_ranked e decision reqBody key category stream required planned afterCaps ranked w))"
proof -
  let ?chain = "truncate_chain (pd_RetryPolicy decision) ranked"
  let ?w = "on_trace (recordChain (int planned) (int afterCaps) (int (length ?chain)) required) w"
  obtain w' v where run: "executeFallbacks (dx_up e) (dx_net e) (dx_wait e) (dx_clock e) (dx_affinityKey e)
      (dispatch_execution e (w_service ?w) decision reqBody key category stream) ?chain ?w = (w', v)" by fastforce
  have "unsent ?w" using assms by (simp add: unsent_def)
  with run have "if v = None then served w' else unsent w'"
    by (intro router_chain_answer) (auto simp: dispatch_execution_def)
  then have "\<exists>code. one_answer code (nw_writer (case v of None \<Rightarrow> w' | Some err \<Rightarrow> chain_failed e err w'))"
    using chain_failed_once by (fastforce simp: served_def split: option.split)
  then show ?thesis unfolding run_ranked_def Let_def run prod.case by simp
qed

lemma held_answers:
  assumes "pending st"
  shows "answered (case hold_loop e d key q c as 0 b st of (st, None) \<Rightarrow> st
      | (st, Some ranked) \<Rightarrow> on_net (run_ranked e decision body key category stream required n m ranked) st)"
  using answering.hold_loop_holds [OF assms, of e d key q c as 0 b] run_ranked_answers
  by (auto simp: held_answer_def answered_def split: prod.splits option.splits)

lemma refuse_answered: "pending st \<Longrightarrow> answered (on_net (\<lambda>w. refuse e oc code m (on_counters f w)) st)"
  using refuse_once [of "on_counters f (ds_net st)" code e oc m] by (auto simp: answered_def unsent_def)

text \<open>A dispatch either refuses for want of capability or runs the hold loop on the candidates.\<close>

lemma dispatch_body_rule:
  assumes "\<And>oc code m f. P (on_net (\<lambda>w. refuse e oc code m (on_counters f w)) st)"
    and "\<And>cstat d b c body n m. P (case hold_loop e d key (estimateRequestQuota (dx_env e) (ue_marshal (dx_up e)) b) c
        (candidates e (w_service (ds_net st)) (planModelAttempts (w_service (ds_net st)) decision category requestedModel)
           key category opPath required)
        0 (quotaHoldBudget (dx_env e)) (on_net (on_trace (recordCompression cstat)) st) of (st, None) \<Rightarrow> st
      | (st, Some ranked) \<Rightarrow> on_net (run_ranked e decision body key category stream required n m ranked) st)"
  shows "P (dispatch_body e decision reqBody key category requestedModel stream opPath required st)"
proof -
  obtain compressed cstat where c: "compressRequest (dx_env e) (dx_valid e) reqBody = (compressed, cstat)" by fastforce
  show ?thesis unfolding dispatch_body_def Let_def c prod.case by (simp only: assms split: if_split) simp
qed

lemma dispatch_body_answers:
  assumes "pending st"
  shows "answered (dispatch_body e decision reqBody key category requestedModel stream opPath required st)"
  by (rule dispatch_body_rule; (intro refuse_answered held_answers)?) (use assms in \<open>simp_all add: unsent_def\<close>)

lemma dispatchChain_answers:
  assumes "pending st"
  shows "answered (dispatchChain e decision reqBody key category requestedModel stream opPath required st)"
proof -
  have "pending (on_net (\<lambda>w. w\<lparr>nw_trace := t\<rparr>) st)" for t using assms by (simp add: unsent_def)
  from dispatch_body_answers [OF this] show ?thesis by (simp add: dispatchChain_def answered_def Let_def)
qed

lemma authorized_answers:
  assumes "pending st" "\<And>st d. pending st \<Longrightarrow> answered (k d st)"
  shows "answered (case authorize ro r operation stream facts st of (st, d, ok) \<Rightarrow> if \<not> ok then st else k d st)"
proof -
  obtain st' d ok where eq: "authorize ro r operation stream facts st = (st', d, ok)" by (metis prod_cases3)
  have "if ok then pending st' else answered st'"
    using eq assms(1) gate_writer gate_answers
    by (fastforce simp: authorize_def answered_def unsent_def no_answer_def [of "nw_writer (ds_net st)"] Let_def split: prod.splits if_splits)
  with assms(2) show ?thesis unfolding eq prod.case by (simp split: if_splits)
qed

lemma tunnel_answers: "pending st \<Longrightarrow> answered (on_net (on_writer (tunnel e url body key x)) st)"
  using proxied_answers(1)
  by (auto simp: answered_def unsent_def tunnel_def Let_def intro: writeJSONError_answered split: sum.split)

lemma error_answers:
  "pending st \<Longrightarrow> answered (on_net (on_writer (http_error code m)) st)"
  "pending st \<Longrightarrow> answered (on_net (\<lambda>w. on_writer (writeJSONError enc code m) (on_counters f w)) st)"
  by (auto simp: answered_def unsent_def http_error_def no_answer_def one_answer_def)

lemma route_body_answers:
  assumes "pending st"
  shows "answered (route_body ro e r key inject opPath reqBody st)"
proof -
  obtain c w rejected where rej: "rejectUnknownProfile (ro_quote ro) (dx_errorJSON e) (dx_env e) (w_service (ds_net st))
      (string_or_empty (m_get reqBody ''model'')) (nw_counters (ds_net st), nw_writer (ds_net st)) = ((c, w), rejected)"
    by (metis prod_cases3 prod.exhaust)
  have w: "if rejected then one_answer 404 w else w = nw_writer (ds_net st)"
    using rej assms by (auto simp: rejectUnknownProfile_def unsent_def Let_def writeJSONError_answers split: if_splits)
  show ?thesis unfolding route_body_def Let_def rej prod.case
    by (intro answered_if answered_pair [where p = "resolveModelAlias _ _ _"] authorized_answers dispatchChain_answers)
      (use w assms in \<open>auto simp: answered_def unsent_def\<close>)
qed

lemma read_and_route_answers:
  assumes "pending st"
  shows "answered (read_and_route ro e r key st)"
  unfolding read_and_route_def route_embeddings_def route_messages_def route_chat_def
    tunnelToOpenRouterMessages_def tunnelToOpenRouterEmbeddings_def
  by (intro answered_if answered_option authorized_answers error_answers tunnel_answers route_body_answers assms)

section \<open>No quota claim outlives the request\<close>

text \<open>Other requests settle the claims they take while this one sleeps.\<close>

definition others_settle :: "dispatch_env \<Rightarrow> bool" where
  "others_settle e \<longleftrightarrow> (\<forall>n sh. ledger_inv (rs_quota (sh_service sh)) \<longrightarrow>
     (let l = rs_quota (sh_service (hr_others (dx_rounds e n) sh))
      in ledger_inv l \<and> live_tickets l \<subseteq> live_tickets (rs_quota (sh_service sh))))"

abbreviation ds_quota :: "dispatch_state \<Rightarrow> QuotaLedger" where
  "ds_quota st \<equiv> rs_quota (w_service (ds_net st))"

definition claims_within :: "(64 word) set \<Rightarrow> dispatch_state \<Rightarrow> bool" where
  "claims_within L st \<longleftrightarrow> ledger_inv (ds_quota st) \<and> live_tickets (ds_quota st) \<subseteq> L"

text \<open>A ranked chain: its first attempt holds the one claim more.\<close>

definition chain_claims :: "(64 word) set \<Rightarrow> nat \<Rightarrow> dispatch_state \<Rightarrow> modelAttempt list option \<Rightarrow> bool" where
  "chain_claims L n st r = (case r of
     None \<Rightarrow> claims_within L st
   | Some chain \<Rightarrow> chain \<noteq> [] \<and> length chain \<le> n \<and> list_all (\<lambda>a. est_ok (ma_QuotaEstimate a)) chain \<and>
       qt_ledger (ma_QuotaTicket (hd chain)) = Some (ql_self (ds_quota st)) \<and> ledger_inv (ds_quota st) \<and>
       live_tickets (ds_quota st) \<subseteq> insert (qt_id (ma_QuotaTicket (hd chain))) L)"

lemma refuse_service [simp]: "w_service (refuse e oc code m w) = w_service w"
  by (simp add: refuse_def split: prod.split)

lemma retry_after_service [simp]: "w_service (set_retry_after n w) = w_service w"
  by (simp add: set_retry_after_def)

lemma looks_claims:
  assumes "looks (w_service (ds_net st)) s" "claims_within L st"
  shows "claims_within L (on_net (\<lambda>w. w\<lparr>w_service := s\<rparr>) st)"
proof -
  have "quiet (ds_quota st) (rs_quota s)" using assms(1) by (simp only: looks_def)
  with assms(2) quiet_live [OF this] show ?thesis by (simp add: claims_within_def quiet_def)
qed

lemma others_claims:
  assumes "others_settle e" "claims_within L st"
  shows "claims_within L (with_shared (hr_others (dx_rounds e n) (shared_of st)) st)"
  using assms(1) [unfolded others_settle_def Let_def, rule_format, of "shared_of st" n] assms(2)
  by (auto simp: claims_within_def with_shared_def shared_of_def)

lemma refuse_cooling_claims:
  assumes "claims_within L st"
  shows "claims_within L (on_net (refuse_cooling e key quota attempts) st)"
proof -
  obtain s d where eq: "quotaRetryAfterForAttempts (rank_env_of e (ds_net st)) key quota (dx_refusal e) attempts
      (w_service (ds_net st)) = (s, d)" by fastforce
  then have "looks (w_service (ds_net st)) s"
    using looks_retry_after [of "w_service (ds_net st)" "rank_env_of e (ds_net st)" key quota "dx_refusal e" attempts] by simp
  from looks_claims [OF this assms] show ?thesis
    by (simp add: refuse_cooling_def eq claims_within_def Let_def)
qed

lemma try_hold_claims:
  assumes "try_hold e r (dx_rounds e n) deadline key quota fit b st = (st', oc)" "claims_within L st" "others_settle e"
  shows "claims_within L st'"
proof -
  obtain s d where eq: "quotaRetryAfterForAttempts r key quota (hr_reset (dx_rounds e n)) fit (w_service (ds_net st)) = (s, d)"
    by fastforce
  then have "looks (w_service (ds_net st)) s"
    using looks_retry_after [of "w_service (ds_net st)" r key quota "hr_reset (dx_rounds e n)" fit] by simp
  note looked = looks_claims [OF this assms(2)]
  have hold: "claims_within L st2" if "holdForQuotaReset (dx_rounds e n) deadline d st1 = (st2, held)" "claims_within L st1"
    for st1 st2 held
    using that others_claims [OF assms(3), of L "on_net (on_counters (\<lambda>c. c\<lparr>rc_quotaHeld := bump (rc_quotaHeld c)\<rparr>)) st1" n]
    by (auto simp: holdForQuotaReset_def claims_within_def Let_def split: if_splits)
  obtain st2 h where h: "holdForQuotaReset (dx_rounds e n) deadline d
      ((on_net (\<lambda>w. w\<lparr>w_service := s\<rparr>) st)\<lparr>ds_admission := hold_release (dx_request e) (ds_admission st)\<rparr>) = (st2, h)" by fastforce
  have "claims_within L st2" using hold [OF h] looked by (simp add: claims_within_def)
  with assms(1,2) eq h looked show ?thesis
    by (auto simp: try_hold_def claims_within_def Let_def split: if_splits bool.splits prod.splits)
qed

lemma rank_round_quota:
  assumes "rank_round e h key quota fit w = (w', chain)"
  shows "\<exists>aff'. quotaRankAndReserve (rank_env_of e w) (hr_rank h) key quota fit (w_affinity w) (w_service w)
    = (aff', w_service w', chain)"
  using assms by (auto simp: rank_round_def split: prod.splits)

definition typed_attempts :: "modelAttempt list \<Rightarrow> bool" where
  "typed_attempts as \<longleftrightarrow> (\<forall>a\<in>set as. est_ok (ma_QuotaEstimate a))"

lemma dispatch_claims_room:
  assumes "claims_within L st" "finite L" "card L + n + 3 \<le> 2 ^ 64"
  shows "ledger_room (ds_quota st)"
proof -
  have "card (live_tickets (ds_quota st)) \<le> card L" using assms by (intro card_mono) (simp_all add: claims_within_def)
  with assms show ?thesis by (simp add: ledger_room_def claims_within_def tickets_card)
qed

lemma rank_round_claims:
  assumes run: "rank_round e h key quota fit (ds_net st) = (w, chain)"
    and L: "claims_within L st" "finite L" "card L + n + 3 \<le> 2 ^ 64" and est: "est_ok quota"
  shows "chain = [] \<Longrightarrow> claims_within L (st\<lparr>ds_net := w\<rparr>)"
    and "chain \<noteq> [] \<Longrightarrow> typed_attempts fit \<Longrightarrow> length fit \<le> n \<Longrightarrow> chain_claims L n (st\<lparr>ds_net := w\<rparr>) (Some chain)"
proof -
  from rank_round_quota [OF run] obtain aff' where
    q: "quotaRankAndReserve (rank_env_of e (ds_net st)) (hr_rank h) key quota fit (w_affinity (ds_net st)) (w_service (ds_net st))
      = (aff', w_service w, chain)" by blast
  note f = rank_facts [OF q est dispatch_claims_room [OF L]]
  show "chain = [] \<Longrightarrow> claims_within L (st\<lparr>ds_net := w\<rparr>)"
    using f(1,3) L(1) by (simp add: holds_primary_def claims_within_def)
  show "chain_claims L n (st\<lparr>ds_net := w\<rparr>) (Some chain)" if "chain \<noteq> []" "typed_attempts fit" "length fit \<le> n"
    using f(1,3) L(1) that rank_typed [OF q est] rank_self [OF q]
    by (cases chain) (auto simp: holds_primary_def claims_within_def chain_claims_def typed_attempts_def list_all_iff Let_def)
qed

definition claim_setup :: "dispatch_env \<Rightarrow> QuotaEstimate \<Rightarrow> modelAttempt list \<Rightarrow> (64 word) set \<Rightarrow> bool" where
  "claim_setup e quota attempts L \<longleftrightarrow> others_settle e \<and> finite L \<and> card L + length attempts + 4 \<le> 2 ^ 64 \<and>
     est_ok quota \<and> typed_attempts attempts"

interpretation claiming: hold_contract e deadline key quota contextEst attempts
  "\<lambda>b st. claim_setup e quota attempts L \<and> claims_within L st" "\<lambda>b st. claim_setup e quota attempts L \<and> claims_within L st"
  "chain_claims L (length attempts)" for e deadline key quota contextEst attempts L
proof
  fix b st w n fit r st' d m chain
  assume I: "claim_setup e quota attempts L \<and> claims_within L st"
  then have L: "claims_within L st" "finite L" "card L + length attempts + 3 \<le> 2 ^ 64" "est_ok quota" "others_settle e"
    by (simp_all add: claim_setup_def)
  show "chain_claims L (length attempts) (on_net (refuse e outcomeAllCooling 422 m) st) None"
    using L(1) by (simp add: chain_claims_def claims_within_def)
  show "chain_claims L (length attempts) (st\<lparr>ds_net := w\<rparr>) (Some chain)"
    if "rank_round e (dx_rounds e n) key quota fit (ds_net st) = (w, chain)" "set fit \<subseteq> set attempts"
      "length fit \<le> length attempts" "chain \<noteq> []"
    using rank_round_claims(2) [OF that(1) L(1-4) that(4) _ that(3)] that(2) I by (auto simp: claim_setup_def typed_attempts_def)
  show "claim_setup e quota attempts L \<and> claims_within L (st\<lparr>ds_net := w\<rparr>)"
    if "rank_round e (dx_rounds e n) key quota fit (ds_net st) = (w, [])"
    using rank_round_claims(1) [OF that L(1-4)] I by simp
  show "claim_setup e quota attempts L \<and> claims_within L st'"
    if "try_hold e r (dx_rounds e n) deadline key quota fit b st = (st', Held d)"
    using try_hold_claims [OF that L(1,5)] I by simp
  show "chain_claims L (length attempts) st' None"
    if "try_hold e r (dx_rounds e n) deadline key quota fit b st = (st', NoCapacity)"
    using try_hold_claims [OF that L(1,5)] by (simp add: chain_claims_def)
  show "chain_claims L (length attempts) (on_net (refuse_cooling e key quota attempts) st') None"
    if "try_hold e r (dx_rounds e n) deadline key quota fit b st = (st', NotHeld)"
    using refuse_cooling_claims [OF try_hold_claims [OF that L(1,5)]] by (simp add: chain_claims_def)
qed

lemma truncate_chain_facts:
  assumes "chain \<noteq> []"
  shows "hd (truncate_chain p chain) = hd chain" "set (truncate_chain p chain) \<subseteq> set chain"
    "length (truncate_chain p chain) \<le> length chain" "truncate_chain p chain \<noteq> []"
  using assms set_take_subset [of _ chain] by (auto simp: truncate_chain_def hd_take)

lemma chain_failed_service [simp]: "w_service (chain_failed e err w) = w_service w"
  by (simp add: chain_failed_def Let_def split: prod.split)

lemma run_ranked_claims:
  assumes "chain_claims L n st (Some chain)" "finite L" "card L + n + 4 \<le> 2 ^ 64"
  shows "claims_within L (on_net (run_ranked e decision reqBody key category stream required planned afterCaps chain) st)"
proof -
  let ?chain = "truncate_chain (pd_RetryPolicy decision) chain"
  let ?w = "on_trace (recordChain (int planned) (int afterCaps) (int (length ?chain)) required) (ds_net st)"
  let ?t = "ma_QuotaTicket (hd chain)"
  obtain w' v where run: "executeFallbacks (dx_up e) (dx_net e) (dx_wait e) (dx_clock e) (dx_affinityKey e)
      (dispatch_execution e (w_service ?w) decision reqBody key category stream) ?chain ?w = (w', v)" by fastforce
  have c: "chain \<noteq> []" "length chain \<le> n" "list_all (\<lambda>a. est_ok (ma_QuotaEstimate a)) chain"
    "qt_ledger ?t = Some (ql_self (ds_quota st))" "ledger_inv (ds_quota st)"
    "live_tickets (ds_quota st) \<subseteq> insert (qt_id ?t) L"
    using assms(1) by (simp_all add: chain_claims_def)
  note tr = truncate_chain_facts [OF c(1), of "pd_RetryPolicy decision"]
  have "card (live_tickets (ds_quota st)) \<le> Suc (card L)"
    using card_mono [OF _ c(6)] assms(2) card_insert_le_m1 by (metis card_insert_disjoint finite_insert insert_absorb le_SucI)
  then have "ledger_inv (rs_quota (w_service w')) \<and>
      live_tickets (rs_quota (w_service w')) \<subseteq> live_tickets (ds_quota st) - ticket_ids (ds_quota st) ?chain"
    using router_chain_claims [OF _ _ _ _ _ _ run] c tr(2,3) assms(3)
    by (auto simp: dispatch_execution_def list_all_iff)
  moreover have "qt_id ?t \<in> ticket_ids (ds_quota st) ?chain"
    using tr(1,4) c(4) by (auto simp: ticket_ids_def) (metis hd_in_set)
  ultimately have fin: "ledger_inv (rs_quota (w_service w'))" "live_tickets (rs_quota (w_service w')) \<subseteq> L" using c(6) by auto
  let ?w2 = "case v of None \<Rightarrow> w' | Some err \<Rightarrow> chain_failed e err w'"
  have q: "rs_quota (w_service ?w2) = rs_quota (w_service w')" by (simp split: option.split)
  have "live_tickets (fst (Release l t now)) \<subseteq> live_tickets l" for l t now
    by (auto simp: Release_def consumeTicketLocked_def purgeExpiredLocked_def live_tickets_iff Let_def split: option.split if_splits)
  then have "live_tickets (fst (Release (rs_quota (w_service w')) t now)) \<subseteq> L" for t now using fin(2) by blast
  then show ?thesis
    unfolding run_ranked_def Let_def run prod.case claims_within_def using fin inv_Release [OF fin(1)] by (simp add: q)
qed

lemma newAttempt_typed: "est_ok (ma_QuotaEstimate (newAttempt profile model provider breaker))"
  by (simp add: newAttempt_def noEstimate_def est_ok_def max_int64_def)

lemma typed_filter: "typed_attempts as \<Longrightarrow> typed_attempts (filter P as)"
  by (auto simp: typed_attempts_def)

lemma typed_plan: "typed_attempts (planModelAttempts s decision category requestedModel)"
  using newAttempt_typed
  by (auto simp: typed_attempts_def planModelAttempts_def Plan_def Let_def dest!: subsetD [OF first_of_key_subset])

lemma typed_candidates:
  assumes "typed_attempts planned"
  shows "typed_attempts (candidates e s planned key category opPath required)"
proof -
  have path: "typed_attempts (on_path opPath planned)"
    using assms by (auto simp: typed_attempts_def on_path_def)
  have conf: "typed_attempts (filterConfiguredAttempts c s as key opPath)" if "typed_attempts as" for c as
    using that by (simp add: filterConfiguredAttempts_def typed_filter)
  have "typed_attempts (capabilityRescue (dx_caps e) s category opPath required)"
    using newAttempt_typed by (auto simp: typed_attempts_def capabilityRescue_def rescue_attempt_def Let_def)
  then have "typed_attempts (applyCapabilityFilter (dx_caps e) s as category opPath required)" if "typed_attempts as" for as
    using that by (simp add: applyCapabilityFilter_def typed_filter Let_def)
  with path conf show ?thesis by (simp add: candidates_def Let_def)
qed

lemma dispatch_body_claims:
  assumes "claims_within L st" "finite L" "others_settle e"
    and "card L + length (candidates e (w_service (ds_net st)) (planModelAttempts (w_service (ds_net st)) decision category
      requestedModel) key category opPath required) + 4 \<le> 2 ^ 64"
  shows "claims_within L (dispatch_body e decision reqBody key category requestedModel stream opPath required st)"
proof -
  let ?s = "w_service (ds_net st)"
  let ?as = "candidates e ?s (planModelAttempts ?s decision category requestedModel) key category opPath required"
  show ?thesis
  proof (rule dispatch_body_rule, goal_cases)
    case (1 oc code m f)
    then show ?case using assms(1) by (simp add: claims_within_def)
  next
    case (2 cstat d b c body n m)
    let ?q = "estimateRequestQuota (dx_env e) (ue_marshal (dx_up e)) b" and ?st = "on_net (on_trace (recordCompression cstat)) st"
    have "claim_setup e ?q ?as L \<and> claims_within L ?st"
      using assms typed_candidates [OF typed_plan] est_ok_request by (simp add: claim_setup_def claims_within_def)
    from claiming.hold_loop_holds [OF this, of d key c 0 "quotaHoldBudget (dx_env e)"] show ?case
      using run_ranked_claims [OF _ assms(2,4)] by (auto simp: chain_claims_def split: prod.splits option.splits)
  qed
qed

section \<open>Capable models only\<close>

definition models_within :: "string set \<Rightarrow> dispatch_state \<Rightarrow> modelAttempt list option \<Rightarrow> bool" where
  "models_within M st r = (case r of None \<Rightarrow> True | Some chain \<Rightarrow> chain \<noteq> [] \<and> ma_Model ` set chain \<subseteq> M)"

interpretation modelling: hold_contract e deadline key quota contextEst attempts "\<lambda>b st. True" "\<lambda>b st. True"
  "models_within (ma_Model ` set attempts)" for e deadline key quota contextEst attempts
proof
  fix st :: dispatch_state and n fit w chain
  assume run: "rank_round e (dx_rounds e n) key quota fit (ds_net st) = (w, chain)" and sub: "set fit \<subseteq> set attempts"
    and ne: "chain \<noteq> []"
  have "ma_Model ` set chain \<subseteq> ma_Model ` set fit" using rank_round_quota [OF run] rank_models by blast
  also have "\<dots> \<subseteq> ma_Model ` set attempts" by (rule image_mono [OF sub])
  finally show "models_within (ma_Model ` set attempts) (st\<lparr>ds_net := w\<rparr>) (Some chain)"
    using ne by (simp add: models_within_def)
qed (simp_all add: models_within_def)

lemma candidates_capable:
  assumes "a \<in> set (candidates e s planned key category opPath required)"
  shows "satisfies (dx_caps e) (ma_Model a) required"
proof (cases "required = []")
  case False
  have "satisfies (dx_caps e) (ma_Model b) required"
    if "b \<in> set (capabilityRescue (dx_caps e) s category opPath required)" for b
    using that
    by (auto simp: capabilityRescue_def rescue_attempt_def Let_def split: if_splits
        dest!: subsetD [OF first_of_key_subset])
  with assms False show ?thesis
    by (auto simp: candidates_def applyCapabilityFilter_def filterConfiguredAttempts_def Let_def split: if_splits)
qed (simp add: satisfies_def)

section \<open>Properties\<close>

text \<open>C7. Every request is answered exactly once. When nothing of the response has been sent, the entry point
  makes exactly one call that sends a status, and that status is the response's, on every path: refused
  at admission, an unreadable or oversized body, a denial, an unknown profile, no capable model, an
  overlong context, a cooling chain, a failed or a served chain, a tunnel. And the request gives its
  admission slot back.\<close>

theorem request_answered:
  assumes "rw_Status (nw_writer (ds_net st)) = None" "rw_Body (nw_writer (ds_net st)) = []" "rw_Heads (nw_writer (ds_net st)) = []"
    "dx_request (ro_dispatch ro) \<notin> set (as_held (ds_admission st))"
  shows "(\<exists>code. rw_Heads (nw_writer (ds_net (RouteRequestWithProvider ro r key st))) = [code] \<and>
      rw_Status (nw_writer (ds_net (RouteRequestWithProvider ro r key st))) = Some code) \<and>
    dx_request (ro_dispatch ro) \<notin> set (as_held (ds_admission (RouteRequestWithProvider ro r key st)))"
proof -
  let ?e = "request_env ro r key (w_affinity (ds_net st))" and ?n = "dx_request (ro_dispatch ro)"
  have n: "dx_request ?e = ?n" by (simp add: request_env_def)
  have r: "\<exists>code. one_answer code (nw_writer (ds_net (read_and_route ro ?e r key (st\<lparr>ds_admission := a\<rparr>))))" for a
    using read_and_route_answers [of "st\<lparr>ds_admission := a\<rparr>" ro ?e r key] assms(1-3)
    by (simp add: unsent_def no_answer_def answered_def)
  have refused: "\<exists>code. one_answer code (writeJSONError enc c m (nw_writer (set_retry_after k (on_counters f (ds_net st)))))" for enc c m k f
    using assms(1-3) by (intro writeJSONError_answered) (simp, simp add: no_answer_def)
  have "?n \<notin> set (as_held (hold_release ?n a))" for a by (simp add: hold_release_def)
  then have "(\<exists>code. one_answer code (nw_writer (ds_net (RouteRequestWithProvider ro r key st)))) \<and>
      ?n \<notin> set (as_held (ds_admission (RouteRequestWithProvider ro r key st)))"
    using r refused assms(4) unfolding RouteRequestWithProvider_def Let_def n
    by (auto split: option.split bool.split)
  then show ?thesis by (auto simp: one_answer_def)
qed

text \<open>C10. Waiting for quota is bounded: whatever the ledger, the clock and the other requests do, the time one
  request is parked, over all its timers and those the end of its context cuts short, adds up to no more
  than the configured budget and one settle time of 150 ms; with a budget of zero or less the request is
  never parked. The loop ends. The settle time is in the bound because the last timer runs it on top
  of a wait that may use up the budget (\<open>hold_exceeds_budget\<close>).\<close>

theorem hold_bounded:
  "\<exists>ds. ds_sleeps (dispatchChain e decision reqBody key category requestedModel stream opPath required st) = ds_sleeps st @ ds \<and>
     list_all (\<lambda>d. 0 \<le> d) ds \<and>
     (if 0 < quotaHoldBudget (dx_env e) then sum_list ds \<le> quotaHoldBudget (dx_env e) + quotaHoldSettle else ds = [])"
proof -
  let ?b = "quotaHoldBudget (dx_env e)"
  have start: "slept (ds_sleeps st) ?b ?b st'" if "ds_sleeps st' = ds_sleeps st" for st' :: dispatch_state
    using that wrap64_le by (simp add: slept_def quotaHoldBudget_def)
  have same: "slept_within (ds_sleeps st) ?b st'" if "ds_sleeps st' = ds_sleeps st" for st' :: dispatch_state
    by (rule slept_within [OF start [OF that]])
  have held: "slept_within (ds_sleeps st) ?b (case hold_loop e d key q c as 0 ?b st' of (st, None) \<Rightarrow> st
      | (st, Some ranked) \<Rightarrow> on_net (run_ranked e decision body key category stream required n m ranked) st)"
    if "ds_sleeps st' = ds_sleeps st" for d q c as st' body n m
    using sleeps.hold_loop_holds [OF start [OF that], of e d key q c as 0] by (auto split: prod.splits option.splits)
  have "slept_within (ds_sleeps st) ?b (dispatch_body e decision reqBody key category requestedModel stream opPath required
      (on_net (\<lambda>w. w\<lparr>nw_trace := t\<rparr>) st))" for t
    by (rule dispatch_body_rule, rule same, simp, rule held, simp)
  then have "slept_within (ds_sleeps st) ?b (dispatchChain e decision reqBody key category requestedModel stream opPath required st)"
    by (simp add: dispatchChain_def slept_within_def Let_def)
  then obtain ds where ds: "ds_sleeps (dispatchChain e decision reqBody key category requestedModel stream opPath required st) = ds_sleeps st @ ds"
    "\<forall>d\<in>set ds. 0 \<le> d" "ds \<noteq> [] \<longrightarrow> 0 < ?b \<and> sum_list ds \<le> ?b + quotaHoldSettle" by (auto simp: slept_within_def)
  then show ?thesis by (cases "ds = []") (auto simp: list_all_iff quotaHoldSettle_def)
qed

text \<open>C9. Capabilities fail closed. A chain that is run holds only models known to have every capability the
  request needs, whether it comes from the profile, from a pinned model or from the rescue; a pinned model
  that lacks one is answered 422 before anything is planned, and the service is left as it was.\<close>

theorem capability_fail_closed:
  assumes "rw_Status (nw_writer (ds_net st)) = None"
  shows "(incapable_pin e requestedModel required \<longrightarrow>
      (let st' = dispatchChain e decision reqBody key category requestedModel stream opPath required st
       in rw_Status (nw_writer (ds_net st')) = Some 422 \<and> w_service (ds_net st') = w_service (ds_net st))) \<and>
    (hold_loop e deadline key quota contextEst (candidates e s planned key category opPath required) n b st = (st2, Some chain) \<longrightarrow>
      chain \<noteq> [] \<and> list_all (\<lambda>a. satisfies (dx_caps e) (ma_Model a) required) (truncate_chain policy chain))"
proof (intro conjI impI)
  assume pin: "incapable_pin e requestedModel required"
  show "let st' = dispatchChain e decision reqBody key category requestedModel stream opPath required st
       in rw_Status (nw_writer (ds_net st')) = Some 422 \<and> w_service (ds_net st') = w_service (ds_net st)"
    using assms by (simp add: dispatchChain_def dispatch_body_def pin refuse_answers Let_def)
next
  let ?as = "candidates e s planned key category opPath required"
  assume "hold_loop e deadline key quota contextEst ?as n b st = (st2, Some chain)"
  then have c: "chain \<noteq> []" "ma_Model ` set chain \<subseteq> ma_Model ` set ?as"
    using modelling.hold_loop_holds [where e = e and deadline = deadline and key = key and quota = quota and
        contextEst = contextEst and attempts = ?as and n = n and b = b and st = st] by (simp_all add: models_within_def)
  show "chain \<noteq> []" by (rule c(1))
  have "satisfies (dx_caps e) (ma_Model a) required" if "a \<in> set chain" for a
  proof -
    from c(2) that obtain b where b: "b \<in> set ?as" "ma_Model a = ma_Model b" by blast
    show ?thesis using candidates_capable [OF b(1)] b(2) by simp
  qed
  then show "list_all (\<lambda>a. satisfies (dx_caps e) (ma_Model a) required) (truncate_chain policy chain)"
    using truncate_chain_facts(2) [OF c(1), of policy] by (auto simp: list_all_iff)
qed

text \<open>C8. A dispatched request leaves no claim behind. When the other requests settle the claims they take while
  this one sleeps, the ledger's invariant holds after a dispatch and every claim that is still outstanding
  was outstanding before it, on every path.\<close>

theorem dispatch_leaks_no_quota:
  assumes "ledger_inv (rs_quota (w_service (ds_net st)))" "others_settle e"
    "card (live_tickets (rs_quota (w_service (ds_net st)))) + length (candidates e (w_service (ds_net st))
       (planModelAttempts (w_service (ds_net st)) decision category requestedModel) key category opPath required) + 4 \<le> 2 ^ 64"
  shows "let st' = dispatchChain e decision reqBody key category requestedModel stream opPath required st
    in ledger_inv (rs_quota (w_service (ds_net st'))) \<and>
      live_tickets (rs_quota (w_service (ds_net st'))) \<subseteq> live_tickets (rs_quota (w_service (ds_net st)))"
proof -
  let ?L = "live_tickets (rs_quota (w_service (ds_net st)))"
  have "claims_within ?L (on_net (\<lambda>w. w\<lparr>nw_trace := t\<rparr>) st)" for t using assms(1) by (simp add: claims_within_def)
  then have "claims_within ?L (dispatch_body e decision reqBody key category requestedModel stream opPath required
      (on_net (\<lambda>w. w\<lparr>nw_trace := t\<rparr>) st))" for t
    by (rule dispatch_body_claims) (use assms(2,3) in \<open>simp_all add: live_tickets_def\<close>)
  then show ?thesis by (simp add: dispatchChain_def claims_within_def Let_def)
qed

text \<open>The profile of a request names a configured chain. Without an image, a profile header that resolves to
  a configured profile decides it, whatever the prompt, the query or the forced profile say; with an image
  the vision chain is used whenever it can serve the request.\<close>

theorem profile_configured:
  assumes "config_ok (rs_policy s)"
  shows "let p = determineProfile caps s r messages hasTools; profiles = pc_Profiles (rs_policy s)
    in m_get profiles p \<noteq> None \<and>
      (\<not> hasImageContent messages \<and> resolveProfileAlias s (pq_header r ''X-Cervo-Category'') = Some a \<and> m_get profiles a \<noteq> None \<longrightarrow>
         p = a) \<and>
      (hasImageContent messages \<and> m_get profiles ''vision'' = Some chain \<and> visionChainServes caps chain hasTools \<longrightarrow> p = ''vision'')"
proof -
  have def: "m_get (pc_Profiles (rs_policy s)) (pc_DefaultProfile (rs_policy s)) \<noteq> None"
    using assms by (auto simp: config_ok_def)
  show ?thesis
    unfolding determineProfile_def Let_def
    by (intro conjI impI) (use def in \<open>auto simp: override_profile_def split: option.splits\<close>)
qed

section \<open>Examples\<close>

definition ex_hold_round :: hold_round where
  "ex_hold_round = \<lparr>hr_breakers = (\<lambda>_. 5), hr_rank = \<lparr>rk_now = 5, rk_affinity = 5, rk_preferred = 5, rk_score = 5\<rparr>, hr_reset = 5,
     hr_until = 5, hr_timer = True, hr_cut = 0, hr_wake = SlotFree, hr_others = (\<lambda>sh. sh)\<rparr>"

definition ex_dispatch :: dispatch_env where
  "ex_dispatch = \<lparr>dx_up = ex_upstream\<lparr>ue_credentials := ex_credentials\<rparr>,
     dx_caps = newCapabilityIndex [(''m'', [''tools''])], dx_reasoning = [], dx_effort = None, dx_valid = (\<lambda>_. False),
     dx_errorJSON = (\<lambda>m. m), dx_affinityKey = [], dx_traceID = ''t1'', dx_net = ex_net, dx_wait = (\<lambda>d t. t + d), dx_clock = (\<lambda>_. 6),
     dx_rounds = (\<lambda>_. ex_hold_round), dx_refusal = 6, dx_request = 0, dx_deadline = None, dx_start = 5, dx_after = Live\<rparr>"

definition ex_dispatch_state :: dispatch_state where
  "ex_dispatch_state = \<lparr>ds_net = ex_net_world\<lparr>w_service := ex_service\<rparr>,
     ds_admission = \<lparr>as_ctrl = \<lparr>ac_cap = Some 1, ac_used = 0, ac_timeout = 0\<rparr>, as_held = []\<rparr>, ds_ring = newTraceRing 4, ds_sleeps = []\<rparr>"

definition ex_route_decision :: routeDecision where
  "ex_route_decision = defaultAllowedDecision\<lparr>pd_Executor := ''groq''\<rparr>"

definition ex_dispatched :: "string \<Rightarrow> string list \<Rightarrow> dispatch_state" where
  "ex_dispatched model required = dispatchChain ex_dispatch ex_route_decision [] ''key'' ''coding'' model False [] required ex_dispatch_state"

lemma ex_dispatch_sel:
  "ds_net ex_dispatch_state = ex_net_world\<lparr>w_service := ex_service\<rparr>" "rs_quota ex_service = NewQuotaLedger 1"
  "nw_writer ex_net_world = newWriter" "as_held (ds_admission ex_dispatch_state) = []" "dx_request ex_dispatch = 0"
  by (simp_all add: ex_dispatch_state_def ex_service_def ex_net_world_def ex_dispatch_def)

theorem capability_fail_closed_witness:
  "rw_Status (nw_writer (ds_net (ex_dispatched ''m'' [''vision'']))) = Some 422 \<and>
   w_service (ds_net (ex_dispatched ''m'' [''vision''])) = ex_service"
proof -
  have "incapable_pin ex_dispatch ''m'' [''vision'']" by code_simp
  moreover have "rw_Status (nw_writer (ds_net ex_dispatch_state)) = None" by (simp add: ex_dispatch_sel newWriter_def)
  ultimately show ?thesis
    using capability_fail_closed [of ex_dispatch_state ex_dispatch "''m''" "[''vision'']"]
    by (simp add: ex_dispatched_def ex_dispatch_sel Let_def)
qed

lemma ex_candidates: "length (candidates ex_dispatch ex_service (planModelAttempts ex_service ex_route_decision ''coding'' ''m'')
    ''key'' ''coding'' [] [''tools'']) = 1"
  by code_simp

theorem dispatch_leaks_no_quota_witness:
  "live_tickets (rs_quota (w_service (ds_net (ex_dispatched ''m'' [''tools''])))) = {}"
proof -
  have "others_settle ex_dispatch" by (simp add: others_settle_def ex_dispatch_def ex_hold_round_def Let_def)
  moreover have "live_tickets (rs_quota ex_service) = {}" "ledger_inv (rs_quota ex_service)"
    using empty_ledger_inv by (simp_all add: ex_dispatch_sel NewQuotaLedger_def live_tickets_def)
  ultimately show ?thesis
    using dispatch_leaks_no_quota [of ex_dispatch_state ex_dispatch ex_route_decision "''coding''" "''m''" "''key''" "[]" "[''tools'']"]
      ex_candidates by (simp add: ex_dispatched_def ex_dispatch_sel Let_def)
qed

definition ex_route :: route_env where
  "ex_route = \<lparr>ro_dispatch = ex_dispatch, ro_policy = \<lparr>po_engine = None, po_ExecutorFallbacks = [], po_LimitsConfig = noLimits\<rparr>,
     ro_ParseFloat = (\<lambda>_. None), ro_cancelled = None, ro_guard = \<lparr>gt_text = [], gt_tag = []\<rparr>, ro_Unmarshal = (\<lambda>_. Some []),
     ro_mac = (\<lambda>k v. v), ro_quote = (\<lambda>q. q), ro_now = 5, ro_clock = (\<lambda>_. 5), ro_wake = SlotFree,
     ro_tunnel = ex_net [] ex_attempt ex_net_world\<rparr>"

definition ex_request :: client_request where
  "ex_request = \<lparr>cq_Path = ''/v1/chat/completions'', cq_header = (\<lambda>_. []), cq_query = (\<lambda>_. []), cq_forced = [], cq_bytes = ''{}'',
     cq_readErr = False, cq_facts = \<lparr>hf_ID = [], hf_User = [], hf_Channel = [], hf_Risk = [], hf_Operation = []\<rparr>\<rparr>"

theorem request_answered_witness:
  "(\<exists>code. rw_Heads (nw_writer (ds_net (RouteRequestWithProvider ex_route ex_request ''key'' ex_dispatch_state))) = [code] \<and>
     rw_Status (nw_writer (ds_net (RouteRequestWithProvider ex_route ex_request ''key'' ex_dispatch_state))) = Some code) \<and>
   0 \<notin> set (as_held (ds_admission (RouteRequestWithProvider ex_route ex_request ''key'' ex_dispatch_state)))"
  using request_answered [of ex_dispatch_state ex_route ex_request "''key''"]
  by (simp add: ex_dispatch_sel newWriter_def ex_route_def)

definition ex_profiled :: RouterService where
  "ex_profiled = ex_service\<lparr>rs_policy := \<lparr>pc_DefaultProfile = ''coding'',
     pc_Profiles = [(''coding'', [''m'']), (''fast'', [''n''])], pc_Aliases = [(''quick'', ''fast'')]\<rparr>\<rparr>"

theorem profile_configured_witness:
  "determineProfile (newCapabilityIndex []) ex_profiled
     \<lparr>pq_forced = ''coding'', pq_query = (\<lambda>_. []), pq_header = (\<lambda>h. if h = ''X-Cervo-Category'' then ''Quick'' else [])\<rparr> [] False = ''fast''"
proof -
  have "config_ok (rs_policy ex_profiled)" by (auto simp: config_ok_def ex_profiled_def split: if_splits)
  moreover have "\<not> hasImageContent []" by code_simp
  moreover have "resolveProfileAlias ex_profiled ''Quick'' = Some ''fast''" by code_simp
  moreover have "m_get (pc_Profiles (rs_policy ex_profiled)) ''fast'' \<noteq> None" by (simp add: ex_profiled_def)
  ultimately show ?thesis
    using profile_configured [of ex_profiled "newCapabilityIndex []" "\<lparr>pq_forced = ''coding'', pq_query = (\<lambda>_. []),
        pq_header = (\<lambda>h. if h = ''X-Cervo-Category'' then ''Quick'' else [])\<rparr>" "[]" False "''fast''"]
    by (simp add: Let_def)
qed

end
