(* ===== verification/Vault.thy ===== *)
theory Vault
  imports Env_Config "HOL-Library.Word" "HOL-Library.Countable"
begin

text \<open>
  The provider vault (\<open>internal/secretstore/vault.go\<close>, \<open>types.go\<close>): an encrypted file with at most
  one credential per allowed provider, and its client in \<open>cmd/provider_credentials.go\<close> that moves a
  key file of older versions into it.

  A \<open>Vault\<close> here carries what the methods reach: the AES-GCM functions of the key, the JSON codec,
  the time parser and the key source (all library or operating system code, so arguments), and the
  disk with the vault file and the temporary file beside it. What one call meets outside (a
  cancelled context, the random bytes, which file operation fails, the clock) is a \<open>vault_io\<close>.
  Clearing of buffers (\<open>zero\<close>) leaves no trace in the model.
\<close>

section \<open>Data\<close>

datatype vault_error = ErrInvalidProvider | ErrInvalidSecret | ErrInvalidKey | ErrVaultLocked
  | ErrContext | ErrOther

definition ProviderOpenRouter :: string where "ProviderOpenRouter = ''openrouter''"
definition ProviderCerebras :: string where "ProviderCerebras = ''cerebras''"
definition ProviderGroq :: string where "ProviderGroq = ''groq''"

definition vaultVersion :: int where "vaultVersion = 1"
definition maxSecretLen :: nat where "maxSecretLen = 4096"
definition nonceSize :: nat where "nonceSize = 12"
definition overhead :: nat where "overhead = 16"

definition allowedProvider :: "string \<Rightarrow> bool" where
  "allowedProvider p \<longleftrightarrow> p = ProviderOpenRouter \<or> p = ProviderCerebras \<or> p = ProviderGroq"

definition allProviders :: "string list" where
  "allProviders = [ProviderOpenRouter, ProviderCerebras, ProviderGroq]"

record encryptedEntry =
  ee_Nonce :: string
  ee_Ciphertext :: string
  ee_Revision :: "64 word"
  ee_UpdatedAt :: string

record vaultFile =
  vf_Version :: int
  vf_Entries :: "(string, encryptedEntry) gomap"

text \<open>A JSON document as the decoder reads it into a \<open>vaultFile\<close> that already holds the defaults: a
  member may be absent, and \<open>entries\<close> may be null.\<close>

datatype entries_member = NoMember | NullMember | Member "(string, encryptedEntry) gomap"

record vault_document =
  vd_Version :: "int option"
  vd_Entries :: entries_member

datatype file_state = Absent | Unreadable | Contents string

record MasterKeySource =
  mk_Load :: "string option"
  mk_Backend :: string

record Vault =
  v_file :: file_state
  v_temps :: "string list"
  v_keys :: "MasterKeySource option"
  v_seal :: "string \<Rightarrow> string \<Rightarrow> string \<Rightarrow> string \<Rightarrow> string"
  v_open :: "string \<Rightarrow> string \<Rightarrow> string \<Rightarrow> string \<Rightarrow> string option"
  v_marshal :: "vaultFile \<Rightarrow> string"
  v_unmarshal :: "string \<Rightarrow> vault_document option"
  v_time_ok :: "string \<Rightarrow> bool"

datatype write_step = WMkdir | WTemp | WChmod | WWrite | WSync | WClose | WReplace | WSyncDir | WRemove

record vault_io =
  io_ctx_err :: bool
  io_nonce :: "string option"
  io_fails :: "write_step \<Rightarrow> bool"
  io_written :: nat
  io_now :: string

record ProviderStatus =
  ps_Provider :: string
  ps_Configured :: bool

record vault_snapshot =
  sn_Backend :: string
  sn_Available :: bool
  sn_Locked :: bool
  sn_Providers :: "ProviderStatus list"

section \<open>Secrets\<close>

text \<open>
  \<open>utf8.DecodeRune\<close> on valid text, with the byte ranges of package \<open>utf8\<close>: the rune and its
  length, or none for bytes that are no valid encoding (overlong forms, surrogates and runes beyond
  \<open>U+10FFFF\<close> included).
\<close>

definition cont :: "nat \<Rightarrow> bool" where
  "cont b \<longleftrightarrow> 0x80 \<le> b \<and> b \<le> 0xBF"

fun decode_rune :: "nat list \<Rightarrow> (nat \<times> nat) option" where
  "decode_rune [] = None"
| "decode_rune (a # r) =
    (if a < 0x80 then Some (a, 1)
     else if 0xC2 \<le> a \<and> a \<le> 0xDF then
       (case r of b # _ \<Rightarrow> if cont b then Some ((a - 0xC0) * 64 + (b - 0x80), 2) else None | _ \<Rightarrow> None)
     else if 0xE0 \<le> a \<and> a \<le> 0xEF then
       (case r of b # c # _ \<Rightarrow>
          if (if a = 0xE0 then 0xA0 \<le> b \<and> b \<le> 0xBF else if a = 0xED then 0x80 \<le> b \<and> b \<le> 0x9F else cont b) \<and> cont c
          then Some ((a - 0xE0) * 4096 + (b - 0x80) * 64 + (c - 0x80), 3) else None
        | _ \<Rightarrow> None)
     else if 0xF0 \<le> a \<and> a \<le> 0xF4 then
       (case r of b # c # d # _ \<Rightarrow>
          if (if a = 0xF0 then 0x90 \<le> b \<and> b \<le> 0xBF else if a = 0xF4 then 0x80 \<le> b \<and> b \<le> 0x8F else cont b) \<and> cont c \<and> cont d
          then Some ((a - 0xF0) * 262144 + (b - 0x80) * 4096 + (c - 0x80) * 64 + (d - 0x80), 4) else None
        | _ \<Rightarrow> None)
     else None)"

definition byte_of :: "char \<Rightarrow> nat" where
  "byte_of c = of_char c"

definition isControl :: "nat \<Rightarrow> bool" where
  "isControl r \<longleftrightarrow> r < 0x20 \<or> 0x7F \<le> r \<and> r < 0xA0"

lemma decode_rune_size: "decode_rune bs = Some (r, n) \<Longrightarrow> 0 < n \<and> n \<le> length bs"
  by (cases bs) (auto split: if_splits list.splits)

text \<open>\<open>utf8.Valid\<close> and the loop of \<open>validateSecret\<close> over the runes.\<close>

function utf8_valid :: "nat list \<Rightarrow> bool" where
  "utf8_valid bs = (if bs = [] then True else (case decode_rune bs of
     None \<Rightarrow> False | Some (_, n) \<Rightarrow> utf8_valid (drop n bs)))"
  by pat_completeness auto
termination
  by (relation "measure length") (auto dest: decode_rune_size)

function has_control :: "nat list \<Rightarrow> bool" where
  "has_control bs = (if bs = [] then False else (case decode_rune bs of
     None \<Rightarrow> has_control (drop 1 bs)
   | Some (r, n) \<Rightarrow> isControl r \<or> has_control (drop n bs)))"
  by pat_completeness auto
termination
  by (relation "measure length") (auto dest: decode_rune_size simp: neq_Nil_conv)

declare utf8_valid.simps [simp del] has_control.simps [simp del]

definition validateSecret :: "string \<Rightarrow> vault_error + string" where
  "validateSecret secret = (let clean = trim_space secret; bs = map byte_of clean in
     if clean = [] \<or> maxSecretLen < length clean \<or> \<not> utf8_valid bs then Inl ErrInvalidSecret
     else if has_control bs then Inl ErrInvalidSecret
     else Inr clean)"

section \<open>Keys and entries\<close>

definition loadKey :: "Vault \<Rightarrow> vault_io \<Rightarrow> vault_error + string" where
  "loadKey v io = (if io_ctx_err io then Inl ErrContext else (case v_keys v of
     None \<Rightarrow> Inl ErrVaultLocked
   | Some src \<Rightarrow> (case mk_Load src of
       None \<Rightarrow> Inl ErrVaultLocked
     | Some loaded \<Rightarrow> if length loaded \<noteq> 32 then Inl ErrInvalidKey else Inr loaded)))"

definition additionalData :: "string \<Rightarrow> string" where
  "additionalData provider = ''version=1;provider='' @ provider"

definition encrypt :: "Vault \<Rightarrow> vault_io \<Rightarrow> string \<Rightarrow> string \<Rightarrow> string \<Rightarrow> vault_error + encryptedEntry" where
  "encrypt v io key provider plaintext =
    (if length key \<noteq> 32 then Inl ErrInvalidKey
     else (case io_nonce io of
       None \<Rightarrow> Inl ErrOther
     | Some nonce \<Rightarrow> Inr \<lparr>ee_Nonce = nonce, ee_Ciphertext = v_seal v key nonce plaintext (additionalData provider),
         ee_Revision = 0, ee_UpdatedAt = []\<rparr>))"

definition decrypt :: "Vault \<Rightarrow> string \<Rightarrow> string \<Rightarrow> encryptedEntry \<Rightarrow> string option" where
  "decrypt v key provider entry =
    (if length key \<noteq> 32 then None
     else if length (ee_Nonce entry) \<noteq> nonceSize \<or> length (ee_Ciphertext entry) < overhead then None
     else v_open v key (ee_Nonce entry) (ee_Ciphertext entry) (additionalData provider))"

definition authenticateEntries :: "Vault \<Rightarrow> string \<Rightarrow> (string, encryptedEntry) gomap \<Rightarrow> bool" where
  "authenticateEntries v key entries = list_all (\<lambda>(p, e). decrypt v key p e \<noteq> None) entries"

section \<open>The file\<close>

definition entry_valid :: "Vault \<Rightarrow> string \<times> encryptedEntry \<Rightarrow> bool" where
  "entry_valid v pe = (case pe of (p, e) \<Rightarrow>
     allowedProvider p \<and> ee_Revision e \<noteq> 0 \<and> v_time_ok v (ee_UpdatedAt e))"

text \<open>\<open>readFile\<close>: an error, or the file and whether it exists.\<close>

definition readFile :: "Vault \<Rightarrow> (vaultFile \<times> bool) option" where
  "readFile v = (case v_file v of
     Absent \<Rightarrow> Some (\<lparr>vf_Version = vaultVersion, vf_Entries = []\<rparr>, False)
   | Unreadable \<Rightarrow> None
   | Contents data \<Rightarrow>
       if data = [] then None else (case v_unmarshal v data of
         None \<Rightarrow> None
       | Some doc \<Rightarrow>
           let version = (case vd_Version doc of None \<Rightarrow> vaultVersion | Some n \<Rightarrow> n);
               entries = (case vd_Entries doc of NoMember \<Rightarrow> Some [] | NullMember \<Rightarrow> None | Member m \<Rightarrow> Some m) in
           if version \<noteq> vaultVersion then None else (case entries of
             None \<Rightarrow> None
           | Some m \<Rightarrow> if list_all (entry_valid v) m then Some (\<lparr>vf_Version = version, vf_Entries = m\<rparr>, True) else None)))"

text \<open>\<open>writeFile\<close>: every step may fail, a failed write with some of the bytes written; the deferred function
  removes the temporary file unless all steps went through, and its own failure is ignored. \<open>v_temps\<close> are
  the temporary files in the vault's directory, the one of the call first. Only \<open>replace\<close> changes the
  vault file; after it the name to remove is gone.\<close>

definition remove_temp :: "vault_io \<Rightarrow> Vault \<Rightarrow> Vault" where
  "remove_temp io u = (if io_fails io WRemove then u else u\<lparr>v_temps := tl (v_temps u)\<rparr>)"

definition writeFile :: "Vault \<Rightarrow> vault_io \<Rightarrow> vaultFile \<Rightarrow> Vault \<times> vault_error option" where
  "writeFile v io file = (let data = v_marshal v file; fails = io_fails io in
     if fails WMkdir then (v, Some ErrOther)
     else if fails WTemp then (v, Some ErrOther)
     else let temp = (\<lambda>content. v\<lparr>v_temps := content # v_temps v\<rparr>) in
     if fails WChmod then (remove_temp io (temp []), Some ErrOther)
     else if fails WWrite then (remove_temp io (temp (take (io_written io) data)), Some ErrOther)
     else if fails WSync \<or> fails WClose \<or> fails WReplace then (remove_temp io (temp data), Some ErrOther)
     else let v3 = (temp data)\<lparr>v_file := Contents data, v_temps := v_temps v\<rparr> in
     if fails WSyncDir then (v3, Some ErrOther)
     else (v3, None))"

section \<open>Operations\<close>

definition Get :: "Vault \<Rightarrow> vault_io \<Rightarrow> string \<Rightarrow> vault_error + string option" where
  "Get v io provider =
    (if \<not> allowedProvider provider then Inl ErrInvalidProvider
     else (case readFile v of
       None \<Rightarrow> Inl ErrVaultLocked
     | Some (file, exists) \<Rightarrow>
         if \<not> exists then Inr None
         else (case m_get (vf_Entries file) provider of
           None \<Rightarrow> Inr None
         | Some entry \<Rightarrow> (case loadKey v io of
             Inl e \<Rightarrow> Inl e
           | Inr key \<Rightarrow> (case decrypt v key provider entry of
               None \<Rightarrow> Inl ErrVaultLocked
             | Some plaintext \<Rightarrow> Inr (Some plaintext))))))"

definition revision_of :: "(string, encryptedEntry) gomap \<Rightarrow> string \<Rightarrow> 64 word" where
  "revision_of m p = (case m_get m p of None \<Rightarrow> 0 | Some e \<Rightarrow> ee_Revision e)"

definition Set :: "vault_io \<Rightarrow> string \<Rightarrow> string \<Rightarrow> Vault \<Rightarrow> Vault \<times> vault_error option" where
  "Set io provider secret v =
    (if \<not> allowedProvider provider then (v, Some ErrInvalidProvider)
     else (case validateSecret secret of
       Inl e \<Rightarrow> (v, Some e)
     | Inr clean \<Rightarrow> (case readFile v of
         None \<Rightarrow> (v, Some ErrVaultLocked)
       | Some (file, _) \<Rightarrow> (case loadKey v io of
           Inl e \<Rightarrow> (v, Some e)
         | Inr key \<Rightarrow>
             if \<not> authenticateEntries v key (vf_Entries file) then (v, Some ErrVaultLocked)
             else (case encrypt v io key provider clean of
               Inl e \<Rightarrow> (v, Some e)
             | Inr entry \<Rightarrow>
                 let entry' = entry\<lparr>ee_Revision := revision_of (vf_Entries file) provider + 1, ee_UpdatedAt := io_now io\<rparr> in
                 writeFile v io (file\<lparr>vf_Entries := m_set provider entry' (vf_Entries file)\<rparr>))))))"

definition Delete :: "vault_io \<Rightarrow> string \<Rightarrow> Vault \<Rightarrow> Vault \<times> vault_error option" where
  "Delete io provider v =
    (if \<not> allowedProvider provider then (v, Some ErrInvalidProvider)
     else (case readFile v of
       None \<Rightarrow> (v, Some ErrVaultLocked)
     | Some (file, exists) \<Rightarrow>
         if \<not> exists then (v, None)
         else (case loadKey v io of
           Inl e \<Rightarrow> (v, Some e)
         | Inr key \<Rightarrow>
             if \<not> authenticateEntries v key (vf_Entries file) then (v, Some ErrVaultLocked)
             else if m_get (vf_Entries file) provider = None then (v, None)
             else writeFile v io (file\<lparr>vf_Entries := m_del provider (vf_Entries file)\<rparr>))))"

definition providerStatuses :: "(string, encryptedEntry) gomap \<Rightarrow> ProviderStatus list" where
  "providerStatuses entries = map (\<lambda>p. \<lparr>ps_Provider = p, ps_Configured = (m_get entries p \<noteq> None)\<rparr>) allProviders"

text \<open>\<open>Status\<close>; the backend's name is asked of the key source before anything else, so a vault with no
  key source has no status (the call panics): none.\<close>

definition Status :: "Vault \<Rightarrow> vault_io \<Rightarrow> vault_snapshot option" where
  "Status v io = (case v_keys v of
     None \<Rightarrow> None
   | Some src \<Rightarrow>
     let snap = \<lparr>sn_Backend = mk_Backend src, sn_Available = False, sn_Locked = False, sn_Providers = providerStatuses []\<rparr> in
     Some (case readFile v of
       None \<Rightarrow> snap\<lparr>sn_Locked := True\<rparr>
     | Some (file, exists) \<Rightarrow>
         if \<not> exists then
           (case loadKey v io of
              Inl _ \<Rightarrow> snap\<lparr>sn_Available := False, sn_Locked := True\<rparr>
            | Inr _ \<Rightarrow> snap\<lparr>sn_Available := True, sn_Locked := False\<rparr>)
         else (case loadKey v io of
             Inl _ \<Rightarrow> snap\<lparr>sn_Locked := True\<rparr>
           | Inr key \<Rightarrow>
               if \<not> authenticateEntries v key (vf_Entries file) then snap\<lparr>sn_Locked := True\<rparr>
               else snap\<lparr>sn_Available := True, sn_Providers := providerStatuses (vf_Entries file)\<rparr>)))"

section \<open>What the library code promises\<close>

text \<open>
  AES-GCM opens what it sealed under the same key, nonce and additional data, and a sealed text is
  at least as long as the tag; a document the codec wrote reads back with the same entries; a map
  has one entry per key.
\<close>

definition codec_ok :: "Vault \<Rightarrow> bool" where
  "codec_ok v \<longleftrightarrow>
    (\<forall>k n x ad. length k = 32 \<longrightarrow> length n = nonceSize \<longrightarrow>
       v_open v k n (v_seal v k n x ad) ad = Some x \<and> overhead \<le> length (v_seal v k n x ad)) \<and>
    (\<forall>data doc m. v_unmarshal v data = Some doc \<longrightarrow> vd_Entries doc = Member m \<longrightarrow> m_wf m) \<and>
    (\<forall>f. list_all (entry_valid v) (vf_Entries f) \<longrightarrow> v_marshal v f \<noteq> [] \<and>
       (\<exists>m. v_unmarshal v (v_marshal v f) = Some \<lparr>vd_Version = Some (vf_Version f), vd_Entries = Member m\<rparr> \<and>
          map_of m = map_of (vf_Entries f)))"

text \<open>A call of \<open>Set\<close> that draws a full nonce and a parsable time, and whose revision does not wrap.\<close>

definition set_sane :: "vault_io \<Rightarrow> string \<Rightarrow> Vault \<Rightarrow> bool" where
  "set_sane io p v \<longleftrightarrow> (\<forall>n. io_nonce io = Some n \<longrightarrow> length n = nonceSize) \<and> v_time_ok v (io_now io) \<and>
     (\<forall>file ex. readFile v = Some (file, ex) \<longrightarrow> revision_of (vf_Entries file) p + 1 \<noteq> 0)"

text \<open>A call that meets no fault: allowed provider, valid secret, readable file, the right key, a nonce
  and a disk that takes the file.\<close>

definition set_clear :: "vault_io \<Rightarrow> string \<Rightarrow> string \<Rightarrow> Vault \<Rightarrow> bool" where
  "set_clear io p secret v \<longleftrightarrow> allowedProvider p \<and> validateSecret secret = Inr (trim_space secret) \<and>
     io_nonce io \<noteq> None \<and> (\<forall>w. \<not> io_fails io w) \<and>
     (case (readFile v, loadKey v io) of
        (Some (file, _), Inr key) \<Rightarrow> authenticateEntries v key (vf_Entries file)
      | _ \<Rightarrow> False)"

definition same_codec :: "Vault \<Rightarrow> Vault \<Rightarrow> bool" where
  "same_codec v v' \<longleftrightarrow> v_keys v' = v_keys v \<and> v_seal v' = v_seal v \<and> v_open v' = v_open v \<and>
     v_marshal v' = v_marshal v \<and> v_unmarshal v' = v_unmarshal v \<and> v_time_ok v' = v_time_ok v"

lemma same_codecD:
  assumes "same_codec v v'"
  shows "codec_ok v' = codec_ok v" "loadKey v' = loadKey v" "decrypt v' = decrypt v"
    "entry_valid v' = entry_valid v" "authenticateEntries v' = authenticateEntries v"
proof -
  have ev: "entry_valid v' = entry_valid v"
    using assms by (auto simp: same_codec_def fun_eq_iff entry_valid_def)
  then show "entry_valid v' = entry_valid v" .
  show "codec_ok v' = codec_ok v" using assms ev by (simp add: same_codec_def codec_ok_def)
  show "loadKey v' = loadKey v" using assms by (simp add: same_codec_def loadKey_def fun_eq_iff)
  show d: "decrypt v' = decrypt v" using assms by (simp add: same_codec_def decrypt_def fun_eq_iff)
  show "authenticateEntries v' = authenticateEntries v" by (simp add: d authenticateEntries_def fun_eq_iff)
qed

definition replaces :: "vault_io \<Rightarrow> bool" where
  "replaces io = list_all (\<lambda>w. \<not> io_fails io w) [WMkdir, WTemp, WChmod, WWrite, WSync, WClose, WReplace]"

lemma same_codec_refl [simp]: "same_codec v v"
  by (simp add: same_codec_def)

lemma writeFile_failed:
  "\<not> replaces io \<Longrightarrow> writeFile v io fl = (v', r) \<Longrightarrow>
     r = Some ErrOther \<and> (v' = v \<or> io_fails io WRemove \<and> (\<exists>t. v' = v\<lparr>v_temps := t # v_temps v\<rparr>))"
  by (auto simp: writeFile_def remove_temp_def Let_def replaces_def split: if_split_asm)

lemma writeFile_replaced:
  "replaces io \<Longrightarrow> writeFile v io fl = (v', r) \<Longrightarrow>
     v' = v\<lparr>v_file := Contents (v_marshal v fl)\<rparr> \<and>
     r = (if io_fails io WSyncDir then Some ErrOther else None)"
  by (simp add: writeFile_def Let_def replaces_def split: if_split_asm)

lemma readFile_written:
  assumes "codec_ok v" "same_codec v v'" "v_file v' = Contents (v_marshal v file)"
    "vf_Version file = vaultVersion" "list_all (entry_valid v) (vf_Entries file)"
  obtains m where "readFile v' = Some (\<lparr>vf_Version = vaultVersion, vf_Entries = m\<rparr>, True)"
    "map_of m = map_of (vf_Entries file)" "m_wf m"
proof -
  from assms(1,5) obtain m where m: "v_marshal v file \<noteq> []" "map_of m = map_of (vf_Entries file)"
      "v_unmarshal v (v_marshal v file) = Some \<lparr>vd_Version = Some (vf_Version file), vd_Entries = Member m\<rparr>"
    unfolding codec_ok_def by blast
  have wf: "m_wf m" using assms(1) m(3) unfolding codec_ok_def by (metis vault_document.select_convs(2))
  have "entry_valid v (p, e)" if "(p, e) \<in> set m" for p e
  proof -
    from that wf have "map_of (vf_Entries file) p = Some e" using m(2) by (metis map_of_is_SomeI)
    with assms(5) show ?thesis by (rule list_all_getD)
  qed
  then have "list_all (entry_valid v') m" using same_codecD(4) [OF assms(2)] by (auto simp: list_all_iff)
  with m assms(2-4) have "readFile v' = Some (\<lparr>vf_Version = vaultVersion, vf_Entries = m\<rparr>, True)"
    by (simp add: readFile_def same_codec_def)
  with m(2) wf that show ?thesis by blast
qed

lemma readFile_valid:
  assumes "readFile v = Some (file, ex)"
  shows "vf_Version file = vaultVersion" "list_all (entry_valid v) (vf_Entries file)"
  using assms
  by (auto simp: readFile_def Let_def split: file_state.splits if_splits option.splits entries_member.splits)

text \<open>A \<open>Set\<close> that reaches the disk has a clean secret, has opened every entry with the key, and
  writes the file with the one new entry.\<close>

lemma Set_cases:
  assumes "Set io p secret v = (v', r)"
  obtains "v' = v" "r \<noteq> None"
  | fl ex key nonce where "allowedProvider p" "validateSecret secret = Inr (trim_space secret)"
      "readFile v = Some (fl, ex)" "loadKey v io = Inr key" "length key = 32"
      "authenticateEntries v key (vf_Entries fl)" "io_nonce io = Some nonce"
      "writeFile v io (fl\<lparr>vf_Entries := m_set p \<lparr>ee_Nonce = nonce,
         ee_Ciphertext = v_seal v key nonce (trim_space secret) (additionalData p),
         ee_Revision = revision_of (vf_Entries fl) p + 1, ee_UpdatedAt = io_now io\<rparr> (vf_Entries fl)\<rparr>) = (v', r)"
proof (cases "v' = v \<and> r \<noteq> None")
  case True
  then show ?thesis using that(1) by blast
next
  case False
  have len: "length key = 32" if "loadKey v io = Inr key" for key
    using that by (auto simp: loadKey_def split: if_splits option.splits)
  have vs: "clean = trim_space secret" if "validateSecret secret = Inr clean" for clean
    using that by (auto simp: validateSecret_def Let_def split: if_splits)
  from False assms obtain fl ex clean key nonce where "allowedProvider p" "validateSecret secret = Inr clean"
      "readFile v = Some (fl, ex)" "loadKey v io = Inr key" "authenticateEntries v key (vf_Entries fl)"
      "io_nonce io = Some nonce"
      "writeFile v io (fl\<lparr>vf_Entries := m_set p \<lparr>ee_Nonce = nonce,
         ee_Ciphertext = v_seal v key nonce clean (additionalData p),
         ee_Revision = revision_of (vf_Entries fl) p + 1, ee_UpdatedAt = io_now io\<rparr> (vf_Entries fl)\<rparr>) = (v', r)"
    by (auto simp: Set_def encrypt_def Let_def len split: if_split_asm sum.split_asm option.split_asm prod.split_asm)
  with vs [of clean] len [of key] that(2) show ?thesis by simp
qed

lemma same_codec_upd [simp]:
  "same_codec v (v\<lparr>v_temps := t\<rparr>)" "same_codec v (v\<lparr>v_file := c\<rparr>)"
  by (simp_all add: same_codec_def)

lemma writeFile_codec: "writeFile v io fl = (v', r) \<Longrightarrow> same_codec v v'"
  using writeFile_failed [of io v fl v' r] writeFile_replaced [of io v fl v' r] same_codec_upd
  by (cases "replaces io") (auto simp del: same_codec_upd)

lemma Set_codec: "Set io p secret v = (v', r) \<Longrightarrow> same_codec v v'"
  by (erule Set_cases) (auto dest: writeFile_codec)

lemma Delete_cases:
  assumes "Delete io p v = (v', r)"
  obtains "v' = v" "r = None \<Longrightarrow> Get v io' p = Inr None"
  | fl key where "allowedProvider p" "readFile v = Some (fl, True)" "loadKey v io = Inr key"
      "authenticateEntries v key (vf_Entries fl)" "m_get (vf_Entries fl) p \<noteq> None"
      "writeFile v io (fl\<lparr>vf_Entries := m_del p (vf_Entries fl)\<rparr>) = (v', r)"
  using assms
  by (auto simp: Delete_def Get_def split: if_split_asm sum.split_asm option.split_asm prod.split_asm)

lemma Delete_codec: "Delete io p v = (v', r) \<Longrightarrow> same_codec v v'"
  by (erule Delete_cases) (auto dest: writeFile_codec)

lemma Get_of_file:
  assumes "readFile v = Some (fl, True)" "loadKey v io = Inr key" "allowedProvider p"
  shows "Get v io p = (case m_get (vf_Entries fl) p of None \<Rightarrow> Inr None
    | Some e \<Rightarrow> (case decrypt v key p e of None \<Rightarrow> Inl ErrVaultLocked | Some x \<Rightarrow> Inr (Some x)))"
  using assms by (simp add: Get_def split: option.splits)

lemma Get_same_entry:
  assumes "readFile v = Some (fl, ex)" "ex \<or> vf_Entries fl = []" "readFile v' = Some (fl', True)" "same_codec v v'"
    "m_get (vf_Entries fl') q = m_get (vf_Entries fl) q"
  shows "Get v' io q = Get v io q"
  using assms same_codecD(2,3) [OF assms(4)] by (auto simp: Get_def split: option.splits sum.splits)

lemma readFile_absent: "readFile v = Some (fl, False) \<Longrightarrow> vf_Entries fl = []"
  by (auto simp: readFile_def Let_def split: file_state.splits if_splits option.splits entries_member.splits)

lemma list_all_m_set_valid:
  "list_all (entry_valid v) m \<Longrightarrow> entry_valid v (p, e) \<Longrightarrow> list_all (entry_valid v) (m_set p e m)"
  by simp

text \<open>The round trip of a \<open>Set\<close> whose file reached the disk, whether or not the directory sync failed.\<close>

lemma Set_written:
  assumes "codec_ok v" "set_sane io p v" "Set io p secret v = (v', r)" "r = None \<or> v_file v' \<noteq> v_file v"
    "\<not> io_ctx_err io'"
  shows "Get v' io' p = Inr (Some (trim_space secret))" "q \<noteq> p \<Longrightarrow> Get v' io' q = Get v io' q"
proof -
  from assms(3,4) obtain fl ex key nonce e where p: "allowedProvider p" "readFile v = Some (fl, ex)"
      "loadKey v io = Inr key" "length key = 32" "io_nonce io = Some nonce"
    and e: "e = \<lparr>ee_Nonce = nonce, ee_Ciphertext = v_seal v key nonce (trim_space secret) (additionalData p),
         ee_Revision = revision_of (vf_Entries fl) p + 1, ee_UpdatedAt = io_now io\<rparr>"
    and w: "writeFile v io (fl\<lparr>vf_Entries := m_set p e (vf_Entries fl)\<rparr>) = (v', r)"
    by (elim Set_cases) auto
  let ?fl = "fl\<lparr>vf_Entries := m_set p e (vf_Entries fl)\<rparr>"
  have sc: "same_codec v v'" using w by (rule writeFile_codec)
  have "replaces io"
  proof (rule ccontr)
    assume "\<not> replaces io"
    from writeFile_failed [OF this w] assms(4) show False by auto
  qed
  from writeFile_replaced [OF this w] have fc: "v_file v' = Contents (v_marshal v ?fl)" by simp
  have "entry_valid v (p, e)"
    using assms(2) p e by (auto simp: entry_valid_def set_sane_def)
  then have "list_all (entry_valid v) (vf_Entries ?fl)" using readFile_valid(2) [OF p(2)] by simp
  moreover have "vf_Version ?fl = vaultVersion" using readFile_valid(1) [OF p(2)] by simp
  ultimately obtain m where m: "readFile v' = Some (\<lparr>vf_Version = vaultVersion, vf_Entries = m\<rparr>, True)"
      "map_of m = map_of (vf_Entries ?fl)"
    using readFile_written [OF assms(1) sc fc] by metis
  have key: "loadKey v' io' = Inr key"
    using p(3) assms(5) same_codecD(2) [OF sc] by (auto simp: loadKey_def split: if_splits option.splits)
  have "length nonce = nonceSize" using assms(2) p(5) by (simp add: set_sane_def)
  with assms(1) p(4) e have "decrypt v key p e = Some (trim_space secret)"
    by (auto simp: decrypt_def codec_ok_def not_less)
  then have "decrypt v' key p e = Some (trim_space secret)" using same_codecD(3) [OF sc] by simp
  with Get_of_file [OF m(1) key p(1)] m(2) show "Get v' io' p = Inr (Some (trim_space secret))" by simp
  assume "q \<noteq> p"
  with m(2) have "m_get m q = m_get (vf_Entries fl) q" by simp
  then show "Get v' io' q = Get v io' q"
    using Get_same_entry [OF p(2) _ m(1) sc, of q io'] readFile_absent [of v fl] p(2) by (cases ex) auto
qed

lemma Delete_written:
  assumes "codec_ok v" "Delete io p v = (v', r)" "r = None \<or> v_file v' \<noteq> v_file v" "allowedProvider p"
  shows "Get v' io' p = Inr None" "q \<noteq> p \<Longrightarrow> Get v' io' q = Get v io' q"
proof -
  have "Get v' io' p = Inr None \<and> (q \<noteq> p \<longrightarrow> Get v' io' q = Get v io' q)"
    using assms(2)
  proof (cases rule: Delete_cases [where io' = io'])
    case 1
    with assms(3,4) show ?thesis by auto
  next
    case (2 fl key)
    let ?fl = "fl\<lparr>vf_Entries := m_del p (vf_Entries fl)\<rparr>"
    have sc: "same_codec v v'" using 2(6) by (rule writeFile_codec)
    have "replaces io"
    proof (rule ccontr)
      assume "\<not> replaces io"
      from writeFile_failed [OF this 2(6)] assms(3) show False by auto
    qed
    from writeFile_replaced [OF this 2(6)] have "v_file v' = Contents (v_marshal v ?fl)" by simp
    moreover have "list_all (entry_valid v) (vf_Entries ?fl)" "vf_Version ?fl = vaultVersion"
      using readFile_valid [OF 2(2)] by simp_all
    ultimately obtain m where m: "readFile v' = Some (\<lparr>vf_Version = vaultVersion, vf_Entries = m\<rparr>, True)"
        "map_of m = map_of (vf_Entries ?fl)"
      using readFile_written [OF assms(1) sc] by metis
    have "q \<noteq> p \<longrightarrow> Get v' io' q = Get v io' q"
      using Get_same_entry [OF 2(2) _ m(1) sc, of q io'] m(2) by simp
    moreover have "Get v' io' p = Inr None" using m 2(1) by (simp add: Get_def)
    ultimately show ?thesis by simp
  qed
  then show "Get v' io' p = Inr None" "q \<noteq> p \<Longrightarrow> Get v' io' q = Get v io' q" by simp_all
qed

text \<open>What any write leaves on the disk.\<close>

lemma writeFile_disk:
  assumes "writeFile v io fl = (v', r)"
  shows "(v_file v' = v_file v \<or> v_file v' = Contents (v_marshal v fl)) \<and>
    (r \<noteq> None \<longrightarrow> v_file v' = v_file v \<or> replaces io \<and> io_fails io WSyncDir) \<and>
    (v_temps v' = v_temps v \<or> r \<noteq> None \<and> io_fails io WRemove \<and> (\<exists>t. v_temps v' = t # v_temps v))"
  using writeFile_failed [OF _ assms] writeFile_replaced [OF _ assms] by (cases "replaces io") auto

lemma Set_succeeds:
  assumes "set_clear io p secret v"
  shows "snd (Set io p secret v) = None"
proof -
  from assms obtain fl ex key nonce where c: "allowedProvider p" "validateSecret secret = Inr (trim_space secret)"
      "readFile v = Some (fl, ex)" "loadKey v io = Inr key" "authenticateEntries v key (vf_Entries fl)"
      "io_nonce io = Some nonce" "\<And>w. \<not> io_fails io w"
    by (auto simp: set_clear_def split: option.splits sum.splits prod.splits)
  have "length key = 32" using c(4) by (auto simp: loadKey_def split: if_splits option.splits)
  then show ?thesis using c by (simp add: Set_def encrypt_def Let_def writeFile_def)
qed

section \<open>The store interface and its client\<close>

text \<open>
  \<open>secretstore.Store\<close> as \<open>cmd/provider_credentials.go\<close> uses it: a \<open>Get\<close> and a \<open>Set\<close>, arguments of the
  client's functions. The key file of older versions is a path and the file there.
\<close>

record key_file =
  kf_path :: string
  kf_file :: file_state

definition keyFilePath :: "(string \<Rightarrow> string) \<Rightarrow> string option \<Rightarrow> (string list \<Rightarrow> string) \<Rightarrow> string" where
  "keyFilePath env UserConfigDir join_path =
    (let p = trim_space (env ''PROXY_KEY_FILE'') in
     if p \<noteq> [] then p else (case UserConfigDir of
       None \<Rightarrow> []
     | Some dir \<Rightarrow> if trim_space dir = [] then [] else join_path [dir, ''calvoproxy'', ''openrouter.key'']))"

definition vaultFilePath :: "(string \<Rightarrow> string) \<Rightarrow> string option \<Rightarrow> (string list \<Rightarrow> string) \<Rightarrow> string" where
  "vaultFilePath env UserConfigDir join_path =
    (let p = trim_space (env ''PROXY_VAULT_FILE'') in
     if p \<noteq> [] then p else (case UserConfigDir of
       None \<Rightarrow> []
     | Some dir \<Rightarrow> if trim_space dir = [] then [] else join_path [dir, ''calvoproxy'', ''providers.vault'']))"

definition storedAPIKey :: "key_file \<Rightarrow> string" where
  "storedAPIKey kf = (if kf_path kf = [] then [] else (case kf_file kf of
     Contents data \<Rightarrow> trim_space data | _ \<Rightarrow> []))"

text \<open>\<open>deleteAPIKey\<close>: the file and whether an error is returned; \<open>remove_fails\<close> is the outcome of
  \<open>os.Remove\<close> on a file that exists.\<close>

definition deleteAPIKey :: "bool \<Rightarrow> key_file \<Rightarrow> key_file \<times> bool" where
  "deleteAPIKey remove_fails kf = (if kf_path kf = [] then (kf, False)
     else if kf_file kf = Absent then (kf, False)
     else if remove_fails then (kf, True)
     else (kf\<lparr>kf_file := Absent\<rparr>, False))"

definition migrateLegacyOpenRouterKey ::
  "('s \<Rightarrow> 'e \<Rightarrow> string \<Rightarrow> vault_error + string option) \<Rightarrow>
   ('e \<Rightarrow> string \<Rightarrow> string \<Rightarrow> 's \<Rightarrow> 's \<times> vault_error option) \<Rightarrow>
   'e \<Rightarrow> bool \<Rightarrow> 's \<Rightarrow> key_file \<Rightarrow> 's \<times> key_file" where
  "migrateLegacyOpenRouterKey get put env remove_fails s kf =
    (let legacy = storedAPIKey kf in
     if legacy = [] then (s, kf)
     else (case get s env ProviderOpenRouter of
       Inl _ \<Rightarrow> (s, kf)
     | Inr (Some current) \<Rightarrow>
         if current \<noteq> legacy then (s, kf) else (s, fst (deleteAPIKey remove_fails kf))
     | Inr None \<Rightarrow>
         (case put env ProviderOpenRouter legacy s of
            (s', Some _) \<Rightarrow> (s', kf)
          | (s', None) \<Rightarrow>
              if get s' env ProviderOpenRouter = Inr (Some legacy)
              then (s', fst (deleteAPIKey remove_fails kf)) else (s', kf))))"

text \<open>\<open>storeManagedOpenRouterKey\<close> after the store is open: whether it reports success.\<close>

definition storeManagedOpenRouterKey ::
  "('s \<Rightarrow> 'e \<Rightarrow> string \<Rightarrow> vault_error + string option) \<Rightarrow>
   ('e \<Rightarrow> string \<Rightarrow> string \<Rightarrow> 's \<Rightarrow> 's \<times> vault_error option) \<Rightarrow>
   'e \<Rightarrow> string \<Rightarrow> 's \<Rightarrow> 's \<times> bool" where
  "storeManagedOpenRouterKey get put env key s =
    (let key = trim_space key in
     if key = [] then (s, False)
     else (case put env ProviderOpenRouter key s of
        (s', Some _) \<Rightarrow> (s', False)
      | (s', None) \<Rightarrow> (s', get s' env ProviderOpenRouter = Inr (Some key))))"

text \<open>\<open>initializeManagedCredentials\<close> on a path that exists: a locked vault is left alone, an open one takes
  the legacy key.\<close>

definition initializeManagedCredentials ::
  "string \<Rightarrow> vault_io \<Rightarrow> bool \<Rightarrow> Vault \<Rightarrow> key_file \<Rightarrow> (Vault \<times> key_file) option" where
  "initializeManagedCredentials path io remove_fails v kf =
    (if path = [] then None
     else (case Status v io of
       None \<Rightarrow> None
     | Some snap \<Rightarrow>
         if sn_Locked snap then Some (v, kf)
         else Some (migrateLegacyOpenRouterKey Get Set io remove_fails v kf)))"

definition deleteManagedOpenRouterKey ::
  "string \<Rightarrow> vault_io \<Rightarrow> bool \<Rightarrow> Vault \<Rightarrow> key_file \<Rightarrow> Vault \<times> key_file \<times> bool" where
  "deleteManagedOpenRouterKey path io remove_fails v kf =
    (case initializeManagedCredentials path io remove_fails v kf of
       None \<Rightarrow> (v, kf, False)
     | Some (v1, kf1) \<Rightarrow> (case Delete io ProviderOpenRouter v1 of (v2, r) \<Rightarrow> (v2, kf1, r = None)))"

text \<open>\<open>storeAPIKey\<close>: the temporary file is written and closed, the target removed, then the rename; each
  of the four may fail.\<close>

definition storeAPIKey :: "(write_step \<Rightarrow> bool) \<Rightarrow> string \<Rightarrow> key_file \<Rightarrow> key_file \<times> bool" where
  "storeAPIKey fails key kf = (let key = trim_space key in
     if kf_path kf = [] then (kf, False)
     else if fails WMkdir \<or> fails WTemp \<or> fails WWrite \<or> fails WClose then (kf, False)
     else let kf1 = kf\<lparr>kf_file := Absent\<rparr> in
     if fails WReplace then (kf1, False)
     else (kf1\<lparr>kf_file := Contents (key @ [CHR 0x0A])\<rparr>, True))"

definition maskKey :: "string \<Rightarrow> string" where
  "maskKey k = (let k = trim_space k in
     if length k \<le> 12 then ''****''
     else take 8 k @ [CHR 0xE2, CHR 0x80, CHR 0xA6] @ drop (length k - 4) k)"

definition looksLikeOpenRouterKey :: "string \<Rightarrow> bool" where
  "looksLikeOpenRouterKey k = (let k = trim_space k in has_prefix k ''sk-or-'' \<and> 20 \<le> length k)"

definition providerFromName :: "string \<Rightarrow> string option" where
  "providerFromName provider = (let p = to_lower (trim_space provider) in
     if allowedProvider p then Some p else None)"

definition managedProviderCredential ::
  "('s \<Rightarrow> 'e \<Rightarrow> string \<Rightarrow> vault_error + string option) \<Rightarrow> 'e \<Rightarrow> 's option \<Rightarrow> string \<Rightarrow> string option" where
  "managedProviderCredential get env store provider = (case store of
     None \<Rightarrow> None
   | Some s \<Rightarrow> (case get s env provider of Inl _ \<Rightarrow> None | Inr secret \<Rightarrow> secret))"

definition managedProviderCredentialByName ::
  "('s \<Rightarrow> 'e \<Rightarrow> string \<Rightarrow> vault_error + string option) \<Rightarrow> 'e \<Rightarrow> 's option \<Rightarrow> string \<Rightarrow> string option" where
  "managedProviderCredentialByName get env store provider = (case providerFromName provider of
     None \<Rightarrow> None | Some p \<Rightarrow> managedProviderCredential get env store p)"

locale credential_store =
  fixes inv :: "'s \<Rightarrow> bool"
    and get :: "'s \<Rightarrow> 'e \<Rightarrow> string \<Rightarrow> vault_error + string option"
    and put :: "'e \<Rightarrow> string \<Rightarrow> string \<Rightarrow> 's \<Rightarrow> 's \<times> vault_error option"
    and live :: "'e \<Rightarrow> bool"
    and sane :: "'e \<Rightarrow> string \<Rightarrow> 's \<Rightarrow> bool"
    and clear :: "'e \<Rightarrow> string \<Rightarrow> string \<Rightarrow> 's \<Rightarrow> bool"
  assumes put_inv: "inv s \<Longrightarrow> inv (fst (put e p x s))"
    and put_clear: "inv s \<Longrightarrow> clear e p x s \<Longrightarrow> snd (put e p x s) = None"
    and get_put: "inv s \<Longrightarrow> sane e p s \<Longrightarrow> put e p x s = (s', None) \<Longrightarrow> live e' \<Longrightarrow>
      get s' e' p = Inr (Some (trim_space x))"
    and get_other: "inv s \<Longrightarrow> sane e p s \<Longrightarrow> put e p x s = (s', None) \<Longrightarrow> live e' \<Longrightarrow> q \<noteq> p \<Longrightarrow>
      get s' e' q = get s e' q"
begin

text \<open>The key file goes away only when the store returns the key that was in it.\<close>

lemma migration_safe:
  assumes "migrateLegacyOpenRouterKey get put e rf s kf = (s', kf')" "kf' \<noteq> kf"
  shows "get s' e ProviderOpenRouter = Inr (Some (storedAPIKey kf)) \<and> storedAPIKey kf \<noteq> [] \<and> kf_file kf' = Absent"
  using assms
  by (auto simp: migrateLegacyOpenRouterKey_def deleteAPIKey_def Let_def
      split: if_split_asm sum.split_asm option.split_asm prod.split_asm)

text \<open>A migration that meets no fault moves the key, and touches no other provider's.\<close>

lemma migration_complete:
  assumes "inv s" "live e" "sane e ProviderOpenRouter s" "clear e ProviderOpenRouter (storedAPIKey kf) s"
    "get s e ProviderOpenRouter = Inr None" "storedAPIKey kf \<noteq> []"
    "migrateLegacyOpenRouterKey get put e False s kf = (s', kf')"
  shows "inv s' \<and> get s' e ProviderOpenRouter = Inr (Some (storedAPIKey kf)) \<and> kf_file kf' = Absent \<and>
    (q \<noteq> ProviderOpenRouter \<longrightarrow> get s' e q = get s e q)"
proof -
  let ?k = "storedAPIKey kf"
  obtain s1 where s1: "put e ProviderOpenRouter ?k s = (s1, None)"
    using put_clear [OF assms(1,4)] by (metis prod.collapse)
  have "trim_space ?k = ?k" by (simp add: storedAPIKey_def trim_space_def [of "[]"] split: file_state.splits)
  with get_put [OF assms(1,3) s1 assms(2)] have g: "get s1 e ProviderOpenRouter = Inr (Some ?k)" by simp
  have kf: "kf_path kf \<noteq> [] \<and> kf_file kf \<noteq> Absent"
    using assms(6) by (auto simp: storedAPIKey_def split: if_splits file_state.splits)
  have "s' = s1" "kf_file kf' = Absent"
    using assms(5-7) s1 g kf by (auto simp: migrateLegacyOpenRouterKey_def deleteAPIKey_def Let_def)
  with g put_inv [OF assms(1)] get_other [OF assms(1,3) s1 assms(2)] show ?thesis
    by (metis s1 fst_conv)
qed

lemma stored_key_verified:
  assumes "storeManagedOpenRouterKey get put e key s = (s', True)"
  shows "get s' e ProviderOpenRouter = Inr (Some (trim_space key)) \<and> trim_space key \<noteq> []"
  using assms
  by (auto simp: storeManagedOpenRouterKey_def Let_def split: if_split_asm option.split_asm prod.split_asm)

end

definition ctx_live :: "vault_io \<Rightarrow> bool" where
  "ctx_live io \<longleftrightarrow> \<not> io_ctx_err io"

interpretation vault_store: credential_store codec_ok Get Set ctx_live set_sane set_clear
proof
  fix v e p x v' e' q
  assume inv: "codec_ok v"
  show "codec_ok (fst (Set e p x v))"
    using inv same_codecD(1) [OF Set_codec [of e p x v]] by (metis prod.collapse)
  show "snd (Set e p x v) = None" if "set_clear e p x v"
    using that by (rule Set_succeeds)
  show "Get v' e' p = Inr (Some (trim_space x))"
    if "set_sane e p v" "Set e p x v = (v', None)" "ctx_live e'"
    using Set_written(1) [OF inv that(1,2)] that(3) by (simp add: ctx_live_def)
  show "Get v' e' q = Get v e' q"
    if "set_sane e p v" "Set e p x v = (v', None)" "ctx_live e'" "q \<noteq> p"
    using Set_written(2) [OF inv that(1,2) _ _ that(4)] that(3) by (simp add: ctx_live_def)
qed

text \<open>A snapshot that says available is not locked, and a provider it lists as configured has a
  credential that opens.\<close>

lemma status_honest:
  assumes "Status v io = Some snap" "sn_Available snap" "ps \<in> set (sn_Providers snap)"
  shows "\<not> sn_Locked snap \<and> (if ps_Configured ps then \<exists>x. Get v io (ps_Provider ps) = Inr (Some x)
    else Get v io (ps_Provider ps) = Inr None)"
proof -
  have al: "p \<in> set allProviders \<Longrightarrow> allowedProvider p" for p
    by (auto simp: allProviders_def allowedProvider_def)
  have auth: "decrypt v key p e \<noteq> None"
    if "authenticateEntries v key m" "m_get m p = Some e" for key m p e
    using list_all_getD [OF that(1) [unfolded authenticateEntries_def] that(2)] by simp
  from assms show ?thesis
    by (auto simp: Status_def Let_def providerStatuses_def Get_def al
        split: option.split_asm prod.split_asm sum.split_asm if_split_asm dest: auth split: option.split)
qed

text \<open>Storing and reading the key file; a rename that fails after the old file was removed loses it.\<close>

lemma trim_space_snoc: "is_space c \<Longrightarrow> trim_space (s @ [c]) = trim_space s"
  by (cases "\<forall>x\<in>set s. is_space x") (auto simp: trim_space_def dropWhile_append dropWhile_eq_Nil_conv [THEN iffD2])

lemma storeAPIKey_roundtrip:
  "storeAPIKey fails key kf = (kf', True) \<Longrightarrow> storedAPIKey kf' = trim_space key"
proof -
  assume "storeAPIKey fails key kf = (kf', True)"
  then have "storedAPIKey kf' = trim_space (trim_space key @ [CHR 0x0A])"
    by (auto simp: storeAPIKey_def storedAPIKey_def Let_def split: if_splits)
  also have "\<dots> = trim_space (trim_space key)"
    by (rule trim_space_snoc) (simp add: is_space_def)
  finally show ?thesis by simp
qed

lemma failed_rename_loses_key:
  "kf_path kf \<noteq> [] \<Longrightarrow> \<exists>fails. snd (storeAPIKey fails key kf) = False \<and> storedAPIKey (fst (storeAPIKey fails key kf)) = []"
  by (intro exI [of _ "\<lambda>w. w = WReplace"]) (simp add: storeAPIKey_def storedAPIKey_def Let_def)

lemma validateSecret_bounds:
  "validateSecret s = Inr c \<Longrightarrow> 0 < length c \<and> length c \<le> maxSecretLen \<and> trim_space c = c"
  by (auto simp: validateSecret_def Let_def split: if_splits)

lemma maskKey_hides: "length (maskKey k) \<le> 15"
  by (simp add: maskKey_def Let_def)

section \<open>The properties\<close>

text \<open>A vault over a sample codec, for the witnesses: the sealed text carries a tag of sixteen bytes, a
  document is the number of its fields.\<close>

definition sample_doc :: "vaultFile \<Rightarrow> int \<times> (string \<times> string \<times> string \<times> nat \<times> string) list" where
  "sample_doc f = (vf_Version f, map (\<lambda>(p, e). (p, ee_Nonce e, ee_Ciphertext e, unat (ee_Revision e), ee_UpdatedAt e)) (vf_Entries f))"

definition sample_undoc :: "int \<times> (string \<times> string \<times> string \<times> nat \<times> string) list \<Rightarrow> vault_document" where
  "sample_undoc d = \<lparr>vd_Version = Some (fst d), vd_Entries = Member (AList.clearjunk
     (map (\<lambda>(p, n, c, r, u). (p, \<lparr>ee_Nonce = n, ee_Ciphertext = c, ee_Revision = of_nat r, ee_UpdatedAt = u\<rparr>)) (snd d)))\<rparr>"

definition sample_vault :: Vault where
  "sample_vault = \<lparr>v_file = Absent, v_temps = [],
     v_keys = Some \<lparr>mk_Load = Some (replicate 32 CHR ''k''), mk_Backend = ''test''\<rparr>,
     v_seal = (\<lambda>k n x ad. replicate 16 CHR ''t'' @ x), v_open = (\<lambda>k n c ad. Some (drop 16 c)),
     v_marshal = (\<lambda>f. replicate (Suc (to_nat (sample_doc f))) CHR ''1''),
     v_unmarshal = (\<lambda>d. Some (sample_undoc (from_nat (length d - 1)))),
     v_time_ok = (\<lambda>t. t = ''2026-01-01T00:00:00Z'')\<rparr>"

definition sample_io :: vault_io where
  "sample_io = \<lparr>io_ctx_err = False, io_nonce = Some (replicate 12 CHR ''n''), io_fails = (\<lambda>w. False), io_written = 0,
     io_now = ''2026-01-01T00:00:00Z''\<rparr>"

lemma sample_undoc_doc:
  "\<exists>m. sample_undoc (sample_doc f) = \<lparr>vd_Version = Some (vf_Version f), vd_Entries = Member m\<rparr> \<and>
     map_of m = map_of (vf_Entries f)"
proof -
  have id: "map ((\<lambda>(p, n, c, r, u). (p, \<lparr>ee_Nonce = n, ee_Ciphertext = c, ee_Revision = of_nat r, ee_UpdatedAt = u\<rparr>)) \<circ>
      (\<lambda>(p, e). (p, ee_Nonce e, ee_Ciphertext e, unat (ee_Revision e), ee_UpdatedAt e))) xs = xs"
    for xs :: "(string \<times> encryptedEntry) list"
    by (rule map_idI) auto
  show ?thesis by (simp add: sample_undoc_def sample_doc_def map_of_clearjunk id)
qed

lemma sample_codec_ok: "codec_ok sample_vault"
proof -
  have "m_wf m" if "vd_Entries (sample_undoc d) = Member m" for d m
    using that by (auto simp: sample_undoc_def intro: distinct_clearjunk)
  then show ?thesis
    using sample_undoc_doc by (auto simp: codec_ok_def sample_vault_def nonceSize_def overhead_def)
qed

lemma sample_ready:
  "set_sane sample_io ''openrouter'' sample_vault" "set_clear sample_io ''openrouter'' '' sk-1'' sample_vault"
  "Get sample_vault sample_io ''openrouter'' = Inr None"
proof -
  have rf: "readFile sample_vault = Some (\<lparr>vf_Version = vaultVersion, vf_Entries = []\<rparr>, False)"
    by (simp add: readFile_def sample_vault_def)
  have key: "loadKey sample_vault sample_io = Inr (replicate 32 CHR ''k'')"
    by (simp add: loadKey_def sample_vault_def sample_io_def)
  have vs: "validateSecret '' sk-1'' = Inr (trim_space '' sk-1'')" by code_simp
  show "set_sane sample_io ''openrouter'' sample_vault"
    by (simp add: set_sane_def rf revision_of_def) (simp add: sample_io_def sample_vault_def nonceSize_def)
  show "set_clear sample_io ''openrouter'' '' sk-1'' sample_vault"
    by (simp add: set_clear_def rf key vs authenticateEntries_def allowedProvider_def ProviderOpenRouter_def)
       (simp add: sample_io_def)
  show "Get sample_vault sample_io ''openrouter'' = Inr None"
    by (simp add: Get_def rf allowedProvider_def ProviderOpenRouter_def)
qed

text \<open>C31. What was stored is what is read: after a successful \<open>Set\<close>, \<open>Get\<close> returns the trimmed
  secret, after a successful \<open>Delete\<close> it returns nothing, and every other provider's credential
  reads as before.\<close>

theorem vault_roundtrip:
  assumes "codec_ok v" "\<not> io_ctx_err io'"
  shows "(set_sane io p v \<longrightarrow> Set io p secret v = (v', None) \<longrightarrow>
      Get v' io' p = Inr (Some (trim_space secret)) \<and> (q \<noteq> p \<longrightarrow> Get v' io' q = Get v io' q)) \<and>
    (allowedProvider p \<longrightarrow> Delete io p v = (v', None) \<longrightarrow>
      Get v' io' p = Inr None \<and> (q \<noteq> p \<longrightarrow> Get v' io' q = Get v io' q))"
  using Set_written(1) [OF assms(1) _ _ _ assms(2), of io p secret v' None]
    Set_written(2) [OF assms(1) _ _ _ assms(2), of io p secret v' None q]
    Delete_written(1) [OF assms(1), of io p v' None io'] Delete_written(2) [OF assms(1), of io p v' None q io']
  by simp

theorem vault_roundtrip_witness:
  "Get (fst (Set sample_io ''openrouter'' '' sk-1'' sample_vault)) sample_io ''openrouter'' = Inr (Some ''sk-1'')"
proof -
  have "Set sample_io ''openrouter'' '' sk-1'' sample_vault = (fst (Set sample_io ''openrouter'' '' sk-1'' sample_vault), None)"
    using Set_succeeds [OF sample_ready(2)] by (metis prod.collapse)
  with vault_roundtrip [OF sample_codec_ok, of sample_io sample_io "''openrouter''" "'' sk-1''"] sample_ready(1)
  have "Get (fst (Set sample_io ''openrouter'' '' sk-1'' sample_vault)) sample_io ''openrouter'' = Inr (Some (trim_space '' sk-1''))"
    by (simp add: sample_io_def)
  then show ?thesis by (simp add: trim_space_def is_space_def)
qed

text \<open>C32. The vault file is never replaced behind a wrong key or with an unclean secret: when \<open>Set\<close> or
  \<open>Delete\<close> changes it, the provider is allowed, the key opened every entry it held, and what is
  written is the old file with that one entry set or removed. When they return an error the file is
  as before, unless every step up to the replacement went through and only the sync of the directory
  failed; and the temporary file is gone unless the call fails and removing it fails too, which leaves
  just that one behind.\<close>

theorem vault_authenticated_writes:
  assumes "Set io p secret v = (v', r) \<or> Delete io p v = (v', r)"
  shows "(v_file v' \<noteq> v_file v \<longrightarrow> allowedProvider p \<and>
      (\<exists>fl ex key entries. readFile v = Some (fl, ex) \<and> loadKey v io = Inr key \<and> authenticateEntries v key (vf_Entries fl) \<and>
         v_file v' = Contents (v_marshal v (fl\<lparr>vf_Entries := entries\<rparr>)) \<and> (\<forall>q. q \<noteq> p \<longrightarrow> m_get entries q = m_get (vf_Entries fl) q))) \<and>
    (v_file v' \<noteq> v_file v \<longrightarrow> Set io p secret v = (v', r) \<longrightarrow> validateSecret secret = Inr (trim_space secret)) \<and>
    (r \<noteq> None \<longrightarrow> v_file v' = v_file v \<or> replaces io \<and> io_fails io WSyncDir) \<and>
    (v_temps v' = v_temps v \<or> r \<noteq> None \<and> io_fails io WRemove \<and> (\<exists>t. v_temps v' = t # v_temps v))"
proof -
  have clean: "v_file v' \<noteq> v_file v \<Longrightarrow> Set io p secret v = (v', r) \<Longrightarrow> validateSecret secret = Inr (trim_space secret)"
    by (erule Set_cases) auto
  from assms show ?thesis
  proof
    assume "Set io p secret v = (v', r)"
    then show ?thesis
    proof (cases rule: Set_cases)
      case (2 fl ex key nonce)
      note d = writeFile_disk [OF 2(8)]
      from 2(1,3,4,6) d clean show ?thesis by (auto intro!: exI [of _ fl] exI [of _ "m_set p _ (vf_Entries fl)"])
    qed simp
  next
    assume "Delete io p v = (v', r)"
    then show ?thesis
    proof (cases rule: Delete_cases [where io' = io])
      case (2 fl key)
      note d = writeFile_disk [OF 2(6)]
      from 2(1-4) d clean show ?thesis by (auto intro!: exI [of _ fl] exI [of _ "m_del p (vf_Entries fl)"])
    qed simp
  qed
qed

theorem vault_authenticated_writes_witness:
  "v_temps (fst (Set sample_io ''openrouter'' '' sk-1'' sample_vault)) = []"
  using vault_authenticated_writes [of sample_io "''openrouter''" "'' sk-1''" sample_vault
      "fst (Set sample_io ''openrouter'' '' sk-1'' sample_vault)" "snd (Set sample_io ''openrouter'' '' sk-1'' sample_vault)"]
  by (simp add: sample_vault_def sample_io_def)

text \<open>C33. Moving the key file of an older version into the vault loses nothing: the file is removed only
  when the vault returns exactly its key; and when no fault is met it is removed, the vault holds
  the key, and the other providers' credentials are as before.\<close>

theorem migration_loses_nothing:
  assumes "migrateLegacyOpenRouterKey Get Set io rf v kf = (v', kf')"
  shows "(kf' \<noteq> kf \<longrightarrow> Get v' io ProviderOpenRouter = Inr (Some (storedAPIKey kf)) \<and> kf_file kf' = Absent) \<and>
    (codec_ok v \<and> \<not> io_ctx_err io \<and> \<not> rf \<and> set_sane io ProviderOpenRouter v \<and>
       set_clear io ProviderOpenRouter (storedAPIKey kf) v \<and> Get v io ProviderOpenRouter = Inr None \<and> storedAPIKey kf \<noteq> [] \<longrightarrow>
     Get v' io ProviderOpenRouter = Inr (Some (storedAPIKey kf)) \<and> kf_file kf' = Absent \<and>
       (q \<noteq> ProviderOpenRouter \<longrightarrow> Get v' io q = Get v io q))"
  using vault_store.migration_safe [OF assms] vault_store.migration_complete [of v io kf v' kf' q] assms
  by (auto simp: ctx_live_def)

theorem migration_loses_nothing_witness:
  "let kf = \<lparr>kf_path = ''key'', kf_file = Contents '' sk-1''\<rparr>;
       m = migrateLegacyOpenRouterKey Get Set sample_io False sample_vault kf in
   Get (fst m) sample_io ProviderOpenRouter = Inr (Some ''sk-1'') \<and> kf_file (snd m) = Absent"
proof -
  let ?kf = "\<lparr>kf_path = ''key'', kf_file = Contents '' sk-1''\<rparr>"
  let ?m = "migrateLegacyOpenRouterKey Get Set sample_io False sample_vault ?kf"
  have k: "storedAPIKey ?kf = ''sk-1''" by (simp add: storedAPIKey_def trim_space_def is_space_def)
  have "set_clear sample_io ''openrouter'' ''sk-1'' sample_vault"
    using sample_ready(2) by (simp add: set_clear_def trim_space_def is_space_def validateSecret_def)
  with migration_loses_nothing [of sample_io False sample_vault ?kf "fst ?m" "snd ?m"] sample_codec_ok sample_ready k
  show ?thesis by (simp add: ProviderOpenRouter_def sample_io_def Let_def)
qed

end
