(* ===== verification/Score_Store.thy ===== *)
theory Score_Store
  imports Breaker Registry Vault Quota_Spec
begin

text \<open>
  Persistence of reliability scores, provider counters and quota observations,
  \<open>src/internal/router/router_scoring_store.go\<close>: the snapshot taken under the breaker lock, the merge
  of a loaded file, and the flusher's load and save with the dirty flag.

  The JSON codec is an argument: a document and what it decodes to, or an error. The file is a
  \<open>file_state\<close>; an attempted write meets a fault at one of its steps or none (\<open>write_step\<close>). Each
  \<open>time.Now()\<close> is an argument. A Go map in the file is an association list whose order is the
  order the loop visits it in.
\<close>

section \<open>The file\<close>

definition scoreStoreVersion :: int where "scoreStoreVersion = 2"
definition scoreStoreMinVersion :: int where "scoreStoreMinVersion = 1"
definition defaultScoreMaxAge :: duration where "defaultScoreMaxAge = 24 * hour"
definition defaultScoreFlushInterval :: duration where "defaultScoreFlushInterval = 30 * second"

record persistedScore =
  ps_Score :: real
  ps_ScoreUpdatedAt :: go_time
  ps_ScoreAttemptSeq :: int
  ps_Successes :: int

record persistedQuota =
  pq_Provider :: string
  pq_Scope :: string
  pq_ModelOrPool :: string
  pq_Dimension :: QuotaDimension
  pq_Window :: QuotaWindow
  pq_Limit :: int
  pq_Remaining :: int
  pq_ResetAt :: go_time
  pq_ObservedAt :: go_time
  pq_Source :: QuotaSource
  pq_Confidence :: QuotaConfidence

record scoreStoreFile =
  sf_Version :: int
  sf_SavedAt :: go_time
  sf_AttemptSeq :: int
  sf_Models :: "(string, persistedScore) gomap"
  sf_ProviderAttempts :: "(string, int) gomap"
  sf_ProviderBalance :: "(string, int) gomap"
  sf_Quota :: "persistedQuota list"

definition scoreFilePath :: "process_env \<Rightarrow> string option \<Rightarrow> (string list \<Rightarrow> string) \<Rightarrow> string" where
  "scoreFilePath env UserConfigDir join_path = (let raw = envValue env ''PROXY_SCORE_FILE''; low = to_lower raw in
     if low \<in> {''off'', ''-'', ''none'', ''disabled''} then []
     else if low \<noteq> [] then raw
     else (case UserConfigDir of
       None \<Rightarrow> []
     | Some dir \<Rightarrow> if trim_space dir = [] then [] else join_path [dir, ''calvoproxy'', ''scores.json'']))"

definition scoreMaxAge :: "process_env \<Rightarrow> duration" where
  "scoreMaxAge env = envDurationSeconds env ''PROXY_SCORE_MAX_AGE_SECONDS'' defaultScoreMaxAge"

section \<open>Taking a snapshot\<close>

definition persist_state :: "modelBreakerState \<Rightarrow> persistedScore" where
  "persist_state st = \<lparr>ps_Score = bs_Score st, ps_ScoreUpdatedAt = bs_ScoreUpdatedAt st,
     ps_ScoreAttemptSeq = bs_ScoreAttemptSeq st, ps_Successes = bs_Successes st\<rparr>"

definition persist_models :: "(string, modelBreakerState) gomap \<Rightarrow> (string, persistedScore) gomap" where
  "persist_models m = map (\<lambda>(k, st). (k, persist_state st)) (filter (\<lambda>(k, st). \<not> is_zero (bs_ScoreUpdatedAt st)) m)"

definition persist_quota :: "QuotaBucketKey \<Rightarrow> QuotaSnapshot \<Rightarrow> persistedQuota" where
  "persist_quota key snap = (let obs = qs_Observation snap in
     \<lparr>pq_Provider = qk_Provider key, pq_Scope = qk_Scope key, pq_ModelOrPool = qk_ModelOrPool key,
      pq_Dimension = qk_Dimension key, pq_Window = qk_Window key, pq_Limit = qo_Limit obs,
      pq_Remaining = qo_Remaining obs, pq_ResetAt = qo_ResetAt obs, pq_ObservedAt = qo_ObservedAt obs,
      pq_Source = qo_Source obs, pq_Confidence = qo_Confidence obs\<rparr>)"

fun snapshot_keys :: "go_time \<Rightarrow> QuotaBucketKey list \<Rightarrow> QuotaLedger \<Rightarrow> QuotaLedger \<times> persistedQuota list" where
  "snapshot_keys now [] l = (l, [])"
| "snapshot_keys now (key # keys) l = (case Snapshot l key now of
     (l1, None) \<Rightarrow> snapshot_keys now keys l1
   | (l1, Some snap) \<Rightarrow> (case snapshot_keys now keys l1 of (l2, qs) \<Rightarrow> (l2, persist_quota key snap # qs)))"

definition snapshotScores :: "go_time \<Rightarrow> go_time \<Rightarrow> RouterService \<Rightarrow> RouterService \<times> scoreStoreFile" where
  "snapshotScores now1 now2 s =
    (let (l1, keys) = Keys (rs_quota s) now2; (l2, quota) = snapshot_keys now2 keys l1 in
     (s\<lparr>rs_quota := l2\<rparr>,
      \<lparr>sf_Version = scoreStoreVersion, sf_SavedAt = now1, sf_AttemptSeq = rs_scoreAttempts s,
       sf_Models = persist_models (rs_modelBreakers s),
       sf_ProviderAttempts = filter (\<lambda>(p, n). 0 < n) (rs_providerAttempts s),
       sf_ProviderBalance = filter (\<lambda>(p, n). 0 < n) (rs_providerBalance s),
       sf_Quota = quota\<rparr>))"

section \<open>Restoring\<close>

definition stored_provider :: "string \<Rightarrow> providerID" where
  "stored_provider raw = to_lower (trim_space raw)"

definition restore_quota :: "go_time \<Rightarrow> persistedQuota \<Rightarrow> QuotaLedger \<Rightarrow> QuotaLedger" where
  "restore_quota now q l = (let provider = stored_provider (pq_Provider q) in
     if provider \<notin> set supportedDirectProviders \<or> \<not> is_zero (pq_ResetAt q) \<and> \<not> after (pq_ResetAt q) now then l
     else fst (Observe l \<lparr>qk_Provider = provider, qk_Scope = pq_Scope q, qk_ModelOrPool = pq_ModelOrPool q,
            qk_Dimension = pq_Dimension q, qk_Window = pq_Window q\<rparr>
          \<lparr>qo_Limit = pq_Limit q, qo_Remaining = pq_Remaining q, qo_ResetAt = pq_ResetAt q, qo_Source = pq_Source q,
           qo_Confidence = pq_Confidence q, qo_ObservedAt = pq_ObservedAt q\<rparr> now))"

definition restore_count :: "string \<times> int \<Rightarrow> (providerID, int) gomap \<Rightarrow> (providerID, int) gomap" where
  "restore_count pn m = (case pn of (raw, n) \<Rightarrow> let provider = stored_provider raw in
     if provider \<in> set supportedDirectProviders \<and> 0 \<le> n then m_set provider n m else m)"

definition restorable :: "string list \<Rightarrow> go_time \<Rightarrow> duration \<Rightarrow> string \<Rightarrow> persistedScore \<Rightarrow> bool" where
  "restorable known_keys now maxAge key r \<longleftrightarrow> key \<in> set known_keys \<and> \<not> is_zero (ps_ScoreUpdatedAt r) \<and>
     \<not> (0 < maxAge \<and> maxAge < sub_time now (ps_ScoreUpdatedAt r))"

definition restore_state :: "persistedScore \<Rightarrow> modelBreakerState \<Rightarrow> modelBreakerState" where
  "restore_state r st = st\<lparr>bs_Score := clamp01 (ps_Score r), bs_ScoreUpdatedAt := ps_ScoreUpdatedAt r,
     bs_ScoreAttemptSeq := ps_ScoreAttemptSeq r, bs_Successes := ps_Successes r\<rparr>"

fun restore_models :: "string list \<Rightarrow> go_time \<Rightarrow> duration \<Rightarrow> (string, persistedScore) gomap \<Rightarrow> RouterService \<Rightarrow>
    RouterService \<times> nat" where
  "restore_models ks now maxAge [] s = (s, 0)"
| "restore_models ks now maxAge ((key, r) # rs) s =
    (if restorable ks now maxAge key r
     then (case restore_models ks now maxAge rs (upd_model_breaker key (restore_state r) s) of (s', n) \<Rightarrow> (s', Suc n))
     else restore_models ks now maxAge rs s)"

definition restoreScores :: "scoreStoreFile \<Rightarrow> string list \<Rightarrow> go_time \<Rightarrow> duration \<Rightarrow> RouterService \<Rightarrow> RouterService \<times> nat" where
  "restoreScores f ks now maxAge s =
    (let s1 = s\<lparr>rs_quota := fold (restore_quota now) (sf_Quota f) (rs_quota s),
                rs_providerAttempts := fold restore_count (sf_ProviderAttempts f) (rs_providerAttempts s),
                rs_providerBalance := fold restore_count (sf_ProviderBalance f) (rs_providerBalance s)\<rparr>;
         (s2, restored) = restore_models ks now maxAge (sf_Models f) s1 in
     (if 0 < restored \<and> rs_scoreAttempts s2 < sf_AttemptSeq f then s2\<lparr>rs_scoreAttempts := sf_AttemptSeq f\<rparr> else s2, restored))"

section \<open>Loading and saving\<close>

definition readScoreFile :: "(string \<Rightarrow> scoreStoreFile option) \<Rightarrow> file_state \<Rightarrow> scoreStoreFile option" where
  "readScoreFile unmarshal fs = (case fs of Contents data \<Rightarrow> unmarshal data | _ \<Rightarrow> None)"

definition writeScoreFile :: "(scoreStoreFile \<Rightarrow> string) \<Rightarrow> (write_step \<Rightarrow> bool) \<Rightarrow> scoreStoreFile \<Rightarrow> file_state \<Rightarrow> file_state \<times> bool" where
  "writeScoreFile marshal fails f fs =
    (if fails WMkdir \<or> fails WTemp \<or> fails WWrite \<or> fails WSync \<or> fails WClose \<or> fails WReplace then (fs, False)
     else (Contents (marshal f), True))"

definition knownBreakerKeys :: "RouterService \<Rightarrow> string list" where
  "knownBreakerKeys s = map (breakerKey s) (allKnownAttempts s)"

definition LoadScores :: "process_env \<Rightarrow> (string \<Rightarrow> scoreStoreFile option) \<Rightarrow> string \<Rightarrow> go_time \<Rightarrow> file_state \<Rightarrow> RouterService \<Rightarrow> RouterService" where
  "LoadScores env unmarshal path now fs s =
    (if path = [] then s
     else (case readScoreFile unmarshal fs of
       None \<Rightarrow> s
     | Some f \<Rightarrow>
         if sf_Version f < scoreStoreMinVersion \<or> scoreStoreVersion < sf_Version f then s
         else let maxAge = scoreMaxAge env in
         if 0 < maxAge \<and> \<not> is_zero (sf_SavedAt f) \<and> maxAge < sub_time now (sf_SavedAt f) then s
         else fst (restoreScores f (knownBreakerKeys s) now maxAge s)))"

definition SaveScores :: "(scoreStoreFile \<Rightarrow> string) \<Rightarrow> (write_step \<Rightarrow> bool) \<Rightarrow> string \<Rightarrow> go_time \<Rightarrow> go_time \<Rightarrow> RouterService \<Rightarrow> file_state \<Rightarrow>
    RouterService \<times> file_state \<times> bool" where
  "SaveScores marshal fails path now1 now2 s fs =
    (if path = [] then (s, fs, True)
     else if \<not> rs_scoresDirty s then (s, fs, True)
     else (let (s1, f) = snapshotScores now1 now2 (s\<lparr>rs_scoresDirty := False\<rparr>) in
       case writeScoreFile marshal fails f fs of
         (fs', True) \<Rightarrow> (s1, fs', True)
       | (fs', False) \<Rightarrow> (s1\<lparr>rs_scoresDirty := True\<rparr>, fs', False)))"

section \<open>Facts\<close>

lemma persist_models_get:
  "m_wf m \<Longrightarrow> m_get (persist_models m) k = (case m_get m k of None \<Rightarrow> None
     | Some st \<Rightarrow> if is_zero (bs_ScoreUpdatedAt st) then None else Some (persist_state st))"
  by (induction m) (auto simp: persist_models_def map_of_eq_None_iff image_iff split: option.splits)

lemma persist_models_wf: "m_wf m \<Longrightarrow> m_wf (persist_models m)"
  by (simp add: persist_models_def case_prod_beta comp_def distinct_map_filter)

lemma restore_models_get:
  assumes "m_wf rs"
  shows "m_get (rs_modelBreakers (fst (restore_models ks now A rs s))) k = (case m_get rs k of
      Some r \<Rightarrow> if restorable ks now A k r then Some (restore_state r (m_get_or zeroBreaker (rs_modelBreakers s) k))
        else m_get (rs_modelBreakers s) k
    | None \<Rightarrow> m_get (rs_modelBreakers s) k)"
  using assms
proof (induction rs arbitrary: s)
  case Nil
  then show ?case by simp
next
  case (Cons kr rs)
  obtain j r where kr: "kr = (j, r)" by fastforce
  with Cons.prems have j: "m_get rs j = None" "m_wf rs" by (auto simp: map_of_eq_None_iff)
  have o: "m_get_or zeroBreaker (rs_modelBreakers (upd_model_breaker j f s)) k =
      (if k = j then f (m_get_or zeroBreaker (rs_modelBreakers s) j) else m_get_or zeroBreaker (rs_modelBreakers s) k)" for f
    by (simp add: m_get_or_def)
  show ?case
    using Cons.IH [OF j(2), of s] Cons.IH [OF j(2), of "upd_model_breaker j (restore_state r) s"] j(1) kr o
    by (auto simp: case_prod_beta split: option.splits)
qed

lemma restore_models_sel:
  "rs_policy (fst (restore_models ks now A rs s)) = rs_policy s"
  "rs_runtimeConfig (fst (restore_models ks now A rs s)) = rs_runtimeConfig s"
  "rs_config (fst (restore_models ks now A rs s)) = rs_config s"
  "rs_providerBreakers (fst (restore_models ks now A rs s)) = rs_providerBreakers s"
  "rs_quota (fst (restore_models ks now A rs s)) = rs_quota s"
  "rs_scoreAttempts (fst (restore_models ks now A rs s)) = rs_scoreAttempts s"
  by (induction rs arbitrary: s) (auto simp: case_prod_beta)

lemma restore_models_count:
  "m_get rs k = Some r \<Longrightarrow> restorable ks now A k r \<Longrightarrow> 0 < snd (restore_models ks now A rs s)"
  by (induction rs arbitrary: s) (auto simp: case_prod_beta split: if_splits)

lemma restoreScores_sel:
  "rs_policy (fst (restoreScores f ks now A s)) = rs_policy s"
  "rs_runtimeConfig (fst (restoreScores f ks now A s)) = rs_runtimeConfig s"
  "rs_config (fst (restoreScores f ks now A s)) = rs_config s"
  "rs_providerBreakers (fst (restoreScores f ks now A s)) = rs_providerBreakers s"
  "rs_quota (fst (restoreScores f ks now A s)) = fold (restore_quota now) (sf_Quota f) (rs_quota s)"
  by (simp_all add: restoreScores_def Let_def case_prod_beta restore_models_sel)

lemma restoreScores_models:
  "m_wf (sf_Models f) \<Longrightarrow> m_get (rs_modelBreakers (fst (restoreScores f ks now A s))) k = (case m_get (sf_Models f) k of
      Some r \<Rightarrow> if restorable ks now A k r then Some (restore_state r (m_get_or zeroBreaker (rs_modelBreakers s) k))
        else m_get (rs_modelBreakers s) k
    | None \<Rightarrow> m_get (rs_modelBreakers s) k)"
  by (simp add: restoreScores_def Let_def case_prod_beta restore_models_get split: option.split)

text \<open>The attempt clock does not fall behind a sequence number that was restored.\<close>

lemma restoreScores_clock:
  assumes "m_get (sf_Models f) k = Some r" "restorable ks now A k r" "ps_ScoreAttemptSeq r \<le> sf_AttemptSeq f"
  shows "ps_ScoreAttemptSeq r \<le> rs_scoreAttempts (fst (restoreScores f ks now A s))"
  using assms restore_models_count [OF assms(1,2)]
  by (auto simp: restoreScores_def Let_def case_prod_beta restore_models_sel)

lemma snapshotScores_file:
  "sf_Models (snd (snapshotScores n1 n2 s)) = persist_models (rs_modelBreakers s)"
  "sf_AttemptSeq (snd (snapshotScores n1 n2 s)) = rs_scoreAttempts s"
  "sf_Version (snd (snapshotScores n1 n2 s)) = scoreStoreVersion"
  "sf_SavedAt (snd (snapshotScores n1 n2 s)) = n1"
  by (simp_all add: snapshotScores_def Let_def case_prod_beta)

lemma inv_snapshot_keys: "ledger_inv l \<Longrightarrow> ledger_inv (fst (snapshot_keys now keys l))"
proof (induction keys arbitrary: l)
  case (Cons key keys)
  then have "ledger_inv (fst (Snapshot l key now))" using inv_Snapshot by blast
  with Cons.IH show ?case by (auto simp: case_prod_beta split: prod.split option.split)
qed simp

lemma inv_restore_quota:
  "ledger_inv l \<Longrightarrow> pq_Limit q \<le> max_int64 \<Longrightarrow> ledger_inv (restore_quota now q l)"
  by (auto simp: restore_quota_def Let_def intro!: inv_Observe)

lemma inv_restore_quotas:
  "ledger_inv l \<Longrightarrow> list_all (\<lambda>q. pq_Limit q \<le> max_int64) qs \<Longrightarrow> ledger_inv (fold (restore_quota now) qs l)"
  by (induction qs arbitrary: l) (auto intro: inv_restore_quota)

lemma restore_state_ok: "breaker_ok st \<Longrightarrow> int64_ok (ps_Successes r) \<Longrightarrow> breaker_ok (restore_state r st)"
  by (simp add: breaker_ok_def restore_state_def score_ok_def)

lemma restore_models_ok:
  "breakers_ok s \<Longrightarrow> list_all (\<lambda>(k, r). int64_ok (ps_Successes r)) rs \<Longrightarrow> breakers_ok (fst (restore_models ks now A rs s))"
proof (induction rs arbitrary: s)
  case (Cons kr rs)
  obtain j r where kr: "kr = (j, r)" by fastforce
  have "breakers_ok (upd_model_breaker j (restore_state r) s)"
    using Cons.prems kr by (intro breakers_ok_upd_model) (auto intro: restore_state_ok)
  with Cons kr show ?case by (simp add: case_prod_beta)
qed simp

text \<open>Circuits are neither stored nor touched by a restore.\<close>

lemma restore_models_circuits:
  "(case m_get (rs_modelBreakers (fst (restore_models ks now A rs s))) k of None \<Rightarrow> zero_time | Some st \<Rightarrow> bs_OpenUntil st) =
   (case m_get (rs_modelBreakers s) k of None \<Rightarrow> zero_time | Some st \<Rightarrow> bs_OpenUntil st)"
proof (induction rs arbitrary: s)
  case (Cons kr rs)
  obtain j r where kr: "kr = (j, r)" by fastforce
  show ?case
    using Cons.IH [of s] Cons.IH [of "upd_model_breaker j (restore_state r) s"] kr
    by (auto simp: case_prod_beta restore_state_def m_get_or_def zeroBreaker_def split: option.splits)
qed simp

text \<open>Loading at any moment is one more step of the service. The counts a decoded file holds are Go
  integers, since \<open>json.Unmarshal\<close> refuses a number that does not fit its field.\<close>

definition decodes_int64 :: "(string \<Rightarrow> scoreStoreFile option) \<Rightarrow> bool" where
  "decodes_int64 unmarshal \<longleftrightarrow> (\<forall>data f. unmarshal data = Some f \<longrightarrow>
     list_all (\<lambda>q. int64_ok (pq_Limit q)) (sf_Quota f) \<and> list_all (\<lambda>(k, r). int64_ok (ps_Successes r)) (sf_Models f))"

inductive circuit_step :: "RouterService \<Rightarrow> RouterService \<Rightarrow> bool" where
  live: "breaker_step s s' \<Longrightarrow> circuit_step s s'"
| load: "decodes_int64 unmarshal \<Longrightarrow> circuit_step s (LoadScores env unmarshal path now fs s)"

inductive_cases circuit_stepE: "circuit_step s s'"

lemma LoadScores_breakers_ok:
  assumes "breakers_ok s" "decodes_int64 unmarshal"
  shows "breakers_ok (LoadScores env unmarshal path now fs s)"
proof -
  have "breakers_ok (fst (restoreScores f ks now A s))" if f: "readScoreFile unmarshal fs = Some f" for f ks A
  proof -
    let ?s1 = "s\<lparr>rs_quota := fold (restore_quota now) (sf_Quota f) (rs_quota s),
      rs_providerAttempts := fold restore_count (sf_ProviderAttempts f) (rs_providerAttempts s),
      rs_providerBalance := fold restore_count (sf_ProviderBalance f) (rs_providerBalance s)\<rparr>"
    have "list_all (\<lambda>(k, r). int64_ok (ps_Successes r)) (sf_Models f)"
      using f assms(2) by (auto simp: readScoreFile_def decodes_int64_def split: file_state.split_asm)
    moreover have "breakers_ok ?s1" using assms(1) by (simp add: breakers_ok_def)
    ultimately have "breakers_ok (fst (restore_models ks now A (sf_Models f) ?s1))" by (intro restore_models_ok)
    then show ?thesis by (simp add: restoreScores_def Let_def case_prod_beta)
  qed
  then show ?thesis using assms(1) by (simp add: LoadScores_def Let_def split: option.split)
qed

text \<open>A restore leaves the failure counters alone.\<close>

lemma restore_models_counter:
  "bs_ConsecutiveFailures (m_get_or zeroBreaker (rs_modelBreakers (fst (restore_models ks now A rs s))) k) =
   bs_ConsecutiveFailures (m_get_or zeroBreaker (rs_modelBreakers s) k)"
proof (induction rs arbitrary: s)
  case (Cons kr rs)
  obtain j r where kr: "kr = (j, r)" by fastforce
  have "bs_ConsecutiveFailures (m_get_or zeroBreaker (rs_modelBreakers (upd_model_breaker j (restore_state r) s)) k) =
      bs_ConsecutiveFailures (m_get_or zeroBreaker (rs_modelBreakers s) k)"
    by (simp add: m_get_or_def restore_state_def)
  with Cons.IH [of s] Cons.IH [of "upd_model_breaker j (restore_state r) s"] kr show ?case
    by (simp add: case_prod_beta)
qed simp

lemma LoadScores_counter:
  "bs_ConsecutiveFailures (m_get_or zeroBreaker (rs_modelBreakers (LoadScores env unmarshal path now fs s)) k) =
   bs_ConsecutiveFailures (m_get_or zeroBreaker (rs_modelBreakers s) k)"
  "rs_providerBreakers (LoadScores env unmarshal path now fs s) = rs_providerBreakers s"
  by (simp_all add: LoadScores_def restoreScores_def restore_models_counter restore_models_sel Let_def case_prod_beta
      split: option.split)

definition failures_within :: "int \<Rightarrow> RouterService \<Rightarrow> bool" where
  "failures_within n s \<longleftrightarrow>
     (\<forall>k. bs_ConsecutiveFailures (m_get_or zeroBreaker (rs_modelBreakers s) k) \<in> {0..n}) \<and>
     (\<forall>p. bs_ConsecutiveFailures (m_get_or zeroBreaker (rs_providerBreakers s) p) \<in> {0..n})"

lemma counter_step:
  "0 \<le> c \<Longrightarrow> c \<le> n \<Longrightarrow> n < max_int64 \<Longrightarrow> x \<in> {0, 1, c, wrap64 (c + 1)} \<Longrightarrow> 0 \<le> x \<and> x \<le> n + 1"
  by (auto simp: wrap64_eq_id)

lemma circuit_step_counter:
  assumes "circuit_step s s'" "failures_within n s" "n < max_int64"
  shows "failures_within (n + 1) s'"
  using assms(1)
proof (cases rule: circuit_step.cases)
  case live
  have zero: "bs_ConsecutiveFailures zeroBreaker = 0" by (simp add: zeroBreaker_def)
  have within: "bs_ConsecutiveFailures (m_get_or zeroBreaker (rs_modelBreakers s) k) \<in> {0..n}"
    "bs_ConsecutiveFailures (m_get_or zeroBreaker (rs_providerBreakers s) p) \<in> {0..n}" for k p
    using assms(2) by (simp_all add: failures_within_def)
  then have n: "0 \<le> n + 1" by fastforce
  have "bs_ConsecutiveFailures (m_get_or zeroBreaker (rs_modelBreakers s') k) \<in> {0..n + 1}" for k
  proof (cases "m_get (rs_modelBreakers s') k")
    case (Some st)
    from counter_step [OF _ _ assms(3) breaker_step_counter(1) [OF live Some, unfolded Let_def]] within(1) [of k] Some
    show ?thesis by (simp add: m_get_or_def [of _ "rs_modelBreakers s'"])
  qed (use n in \<open>simp add: m_get_or_def zero\<close>)
  moreover have "bs_ConsecutiveFailures (m_get_or zeroBreaker (rs_providerBreakers s') p) \<in> {0..n + 1}" for p
  proof (cases "m_get (rs_providerBreakers s') p")
    case (Some st)
    from counter_step [OF _ _ assms(3) breaker_step_counter(2) [OF live Some, unfolded Let_def]] within(2) [of p] Some
    show ?thesis by (simp add: m_get_or_def [of _ "rs_providerBreakers s'"])
  qed (use n in \<open>simp add: m_get_or_def zero\<close>)
  ultimately show ?thesis by (simp add: failures_within_def)
next
  case load
  have "failures_within n s'" using assms(2) unfolding load by (simp add: failures_within_def LoadScores_counter)
  then show ?thesis unfolding failures_within_def atLeastAtMost_iff by (meson add_increasing2 zero_le_one)
qed

lemma circuit_steps_ok: "circuit_step\<^sup>*\<^sup>* s s' \<Longrightarrow> breakers_ok s \<Longrightarrow> breakers_ok s'"
  by (induction rule: rtranclp_induct) (auto elim!: circuit_stepE intro: breaker_step_ok LoadScores_breakers_ok)

lemma circuit_steps_counter:
  "(circuit_step ^^ n) s s' \<Longrightarrow> failures_within 0 s \<Longrightarrow> int n \<le> max_int64 \<Longrightarrow> failures_within (int n) s'"
proof (induction n arbitrary: s')
  case (Suc n)
  from Suc.prems(1) obtain s1 where s1: "(circuit_step ^^ n) s s1" "circuit_step s1 s'" by auto
  from Suc.IH [OF s1(1)] Suc.prems have "failures_within (int n) s1" by simp
  from circuit_step_counter [OF s1(2) this] Suc.prems(3) show ?case by (simp add: add.commute)
qed simp

section \<open>The properties\<close>

text \<open>C12. Every circuit, of a model or of a provider, that the service builds up from nothing by any
  interleaving of attempts, outcomes and loads of the score file stays in range: its score is between
  zero and one, it holds no probe claim while closed, its counters are Go integers, and after \<open>n\<close> steps,
  short of the wrap of Go's integers, its failure counter is not negative and at most \<open>n\<close>.\<close>

theorem breaker_state_in_range:
  assumes "fresh_breakers s" "(circuit_step ^^ n) s s'"
    "m_get (rs_modelBreakers s') k = Some st \<or> m_get (rs_providerBreakers s') p = Some st"
  shows "0 \<le> bs_Score st \<and> bs_Score st \<le> 1 \<and> (bs_OpenUntil st = 0 \<longrightarrow> bs_ProbeUntil st = 0) \<and>
    int64_ok (bs_ConsecutiveFailures st) \<and> int64_ok (bs_Successes st) \<and>
    (int n \<le> max_int64 \<longrightarrow> 0 \<le> bs_ConsecutiveFailures st \<and> bs_ConsecutiveFailures st \<le> int n)"
proof -
  have "breakers_ok s" "failures_within 0 s"
    using assms(1) by (simp_all add: breakers_ok_def fresh_breakers_def failures_within_def m_get_or_def zeroBreaker_def)
  with circuit_steps_ok [OF relpowp_imp_rtranclp [OF assms(2)]] circuit_steps_counter [OF assms(2)]
  have "breakers_ok s'" "int n \<le> max_int64 \<Longrightarrow> failures_within (int n) s'" by auto
  moreover from this(1) assms(3) have "breaker_ok st" by (auto simp: breakers_ok_def)
  ultimately show ?thesis
    using assms(3) by (fastforce simp: breaker_ok_def score_ok_def failures_within_def m_get_or_def split: option.splits)
qed

theorem breaker_state_in_range_witness:
  "\<exists>st. m_get (rs_modelBreakers ex_open) (breakerKey ex_open ex_attempt) = Some st \<and> 0 \<le> bs_Score st \<and> bs_Score st \<le> 1 \<and>
     bs_ConsecutiveFailures st \<le> 2"
proof -
  from ex_open_state obtain st where st: "m_get (rs_modelBreakers ex_open) (breakerKey ex_open ex_attempt) = Some st"
    by auto
  have "fresh_breakers ex_service" by (simp add: fresh_breakers_def ex_service_def)
  moreover have "(circuit_step ^^ 2) ex_service ex_open"
    unfolding ex_open_def numeral_2_eq_2 by (auto intro!: relcomppI circuit_step.live breaker_step.failure)
  ultimately show ?thesis using breaker_state_in_range [of ex_service 2 ex_open, OF _ _ disjI1 [OF st]] st
    by (auto simp: max_int64_def)
qed

text \<open>C34. Scores survive a restart: for every attempt the new process knows and whose evidence is not too
  old, a snapshot of the old process restored into a fresh one gives the same score under every
  clock reading, the circuit closed with no probe and no failures, and a clock of attempts at least
  as far as the evidence that was restored.\<close>

theorem scores_survive_restart:
  assumes "m_wf (rs_modelBreakers s)" "breakers_ok s" "rs_modelBreakers s0 = []" "a \<in> set (allKnownAttempts s0)"
    "breakerKey s0 a = breakerKey s a"
    "maxAge \<le> 0 \<or> (\<forall>st. m_get (rs_modelBreakers s) (breakerKey s a) = Some st \<longrightarrow> sub_time now (bs_ScoreUpdatedAt st) \<le> maxAge)"
  shows "let s' = fst (restoreScores (snd (snapshotScores n1 n2 s)) (knownBreakerKeys s0) now maxAge s0) in
    score_of s' senv a = score_of s senv a \<and>
    (case m_get (rs_modelBreakers s') (breakerKey s' a) of
       None \<Rightarrow> True
     | Some st' \<Rightarrow> is_zero (bs_OpenUntil st') \<and> is_zero (bs_ProbeUntil st') \<and> bs_ConsecutiveFailures st' = 0 \<and>
         (bs_ScoreAttemptSeq st' \<le> rs_scoreAttempts s \<longrightarrow> bs_ScoreAttemptSeq st' \<le> rs_scoreAttempts s'))"
proof -
  let ?f = "snd (snapshotScores n1 n2 s)" and ?k = "breakerKey s a" and ?ks = "knownBreakerKeys s0"
  let ?s' = "fst (restoreScores ?f ?ks now maxAge s0)"
  have key: "breakerKey ?s' a = ?k"
    using breakerKey_cong [of ?s' s0 a] assms(5) by (simp add: restoreScores_sel)
  have known: "?k \<in> set ?ks" using assms(4,5) by (force simp: knownBreakerKeys_def)
  have wf: "m_wf (sf_Models ?f)" by (simp add: snapshotScores_file persist_models_wf assms(1))
  have get: "m_get (rs_modelBreakers ?s') ?k = (case m_get (rs_modelBreakers s) ?k of None \<Rightarrow> None
    | Some st \<Rightarrow> if is_zero (bs_ScoreUpdatedAt st) then None else Some (restore_state (persist_state st) zeroBreaker))"
    using assms(3,6) known
    by (auto simp: restoreScores_models [OF wf] snapshotScores_file persist_models_get [OF assms(1)] restorable_def
        persist_state_def m_get_or_def split: option.splits)
  show ?thesis
  proof (cases "m_get (rs_modelBreakers s) ?k")
    case None
    then show ?thesis by (simp add: Let_def score_of_def key get)
  next
    case (Some st)
    show ?thesis
    proof (cases "is_zero (bs_ScoreUpdatedAt st)")
      case True
      with Some show ?thesis by (simp add: Let_def score_of_def key get decayedScore_def)
    next
      case False
      have r: "m_get (sf_Models ?f) ?k = Some (persist_state st)"
        using Some False by (simp add: snapshotScores_file persist_models_get [OF assms(1)])
      have ra: "restorable ?ks now maxAge ?k (persist_state st)"
        using known False Some assms(6) by (auto simp: restorable_def persist_state_def)
      have "score_ok st" using assms(2) Some by (auto simp: breakers_ok_def breaker_ok_def)
      then have "decayedScore (Some (restore_state (persist_state st) zeroBreaker)) senv = decayedScore (Some st) senv"
        by (simp add: decayedScore_def restore_state_def persist_state_def scoreBaseline_def decayFraction_def Let_def clamp01_id score_ok_def)
      moreover have "bs_ScoreAttemptSeq st \<le> rs_scoreAttempts s \<Longrightarrow> bs_ScoreAttemptSeq st \<le> rs_scoreAttempts ?s'"
        using restoreScores_clock [OF r ra] by (simp add: snapshotScores_file persist_state_def)
      ultimately show ?thesis
        using Some False
        by (simp add: Let_def score_of_def key get restore_state_def zeroBreaker_def persist_state_def is_zero_def)
    qed
  qed
qed

text \<open>Loading is safe whatever the file holds: a missing, unreadable, undecodable, foreign or stale file
  changes nothing; any other keeps the ledger's and the breakers' invariants, the configuration and
  every circuit as it was.\<close>

theorem loading_keeps_invariants:
  assumes "breakers_ok s" "ledger_inv (rs_quota s)"
    "\<And>data f. unmarshal data = Some f \<Longrightarrow> list_all (\<lambda>q. pq_Limit q \<le> max_int64) (sf_Quota f) \<and>
       list_all (\<lambda>(k, r). int64_ok (ps_Successes r)) (sf_Models f)"
  shows "let s' = LoadScores env unmarshal path now fs s in
    breakers_ok s' \<and> ledger_inv (rs_quota s') \<and> rs_policy s' = rs_policy s \<and> rs_config s' = rs_config s \<and>
    rs_providerBreakers s' = rs_providerBreakers s \<and>
    (case m_get (rs_modelBreakers s') k of None \<Rightarrow> zero_time | Some st \<Rightarrow> bs_OpenUntil st) =
      (case m_get (rs_modelBreakers s) k of None \<Rightarrow> zero_time | Some st \<Rightarrow> bs_OpenUntil st) \<and>
    ((case readScoreFile unmarshal fs of None \<Rightarrow> True
      | Some f \<Rightarrow> sf_Version f \<notin> {1, 2} \<or> \<not> is_zero (sf_SavedAt f) \<and> 0 < scoreMaxAge env \<and> scoreMaxAge env < sub_time now (sf_SavedAt f))
     \<longrightarrow> s' = s)"
proof -
  have "LoadScores env unmarshal path now fs s = s \<or>
    (\<exists>f. readScoreFile unmarshal fs = Some f \<and> sf_Version f \<in> {1, 2} \<and>
       \<not> (\<not> is_zero (sf_SavedAt f) \<and> 0 < scoreMaxAge env \<and> scoreMaxAge env < sub_time now (sf_SavedAt f)) \<and>
       LoadScores env unmarshal path now fs s = fst (restoreScores f (knownBreakerKeys s) now (scoreMaxAge env) s))"
    by (auto simp: LoadScores_def Let_def scoreStoreMinVersion_def scoreStoreVersion_def split: option.split)
  then show ?thesis
  proof (elim disjE exE conjE)
    fix f
    assume f: "readScoreFile unmarshal fs = Some f" "sf_Version f \<in> {1, 2}"
      "\<not> (\<not> is_zero (sf_SavedAt f) \<and> 0 < scoreMaxAge env \<and> scoreMaxAge env < sub_time now (sf_SavedAt f))"
      and L: "LoadScores env unmarshal path now fs s = fst (restoreScores f (knownBreakerKeys s) now (scoreMaxAge env) s)"
    let ?s1 = "s\<lparr>rs_quota := fold (restore_quota now) (sf_Quota f) (rs_quota s),
      rs_providerAttempts := fold restore_count (sf_ProviderAttempts f) (rs_providerAttempts s),
      rs_providerBalance := fold restore_count (sf_ProviderBalance f) (rs_providerBalance s)\<rparr>"
    let ?s2 = "fst (restore_models (knownBreakerKeys s) now (scoreMaxAge env) (sf_Models f) ?s1)"
    obtain data where "unmarshal data = Some f" using f(1) by (auto simp: readScoreFile_def split: file_state.split_asm)
    from assms(3) [OF this] have ok: "list_all (\<lambda>q. pq_Limit q \<le> max_int64) (sf_Quota f)"
      "list_all (\<lambda>(k, r). int64_ok (ps_Successes r)) (sf_Models f)" by auto
    have "breakers_ok ?s1" using assms(1) by (simp add: breakers_ok_def)
    from restore_models_ok [OF this ok(2)] have b: "breakers_ok ?s2" .
    have m: "rs_modelBreakers (LoadScores env unmarshal path now fs s) = rs_modelBreakers ?s2"
      "rs_providerBreakers (LoadScores env unmarshal path now fs s) = rs_providerBreakers ?s2"
      unfolding L by (simp_all add: restoreScores_def Let_def case_prod_beta)
    with b have "breakers_ok (LoadScores env unmarshal path now fs s)" by (simp add: breakers_ok_def)
    moreover have "(case m_get (rs_modelBreakers ?s2) k of None \<Rightarrow> zero_time | Some st \<Rightarrow> bs_OpenUntil st) =
      (case m_get (rs_modelBreakers s) k of None \<Rightarrow> zero_time | Some st \<Rightarrow> bs_OpenUntil st)"
      by (simp add: restore_models_circuits)
    ultimately have c: "breakers_ok (LoadScores env unmarshal path now fs s)"
      "(case m_get (rs_modelBreakers (LoadScores env unmarshal path now fs s)) k of None \<Rightarrow> zero_time | Some st \<Rightarrow> bs_OpenUntil st) =
        (case m_get (rs_modelBreakers s) k of None \<Rightarrow> zero_time | Some st \<Rightarrow> bs_OpenUntil st)"
      by (simp_all only: m)
    have "ledger_inv (rs_quota (LoadScores env unmarshal path now fs s))"
      "rs_policy (LoadScores env unmarshal path now fs s) = rs_policy s"
      "rs_config (LoadScores env unmarshal path now fs s) = rs_config s"
      "rs_providerBreakers (LoadScores env unmarshal path now fs s) = rs_providerBreakers s"
      using inv_restore_quotas [OF assms(2) ok(1)] unfolding L restoreScores_sel by simp_all
    with c show ?thesis unfolding Let_def using f by (intro conjI) (simp_all only: option.case, blast)
  qed (use assms(1,2) in simp)
qed

text \<open>The dirty flag: a failed save leaves the old file and stays due, a successful one writes the
  snapshot and clears the flag, and a clean service is not written at all.\<close>

lemma SaveScores_cases:
  assumes "SaveScores marshal fails path n1 n2 s fs = (s', fs', ok)" "path \<noteq> []"
  shows "if \<not> rs_scoresDirty s then s' = s \<and> fs' = fs \<and> ok
    else if ok then fs' = Contents (marshal (snd (snapshotScores n1 n2 (s\<lparr>rs_scoresDirty := False\<rparr>)))) \<and> \<not> rs_scoresDirty s'
    else fs' = fs \<and> rs_scoresDirty s'"
  using assms
  by (auto simp: SaveScores_def writeScoreFile_def snapshotScores_def Let_def case_prod_beta split: if_split_asm)

theorem scores_survive_restart_witness:
  "let s = upd_model_breaker ''coding:m'' (\<lambda>st. st\<lparr>bs_Score := 1 / 4, bs_ScoreUpdatedAt := 5, bs_Successes := 2\<rparr>)
        (ex_service\<lparr>rs_policy := \<lparr>pc_DefaultProfile = ''coding'', pc_Profiles = [(''coding'', [''m''])], pc_Aliases = []\<rparr>\<rparr>);
      s0 = s\<lparr>rs_modelBreakers := []\<rparr>;
      a = newAttempt ''coding'' ''m'' providerOpenRouter (defaultBreakerPolicy s);
      s' = fst (restoreScores (snd (snapshotScores 6 6 s)) (knownBreakerKeys s0) 7 0 s0) in
   score_of s' \<lparr>se_now = 8, se_seq = 0, se_duration = 1, se_attempts = 1\<rparr> a =
     score_of s \<lparr>se_now = 8, se_seq = 0, se_duration = 1, se_attempts = 1\<rparr> a"
proof -
  let ?p = "ex_service\<lparr>rs_policy := \<lparr>pc_DefaultProfile = ''coding'', pc_Profiles = [(''coding'', [''m''])], pc_Aliases = []\<rparr>\<rparr>"
  let ?s = "upd_model_breaker ''coding:m'' (\<lambda>st. st\<lparr>bs_Score := 1 / 4, bs_ScoreUpdatedAt := 5, bs_Successes := 2\<rparr>) ?p"
  let ?a = "newAttempt ''coding'' ''m'' providerOpenRouter (defaultBreakerPolicy ?s)"
  have wf: "m_wf (rs_modelBreakers ?s)" by (simp add: upd_model_breaker_def ex_service_def)
  have ok: "breakers_ok ?s"
    by (rule breakers_ok_upd_model) (auto simp: breakers_ok_def ex_service_def breaker_ok_def score_ok_def int64_ok_def min_int64_def max_int64_def)
  have kn: "?a \<in> set (allKnownAttempts (?s\<lparr>rs_modelBreakers := []\<rparr>))"
    by (simp add: allKnownAttempts_def upd_model_breaker_def ex_service_def defaultPolicyProvider_def defaultBreakerPolicy_def)
  from scores_survive_restart [OF wf ok _ kn, of 0 7 6 6 "\<lparr>se_now = 8, se_seq = 0, se_duration = 1, se_attempts = 1\<rparr>"]
  show ?thesis by (simp add: Let_def breakerKey_def defaultPolicyProvider_def)
qed

lemma empty_ledger: "ledger_inv (NewQuotaLedger n)"
  by (rule reachable_inv [of n]) (rule ledger_reachable.init)

theorem loading_keeps_invariants_witness:
  "breakers_ok (LoadScores [] (\<lambda>d. None) ''scores.json'' 9 (Contents ''junk'') ex_service) \<and>
   LoadScores [] (\<lambda>d. None) ''scores.json'' 9 (Contents ''junk'') ex_service = ex_service"
proof -
  have "breakers_ok ex_service" by (simp add: breakers_ok_def ex_service_def)
  moreover have "ledger_inv (rs_quota ex_service)" by (simp add: ex_service_def empty_ledger)
  ultimately show ?thesis
    using loading_keeps_invariants [of ex_service "\<lambda>d. None" "[]" "''scores.json''" 9 "Contents ''junk''" "[]"]
    by (simp add: Let_def readScoreFile_def)
qed

end
