(* ===== verification/Admin.thy ===== *)
theory Admin
  imports Vault Capabilities
begin

text \<open>
  The administration console (\<open>cmd/admin_sessions.go\<close>, \<open>cmd/admin_providers.go\<close>) and the policy of
  the administration token (\<open>cmd/security.go\<close>): login with rate limiting, sessions with expiry and
  CSRF tokens, and the handlers that read and change the provider vault.

  Arguments stand for library code: SHA-256, base64, the JSON decoder, the parsers of addresses
  and the embedded files (\<open>admin_env\<close>). What differs from call to call, the clock, the random
  bytes, the order a Go map is iterated in, what the vault's disk and a provider under test do, is
  an \<open>admin_call\<close>. Handlers run one at a time, as the mutexes of the session store and the vault
  make them; a handler that calls both is one step.
\<close>

section \<open>Requests and responses\<close>

record admin_request =
  ar_Method :: string
  ar_Path :: string
  ar_RemoteAddr :: string
  ar_TLS :: bool
  ar_Host :: string
  ar_Header :: "(string, string) gomap"
  ar_Cookie :: "string option"
  ar_Body :: string

datatype admin_body = NoBody | ErrorBody string | CsrfBody string | FileBody string
  | KeyBody string | TestBody string int
  | ProvidersBody vault_snapshot "(string \<times> bool \<times> string \<times> bool \<times> string) list" string

record admin_cookie =
  ck_Value :: string
  ck_Secure :: bool
  ck_Expires :: go_time
  ck_MaxAge :: int

record admin_response =
  as_Status :: int
  as_Header :: "(string, string) gomap"
  as_Cookie :: "admin_cookie option"
  as_Body :: admin_body

record admin_env =
  ae_env :: process_env
  ae_sha256 :: "string \<Rightarrow> string"
  ae_base64 :: "string \<Rightarrow> string"
  ae_decode :: "string \<Rightarrow> nat \<Rightarrow> string \<Rightarrow> (string \<times> bool) option"
  ae_SplitHostPort :: "string \<Rightarrow> string option"
  ae_loopback :: "string \<Rightarrow> bool"
  ae_file :: "string \<Rightarrow> string option"

definition req_header :: "admin_request \<Rightarrow> string \<Rightarrow> string" where
  "req_header r k = m_get_or [] (ar_Header r) k"

section \<open>Sessions\<close>

record adminSession =
  se_csrf :: string
  se_expiresAt :: go_time

record adminLoginAttempts =
  la_windowStart :: go_time
  la_count :: int

record adminSessions =
  ss_sessions :: "(string, adminSession) gomap"
  ss_attempts :: "(string, adminLoginAttempts) gomap"

record admin_call =
  ac_now :: go_time
  ac_random :: "(string \<times> string) option"
  ac_order :: "(string, adminSession) gomap \<Rightarrow> string list"
  ac_io :: vault_io
  ac_probe :: "(int \<times> int) option"

definition adminSessionTTL :: duration where "adminSessionTTL = 8 * hour"
definition adminLoginWindow :: duration where "adminLoginWindow = minute"
definition adminLoginBurst :: int where "adminLoginBurst = 5"

definition newAdminSessions :: adminSessions where
  "newAdminSessions = \<lparr>ss_sessions = [], ss_attempts = []\<rparr>"

definition adminToken :: "admin_env \<Rightarrow> string" where
  "adminToken E = envValue (ae_env E) ''PROXY_ADMIN_TOKEN''"

definition secureEqual :: "admin_env \<Rightarrow> string \<Rightarrow> string \<Rightarrow> bool" where
  "secureEqual E left right \<longleftrightarrow> ae_sha256 E left = ae_sha256 E right"

fun evict_sessions :: "string list \<Rightarrow> (string, adminSession) gomap \<Rightarrow> (string, adminSession) gomap" where
  "evict_sessions [] m = m"
| "evict_sessions (h # hs) m = (let m' = m_del h m in if length m' \<le> 1024 then m' else evict_sessions hs m')"

definition cleanupLocked :: "admin_call \<Rightarrow> adminSessions \<Rightarrow> adminSessions" where
  "cleanupLocked c s = (let m = filter (\<lambda>(h, se). before (ac_now c) (se_expiresAt se)) (ss_sessions s) in
     s\<lparr>ss_sessions := (if 2048 < length m then evict_sessions (ac_order c m) m else m)\<rparr>)"

definition issue :: "admin_env \<Rightarrow> admin_call \<Rightarrow> adminSessions \<Rightarrow>
    adminSessions \<times> (string \<times> string \<times> go_time) option" where
  "issue E c s = (case ac_random c of
     None \<Rightarrow> (s, None)
   | Some (raw, csrfRaw) \<Rightarrow>
       let token = ae_base64 E raw; csrf = ae_base64 E csrfRaw;
           expires = add_dur (ac_now c) adminSessionTTL; s1 = cleanupLocked c s in
       (s1\<lparr>ss_sessions := m_set (ae_sha256 E token) \<lparr>se_csrf = csrf, se_expiresAt = expires\<rparr> (ss_sessions s1)\<rparr>,
        Some (token, csrf, expires)))"

definition get_session :: "admin_env \<Rightarrow> admin_call \<Rightarrow> string \<Rightarrow> adminSessions \<Rightarrow> adminSessions \<times> adminSession option" where
  "get_session E c token s = (if token = [] then (s, None)
     else let s1 = cleanupLocked c s in (s1, m_get (ss_sessions s1) (ae_sha256 E token)))"

definition revoke :: "admin_env \<Rightarrow> string \<Rightarrow> adminSessions \<Rightarrow> adminSessions" where
  "revoke E token s = s\<lparr>ss_sessions := m_del (ae_sha256 E token) (ss_sessions s)\<rparr>"

definition window_over :: "go_time \<Rightarrow> adminLoginAttempts \<Rightarrow> bool" where
  "window_over now a \<longleftrightarrow> adminLoginWindow \<le> sub_time now (la_windowStart a)"

definition count_attempt :: "go_time \<Rightarrow> adminLoginAttempts \<Rightarrow> adminLoginAttempts" where
  "count_attempt now entry = (let entry = (if is_zero (la_windowStart entry) \<or> window_over now entry
       then \<lparr>la_windowStart = now, la_count = 0\<rparr> else entry) in entry\<lparr>la_count := la_count entry + 1\<rparr>)"

definition prune_attempts :: "go_time \<Rightarrow> (string, adminLoginAttempts) gomap \<Rightarrow> (string, adminLoginAttempts) gomap" where
  "prune_attempts now m = (if 2048 < length m then filter (\<lambda>(k, a). \<not> window_over now a) m else m)"

definition allowLogin :: "admin_call \<Rightarrow> string \<Rightarrow> adminSessions \<Rightarrow> adminSessions \<times> bool" where
  "allowLogin c ip s = (let now = ac_now c;
       entry = count_attempt now (m_get_or \<lparr>la_windowStart = zero_time, la_count = 0\<rparr> (ss_attempts s) ip) in
     (s\<lparr>ss_attempts := prune_attempts now (m_set ip entry (ss_attempts s))\<rparr>, la_count entry \<le> adminLoginBurst))"

section \<open>Transport, origin and bodies\<close>

definition adminClientIP :: "admin_env \<Rightarrow> admin_request \<Rightarrow> string" where
  "adminClientIP E r = (case ae_SplitHostPort E (ar_RemoteAddr r) of Some host \<Rightarrow> host | None \<Rightarrow> ar_RemoteAddr r)"

definition adminTransportAllowed :: "admin_env \<Rightarrow> admin_request \<Rightarrow> bool" where
  "adminTransportAllowed E r \<longleftrightarrow>
     ar_TLS r \<or> equal_fold (envValue (ae_env E) ''PROXY_ADMIN_ALLOW_INSECURE_REMOTE'') ''true'' \<or>
     ae_loopback E (adminClientIP E r)"

definition adminExpectedOrigin :: "admin_request \<Rightarrow> string" where
  "adminExpectedOrigin r = (if ar_TLS r then ''https'' else ''http'') @ ''://'' @ ar_Host r"

definition trim_slash :: "string \<Rightarrow> string" where
  "trim_slash s = (if s \<noteq> [] \<and> last s = CHR ''/'' then butlast s else s)"

definition adminOriginValid :: "admin_request \<Rightarrow> bool" where
  "adminOriginValid r = (let origin = trim_slash (trim_space (req_header r ''Origin'')) in
     origin \<noteq> [] \<and> origin = trim_slash (adminExpectedOrigin r))"

definition adminSecurityHeaders :: "(string, string) gomap" where
  "adminSecurityHeaders = (let q = (\<lambda>s. [CHR 0x27] @ s @ [CHR 0x27]) in [(''Cache-Control'', ''no-store, max-age=0''), (''Pragma'', ''no-cache''),
     (''Referrer-Policy'', ''no-referrer''), (''X-Content-Type-Options'', ''nosniff''),
     (''X-Frame-Options'', ''DENY''), (''Cross-Origin-Opener-Policy'', ''same-origin''),
     (''Cross-Origin-Resource-Policy'', ''same-origin''),
     (''Permissions-Policy'', ''camera=(), microphone=(), geolocation=()''),
     (''Content-Security-Policy'', ''default-src '' @ q ''none'' @ ''; script-src '' @ q ''self'' @ ''; style-src '' @ q ''self'' @
      ''; img-src '' @ q ''self'' @ ''; connect-src '' @ q ''self'' @ ''; base-uri '' @ q ''none'' @
      ''; form-action '' @ q ''self'' @ ''; frame-ancestors '' @ q ''none'')])"

definition setAdminSecurityHeaders :: "(string, string) gomap \<Rightarrow> (string, string) gomap" where
  "setAdminSecurityHeaders h = fold (\<lambda>(k, v). m_set k v) adminSecurityHeaders h"

type_synonym headers = "(string, string) gomap"

definition writeAdminJSON :: "headers \<Rightarrow> int \<Rightarrow> admin_body \<Rightarrow> admin_response" where
  "writeAdminJSON h status value = \<lparr>as_Status = status,
     as_Header = m_set ''Content-Type'' ''application/json; charset=utf-8'' h, as_Cookie = None, as_Body = value\<rparr>"

definition writeAdminError :: "headers \<Rightarrow> int \<Rightarrow> string \<Rightarrow> admin_response" where
  "writeAdminError h status message = writeAdminJSON h status (ErrorBody message)"

definition write_status :: "headers \<Rightarrow> int \<Rightarrow> admin_response" where
  "write_status h status = \<lparr>as_Status = status, as_Header = h, as_Cookie = None, as_Body = NoBody\<rparr>"

definition notFound :: "headers \<Rightarrow> admin_response" where
  "notFound h = \<lparr>as_Status = 404, as_Header = m_set ''Content-Type'' ''text/plain; charset=utf-8'' h,
     as_Cookie = None, as_Body = ErrorBody ''404 page not found''\<rparr>"

text \<open>\<open>decodeAdminJSON\<close> for the one member the handlers read: the decoder gets the member's name, the
  byte limit and the body, and returns the value and whether the input ends there.\<close>

definition decodeAdminJSON :: "admin_env \<Rightarrow> headers \<Rightarrow> admin_request \<Rightarrow> nat \<Rightarrow> string \<Rightarrow> admin_response + string" where
  "decodeAdminJSON E h r maxBytes field =
    (let mediaType = to_lower (trim_space (hd (split_on CHR '';'' (req_header r ''Content-Type'')))) in
     if mediaType \<noteq> ''application/json'' then Inl (writeAdminError h 415 ''Content-Type must be application/json'')
     else (case ae_decode E field maxBytes (ar_Body r) of
       None \<Rightarrow> Inl (writeAdminError h 400 ''Invalid JSON body'')
     | Some (value, eof) \<Rightarrow>
         if \<not> eof then Inl (writeAdminError h 400 ''JSON body must contain one value'') else Inr value))"

definition rejectAdminBody :: "headers \<Rightarrow> admin_request \<Rightarrow> string \<Rightarrow> admin_response option" where
  "rejectAdminBody h r operation = (if ar_Body r \<noteq> []
     then Some (writeAdminError h 400 (operation @ '' does not accept a request body'')) else None)"

section \<open>Authentication\<close>

definition adminBearerAuthorized :: "admin_env \<Rightarrow> admin_request \<Rightarrow> bool" where
  "adminBearerAuthorized E r = (let header = req_header r ''Authorization'' in
     has_prefix header ''Bearer '' \<and>
     (let want = adminToken E in want \<noteq> [] \<and> secureEqual E (trim_prefix header ''Bearer '') want))"

text \<open>A session, or none; the administration token itself gives the zero session.\<close>

definition authenticate :: "admin_env \<Rightarrow> admin_call \<Rightarrow> admin_request \<Rightarrow> bool \<Rightarrow> adminSessions \<Rightarrow>
    adminSessions \<times> adminSession option" where
  "authenticate E c r mutation s =
    (if adminBearerAuthorized E r then (s, Some \<lparr>se_csrf = [], se_expiresAt = zero_time\<rparr>)
     else (case ar_Cookie r of
       None \<Rightarrow> (s, None)
     | Some cookie \<Rightarrow> (case get_session E c cookie s of
         (s1, None) \<Rightarrow> (s1, None)
       | (s1, Some session) \<Rightarrow>
           if mutation \<and> (\<not> adminOriginValid r \<or> \<not> secureEqual E (req_header r ''X-CSRF-Token'') (se_csrf session))
           then (s1, None) else (s1, Some session))))"

definition sessionHandler :: "admin_env \<Rightarrow> admin_call \<Rightarrow> headers \<Rightarrow> admin_request \<Rightarrow> adminSessions \<Rightarrow>
    adminSessions \<times> admin_response" where
  "sessionHandler E c h r s =
    (if adminToken E = [] then (s, writeAdminError h 503 ''Admin UI requires PROXY_ADMIN_TOKEN'')
     else if ar_Method r = ''POST'' then
       (if \<not> adminOriginValid r then (s, writeAdminError h 403 ''Invalid request origin'')
        else (case allowLogin c (adminClientIP E r) s of
          (s1, False) \<Rightarrow> (s1, writeAdminError (m_set ''Retry-After'' ''60'' h) 429 ''Too many login attempts; try again shortly'')
        | (s1, True) \<Rightarrow> (case decodeAdminJSON E h r 4096 ''token'' of
            Inl resp \<Rightarrow> (s1, resp)
          | Inr token \<Rightarrow>
              if \<not> secureEqual E token (adminToken E) then (s1, writeAdminError h 401 ''Invalid admin token'')
              else (case issue E c s1 of
                (s2, None) \<Rightarrow> (s2, writeAdminError h 500 ''Could not create admin session'')
              | (s2, Some (tok, csrf, expires)) \<Rightarrow>
                  (s2, (writeAdminJSON h 201 (CsrfBody csrf))\<lparr>as_Cookie :=
                     Some \<lparr>ck_Value = tok, ck_Secure = ar_TLS r, ck_Expires = expires, ck_MaxAge = 28800\<rparr>\<rparr>)))))
     else if ar_Method r = ''DELETE'' then
       (case authenticate E c r True s of
          (s1, None) \<Rightarrow> (s1, writeAdminError h 401 ''Unauthorized'')
        | (s1, Some _) \<Rightarrow>
            (case ar_Cookie r of None \<Rightarrow> s1 | Some cookie \<Rightarrow> revoke E cookie s1,
             (write_status h 204)\<lparr>as_Cookie := Some \<lparr>ck_Value = [], ck_Secure = ar_TLS r, ck_Expires = zero_time, ck_MaxAge = -1\<rparr>\<rparr>))
     else (s, writeAdminError (m_set ''Allow'' ''POST, DELETE'' h) 405 ''Method not allowed''))"

section \<open>The provider console\<close>

record adminProviderServer =
  ap_store :: Vault
  ap_sessions :: adminSessions

definition adminProviderEnvironmentKey :: "admin_env \<Rightarrow> string \<Rightarrow> string" where
  "adminProviderEnvironmentKey E provider =
    (if provider = ProviderOpenRouter then envValue (ae_env E) ''OPENROUTER_API_KEY''
     else if provider = ProviderCerebras then envValue (ae_env E) ''CEREBRAS_API_KEY''
     else if provider = ProviderGroq then envValue (ae_env E) ''GROQ_API_KEY''
     else envValue (ae_env E) [])"

definition char_upper :: "char \<Rightarrow> char" where
  "char_upper ch = (let n = (of_char ch :: nat) in if 97 \<le> n \<and> n \<le> 122 then char_of (n - 32) else ch)"

definition adminProviderTestURL :: "admin_env \<Rightarrow> string \<Rightarrow> string" where
  "adminProviderTestURL E provider =
    (let override = envValue (ae_env E) (''PROXY_ADMIN_'' @ map char_upper provider @ ''_TEST_URL'') in
     if override \<noteq> [] then override
     else if provider = ProviderCerebras then ''https://api.cerebras.ai/v1/models''
     else if provider = ProviderGroq then ''https://api.groq.com/openai/v1/models''
     else ''https://openrouter.ai/api/v1/models'')"

definition sanitizeProviderTestFailure :: "int \<Rightarrow> int \<times> string" where
  "sanitizeProviderTestFailure status =
    (if status = 401 \<or> status = 403 then (502, ''Provider rejected the configured key'')
     else if status = 429 then (502, ''Provider accepted the request but is currently rate-limited'')
     else (502, ''Provider returned an unexpected status ('' @ itoa status @ '')''))"

definition servePage :: "admin_env \<Rightarrow> headers \<Rightarrow> admin_request \<Rightarrow> admin_response" where
  "servePage E h r =
    (if ar_Method r \<noteq> ''GET'' \<and> ar_Method r \<noteq> ''HEAD'' then writeAdminError (m_set ''Allow'' ''GET, HEAD'' h) 405 ''Method not allowed''
     else (case ae_file E ''adminui/index.html'' of
       None \<Rightarrow> writeAdminError h 500 ''Admin UI is unavailable''
     | Some data \<Rightarrow> \<lparr>as_Status = 200, as_Header = m_set ''Content-Type'' ''text/html; charset=utf-8'' h, as_Cookie = None,
         as_Body = (if ar_Method r = ''GET'' then FileBody data else NoBody)\<rparr>))"

definition serveAsset :: "admin_env \<Rightarrow> headers \<Rightarrow> admin_request \<Rightarrow> admin_response" where
  "serveAsset E h r =
    (if ar_Method r \<noteq> ''GET'' \<and> ar_Method r \<noteq> ''HEAD'' then writeAdminError (m_set ''Allow'' ''GET, HEAD'' h) 405 ''Method not allowed''
     else (let name = trim_prefix (ar_Path r) ''/admin/assets/'';
               contentType = (if name = ''app.js'' then Some ''text/javascript; charset=utf-8''
                 else if name = ''styles.css'' then Some ''text/css; charset=utf-8'' else None) in
       case contentType of
         None \<Rightarrow> notFound h
       | Some ct \<Rightarrow> (case ae_file E (''adminui/'' @ name) of
           None \<Rightarrow> notFound h
         | Some data \<Rightarrow> \<lparr>as_Status = 200, as_Header = m_set ''Content-Type'' ct h, as_Cookie = None,
             as_Body = (if ar_Method r = ''GET'' then FileBody data else NoBody)\<rparr>)))"

definition provider_view :: "admin_env \<Rightarrow> ProviderStatus \<Rightarrow> string \<times> bool \<times> string \<times> bool \<times> string" where
  "provider_view E st =
    (if adminProviderEnvironmentKey E (ps_Provider st) \<noteq> []
     then (ps_Provider st, ps_Configured st, ''environment'', False, ''configured'')
     else if ps_Configured st then (ps_Provider st, True, ''vault'', True, ''configured'')
     else (ps_Provider st, False, ''none'', False, ''missing''))"

definition providersHandler :: "admin_env \<Rightarrow> admin_call \<Rightarrow> headers \<Rightarrow> admin_request \<Rightarrow> adminProviderServer \<Rightarrow>
    adminProviderServer \<times> admin_response" where
  "providersHandler E c h r a =
    (if ar_Method r \<noteq> ''GET'' then (a, writeAdminError (m_set ''Allow'' ''GET'' h) 405 ''Method not allowed'')
     else (case authenticate E c r False (ap_sessions a) of
       (s1, None) \<Rightarrow> (a\<lparr>ap_sessions := s1\<rparr>, writeAdminError h 401 ''Unauthorized'')
     | (s1, Some session) \<Rightarrow> (a\<lparr>ap_sessions := s1\<rparr>, (case Status (ap_store a) (ac_io c) of
         None \<Rightarrow> write_status h 500
       | Some snap \<Rightarrow> writeAdminJSON h 200 (ProvidersBody snap (map (provider_view E) (sn_Providers snap)) (se_csrf session))))))"

definition parseAdminProviderAction :: "string \<Rightarrow> (string \<times> string) option" where
  "parseAdminProviderAction path = (case split_on CHR ''/'' (trim_prefix path ''/admin/api/providers/'') of
     [p, action] \<Rightarrow>
       if p = [] then None
       else if \<not> allowedProvider p then None
       else if action \<noteq> ''key'' \<and> action \<noteq> ''test'' then None
       else Some (p, action)
   | _ \<Rightarrow> None)"

definition keyHandler :: "admin_env \<Rightarrow> admin_call \<Rightarrow> headers \<Rightarrow> admin_request \<Rightarrow> string \<Rightarrow> Vault \<Rightarrow> Vault \<times> admin_response" where
  "keyHandler E c h r provider v =
    (if ar_Method r = ''PUT'' then
       (case decodeAdminJSON E h r 8192 ''key'' of
          Inl resp \<Rightarrow> (v, resp)
        | Inr key \<Rightarrow> (case Set (ac_io c) provider key v of
            (v1, Some _) \<Rightarrow> (v1, writeAdminError h 400 ''The provider key could not be stored'')
          | (v1, None) \<Rightarrow> (v1, writeAdminJSON h 200 (KeyBody provider))))
     else if ar_Method r = ''DELETE'' then
       (case rejectAdminBody h r ''DELETE'' of
          Some resp \<Rightarrow> (v, resp)
        | None \<Rightarrow> (case Delete (ac_io c) provider v of
            (v1, Some _) \<Rightarrow> (v1, writeAdminError h 500 ''The provider key could not be removed'')
          | (v1, None) \<Rightarrow> (v1, write_status h 204)))
     else (v, writeAdminError (m_set ''Allow'' ''PUT, DELETE'' h) 405 ''Method not allowed''))"

text \<open>The request a test sends: its URL and the credential it carries.\<close>

definition test_secret :: "admin_env \<Rightarrow> admin_call \<Rightarrow> string \<Rightarrow> Vault \<Rightarrow> string option" where
  "test_secret E c provider v = (let env_key = adminProviderEnvironmentKey E provider in
     if env_key \<noteq> [] then Some env_key
     else (case Get v (ac_io c) provider of Inr (Some secret) \<Rightarrow> Some secret | _ \<Rightarrow> None))"

definition testHandler :: "admin_env \<Rightarrow> admin_call \<Rightarrow> headers \<Rightarrow> admin_request \<Rightarrow> string \<Rightarrow> Vault \<Rightarrow>
    admin_response \<times> (string \<times> string) option" where
  "testHandler E c h r provider v =
    (if ar_Method r \<noteq> ''POST'' then (writeAdminError (m_set ''Allow'' ''POST'' h) 405 ''Method not allowed'', None)
     else (case rejectAdminBody h r ''Test'' of
       Some resp \<Rightarrow> (resp, None)
     | None \<Rightarrow> (case test_secret E c provider v of
         None \<Rightarrow> (writeAdminError h 409 ''No usable key is configured for this provider'', None)
       | Some secret \<Rightarrow>
           (let sent = Some (adminProviderTestURL E provider, ''Bearer '' @ secret) in
            case ac_probe c of
              None \<Rightarrow> (writeAdminError h 502 ''Provider is unreachable or timed out'', sent)
            | Some (status, latency) \<Rightarrow>
                if status < 200 \<or> 300 \<le> status
                then (case sanitizeProviderTestFailure status of (code, message) \<Rightarrow> (writeAdminError h code message, sent))
                else (writeAdminJSON h 200 (TestBody provider latency), sent)))))"

definition providerActionHandler :: "admin_env \<Rightarrow> admin_call \<Rightarrow> headers \<Rightarrow> admin_request \<Rightarrow> adminProviderServer \<Rightarrow>
    adminProviderServer \<times> admin_response" where
  "providerActionHandler E c h r a =
    (case parseAdminProviderAction (ar_Path r) of
       None \<Rightarrow> (a, notFound h)
     | Some (provider, action) \<Rightarrow> (case authenticate E c r (ar_Method r \<noteq> ''GET'') (ap_sessions a) of
         (s1, None) \<Rightarrow> (a\<lparr>ap_sessions := s1\<rparr>, writeAdminError h 401 ''Unauthorized'')
       | (s1, Some _) \<Rightarrow>
           if action = ''key'' then
             (case keyHandler E c h r provider (ap_store a) of
                (v1, resp) \<Rightarrow> (a\<lparr>ap_sessions := s1, ap_store := v1\<rparr>, resp))
           else (a\<lparr>ap_sessions := s1\<rparr>, fst (testHandler E c h r provider (ap_store a)))))"

text \<open>The routes of \<open>MountAdminProviders\<close>, all behind \<open>protected\<close>; the patterns that end in a slash match
  every path below them.\<close>

definition protected :: "admin_env \<Rightarrow> (headers \<Rightarrow> adminProviderServer \<times> admin_response) \<Rightarrow> admin_request \<Rightarrow>
    adminProviderServer \<Rightarrow> adminProviderServer \<times> admin_response" where
  "protected E nxt r a =
    (let h = setAdminSecurityHeaders [];
         h1 = (if ar_TLS r then m_set ''Strict-Transport-Security'' ''max-age=31536000'' h else h) in
     if \<not> adminTransportAllowed E r then (a, writeAdminError h1 403 ''Admin UI requires HTTPS for remote access'')
     else if adminToken E = [] then (a, writeAdminError h1 503 ''Admin UI requires PROXY_ADMIN_TOKEN'')
     else nxt h1)"

definition adminRoute :: "admin_env \<Rightarrow> admin_call \<Rightarrow> admin_request \<Rightarrow> adminProviderServer \<Rightarrow>
    (headers \<Rightarrow> adminProviderServer \<times> admin_response) option" where
  "adminRoute E c r a =
    (if ar_Path r = ''/admin/providers'' then Some (\<lambda>h. (a, servePage E h r))
     else if has_prefix (ar_Path r) ''/admin/assets/'' then Some (\<lambda>h. (a, serveAsset E h r))
     else if ar_Path r = ''/admin/session'' then
       Some (\<lambda>h. case sessionHandler E c h r (ap_sessions a) of (s1, resp) \<Rightarrow> (a\<lparr>ap_sessions := s1\<rparr>, resp))
     else if ar_Path r = ''/admin/api/providers'' then Some (\<lambda>h. providersHandler E c h r a)
     else if has_prefix (ar_Path r) ''/admin/api/providers/'' then Some (\<lambda>h. providerActionHandler E c h r a)
     else None)"

definition adminServe :: "admin_env \<Rightarrow> admin_call \<Rightarrow> admin_request \<Rightarrow> adminProviderServer \<Rightarrow>
    (adminProviderServer \<times> admin_response) option" where
  "adminServe E c r a = map_option (\<lambda>nxt. protected E nxt r a) (adminRoute E c r a)"

section \<open>Where sessions come from\<close>

text \<open>A history of the console is the list of what it served, the newest first.\<close>

type_synonym admin_event = "admin_call \<times> admin_request \<times> admin_response"

inductive admin_run :: "admin_env \<Rightarrow> admin_event list \<Rightarrow> adminProviderServer \<Rightarrow> bool" for E where
  start: "admin_run E [] \<lparr>ap_store = v, ap_sessions = newAdminSessions\<rparr>"
| serve: "admin_run E tr a \<Longrightarrow> adminServe E c r a = Some (a', resp) \<Longrightarrow> admin_run E ((c, r, resp) # tr) a'"

text \<open>A login: an allowed transport, this origin, a body whose token has the digest of the administration
  token, answered with a session of eight hours.\<close>

definition login_event :: "admin_env \<Rightarrow> admin_event \<Rightarrow> string \<Rightarrow> adminSession \<Rightarrow> bool" where
  "login_event E ev h se \<longleftrightarrow> (case ev of (c, r, resp) \<Rightarrow>
     ar_Path r = ''/admin/session'' \<and> ar_Method r = ''POST'' \<and> adminTransportAllowed E r \<and> adminOriginValid r \<and>
     adminToken E \<noteq> [] \<and> as_Status resp = 201 \<and>
     (\<exists>input. ae_decode E ''token'' 4096 (ar_Body r) = Some (input, True) \<and> secureEqual E input (adminToken E)) \<and>
     (\<exists>raw craw. ac_random c = Some (raw, craw) \<and> h = ae_sha256 E (ae_base64 E raw) \<and>
        se = \<lparr>se_csrf = ae_base64 E craw, se_expiresAt = add_dur (ac_now c) adminSessionTTL\<rparr>))"

definition sessions_from :: "admin_env \<Rightarrow> admin_event list \<Rightarrow> adminSessions \<Rightarrow> bool" where
  "sessions_from E tr s \<longleftrightarrow> (\<forall>(h, se) \<in> set (ss_sessions s). \<exists>ev \<in> set tr. login_event E ev h se)"

lemma set_m_set: "set (m_set k v m) \<subseteq> insert (k, v) (set m)"
  by (induction m) auto

lemma set_m_del: "set (m_del k m) \<subseteq> set m"
  by (auto simp: AList.delete_eq)

lemma evict_subset: "set (evict_sessions hs m) \<subseteq> set m"
proof (induction hs arbitrary: m)
  case (Cons h hs)
  show ?case using Cons.IH [of "m_del h m"] set_m_del [of h m] by (auto simp: Let_def)
qed simp

lemma cleanup_subset:
  "set (ss_sessions (cleanupLocked c s)) \<subseteq> {(h, se) \<in> set (ss_sessions s). before (ac_now c) (se_expiresAt se)}"
proof -
  let ?m = "filter (\<lambda>(h, se). before (ac_now c) (se_expiresAt se)) (ss_sessions s)"
  have "set (ss_sessions (cleanupLocked c s)) \<subseteq> set ?m"
    using evict_subset [of "ac_order c ?m" ?m] by (simp add: cleanupLocked_def Let_def)
  then show ?thesis by auto
qed

lemma cleanup_attempts [simp]: "ss_attempts (cleanupLocked c s) = ss_attempts s"
  by (simp add: cleanupLocked_def Let_def)

lemma get_session_subset: "get_session E c tok s = (s', r) \<Longrightarrow> set (ss_sessions s') \<subseteq> set (ss_sessions s)"
  using cleanup_subset [of c s] by (auto simp: get_session_def Let_def split: if_splits)

lemma authenticate_subset:
  "authenticate E c r mut s = (s', res) \<Longrightarrow> set (ss_sessions s') \<subseteq> set (ss_sessions s)"
  by (auto simp: authenticate_def split: if_splits option.splits prod.splits dest: get_session_subset [THEN subsetD])

text \<open>Who passes authentication: the bearer of the token, or the holder of a live session, who for a
  change also shows the right origin and the session's CSRF token.\<close>

lemma authenticate_granted:
  assumes "authenticate E c r mut s = (s', Some se)"
  shows "adminBearerAuthorized E r \<or>
    (\<exists>cookie. ar_Cookie r = Some cookie \<and> cookie \<noteq> [] \<and> (ae_sha256 E cookie, se) \<in> set (ss_sessions s) \<and>
       before (ac_now c) (se_expiresAt se) \<and>
       (mut \<longrightarrow> adminOriginValid r \<and> secureEqual E (req_header r ''X-CSRF-Token'') (se_csrf se)))"
proof -
  have live: "(ae_sha256 E tok, x) \<in> set (ss_sessions s) \<and> before (ac_now c) (se_expiresAt x) \<and> tok \<noteq> []"
    if "get_session E c tok s = (s1, Some x)" for tok s1 x
  proof -
    from that have "(ae_sha256 E tok, x) \<in> set (ss_sessions (cleanupLocked c s))" "tok \<noteq> []"
      by (auto simp: get_session_def Let_def dest: map_of_SomeD split: if_splits)
    with cleanup_subset [of c s] show ?thesis by auto
  qed
  from assms show ?thesis
    by (auto simp: authenticate_def split: if_split_asm option.split_asm prod.split_asm dest: live)
qed

lemma allowLogin_sessions [simp]: "ss_sessions (fst (allowLogin c ip s)) = ss_sessions s"
  by (simp add: allowLogin_def Let_def)

lemma decodeAdminJSON_value:
  "decodeAdminJSON E h r n f = Inr x \<Longrightarrow> ae_decode E f n (ar_Body r) = Some (x, True)"
  by (auto simp: decodeAdminJSON_def Let_def split: if_split_asm option.split_asm)

lemma issue_subset:
  assumes "issue E c s = (s', res)"
  shows "res = None \<and> s' = s \<or> (\<exists>raw craw. ac_random c = Some (raw, craw) \<and>
    set (ss_sessions s') \<subseteq> insert (ae_sha256 E (ae_base64 E raw),
      \<lparr>se_csrf = ae_base64 E craw, se_expiresAt = add_dur (ac_now c) adminSessionTTL\<rparr>) (set (ss_sessions s)))"
proof (cases "ac_random c")
  case (Some rc)
  then obtain raw craw where rc: "ac_random c = Some (raw, craw)" by (cases rc) auto
  let ?new = "(ae_sha256 E (ae_base64 E raw), \<lparr>se_csrf = ae_base64 E craw, se_expiresAt = add_dur (ac_now c) adminSessionTTL\<rparr>)"
  have "set (ss_sessions s') \<subseteq> insert ?new (set (ss_sessions (cleanupLocked c s)))"
    using assms rc set_m_set [of "fst ?new" "snd ?new" "ss_sessions (cleanupLocked c s)"]
    by (auto simp: issue_def Let_def simp del: AList.update.simps)
  then have "set (ss_sessions s') \<subseteq> insert ?new (set (ss_sessions s))" using cleanup_subset [of c s] by blast
  with rc show ?thesis by blast
qed (use assms in \<open>auto simp: issue_def\<close>)

lemma sessionHandler_sessions:
  assumes "sessionHandler E c h r s = (s', resp)" "adminTransportAllowed E r" "ar_Path r = ''/admin/session''"
    "x \<in> set (ss_sessions s')" "x \<notin> set (ss_sessions s)"
  shows "login_event E (c, r, resp) (fst x) (snd x)"
proof (cases "ar_Method r = ''POST''")
  case True
  obtain s1 ok where al: "allowLogin c (adminClientIP E r) s = (s1, ok)" by (cases "allowLogin c (adminClientIP E r) s")
  have ss: "ss_sessions s1 = ss_sessions s" using al allowLogin_sessions [of c "adminClientIP E r" s] by simp
  from assms(1,4,5) True al ss obtain input tok csrf ex where
      ok: "adminOriginValid r" "adminToken E \<noteq> []" "decodeAdminJSON E h r 4096 ''token'' = Inr input"
        "secureEqual E input (adminToken E)" "issue E c s1 = (s', Some (tok, csrf, ex))" "as_Status resp = 201"
    by (auto simp: sessionHandler_def writeAdminJSON_def issue_def Let_def
        split: if_split_asm bool.split_asm sum.split_asm prod.split_asm option.split_asm)
  from issue_subset [OF ok(5)] obtain raw craw where rc: "ac_random c = Some (raw, craw)"
      "set (ss_sessions s') \<subseteq> insert (ae_sha256 E (ae_base64 E raw),
        \<lparr>se_csrf = ae_base64 E craw, se_expiresAt = add_dur (ac_now c) adminSessionTTL\<rparr>) (set (ss_sessions s))"
    using ss by auto
  with assms(4,5) have x: "x = (ae_sha256 E (ae_base64 E raw),
      \<lparr>se_csrf = ae_base64 E craw, se_expiresAt = add_dur (ac_now c) adminSessionTTL\<rparr>)" by blast
  show ?thesis
    using ok decodeAdminJSON_value [OF ok(3)] rc(1) x assms(2,3) True by (simp add: login_event_def)
next
  case False
  have "set (ss_sessions s') \<subseteq> set (ss_sessions s)"
    using assms(1) False set_m_del authenticate_subset [of E c r True s]
    by (fastforce simp: sessionHandler_def revoke_def split: if_split_asm option.split_asm prod.split_asm)
  with assms(4,5) show ?thesis by blast
qed

lemma adminServe_cases:
  assumes "adminServe E c r a = Some (a', resp)"
  obtains "a' = a"
  | s1 where "a' = a\<lparr>ap_sessions := s1\<rparr>" "set (ss_sessions s1) \<subseteq> set (ss_sessions (ap_sessions a))"
  | h s1 where "a' = a\<lparr>ap_sessions := s1\<rparr>" "sessionHandler E c h r (ap_sessions a) = (s1, resp)"
      "adminTransportAllowed E r" "adminToken E \<noteq> []" "ar_Path r = ''/admin/session''"
  | h p s1 se v1 where "a' = a\<lparr>ap_sessions := s1, ap_store := v1\<rparr>"
      "authenticate E c r (ar_Method r \<noteq> ''GET'') (ap_sessions a) = (s1, Some se)"
      "keyHandler E c h r p (ap_store a) = (v1, resp)" "adminTransportAllowed E r" "adminToken E \<noteq> []"
      "parseAdminProviderAction (ar_Path r) = Some (p, ''key'')"
proof -
  let ?h = "setAdminSecurityHeaders []"
  let ?h1 = "if ar_TLS r then m_set ''Strict-Transport-Security'' ''max-age=31536000'' ?h else ?h"
  from assms obtain nxt where nxt: "adminRoute E c r a = Some nxt" "(a', resp) = protected E nxt r a"
    by (auto simp: adminServe_def)
  show ?thesis
  proof (cases "adminTransportAllowed E r \<and> adminToken E \<noteq> []")
    case False
    with nxt(2) that(1) show ?thesis by (auto simp: protected_def Let_def split: if_split_asm)
  next
    case gate: True
    with nxt(2) have run: "nxt ?h1 = (a', resp)" by (auto simp: protected_def Let_def)
    from nxt(1) consider "nxt = (\<lambda>h. (a, servePage E h r))" | "nxt = (\<lambda>h. (a, serveAsset E h r))"
      | "nxt = (\<lambda>h. case sessionHandler E c h r (ap_sessions a) of (s1, resp) \<Rightarrow> (a\<lparr>ap_sessions := s1\<rparr>, resp))"
        "ar_Path r = ''/admin/session''"
      | "nxt = (\<lambda>h. providersHandler E c h r a)" | "nxt = (\<lambda>h. providerActionHandler E c h r a)"
      by (auto simp: adminRoute_def split: if_split_asm)
    then show ?thesis
    proof cases
      case 3
      with run gate that(3) [where h = ?h1] show ?thesis by (auto split: prod.split_asm)
    next
      case 4
      with run show ?thesis
        by (auto simp: providersHandler_def split: if_split_asm option.split_asm prod.split_asm
            intro: that(1) that(2) dest: authenticate_subset)
    next
      case 5
      with run have pa: "providerActionHandler E c ?h1 r a = (a', resp)" by simp
      obtain s1 au where au: "authenticate E c r (ar_Method r \<noteq> ''GET'') (ap_sessions a) = (s1, au)" by fastforce
      show ?thesis
      proof (cases "\<exists>p. parseAdminProviderAction (ar_Path r) = Some (p, ''key'') \<and> au \<noteq> None")
        case True
        with pa au gate that(4) show ?thesis
          by (auto simp: providerActionHandler_def split: prod.split_asm)
      next
        case False
        with pa au that(1,2) authenticate_subset [OF au] show ?thesis
          by (auto simp: providerActionHandler_def split: option.split_asm prod.split_asm if_split_asm)
      qed
    qed (use run that(1) in auto)
  qed
qed

lemma sessions_from_run: "admin_run E tr a \<Longrightarrow> sessions_from E tr (ap_sessions a)"
proof (induction rule: admin_run.induct)
  case (start v)
  then show ?case by (simp add: sessions_from_def newAdminSessions_def)
next
  case (serve tr a c r a' resp)
  let ?ev = "(c, r, resp)"
  have old: "\<exists>ev\<in>set (?ev # tr). login_event E ev (fst x) (snd x)" if "x \<in> set (ss_sessions (ap_sessions a))" for x
    using serve.IH that by (auto simp: sessions_from_def)
  have "\<exists>ev\<in>set (?ev # tr). login_event E ev (fst x) (snd x)" if x: "x \<in> set (ss_sessions (ap_sessions a'))" for x
    using serve.hyps(2)
  proof (cases rule: adminServe_cases)
    case (3 h s1)
    with sessionHandler_sessions [OF 3(2,3,5), of x] x old [of x] show ?thesis by auto
  next
    case (4 h p s1 se v1)
    with authenticate_subset [OF 4(2)] x old [of x] show ?thesis by auto
  qed (use x old [of x] in auto)
  then show ?case unfolding sessions_from_def case_prod_beta by blast
qed

lemma keyHandler_store:
  "keyHandler E c h r p v = (v', resp) \<Longrightarrow> v' \<noteq> v \<Longrightarrow> ar_Method r \<in> {''PUT'', ''DELETE''} \<and>
     (\<exists>key res. Set (ac_io c) p key v = (v', res) \<or> Delete (ac_io c) p v = (v', res))"
  by (auto simp: keyHandler_def split: if_split_asm sum.split_asm prod.split_asm option.split_asm)

text \<open>Revoking ends a session, and a cleanup that iterates over the whole map leaves at most 2048.\<close>

lemma revoked_session_refused:
  assumes "get_session E c tok (revoke E tok s) = (s', res)"
  shows "res = None"
proof (cases "tok = []")
  case False
  have "(ae_sha256 E tok, se) \<notin> set (ss_sessions (cleanupLocked c (revoke E tok s)))" for se
    using cleanup_subset [of c "revoke E tok s"] by (auto simp: revoke_def AList.delete_eq)
  with assms False show ?thesis by (cases res) (auto simp: get_session_def Let_def dest: map_of_SomeD)
qed (use assms in \<open>simp add: get_session_def\<close>)

lemma evict_bound:
  assumes "m_wf m" "set (m_keys m) \<subseteq> set hs" "1024 < length m"
  shows "length (evict_sessions hs m) \<le> 1024"
  using assms
proof (induction hs arbitrary: m)
  case Nil
  then show ?case by simp
next
  case (Cons h hs)
  have "m_wf (m_del h m)" using Cons.prems(1) by simp
  moreover have "set (m_keys (m_del h m)) \<subseteq> set hs" using Cons.prems(2) by (auto simp: AList.delete_eq)
  ultimately show ?case using Cons.IH [of "m_del h m"] by (auto simp: Let_def not_le)
qed

lemma cleanup_bound:
  assumes "m_wf (ss_sessions s)" "\<And>m. set (m_keys m) \<subseteq> set (ac_order c m)"
  shows "length (ss_sessions (cleanupLocked c s)) \<le> 2048"
proof -
  let ?m = "filter (\<lambda>(h, se). before (ac_now c) (se_expiresAt se)) (ss_sessions s)"
  have "length (evict_sessions (ac_order c ?m) ?m) \<le> 1024" if "2048 < length ?m"
    using that assms(1) by (intro evict_bound [OF _ assms(2)]) simp_all
  then show ?thesis by (auto simp: cleanupLocked_def Let_def)
qed

text \<open>Every answer of the console, errors included, forbids caching, framing and sniffing.\<close>

definition hardened :: "headers \<Rightarrow> bool" where
  "hardened h \<longleftrightarrow> m_get h ''Cache-Control'' = Some ''no-store, max-age=0'' \<and> m_get h ''X-Frame-Options'' = Some ''DENY'' \<and>
     m_get h ''X-Content-Type-Options'' = Some ''nosniff''"

lemma hardened_set [simp]:
  "k \<in> {''Content-Type'', ''Allow'', ''Retry-After'', ''Strict-Transport-Security''} \<Longrightarrow> hardened (m_set k v h) = hardened h"
  by (auto simp: hardened_def)

lemma hardened_writers [simp]:
  "hardened h \<Longrightarrow> hardened (as_Header (writeAdminJSON h st b))" "hardened h \<Longrightarrow> hardened (as_Header (writeAdminError h st m))"
  "hardened h \<Longrightarrow> hardened (as_Header (write_status h st))" "hardened h \<Longrightarrow> hardened (as_Header (notFound h))"
  by (simp_all add: writeAdminJSON_def writeAdminError_def write_status_def notFound_def)

lemma hardened_decode: "decodeAdminJSON E h r n f = Inl resp \<Longrightarrow> hardened h \<Longrightarrow> hardened (as_Header resp)"
  by (auto simp: decodeAdminJSON_def Let_def split: if_split_asm option.split_asm)

lemma hardened_reject: "rejectAdminBody h r op = Some resp \<Longrightarrow> hardened h \<Longrightarrow> hardened (as_Header resp)"
  by (auto simp: rejectAdminBody_def split: if_split_asm)

lemma hardened_handlers:
  assumes "hardened h"
  shows "hardened (as_Header (servePage E h r))" "hardened (as_Header (serveAsset E h r))"
    "hardened (as_Header (snd (sessionHandler E c h r s)))" "hardened (as_Header (snd (providersHandler E c h r a)))"
    "hardened (as_Header (snd (keyHandler E c h r p v)))" "hardened (as_Header (fst (testHandler E c h r p v)))"
    "hardened (as_Header (snd (providerActionHandler E c h r a)))"
proof -
  show "hardened (as_Header (servePage E h r))" using assms by (auto simp: servePage_def split: option.split)
  show "hardened (as_Header (serveAsset E h r))" using assms by (auto simp: serveAsset_def Let_def split: option.split)
  show "hardened (as_Header (snd (sessionHandler E c h r s)))"
    using assms by (auto simp: sessionHandler_def split: option.split prod.split bool.split sum.split dest: hardened_decode)
  show "hardened (as_Header (snd (providersHandler E c h r a)))"
    using assms by (auto simp: providersHandler_def split: option.split prod.split)
  show k: "hardened (as_Header (snd (keyHandler E c h r p v)))" for p v
    using assms by (auto simp: keyHandler_def split: option.split prod.split sum.split dest: hardened_decode hardened_reject)
  show t: "hardened (as_Header (fst (testHandler E c h r p v)))" for p v
    using assms by (auto simp: testHandler_def Let_def split: option.split prod.split dest: hardened_reject)
  show "hardened (as_Header (snd (providerActionHandler E c h r a)))"
    using assms k t by (auto simp: providerActionHandler_def split: option.split prod.split) (metis snd_conv)
qed

lemma every_answer_hardened:
  assumes "adminServe E c r a = Some (a', resp)"
  shows "hardened (as_Header resp)"
proof -
  have h: "hardened (setAdminSecurityHeaders [])" by code_simp
  from assms show ?thesis
    using h hardened_handlers
    by (auto simp: adminServe_def adminRoute_def protected_def Let_def split: if_split_asm prod.split_asm)
       (metis (no_types, lifting) hardened_set h hardened_handlers snd_conv insertI1 insertI2)+
qed

section \<open>Login attempts\<close>

text \<open>A sequence of login attempts from several addresses, and how many of one address get through.\<close>

fun logins :: "string \<Rightarrow> (admin_call \<times> string) list \<Rightarrow> adminSessions \<Rightarrow> nat" where
  "logins ip [] s = 0"
| "logins ip ((c, i) # cs) s = (case allowLogin c i s of (s1, ok) \<Rightarrow>
     (if ok \<and> i = ip then 1 else 0) + logins ip cs s1)"

text \<open>The attempts counted so far for an address against its entry: five for every whole window since
  \<open>t0\<close>, and what the current window has let through.\<close>

definition quota_used :: "go_time \<Rightarrow> string \<Rightarrow> adminSessions \<Rightarrow> go_time \<Rightarrow> int \<Rightarrow> bool" where
  "quota_used t0 ip s now n \<longleftrightarrow> m_wf (ss_attempts s) \<and> t0 \<le> now \<and> (case m_get (ss_attempts s) ip of
     None \<Rightarrow> n \<le> 5 * ((now - t0) div minute)
   | Some a \<Rightarrow> t0 \<le> la_windowStart a \<and> la_windowStart a \<le> now \<and> 0 \<le> la_count a \<and>
       n \<le> 5 * ((la_windowStart a - t0) div minute) + min 5 (la_count a))"

lemma next_window:
  fixes t0 ws now :: int
  assumes "60000000000 \<le> now - ws"
  shows "(ws - t0) div 60000000000 + 1 \<le> (now - t0) div 60000000000"
proof -
  have "(ws - t0) div 60000000000 + 1 = (ws - t0 + 60000000000) div 60000000000" by simp
  also have "\<dots> \<le> (now - t0) div 60000000000" using assms by (intro zdiv_mono1) auto
  finally show ?thesis .
qed

lemma sub_window: "minute \<le> sub_time now ws \<longleftrightarrow> minute \<le> now - ws"
  by (auto simp: sub_time_def max_int64_def min_int64_def)

lemma quota_used_expired:
  assumes "quota_used t0 ip s t n" "m_get (ss_attempts s) ip = Some a" "minute \<le> now - la_windowStart a"
  shows "n \<le> 5 * ((now - t0) div minute)"
  using assms next_window [of now "la_windowStart a" t0] by (auto simp: quota_used_def min_def split: if_splits)

lemma quota_used_later:
  assumes "quota_used t0 ip s t n" "m_get (ss_attempts s) ip = None" "t \<le> now"
  shows "n \<le> 5 * ((now - t0) div minute)"
proof -
  have "(t - t0) div minute \<le> (now - t0) div minute" using assms(3) by (intro zdiv_mono1) auto
  with assms(1,2) show ?thesis by (simp add: quota_used_def)
qed

lemma window_over_iff: "window_over now a \<longleftrightarrow> minute \<le> now - la_windowStart a"
  by (simp add: window_over_def adminLoginWindow_def sub_window)

lemma prune_get:
  assumes "m_wf m"
  shows "m_wf (prune_attempts now m) \<and> (m_get (prune_attempts now m) k = m_get m k \<or>
    (\<exists>a. m_get m k = Some a \<and> window_over now a \<and> m_get (prune_attempts now m) k = None))"
  using assms by (auto simp: prune_attempts_def m_get_filter split: option.splits)

lemma prune_keeps: "m_wf m \<Longrightarrow> m_get m k = Some a \<Longrightarrow> \<not> window_over now a \<Longrightarrow> m_get (prune_attempts now m) k = Some a"
  using prune_get [of m now k] by auto

lemma count_attempt_quota:
  assumes "quota_used t0 ip s t n" "0 < t0" "t \<le> now"
    "e = count_attempt now (m_get_or \<lparr>la_windowStart = zero_time, la_count = 0\<rparr> (ss_attempts s) ip)"
  shows "t0 \<le> la_windowStart e \<and> la_windowStart e \<le> now \<and> 0 \<le> la_count e \<and> \<not> window_over now e \<and>
    n + (if la_count e \<le> 5 then 1 else 0) \<le> 5 * ((la_windowStart e - t0) div minute) + min 5 (la_count e)"
proof -
  have t: "t0 \<le> now" using assms(1,3) by (simp add: quota_used_def)
  show ?thesis
  proof (cases "m_get (ss_attempts s) ip")
    case None
    with assms(4) have "e = \<lparr>la_windowStart = now, la_count = 1\<rparr>"
      by (simp add: m_get_or_def count_attempt_def is_zero_def)
    with quota_used_later [OF assms(1) None assms(3)] t show ?thesis by (simp add: window_over_iff)
  next
    case (Some a)
    have a: "t0 \<le> la_windowStart a" "la_windowStart a \<le> t" "0 \<le> la_count a"
      "n \<le> 5 * ((la_windowStart a - t0) div minute) + min 5 (la_count a)"
      using assms(1) Some by (auto simp: quota_used_def)
    have nz: "\<not> is_zero (la_windowStart a)" using a(1) assms(2) by (simp add: is_zero_def zero_time_def)
    show ?thesis
    proof (cases "window_over now a")
      case True
      with Some assms(4) have "e = \<lparr>la_windowStart = now, la_count = 1\<rparr>" by (simp add: m_get_or_def count_attempt_def)
      with quota_used_expired [OF assms(1) Some] True t show ?thesis by (simp add: window_over_iff)
    next
      case False
      with Some assms(4) nz have "e = a\<lparr>la_count := la_count a + 1\<rparr>" by (simp add: m_get_or_def count_attempt_def)
      with a False assms(3) show ?thesis by (auto simp: window_over_iff)
    qed
  qed
qed

lemma allowLogin_quota:
  assumes "quota_used t0 ip s t n" "0 < t0" "t \<le> ac_now c" "allowLogin c i s = (s', ok)"
  shows "quota_used t0 ip s' (ac_now c) (n + (if ok \<and> i = ip then 1 else 0))"
proof -
  let ?now = "ac_now c"
  define e where "e = count_attempt ?now (m_get_or \<lparr>la_windowStart = zero_time, la_count = 0\<rparr> (ss_attempts s) i)"
  let ?m = "m_set i e (ss_attempts s)"
  have wf: "m_wf ?m" "t0 \<le> t" using assms(1) by (auto simp: quota_used_def)
  have s': "ss_attempts s' = prune_attempts ?now ?m" and ok: "ok \<longleftrightarrow> la_count e \<le> 5"
    using assms(4) by (auto simp: allowLogin_def Let_def adminLoginBurst_def e_def)
  note p = prune_get [OF wf(1), of ?now ip]
  show ?thesis
  proof (cases "i = ip")
    case True
    note q = count_attempt_quota [OF assms(1-3) e_def [unfolded True]]
    with True have "m_get (ss_attempts s') ip = Some e" unfolding s' by (intro prune_keeps [OF wf(1)]) simp_all
    with q True ok p wf(2) assms(3) s' show ?thesis by (simp add: quota_used_def)
  next
    case False
    show ?thesis
    proof (cases "m_get (ss_attempts s') ip")
      case None
      with p False s' consider "m_get (ss_attempts s) ip = None"
        | a where "m_get (ss_attempts s) ip = Some a" "window_over ?now a" by auto
      then have "n \<le> 5 * ((?now - t0) div minute)"
        using quota_used_later [OF assms(1) _ assms(3)] quota_used_expired [OF assms(1)]
        by cases (auto simp: window_over_iff)
      with None False p wf(2) assms(3) s' show ?thesis by (simp add: quota_used_def)
    next
      case (Some a)
      with p False s' have "m_get (ss_attempts s) ip = Some a" by auto
      with assms(1,3) Some False p wf(2) s' show ?thesis by (simp add: quota_used_def)
    qed
  qed
qed

lemma logins_bound:
  assumes "quota_used t0 ip s t n" "0 < t0" "sorted (map (ac_now \<circ> fst) cs)"
    "list_all (\<lambda>c. t \<le> ac_now (fst c) \<and> ac_now (fst c) \<le> t1) cs" "t \<le> t1"
  shows "n + int (logins ip cs s) \<le> 5 * ((t1 - t0) div minute + 1)"
  using assms
proof (induction cs arbitrary: s t n)
  case Nil
  show ?case
  proof (cases "m_get (ss_attempts s) ip")
    case None
    with quota_used_later [OF Nil.prems(1) None Nil.prems(5)] show ?thesis by simp
  next
    case (Some a)
    then have a: "la_windowStart a \<le> t" "n \<le> 5 * ((la_windowStart a - t0) div minute) + 5"
      using Nil.prems(1) by (auto simp: quota_used_def)
    have "(la_windowStart a - t0) div minute \<le> (t1 - t0) div minute"
      using a(1) Nil.prems(5) by (intro zdiv_mono1) auto
    with a(2) show ?thesis by simp
  qed
next
  case (Cons ci cs)
  obtain c i where ci: "ci = (c, i)" by fastforce
  obtain s1 ok where al: "allowLogin c i s = (s1, ok)" by fastforce
  have q: "quota_used t0 ip s1 (ac_now c) (n + (if ok \<and> i = ip then 1 else 0))"
    using allowLogin_quota [OF Cons.prems(1,2) _ al] Cons.prems(4) ci by simp
  have "list_all (\<lambda>d. ac_now c \<le> ac_now (fst d) \<and> ac_now (fst d) \<le> t1) cs"
    using Cons.prems(3,4) ci by (auto simp: list_all_iff)
  from Cons.IH [OF q Cons.prems(2) _ this] Cons.prems(3,4) ci al show ?case by auto
qed

section \<open>The properties\<close>

text \<open>C29. The vault changes only for someone who may change it: when serving a request replaces the vault
  file, the transport was TLS, loopback or explicitly allowed, an administration token is configured,
  the method is PUT or DELETE on an allowed provider's key, and the caller either bears a token with
  the digest of the administration token, or holds the cookie of an unexpired session that an earlier
  login with that token created, and sent this origin and the session's CSRF token.\<close>

theorem admin_change_authorized:
  assumes "admin_run E tr a" "adminServe E c r a = Some (a', resp)" "v_file (ap_store a') \<noteq> v_file (ap_store a)"
  shows "adminTransportAllowed E r \<and> adminToken E \<noteq> [] \<and> ar_Method r \<in> {''PUT'', ''DELETE''} \<and>
    (\<exists>p. parseAdminProviderAction (ar_Path r) = Some (p, ''key'') \<and> allowedProvider p) \<and>
    (adminBearerAuthorized E r \<or>
     (\<exists>cookie se. ar_Cookie r = Some cookie \<and> before (ac_now c) (se_expiresAt se) \<and>
        (\<exists>ev\<in>set tr. login_event E ev (ae_sha256 E cookie) se) \<and>
        adminOriginValid r \<and> secureEqual E (req_header r ''X-CSRF-Token'') (se_csrf se)))"
  using assms(2)
proof (cases rule: adminServe_cases)
  case (4 h p s1 se v1)
  with assms(3) have "v1 \<noteq> ap_store a" by auto
  from keyHandler_store [OF 4(3) this] have m: "ar_Method r \<in> {''PUT'', ''DELETE''}" by blast
  then have mut: "ar_Method r \<noteq> ''GET''" by auto
  have p: "allowedProvider p"
    using 4(6) by (auto simp: parseAdminProviderAction_def split: list.split_asm if_split_asm)
  have "\<exists>ev\<in>set tr. login_event E ev (ae_sha256 E cookie) se"
    if "(ae_sha256 E cookie, se) \<in> set (ss_sessions (ap_sessions a))" for cookie
    using sessions_from_run [OF assms(1)] that by (auto simp: sessions_from_def)
  with authenticate_granted [OF 4(2)] mut have "adminBearerAuthorized E r \<or>
     (\<exists>cookie se. ar_Cookie r = Some cookie \<and> before (ac_now c) (se_expiresAt se) \<and>
        (\<exists>ev\<in>set tr. login_event E ev (ae_sha256 E cookie) se) \<and>
        adminOriginValid r \<and> secureEqual E (req_header r ''X-CSRF-Token'') (se_csrf se))" by blast
  with 4(4-6) m p show ?thesis by blast
qed (use assms(3) in auto)

text \<open>C30. Login is rate limited: of all attempts from one address between \<open>t0\<close> and \<open>t1\<close>, interleaved with
  attempts of any others on a clock that does not go back, at most five per started minute are let
  through to the comparison with the token.\<close>

theorem login_rate_limited:
  assumes "0 < t0" "t0 \<le> t1" "sorted (map (ac_now \<circ> fst) cs)"
    "list_all (\<lambda>c. t0 \<le> ac_now (fst c) \<and> ac_now (fst c) \<le> t1) cs"
  shows "int (logins ip cs newAdminSessions) \<le> 5 * ((t1 - t0) div adminLoginWindow + 1)"
proof -
  have "quota_used t0 ip newAdminSessions t0 0" by (simp add: quota_used_def newAdminSessions_def)
  from logins_bound [OF this assms(1,3,4,2)] show ?thesis by (simp add: adminLoginWindow_def)
qed

definition sample_call :: "go_time \<Rightarrow> admin_call" where
  "sample_call t = \<lparr>ac_now = t, ac_random = Some (''raw'', ''csrf''), ac_order = (\<lambda>m. map fst m), ac_io = sample_io, ac_probe = None\<rparr>"

theorem login_rate_limited_witness:
  "int (logins ''a'' (replicate 7 (sample_call 10, ''a'')) newAdminSessions) \<le> 5 \<and>
   logins ''a'' (replicate 7 (sample_call 10, ''a'')) newAdminSessions = 5"
proof
  have "sorted (map (ac_now \<circ> fst) (replicate 7 (sample_call 10, ''a'')))" by (simp add: sample_call_def eval_nat_numeral)
  with login_rate_limited [of 10 10 "replicate 7 (sample_call 10, ''a'')" "''a''"]
  show "int (logins ''a'' (replicate 7 (sample_call 10, ''a'')) newAdminSessions) \<le> 5"
    by (simp add: sample_call_def list_all_iff adminLoginWindow_def)
  show "logins ''a'' (replicate 7 (sample_call 10, ''a'')) newAdminSessions = 5" by code_simp
qed

definition sample_admin_env :: admin_env where
  "sample_admin_env = \<lparr>ae_env = [(''PROXY_ADMIN_TOKEN'', ''s3cret'')], ae_sha256 = (\<lambda>x. x), ae_base64 = (\<lambda>x. x),
     ae_decode = (\<lambda>f n b. Some (b, True)), ae_SplitHostPort = Some, ae_loopback = (\<lambda>h. h = ''127.0.0.1''), ae_file = (\<lambda>f. None)\<rparr>"

definition sample_put :: admin_request where
  "sample_put = \<lparr>ar_Method = ''PUT'', ar_Path = ''/admin/api/providers/openrouter/key'', ar_RemoteAddr = ''127.0.0.1'', ar_TLS = False,
     ar_Host = ''localhost'', ar_Header = [(''Authorization'', ''Bearer s3cret''), (''Content-Type'', ''application/json'')],
     ar_Cookie = None, ar_Body = '' sk-1''\<rparr>"

theorem admin_change_authorized_witness:
  "adminBearerAuthorized sample_admin_env sample_put \<and> adminTransportAllowed sample_admin_env sample_put"
proof -
  let ?a = "\<lparr>ap_store = sample_vault, ap_sessions = newAdminSessions\<rparr>"
  let ?set = "Set sample_io ''openrouter'' '' sk-1'' sample_vault"
  obtain v' where v': "?set = (v', None)" using Set_succeeds [OF sample_ready(2)] by (metis prod.collapse)
  have fc: "v_file v' \<noteq> v_file sample_vault"
    using Set_written(1) [OF sample_codec_ok sample_ready(1) v', of sample_io] sample_ready(3)
    by (auto simp: sample_io_def sample_vault_def Get_def readFile_def split: if_split_asm)
  have au: "authenticate sample_admin_env (sample_call 1) sample_put True newAdminSessions = (newAdminSessions, Some \<lparr>se_csrf = [], se_expiresAt = zero_time\<rparr>)"
    by code_simp
  have path: "parseAdminProviderAction (ar_Path sample_put) = Some (''openrouter'', ''key'')" by code_simp
  have route: "adminRoute sample_admin_env (sample_call 1) sample_put ?a = Some (\<lambda>h. providerActionHandler sample_admin_env (sample_call 1) h sample_put ?a)"
    by (simp add: adminRoute_def sample_put_def has_prefix_def)
  have gate: "adminTransportAllowed sample_admin_env sample_put" "adminToken sample_admin_env \<noteq> []" by code_simp+
  have dec: "decodeAdminJSON sample_admin_env h sample_put 8192 ''key'' = Inr '' sk-1''" for h
    by (simp add: decodeAdminJSON_def sample_put_def sample_admin_env_def req_header_def m_get_or_def trim_space_def is_space_def to_lower_def char_lower_def)
  have "\<exists>resp. adminServe sample_admin_env (sample_call 1) sample_put ?a = Some (?a\<lparr>ap_store := v'\<rparr>, resp)"
    using v' au path gate dec
    by (simp add: adminServe_def route protected_def Let_def providerActionHandler_def keyHandler_def)
       (simp add: sample_put_def sample_call_def)
  then obtain resp where "adminServe sample_admin_env (sample_call 1) sample_put ?a = Some (?a\<lparr>ap_store := v'\<rparr>, resp)" ..
  from admin_change_authorized [OF admin_run.start this] fc show ?thesis
    by (auto simp: sample_put_def)
qed

end
