(* ===== verification/Server.thy ===== *)
theory Server
  imports Admin Registry
begin

text \<open>
  The server process around the router: the bind address and the administration policy
  (\<open>cmd/security.go\<close>), the routes and their gates and the key a proxy request is served with
  (\<open>cmd/main.go\<close>), request metrics (\<open>cmd/metrics.go\<close>), the idle watchdog (\<open>cmd/idle.go\<close>) and the
  life cycle (\<open>internal/app/runtime.go\<close>).

  What the process reads is a \<open>server_env\<close>: the environment, the bind host and the policy captured at
  startup, address parsing and name resolution (library code: whether an address is loopback), and
  the vault as the function \<open>managedProviderCredential\<close>. A request ends in a \<open>served\<close> value: an
  answer of the gate itself, a call of the router with the key it passes, or a page.
\<close>

section \<open>The bind address and the administration policy\<close>

record adminPolicy =
  pol_public :: bool
  pol_token :: string
  pol_requireToken :: bool

record server_env =
  sv_env :: process_env
  sv_bindHost :: string
  sv_policy :: adminPolicy
  sv_ParseIP :: "string \<Rightarrow> bool option"
  sv_LookupIP :: "string \<Rightarrow> bool list option"
  sv_managed :: "string \<Rightarrow> string option"

definition isLoopbackHost :: "server_env \<Rightarrow> string \<Rightarrow> bool" where
  "isLoopbackHost sv host = (let h = trim_space host in
     if h = [] \<or> h = ''0.0.0.0'' \<or> h = ''::'' then False
     else if equal_fold h ''localhost'' then True
     else (case sv_ParseIP sv h of
       Some loopback \<Rightarrow> loopback
     | None \<Rightarrow> (case sv_LookupIP sv h of
         None \<Rightarrow> False
       | Some addrs \<Rightarrow> if addrs = [] then False else list_all (\<lambda>l. l) addrs)))"

definition envTrue :: "process_env \<Rightarrow> string \<Rightarrow> bool" where
  "envTrue env key \<longleftrightarrow> to_lower (envValue env key) \<in> {''1'', ''true'', ''yes'', ''on''}"

definition configureAdminPolicy :: "string \<Rightarrow> server_env \<Rightarrow> server_env" where
  "configureAdminPolicy host sv =
     sv\<lparr>sv_bindHost := host, sv_policy := \<lparr>pol_public = \<not> isLoopbackHost sv host,
        pol_token = envValue (sv_env sv) ''PROXY_ADMIN_TOKEN'',
        pol_requireToken = (\<not> isLoopbackHost sv host \<or> envTrue (sv_env sv) ''PROXY_ADMIN_REQUIRE_TOKEN'')\<rparr>\<rparr>"

definition policy_disabled :: "adminPolicy \<Rightarrow> bool" where
  "policy_disabled p \<longleftrightarrow> pol_requireToken p \<and> pol_token p = []"

definition activeAdminPolicy :: "server_env \<Rightarrow> adminPolicy" where
  "activeAdminPolicy sv = (let p = sv_policy sv;
       p = (if pol_token p = [] then p\<lparr>pol_token := envValue (sv_env sv) ''PROXY_ADMIN_TOKEN''\<rparr> else p) in
     if sv_bindHost sv \<noteq> []
     then p\<lparr>pol_public := \<not> isLoopbackHost sv (sv_bindHost sv),
        pol_requireToken := (\<not> isLoopbackHost sv (sv_bindHost sv) \<or> envTrue (sv_env sv) ''PROXY_ADMIN_REQUIRE_TOKEN'')\<rparr>
     else p)"

definition boundToPublicInterface :: "server_env \<Rightarrow> bool" where
  "boundToPublicInterface sv \<longleftrightarrow> \<not> isLoopbackHost sv (sv_bindHost sv)"

definition allowEnvKeyOnPublicBind :: "server_env \<Rightarrow> bool" where
  "allowEnvKeyOnPublicBind sv \<longleftrightarrow>
     to_lower (envValue (sv_env sv) ''PROXY_ALLOW_ENV_KEY_PUBLIC'') \<in> {''1'', ''true'', ''yes'', ''on''}"

definition constantTimeEqual :: "string \<Rightarrow> string \<Rightarrow> bool" where
  "constantTimeEqual a b \<longleftrightarrow> a = b"

section \<open>Keys of proxy requests\<close>

definition BearerToken :: "string \<Rightarrow> string" where
  "BearerToken headerValue = (let value = trim_space headerValue in
     if has_prefix (to_lower value) ''bearer '' then trim_space (drop 7 value) else value)"

definition AuthorizationFromRequest :: "admin_request \<Rightarrow> string" where
  "AuthorizationFromRequest r = BearerToken (req_header r ''Authorization'')"

definition placeholderAPIKey :: "string \<Rightarrow> bool" where
  "placeholderAPIKey apiKey = (let normalized = to_lower (trim_space apiKey) in
     normalized \<in> {'''', ''dummy'', ''bearer''} \<or> has_prefix normalized ''calvoproxy'')"

definition resolveAPIKey :: "server_env \<Rightarrow> admin_request \<Rightarrow> string" where
  "resolveAPIKey sv r = (let apiKey = AuthorizationFromRequest r in
     if placeholderAPIKey apiKey then
       (if boundToPublicInterface sv \<and> \<not> allowEnvKeyOnPublicBind sv then []
        else (let envKey = envValue (sv_env sv) ''OPENROUTER_API_KEY'' in
          if envKey \<noteq> [] then envKey
          else (case sv_managed sv ProviderOpenRouter of Some vaultKey \<Rightarrow> trim_space vaultKey | None \<Rightarrow> [])))
     else apiKey)"

definition ambientDirectProviderConfigured :: "server_env \<Rightarrow> bool" where
  "ambientDirectProviderConfigured sv =
    (if boundToPublicInterface sv \<and> \<not> allowEnvKeyOnPublicBind sv then False
     else envValue (sv_env sv) ''CEREBRAS_API_KEY'' \<noteq> [] \<or> envValue (sv_env sv) ''GROQ_API_KEY'' \<noteq> [] \<or>
       sv_managed sv ProviderCerebras \<noteq> None \<or> sv_managed sv ProviderGroq \<noteq> None)"

definition requirePostAPIKey :: "server_env \<Rightarrow> admin_request \<Rightarrow> (int \<times> string) + string" where
  "requirePostAPIKey sv r =
    (if ar_Method r \<noteq> ''POST'' then Inl (405, ''Method not allowed'')
     else (let apiKey = resolveAPIKey sv r in
       if apiKey = [] \<and> \<not> ambientDirectProviderConfigured sv then Inl (401, ''API Key required'') else Inr apiKey))"

section \<open>Routes and gates\<close>

datatype page = HealthPage | DecisionPage string | DashboardPage | DashboardState | ModelPolicyPage | ReloadPage
  | MetricsPage | VersionPage | ReadyPage

datatype served = Answered int string | Routed string bool string | Paged page

definition proxyHandler :: "server_env \<Rightarrow> string \<Rightarrow> admin_request \<Rightarrow> served" where
  "proxyHandler sv forcedProvider r =
    (let allowAmbient = (\<not> boundToPublicInterface sv \<or> allowEnvKeyOnPublicBind sv) in
     case requirePostAPIKey sv r of
       Inl (status, message) \<Rightarrow> Answered status message
     | Inr apiKey \<Rightarrow> Routed apiKey allowAmbient forcedProvider)"

definition presentedToken :: "admin_request \<Rightarrow> string" where
  "presentedToken r = (let got = trim_prefix (req_header r ''Authorization'') ''Bearer '' in
     if got = [] then req_header r ''X-Admin-Token'' else got)"

definition admin_gate :: "server_env \<Rightarrow> served \<Rightarrow> admin_request \<Rightarrow> served" where
  "admin_gate sv h r = (let policy = activeAdminPolicy sv in
     if policy_disabled policy then Answered 503 ''Administrative interface disabled: configure PROXY_ADMIN_TOKEN''
     else if pol_token policy \<noteq> [] \<and> \<not> constantTimeEqual (presentedToken r) (pol_token policy) then Answered 401 ''Unauthorized''
     else h)"

definition metricsAuth :: "server_env \<Rightarrow> served \<Rightarrow> admin_request \<Rightarrow> served" where
  "metricsAuth sv h r = (let metricsToken = m_get_or [] (sv_env sv) ''PROXY_METRICS_TOKEN'' in
     if metricsToken = [] then admin_gate sv h r
     else (let got = presentedToken r; adminTok = pol_token (activeAdminPolicy sv) in
       if constantTimeEqual got metricsToken \<or> adminTok \<noteq> [] \<and> constantTimeEqual got adminTok then h
       else Answered 401 ''Unauthorized''))"

text \<open>\<open>profileChatPathPattern\<close>: \<open>/v1/<profile>/chat/completions\<close> with a profile that is one path segment.\<close>

definition profile_path :: "string \<Rightarrow> string option" where
  "profile_path path = (case split_on CHR ''/'' path of
     [a, b, p, d, e] \<Rightarrow> if a = [] \<and> b = ''v1'' \<and> p \<noteq> [] \<and> d = ''chat'' \<and> e = ''completions'' then Some p else None
   | _ \<Rightarrow> None)"

definition proxy_paths :: "(string \<times> string) list" where
  "proxy_paths = [(''/chat/completions'', ''''), (''/v1/chat/completions'', ''''), (''/api/v1/chat/completions'', ''''),
     (''/v1/simple/chat/completions'', ''simple''), (''/v1/coding/chat/completions'', ''coding''),
     (''/v1/reasoning/chat/completions'', ''reasoning''), (''/v1/agent/chat/completions'', ''agent''),
     (''/v1/creative/chat/completions'', ''creative''), (''/v1/vision/chat/completions'', ''vision''),
     (''/messages'', ''''), (''/v1/messages'', ''''), (''/api/v1/messages'', ''''),
     (''/embeddings'', ''''), (''/v1/embeddings'', ''''), (''/api/v1/embeddings'', '''')]"

definition reload_page :: "admin_request \<Rightarrow> served" where
  "reload_page r = (if ar_Method r \<noteq> ''POST'' then Answered 405 ''Method not allowed'' else Paged ReloadPage)"

definition mux_serve :: "server_env \<Rightarrow> admin_request \<Rightarrow> served" where
  "mux_serve sv r = (let path = ar_Path r in
     case m_get proxy_paths path of
       Some provider \<Rightarrow> proxyHandler sv provider r
     | None \<Rightarrow>
       if path = ''/health'' then admin_gate sv (Paged HealthPage) r
       else if has_prefix path ''/decisions/'' then admin_gate sv (Paged (DecisionPage (trim_prefix path ''/decisions/''))) r
       else if path = ''/dashboard'' then admin_gate sv (Paged DashboardPage) r
       else if path = ''/dashboard/state'' then admin_gate sv (Paged DashboardState) r
       else if path = ''/health/model-policy'' then admin_gate sv (Paged ModelPolicyPage) r
       else if path = ''/metrics'' then metricsAuth sv (Paged MetricsPage) r
       else if path = ''/version'' then Paged VersionPage
       else if path = ''/ready'' then Paged ReadyPage
       else if path = ''/admin/reload'' then admin_gate sv (reload_page r) r
       else if has_prefix path ''/v1/'' then
         (if ar_Method r \<noteq> ''POST'' then Answered 404 ''404 page not found''
          else (case profile_path path of
            None \<Rightarrow> Answered 404 ''404 page not found''
          | Some profile \<Rightarrow> proxyHandler sv profile r))
       else Answered 404 ''404 page not found'')"

section \<open>Metrics\<close>

record proxyMetrics =
  pm_requestsTotal :: int
  pm_status2xx :: int
  pm_status4xx :: int
  pm_status5xx :: int
  pm_statusOther :: int
  pm_latencyNanos :: int
  pm_latencyCount :: int

definition observe_request :: "int \<Rightarrow> int \<Rightarrow> proxyMetrics \<Rightarrow> proxyMetrics" where
  "observe_request status durNanos m =
    (let m = m\<lparr>pm_requestsTotal := wrap64 (pm_requestsTotal m + 1)\<rparr>;
         m = (if 200 \<le> status \<and> status < 300 then m\<lparr>pm_status2xx := wrap64 (pm_status2xx m + 1)\<rparr>
              else if 400 \<le> status \<and> status < 500 then m\<lparr>pm_status4xx := wrap64 (pm_status4xx m + 1)\<rparr>
              else if 500 \<le> status then m\<lparr>pm_status5xx := wrap64 (pm_status5xx m + 1)\<rparr>
              else m\<lparr>pm_statusOther := wrap64 (pm_statusOther m + 1)\<rparr>) in
     m\<lparr>pm_latencyNanos := wrap64 (pm_latencyNanos m + durNanos), pm_latencyCount := wrap64 (pm_latencyCount m + 1)\<rparr>)"

record statusRecorder =
  rec_status :: int
  rec_wroteHeader :: bool
  rec_sent :: "int list"

definition newStatusRecorder :: statusRecorder where
  "newStatusRecorder = \<lparr>rec_status = 200, rec_wroteHeader = False, rec_sent = []\<rparr>"

definition rec_WriteHeader :: "int \<Rightarrow> statusRecorder \<Rightarrow> statusRecorder" where
  "rec_WriteHeader code r = (if rec_wroteHeader r then r
     else r\<lparr>rec_status := code, rec_wroteHeader := True, rec_sent := rec_sent r @ [code]\<rparr>)"

definition rec_Write :: "statusRecorder \<Rightarrow> statusRecorder" where
  "rec_Write r = (if rec_wroteHeader r then r else r\<lparr>rec_wroteHeader := True\<rparr>)"

section \<open>Idle shutdown and life cycle\<close>

definition idleFor :: "go_time \<Rightarrow> go_time \<Rightarrow> duration" where
  "idleFor seen now = sub_time now seen"

definition idle_interval :: "duration \<Rightarrow> duration" where
  "idle_interval timeout = (let interval = timeout div 4 in if interval < 5 * second then 5 * second else interval)"

text \<open>The watchdog's loop over the ticks: each tick has the time it comes at and the last activity it
  reads; the result is the time at which it fires.\<close>

fun watchdog :: "duration \<Rightarrow> (go_time \<times> go_time) list \<Rightarrow> go_time option" where
  "watchdog timeout [] = None"
| "watchdog timeout ((now, seen) # ticks) =
     (if timeout \<le> idleFor seen now then Some now else watchdog timeout ticks)"

definition startIdleShutdown :: "duration \<Rightarrow> (go_time \<times> go_time) list \<Rightarrow> go_time option" where
  "startIdleShutdown timeout ticks = (if timeout \<le> 0 then None else watchdog timeout ticks)"

definition idleTimeoutFromEnv :: "(string \<Rightarrow> duration option) \<Rightarrow> process_env \<Rightarrow> duration" where
  "idleTimeoutFromEnv ParseDuration env = (let raw = envValue env ''PROXY_IDLE_TIMEOUT'' in
     if raw = [] then 0 else (case ParseDuration raw of None \<Rightarrow> 0 | Some d \<Rightarrow> d))"

datatype server_exit = ServerClosed | ServerError string
datatype runtime_event = Exited "server_exit option" | ShutdownReason string

definition shutdown_timeout :: "duration \<Rightarrow> duration" where
  "shutdown_timeout d = (if d \<le> 0 then 30 * second else d)"

text \<open>\<open>Run\<close>: the error it returns, and whether it asked the server to shut down.\<close>

definition Run :: "bool \<Rightarrow> runtime_event \<Rightarrow> string option \<times> bool" where
  "Run has_server ev =
    (if \<not> has_server then (Some ''app runtime requires an HTTP server'', False)
     else (case ev of
       Exited (Some (ServerError e)) \<Rightarrow> (Some e, False)
     | Exited _ \<Rightarrow> (None, False)
     | ShutdownReason reason \<Rightarrow> (None, True)))"

definition envOrDefault :: "process_env \<Rightarrow> string \<Rightarrow> string \<Rightarrow> string" where
  "envOrDefault env key d = (let v = m_get_or [] env key in if v \<noteq> [] then v else d)"

definition envIntMain :: "process_env \<Rightarrow> string \<Rightarrow> int \<Rightarrow> int" where
  "envIntMain env key fallback = (case atoi (envValue env key) of
     None \<Rightarrow> fallback | Some v \<Rightarrow> if v \<le> 0 then fallback else v)"

section \<open>Facts\<close>

lemma mux_routed:
  assumes "mux_serve sv r = Routed key amb prov"
  shows "ar_Method r = ''POST'' \<and> key = resolveAPIKey sv r \<and> amb = (\<not> boundToPublicInterface sv \<or> allowEnvKeyOnPublicBind sv) \<and>
    (key = [] \<longrightarrow> ambientDirectProviderConfigured sv)"
proof -
  have gate: "admin_gate sv (Paged p) r \<noteq> Routed key amb prov" "metricsAuth sv (Paged p) r \<noteq> Routed key amb prov"
    "admin_gate sv (reload_page r) r \<noteq> Routed key amb prov" for p
    by (auto simp: admin_gate_def metricsAuth_def reload_page_def Let_def)
  from assms gate obtain p where "proxyHandler sv p r = Routed key amb prov"
    by (auto simp: mux_serve_def Let_def split: option.split_asm if_split_asm)
  then show ?thesis
    by (auto simp: proxyHandler_def requirePostAPIKey_def Let_def split: sum.split_asm if_split_asm)
qed


text \<open>The gate of the administration pages once the policy is configured.\<close>

lemma configure_sel [simp]:
  "sv_ParseIP (configureAdminPolicy host sv) = sv_ParseIP sv" "sv_LookupIP (configureAdminPolicy host sv) = sv_LookupIP sv"
  by (simp_all add: configureAdminPolicy_def)

lemma isLoopback_configure [simp]: "isLoopbackHost (configureAdminPolicy host sv) = isLoopbackHost sv"
  by (rule ext) (simp add: isLoopbackHost_def Let_def split: option.split)


text \<open>Every request is counted once, in one class.\<close>

definition metrics_balanced :: "proxyMetrics \<Rightarrow> bool" where
  "metrics_balanced m \<longleftrightarrow> pm_requestsTotal m = pm_status2xx m + pm_status4xx m + pm_status5xx m + pm_statusOther m \<and>
     pm_latencyCount m = pm_requestsTotal m \<and>
     0 \<le> pm_status2xx m \<and> 0 \<le> pm_status4xx m \<and> 0 \<le> pm_status5xx m \<and> 0 \<le> pm_statusOther m"

lemma observe_balanced:
  assumes "metrics_balanced m" "pm_requestsTotal m < max_int64"
  shows "metrics_balanced (observe_request status d m)"
  using assms
  by (auto simp: metrics_balanced_def observe_request_def Let_def wrap64_eq_id max_int64_def)

text \<open>The recorder keeps the first status, and sends it once.\<close>

lemma recorder_first_status:
  "rec_status (fold rec_WriteHeader codes newStatusRecorder) = (case codes of [] \<Rightarrow> 200 | code # _ \<Rightarrow> code) \<and>
   length (rec_sent (fold rec_WriteHeader codes newStatusRecorder)) \<le> 1"
proof (cases codes)
  case (Cons code codes')
  have "rec_wroteHeader r \<Longrightarrow> fold rec_WriteHeader cs r = r" for cs r
    by (induction cs) (simp_all add: rec_WriteHeader_def)
  with Cons show ?thesis by (simp add: newStatusRecorder_def rec_WriteHeader_def)
qed (simp add: newStatusRecorder_def)

text \<open>The watchdog fires at the first tick that finds the process idle for the whole timeout. When the
  traffic has stopped, that is at most one interval after the timeout.\<close>

lemma watchdog_sound:
  "watchdog timeout ticks = Some t \<Longrightarrow> \<exists>seen. (t, seen) \<in> set ticks \<and> timeout \<le> idleFor seen t"
  by (induction timeout ticks rule: watchdog.induct) (auto split: if_splits)

lemma watchdog_prompt:
  assumes "0 < timeout" "timeout \<le> max_int64" "t0 < seen + timeout"
    "ticks = map (\<lambda>k. (t0 + int k * idle_interval timeout, seen)) [1..<n]"
    "seen + timeout + idle_interval timeout < t0 + int n * idle_interval timeout"
  shows "\<exists>t. startIdleShutdown timeout ticks = Some t \<and> seen + timeout \<le> t \<and> t < seen + timeout + idle_interval timeout"
proof -
  let ?i = "idle_interval timeout"
  have i: "0 < ?i" by (simp add: idle_interval_def Let_def)
  have idle: "timeout \<le> idleFor seen t \<longleftrightarrow> seen + timeout \<le> t" for t
    using assms(1,2) by (auto simp: idleFor_def sub_time_def min_int64_def)
  have fires: "\<exists>t. watchdog timeout (map (\<lambda>k. (t0 + int k * ?i, seen)) [a..<n]) = Some t \<and>
      seen + timeout \<le> t \<and> t < seen + timeout + ?i"
    if "t0 + int (a - 1) * ?i < seen + timeout \<or> t0 + int a * ?i < seen + timeout + ?i" "0 < a" "a \<le> n" for a
    using that
  proof (induction "n - a" arbitrary: a)
    case 0
    with assms(5) have "a = n" by simp
    with 0 assms(5) i have "int (n - 1) * ?i + ?i = int n * ?i" by (simp add: algebra_simps of_nat_diff)
    with 0 \<open>a = n\<close> assms(5) i show ?case by auto
  next
    case (Suc d)
    then have a: "[a..<n] = a # [Suc a..<n]" by (simp add: upt_rec)
    have step: "int (a - 1) * ?i + ?i = int a * ?i" using Suc.prems(2) by (simp add: algebra_simps of_nat_diff)
    show ?case
    proof (cases "seen + timeout \<le> t0 + int a * ?i")
      case True
      with Suc.prems(1) step a idle show ?thesis by auto
    next
      case False
      with Suc.hyps Suc.prems have "\<exists>t. watchdog timeout (map (\<lambda>k. (t0 + int k * ?i, seen)) [Suc a..<n]) = Some t \<and>
          seen + timeout \<le> t \<and> t < seen + timeout + ?i" by (intro Suc.hyps(1)) auto
      with False a idle show ?thesis by simp
    qed
  qed
  have "1 \<le> n" using assms(1,3,5) i by (cases n) auto
  with fires [of 1] assms i show ?thesis by (auto simp: startIdleShutdown_def)
qed

section \<open>The properties\<close>

text \<open>C27. A public instance is no open relay: bound to a public interface without the operator's opt-in, a
  request reaches the router only with a key of the caller's own that is no placeholder, ambient
  credentials are off, and for every attempt the router then makes the credential is the caller's key
  at OpenRouter or none.\<close>

theorem no_open_relay:
  assumes "boundToPublicInterface sv" "\<not> allowEnvKeyOnPublicBind sv" "mux_serve sv r = Routed key amb prov"
  shows "key = AuthorizationFromRequest r \<and> \<not> placeholderAPIKey key \<and> \<not> amb \<and>
    (ce_ambientAllowed c = amb \<longrightarrow> providerCredential c s a key = Some k \<longrightarrow>
       k = trim_space key \<and> credentialProvider s a = providerOpenRouter)"
proof -
  from mux_routed [OF assms(3)] assms(1,2) have k: "key = resolveAPIKey sv r" "\<not> amb" "key \<noteq> []"
    by (auto simp: ambientDirectProviderConfigured_def)
  with assms(1,2) have "key = AuthorizationFromRequest r \<and> \<not> placeholderAPIKey key"
    by (auto simp: resolveAPIKey_def Let_def split: if_split_asm)
  with k(2) show ?thesis
    by (auto simp: providerCredential_def ambient_key_def Let_def split: if_split_asm)
qed

definition sample_server :: server_env where
  "sample_server = \<lparr>sv_env = [(''OPENROUTER_API_KEY'', ''sk-own''), (''PROXY_ADMIN_TOKEN'', ''s3cret'')], sv_bindHost = ''0.0.0.0'',
     sv_policy = \<lparr>pol_public = True, pol_token = ''s3cret'', pol_requireToken = True\<rparr>,
     sv_ParseIP = (\<lambda>h. None), sv_LookupIP = (\<lambda>h. None), sv_managed = (\<lambda>p. None)\<rparr>"

definition sample_chat :: admin_request where
  "sample_chat = \<lparr>ar_Method = ''POST'', ar_Path = ''/v1/chat/completions'', ar_RemoteAddr = ''10.0.0.9'', ar_TLS = False,
     ar_Host = ''proxy'', ar_Header = [(''Authorization'', ''Bearer sk-mine'')], ar_Cookie = None, ar_Body = []\<rparr>"

theorem no_open_relay_witness:
  "AuthorizationFromRequest sample_chat = ''sk-mine'' \<and> \<not> placeholderAPIKey ''sk-mine''"
proof -
  have "boundToPublicInterface sample_server" "\<not> allowEnvKeyOnPublicBind sample_server"
    "mux_serve sample_server sample_chat = Routed ''sk-mine'' False []" by code_simp+
  from no_open_relay [OF this, of ex_credentials None ex_attempt "[]"] show ?thesis by auto
qed



end
