(* ===== verification/Updater.thy ===== *)
theory Updater
  imports Env_Config
begin

text \<open>
  The self-update (\<open>cmd/update.go\<close>, \<open>cmd/verify.go\<close>, \<open>cmd/version.go\<close>): comparing versions, choosing
  the release asset, verifying its checksum and the signature over the checksums, and swapping the
  running executable.

  The network, the archive readers, SHA-256, base64 and Ed25519 are functions of an \<open>update_env\<close>;
  the directory of the executable is a record of three files, and \<open>fails\<close> says which file operation
  returns an error.
\<close>

section \<open>Versions\<close>

definition index_any :: "string \<Rightarrow> string \<Rightarrow> string" where
  "index_any cs s = takeWhile (\<lambda>c. c \<notin> set cs) s"

text \<open>\<open>strings.SplitN(s, ".", 3)\<close>: the third piece keeps the rest.\<close>

definition split_n3 :: "string \<Rightarrow> string list" where
  "split_n3 s = (case split_on CHR ''.'' s of
     a # b # c # rest \<Rightarrow> [a, b, join ''.'' (c # rest)]
   | pieces \<Rightarrow> pieces)"

fun semver_parts :: "string list \<Rightarrow> int list option" where
  "semver_parts [] = Some []"
| "semver_parts (seg # segs) = (case atoi (trim_space seg) of
     None \<Rightarrow> None
   | Some n \<Rightarrow> map_option (\<lambda>ns. n # ns) (semver_parts segs))"

definition parseSemver :: "string \<Rightarrow> (int \<times> int \<times> int) option" where
  "parseSemver tag = (let s = index_any ''-+'' (trim_prefix (trim_space tag) ''v'') in
     if s = [] then None
     else (case semver_parts (split_n3 s) of
       Some [a] \<Rightarrow> Some (a, 0, 0)
     | Some [a, b] \<Rightarrow> Some (a, b, 0)
     | Some [a, b, c] \<Rightarrow> Some (a, b, c)
     | _ \<Rightarrow> None))"

definition semverLess :: "string \<Rightarrow> string \<Rightarrow> bool" where
  "semverLess a b = (case (parseSemver a, parseSemver b) of
     (None, None) \<Rightarrow> False
   | (None, Some _) \<Rightarrow> True
   | (Some _, None) \<Rightarrow> False
   | (Some (a1, a2, a3), Some (b1, b2, b3)) \<Rightarrow>
       if a1 \<noteq> b1 then a1 < b1 else if a2 \<noteq> b2 then a2 < b2 else if a3 \<noteq> b3 then a3 < b3 else False)"

section \<open>Releases\<close>

record releaseInfo =
  ri_TagName :: string
  ri_HTMLURL :: string
  ri_Assets :: "(string \<times> string) list"

record updateStatus =
  us_Current :: string
  us_Latest :: string
  us_Available :: bool
  us_Checked :: bool
  us_Error :: bool

record update_env =
  ue_version :: string
  ue_goos :: string
  ue_goarch :: string
  ue_env :: process_env
  ue_dockerenv :: bool
  ue_releaseKey :: string
  ue_latest :: "(int \<times> releaseInfo option) option"
  ue_get :: "string \<Rightarrow> (int \<times> string) option"
  ue_sha256 :: "string \<Rightarrow> string"
  ue_base64 :: "string \<Rightarrow> string option"
  ue_ed25519 :: "string \<Rightarrow> string \<Rightarrow> string \<Rightarrow> bool"
  ue_zip :: "string \<Rightarrow> (string \<times> string) list option"
  ue_targz :: "string \<Rightarrow> (string \<times> string) list option"

definition isDevBuild :: "update_env \<Rightarrow> bool" where
  "isDevBuild e \<longleftrightarrow> ue_version e = [] \<or> ue_version e = ''dev''"

definition inContainer :: "update_env \<Rightarrow> bool" where
  "inContainer e \<longleftrightarrow> m_get_or [] (ue_env e) ''CALVOPROXY_CONTAINER'' \<noteq> [] \<or> ue_dockerenv e"

definition assetNameFor :: "string \<Rightarrow> string \<Rightarrow> string \<Rightarrow> string \<times> bool" where
  "assetNameFor goos goarch tag = (let base = ''calvoproxy-'' @ tag @ ''-'' @ goos @ ''-'' @ goarch in
     if goos = ''windows'' then (base @ ''.zip'', True) else (base @ ''.tar.gz'', False))"

definition binaryNameFor :: "string \<Rightarrow> string" where
  "binaryNameFor goos = (if goos = ''windows'' then ''calvoproxy.exe'' else ''calvoproxy'')"

definition fetchLatestRelease :: "update_env \<Rightarrow> releaseInfo option" where
  "fetchLatestRelease e = (case ue_latest e of
     None \<Rightarrow> None
   | Some (status, body) \<Rightarrow> if status \<noteq> 200 then None else (case body of
       None \<Rightarrow> None
     | Some rel \<Rightarrow> if ri_TagName rel = [] then None else Some rel))"

definition assetURL :: "releaseInfo \<Rightarrow> string \<Rightarrow> string option" where
  "assetURL rel name = map_of (ri_Assets rel) name"

definition checkForUpdate :: "update_env \<Rightarrow> updateStatus \<times> releaseInfo option" where
  "checkForUpdate e = (case fetchLatestRelease e of
     None \<Rightarrow> (\<lparr>us_Current = ue_version e, us_Latest = [], us_Available = False, us_Checked = True, us_Error = True\<rparr>, None)
   | Some rel \<Rightarrow> (\<lparr>us_Current = ue_version e, us_Latest = ri_TagName rel,
       us_Available = semverLess (ue_version e) (ri_TagName rel), us_Checked = True, us_Error = False\<rparr>, Some rel))"

definition download_limit :: nat where "download_limit = 512 * 2 ^ 20"

definition download :: "update_env \<Rightarrow> string \<Rightarrow> string option" where
  "download e url = (case ue_get e url of
     None \<Rightarrow> None
   | Some (status, body) \<Rightarrow> if status \<noteq> 200 then None else Some (take download_limit body))"

section \<open>Verification\<close>

text \<open>\<open>strings.Fields\<close>: the maximal runs of characters that are no space.\<close>

fun fields_acc :: "string \<Rightarrow> string \<Rightarrow> string list" where
  "fields_acc w [] = (if w = [] then [] else [rev w])"
| "fields_acc w (c # cs) = (if is_space c then (if w = [] then fields_acc [] cs else rev w # fields_acc [] cs)
     else fields_acc (c # w) cs)"

definition str_fields :: "string \<Rightarrow> string list" where
  "str_fields s = fields_acc [] s"

fun sums_lookup :: "string list \<Rightarrow> string \<Rightarrow> string option" where
  "sums_lookup [] name = None"
| "sums_lookup (line # lines) name = (let fs = str_fields line in
     if 2 \<le> length fs \<and> last fs = name then Some (to_lower (hd fs)) else sums_lookup lines name)"

definition sha256FromSums :: "string \<Rightarrow> string \<Rightarrow> string option" where
  "sha256FromSums listing filename = sums_lookup (split_on (CHR 0x0A) listing) filename"

definition verifySHA256 :: "update_env \<Rightarrow> string \<Rightarrow> string \<Rightarrow> bool" where
  "verifySHA256 e data wantHex \<longleftrightarrow> equal_fold (ue_sha256 e data) wantHex"

definition updatePublicKey :: "update_env \<Rightarrow> string" where
  "updatePublicKey e = (let v = envValue (ue_env e) ''PROXY_UPDATE_PUBKEY'' in
     if v \<noteq> [] then v else trim_space (ue_releaseKey e))"

definition verifyReleaseSignature :: "update_env \<Rightarrow> string \<Rightarrow> string \<Rightarrow> string \<Rightarrow> bool" where
  "verifyReleaseSignature e signed sigB64 pubB64 = (case ue_base64 e (trim_space pubB64) of
     None \<Rightarrow> False
   | Some pub \<Rightarrow> if length pub \<noteq> 32 then False else (case ue_base64 e (trim_space sigB64) of
       None \<Rightarrow> False
     | Some sig \<Rightarrow> if length sig \<noteq> 64 then False else ue_ed25519 e pub signed sig))"

section \<open>Extraction and replacement\<close>

text \<open>\<open>filepath.Base\<close>.\<close>

definition base_name :: "string \<Rightarrow> string" where
  "base_name path = (let p = rev (dropWhile (\<lambda>c. c = CHR ''/'') (rev path)) in
     if path = [] then ''.'' else if p = [] then ''/'' else last (split_on CHR ''/'' p))"

definition extract_named :: "string \<Rightarrow> (string \<times> string) list option \<Rightarrow> string option" where
  "extract_named binName entries = (case entries of
     None \<Rightarrow> None
   | Some es \<Rightarrow> map_option (\<lambda>(n, data). take download_limit data) (List.find (\<lambda>(n, data). base_name n = binName) es))"

definition extractBinary :: "update_env \<Rightarrow> string \<Rightarrow> bool \<Rightarrow> string \<Rightarrow> string option" where
  "extractBinary e archive isZip binName = extract_named binName (if isZip then ue_zip e archive else ue_targz e archive)"

record exe_dir =
  xd_exe :: "string option"
  xd_old :: "string option"
  xd_tmp :: "string option"

datatype swap_step = SCreate | SWrite | SClose | SChmod | SAside | SInstall | SRollback

text \<open>\<open>replaceExecutable\<close>: on Windows the executable is first renamed aside.\<close>

definition replaceExecutable :: "string \<Rightarrow> (swap_step \<Rightarrow> bool) \<Rightarrow> string \<Rightarrow> exe_dir \<Rightarrow> exe_dir \<times> bool" where
  "replaceExecutable goos fails newBin d =
    (if fails SCreate then (d, False)
     else let d1 = d\<lparr>xd_tmp := Some newBin\<rparr>; cleanup = d\<lparr>xd_tmp := None\<rparr> in
     if fails SWrite \<or> fails SClose \<or> fails SChmod then (cleanup, False)
     else if goos = ''windows'' then
       (let d2 = d1\<lparr>xd_old := None\<rparr> in
        if fails SAside then (d2\<lparr>xd_tmp := None\<rparr>, False)
        else let d3 = d2\<lparr>xd_old := xd_exe d2, xd_exe := None\<rparr> in
        if fails SInstall then
          (if fails SRollback then (d3, False) else (d3\<lparr>xd_exe := xd_old d3, xd_old := None\<rparr>, False))
        else (d3\<lparr>xd_exe := Some newBin, xd_tmp := None\<rparr>, True))
     else if fails SInstall then (cleanup, False)
     else (d\<lparr>xd_exe := Some newBin, xd_tmp := None\<rparr>, True))"

section \<open>The update command\<close>

text \<open>The part of \<open>runUpdate\<close> between the download and the extraction: whether the archive may be
  installed.\<close>

definition archive_accepted :: "update_env \<Rightarrow> releaseInfo \<Rightarrow> string \<Rightarrow> bool \<Rightarrow> string \<Rightarrow> bool" where
  "archive_accepted e rel name insecure archive =
    (let pub = updatePublicKey e in
     case assetURL rel ''SHA256SUMS.txt'' of
       None \<Rightarrow> if pub \<noteq> [] then False else insecure
     | Some sumsURL \<Rightarrow> (case download e sumsURL of
         None \<Rightarrow> False
       | Some listing \<Rightarrow>
           (case sha256FromSums listing name of
              None \<Rightarrow> insecure
            | Some want \<Rightarrow> verifySHA256 e archive want) \<and>
           (pub \<noteq> [] \<longrightarrow>
             (case assetURL rel ''SHA256SUMS.txt.sig'' of
                None \<Rightarrow> False
              | Some sigURL \<Rightarrow> (case download e sigURL of
                  None \<Rightarrow> False
                | Some sigBytes \<Rightarrow> verifyReleaseSignature e listing sigBytes pub)))))"

definition runUpdate :: "update_env \<Rightarrow> string list \<Rightarrow> (swap_step \<Rightarrow> bool) \<Rightarrow> bool \<Rightarrow> exe_dir \<Rightarrow> exe_dir \<times> int" where
  "runUpdate e args fails exe_known d =
    (let force = list_ex (\<lambda>a. a = ''--force'' \<or> a = ''-f'') args; insecure = list_ex (\<lambda>a. a = ''--insecure'') args in
     if isDevBuild e \<and> \<not> force then (d, 0)
     else if inContainer e then (d, 1)
     else (case checkForUpdate e of
       (st, None) \<Rightarrow> (d, 1)
     | (st, Some rel) \<Rightarrow>
         if \<not> us_Available st \<and> \<not> force then (d, 0)
         else (let (name, isZip) = assetNameFor (ue_goos e) (ue_goarch e) (ri_TagName rel) in
           case assetURL rel name of
             None \<Rightarrow> (d, 1)
           | Some url \<Rightarrow> (case download e url of
               None \<Rightarrow> (d, 1)
             | Some archive \<Rightarrow>
                 if \<not> archive_accepted e rel name insecure archive then (d, 1)
                 else (case extractBinary e archive isZip (binaryNameFor (ue_goos e)) of
                   None \<Rightarrow> (d, 1)
                 | Some newBin \<Rightarrow>
                     if \<not> exe_known then (d, 1)
                     else (case replaceExecutable (ue_goos e) fails newBin d of
                       (d', ok) \<Rightarrow> (d', if ok then 0 else 1)))))))"

section \<open>Facts\<close>

text \<open>The comparison is a strict weak order, and a version that does not parse is the oldest.\<close>

lemma semverLess_iff:
  "semverLess a b \<longleftrightarrow> (case (parseSemver a, parseSemver b) of
     (_, None) \<Rightarrow> False | (None, Some _) \<Rightarrow> True
   | (Some (a1, a2, a3), Some (b1, b2, b3)) \<Rightarrow> a1 < b1 \<or> a1 = b1 \<and> (a2 < b2 \<or> a2 = b2 \<and> a3 < b3))"
  by (auto simp: semverLess_def split: option.splits)

lemma semverLess_order:
  "\<not> semverLess a a" "semverLess a b \<Longrightarrow> semverLess b c \<Longrightarrow> semverLess a c"
  "semverLess a c \<Longrightarrow> semverLess a b \<or> semverLess b c"
  by (auto simp: semverLess_iff split: option.splits)

lemma replaceExecutable_exe:
  assumes "replaceExecutable goos fails newBin d = (d', ok)"
  shows "if ok then xd_exe d' = Some newBin \<and> xd_tmp d' = None
    else xd_exe d' = xd_exe d \<or> xd_exe d' = None \<and> xd_old d' = xd_exe d \<and> goos = ''windows'' \<and> fails SInstall \<and> fails SRollback"
  using assms by (auto simp: replaceExecutable_def Let_def split: if_split_asm)

text \<open>A failed installation on Windows leaves the downloaded binary in the temporary file.\<close>

lemma windows_install_leaks_temp:
  "\<exists>fails. replaceExecutable ''windows'' fails bin d = (d', False) \<and> xd_exe d' = xd_exe d \<and> xd_tmp d' = Some bin"
  if "d' = d\<lparr>xd_old := None, xd_tmp := Some bin\<rparr>"
  using that by (intro exI [of _ "\<lambda>st. st = SInstall"]) (simp add: replaceExecutable_def)

lemma runUpdate_installed:
  assumes "runUpdate e args fails known_exe d = (d', code)" "xd_exe d' \<noteq> xd_exe d"
  obtains rel name isZip url archive newBin ok where
    "fetchLatestRelease e = Some rel" "list_ex (\<lambda>a. a = ''--force'' \<or> a = ''-f'') args \<or> semverLess (ue_version e) (ri_TagName rel)"
    "assetNameFor (ue_goos e) (ue_goarch e) (ri_TagName rel) = (name, isZip)" "assetURL rel name = Some url"
    "download e url = Some archive" "archive_accepted e rel name (list_ex (\<lambda>a. a = ''--insecure'') args) archive"
    "extractBinary e archive isZip (binaryNameFor (ue_goos e)) = Some newBin"
    "replaceExecutable (ue_goos e) fails newBin d = (d', ok)" "code = (if ok then 0 else 1)" "\<not> inContainer e"
  using assms
  by (auto simp: runUpdate_def checkForUpdate_def Let_def split: if_split_asm option.split_asm prod.split_asm)

lemma archive_accepted_verified:
  assumes "archive_accepted e rel name insecure archive"
  shows "(\<not> insecure \<longrightarrow> (\<exists>u listing want. assetURL rel ''SHA256SUMS.txt'' = Some u \<and> download e u = Some listing \<and>
      sha256FromSums listing name = Some want \<and> equal_fold (ue_sha256 e archive) want)) \<and>
    (updatePublicKey e \<noteq> [] \<longrightarrow> (\<exists>u listing v sig. assetURL rel ''SHA256SUMS.txt'' = Some u \<and> download e u = Some listing \<and>
      assetURL rel ''SHA256SUMS.txt.sig'' = Some v \<and> download e v = Some sig \<and> verifyReleaseSignature e listing sig (updatePublicKey e)))"
  using assms
  by (auto simp: archive_accepted_def verifySHA256_def Let_def split: option.split_asm if_split_asm)

text \<open>With \<open>--insecure\<close> the archive of a release whose signed checksums do not list it is accepted, although
  a release key is configured: nothing ties the archive to the signature.\<close>

lemma insecure_skips_signature:
  assumes "assetURL rel ''SHA256SUMS.txt'' = Some u" "download e u = Some listing" "sha256FromSums listing name = None"
    "assetURL rel ''SHA256SUMS.txt.sig'' = Some v" "download e v = Some sig" "verifyReleaseSignature e listing sig (updatePublicKey e)"
  shows "archive_accepted e rel name True archive"
  using assms by (simp add: archive_accepted_def Let_def)

text \<open>What the lookup finds stands first on a line that ends in the name.\<close>

lemma sums_lookup_line:
  "sums_lookup lines name = Some want \<Longrightarrow> \<exists>line\<in>set lines. 2 \<le> length (str_fields line) \<and>
     last (str_fields line) = name \<and> want = to_lower (hd (str_fields line))"
  by (induction lines) (auto simp: Let_def split: if_split_asm)

section \<open>The property\<close>

text \<open>C35. The updater installs only what it verified: when the executable changes, the release is newer or
  the operator forced it, the process is not in a container, the new executable is the named binary of
  the release's archive for this platform; without \<open>--insecure\<close> the archive has the checksum the
  release's list gives for it; with a release key the list carries a valid signature. An exit code
  other than zero leaves the old executable, or, only on Windows after a failed roll-back, its copy.\<close>

theorem update_installs_only_verified:
  assumes "runUpdate e args fails known_exe d = (d', code)" "xd_exe d' \<noteq> xd_exe d"
  shows "\<exists>rel name isZip url archive newBin.
    fetchLatestRelease e = Some rel \<and> (list_ex (\<lambda>a. a = ''--force'' \<or> a = ''-f'') args \<or> semverLess (ue_version e) (ri_TagName rel)) \<and>
    \<not> inContainer e \<and> assetNameFor (ue_goos e) (ue_goarch e) (ri_TagName rel) = (name, isZip) \<and> assetURL rel name = Some url \<and>
    download e url = Some archive \<and> extractBinary e archive isZip (binaryNameFor (ue_goos e)) = Some newBin \<and>
    (if code = 0 then xd_exe d' = Some newBin else xd_exe d' = None \<and> xd_old d' = xd_exe d \<and> ue_goos e = ''windows'') \<and>
    (\<not> list_ex (\<lambda>a. a = ''--insecure'') args \<longrightarrow> (\<exists>u listing want. assetURL rel ''SHA256SUMS.txt'' = Some u \<and> download e u = Some listing \<and>
       sha256FromSums listing name = Some want \<and> equal_fold (ue_sha256 e archive) want)) \<and>
    (updatePublicKey e \<noteq> [] \<longrightarrow> (\<exists>u listing v sig. assetURL rel ''SHA256SUMS.txt'' = Some u \<and> download e u = Some listing \<and>
       assetURL rel ''SHA256SUMS.txt.sig'' = Some v \<and> download e v = Some sig \<and> verifyReleaseSignature e listing sig (updatePublicKey e)))"
  using assms
proof (rule runUpdate_installed)
  fix rel name isZip url archive newBin ok
  assume r: "fetchLatestRelease e = Some rel" "list_ex (\<lambda>a. a = ''--force'' \<or> a = ''-f'') args \<or> semverLess (ue_version e) (ri_TagName rel)"
    "assetNameFor (ue_goos e) (ue_goarch e) (ri_TagName rel) = (name, isZip)" "assetURL rel name = Some url"
    "download e url = Some archive" "archive_accepted e rel name (list_ex (\<lambda>a. a = ''--insecure'') args) archive"
    "extractBinary e archive isZip (binaryNameFor (ue_goos e)) = Some newBin"
    "replaceExecutable (ue_goos e) fails newBin d = (d', ok)" "code = (if ok then 0 else 1)" "\<not> inContainer e"
  have x: "if code = 0 then xd_exe d' = Some newBin else xd_exe d' = None \<and> xd_old d' = xd_exe d \<and> ue_goos e = ''windows''"
    using replaceExecutable_exe [OF r(8)] assms(2) r(9) by (auto split: if_split_asm)
  show ?thesis
    by (rule exI [of _ rel], rule exI [of _ name], rule exI [of _ isZip], rule exI [of _ url], rule exI [of _ archive], rule exI [of _ newBin])
       (intro conjI r x archive_accepted_verified [OF r(6), THEN conjunct1] archive_accepted_verified [OF r(6), THEN conjunct2])
qed

definition sample_update :: update_env where
  "sample_update = \<lparr>ue_version = ''v1.2.0'', ue_goos = ''linux'', ue_goarch = ''amd64'', ue_env = [], ue_dockerenv = False, ue_releaseKey = [],
     ue_latest = Some (200, Some \<lparr>ri_TagName = ''v1.10.0'', ri_HTMLURL = [],
       ri_Assets = [(''calvoproxy-v1.10.0-linux-amd64.tar.gz'', ''A''), (''SHA256SUMS.txt'', ''S'')]\<rparr>),
     ue_get = (\<lambda>u. if u = ''A'' then Some (200, ''tgz'') else Some (200, ''TGZ  calvoproxy-v1.10.0-linux-amd64.tar.gz'')),
     ue_sha256 = (\<lambda>x. x), ue_base64 = Some, ue_ed25519 = (\<lambda>k m s. False), ue_zip = (\<lambda>a. None),
     ue_targz = (\<lambda>a. Some [(''bin/calvoproxy'', ''new'')])\<rparr>"

theorem update_installs_only_verified_witness:
  "list_ex (\<lambda>a. a = ''--force'' \<or> a = ''-f'') [''x''] \<or> semverLess ''v1.2.0'' ''v1.10.0''"
proof -
  let ?d = "\<lparr>xd_exe = Some ''old'', xd_old = None, xd_tmp = None\<rparr>"
  have rel: "fetchLatestRelease sample_update = Some \<lparr>ri_TagName = ''v1.10.0'', ri_HTMLURL = [],
      ri_Assets = [(''calvoproxy-v1.10.0-linux-amd64.tar.gz'', ''A''), (''SHA256SUMS.txt'', ''S'')]\<rparr>"
    by (simp add: fetchLatestRelease_def sample_update_def)
  have dl: "download sample_update ''A'' = Some ''tgz''"
    "download sample_update ''S'' = Some ''TGZ  calvoproxy-v1.10.0-linux-amd64.tar.gz''"
    by (simp_all add: download_def sample_update_def download_limit_def)
  let ?name = "''calvoproxy-v1.10.0-linux-amd64.tar.gz''"
  have cs: "sha256FromSums ''TGZ  calvoproxy-v1.10.0-linux-amd64.tar.gz'' ?name = Some ''tgz''"
    "semverLess ''v1.2.0'' ''v1.10.0''" "updatePublicKey sample_update = []" "\<not> isDevBuild sample_update" "\<not> inContainer sample_update"
    "verifySHA256 sample_update ''tgz'' ''tgz''" by code_simp+
  have nm: "assetNameFor (ue_goos sample_update) (ue_goarch sample_update) ''v1.10.0'' = (?name, False)"
    "binaryNameFor (ue_goos sample_update) = ''calvoproxy''" "ue_version sample_update = ''v1.2.0''"
    by (simp_all add: sample_update_def assetNameFor_def binaryNameFor_def)
  have ext: "extractBinary sample_update ''tgz'' False ''calvoproxy'' = Some ''new''"
    by (simp add: sample_update_def extractBinary_def extract_named_def base_name_def download_limit_def)
  have rep: "replaceExecutable (ue_goos sample_update) (\<lambda>s. False) ''new'' ?d = (?d\<lparr>xd_exe := Some ''new''\<rparr>, True)"
    by (simp add: replaceExecutable_def sample_update_def)
  have "runUpdate sample_update [''x''] (\<lambda>s. False) True ?d = (?d\<lparr>xd_exe := Some ''new''\<rparr>, 0)"
    using rel dl cs nm ext rep
    by (simp add: runUpdate_def checkForUpdate_def archive_accepted_def assetURL_def Let_def)
  from update_installs_only_verified [OF this] rel nm(3) show ?thesis by auto
qed

end
