(* ===== verification/Load_Balancer.thy ===== *)
theory Load_Balancer
  imports Prelude "HOL-Library.Word"
begin

text \<open>
  The load balancer (\<open>cmd/lb/main.go\<close>): a round robin over the backends with a 32-bit wrapping
  counter, health probes that run in their own goroutines, connection counters, and draining.

  A \<open>Backend\<close> is shared by pointer between the balancer's slice, requests being proxied, probes
  and drains, so the objects live in a heap (\<open>lb_heap\<close>) and a pointer is an index into it. What
  the goroutines do is a step relation: one step is one atomic access (an \<open>atomic.AddUint32\<close> with
  the health it reads, a counter update, a \<open>setHealthy\<close>, a change of the slice under the lock). A
  request that searches holds the read lock, so a step that changes the slice needs that no
  request is searching. \<open>url.Parse\<close> is an argument (the host it finds, or none on an error), and
  so are the outcome of a probe and the clock.
\<close>

section \<open>Backends\<close>

record Backend =
  be_Host :: string
  be_healthy :: bool
  be_connections :: "32 word"
  be_lastCheck :: go_time

definition setHealthy :: "bool \<Rightarrow> go_time \<Rightarrow> Backend \<Rightarrow> Backend" where
  "setHealthy h now b = b\<lparr>be_healthy := h, be_lastCheck := now\<rparr>"

definition isHealthy :: "Backend \<Rightarrow> bool" where
  "isHealthy b = be_healthy b"

definition incConn :: "Backend \<Rightarrow> Backend" where
  "incConn b = b\<lparr>be_connections := be_connections b + 1\<rparr>"

definition decConn :: "Backend \<Rightarrow> Backend" where
  "decConn b = b\<lparr>be_connections := be_connections b - 1\<rparr>"

definition conns :: "Backend \<Rightarrow> int" where
  "conns b = sint (be_connections b)"

section \<open>The balancer\<close>

record LoadBalancer =
  lb_heap :: "Backend list"
  lb_backends :: "nat list"
  lb_rr :: "32 word"

definition NewLoadBalancer :: LoadBalancer where
  "NewLoadBalancer = \<lparr>lb_heap = [], lb_backends = [], lb_rr = 0\<rparr>"

definition backend_at :: "LoadBalancer \<Rightarrow> nat \<Rightarrow> Backend" where
  "backend_at lb p = lb_heap lb ! p"

definition on_backend :: "nat \<Rightarrow> (Backend \<Rightarrow> Backend) \<Rightarrow> LoadBalancer \<Rightarrow> LoadBalancer" where
  "on_backend p f lb = lb\<lparr>lb_heap := (lb_heap lb)[p := f (lb_heap lb ! p)]\<rparr>"

text \<open>\<open>AddBackend\<close> returns whether it added; on a URL that does not parse nothing changes.\<close>

definition AddBackend :: "(string \<Rightarrow> string option) \<Rightarrow> string \<Rightarrow> LoadBalancer \<Rightarrow> LoadBalancer \<times> bool" where
  "AddBackend url_Parse addr lb = (case url_Parse (''http://'' @ addr) of
     None \<Rightarrow> (lb, False)
   | Some host \<Rightarrow>
       (lb\<lparr>lb_heap := lb_heap lb @ [\<lparr>be_Host = host, be_healthy = True, be_connections = 0, be_lastCheck = zero_time\<rparr>],
           lb_backends := lb_backends lb @ [length (lb_heap lb)]\<rparr>, True))"

fun remove_host :: "(nat \<Rightarrow> bool) \<Rightarrow> nat list \<Rightarrow> nat list" where
  "remove_host is_it [] = []"
| "remove_host is_it (p # ps) = (if is_it p then ps else p # remove_host is_it ps)"

definition RemoveBackend :: "string \<Rightarrow> LoadBalancer \<Rightarrow> LoadBalancer" where
  "RemoveBackend addr lb =
     lb\<lparr>lb_backends := remove_host (\<lambda>p. be_Host (backend_at lb p) = addr) (lb_backends lb)\<rparr>"

text \<open>One round of the search: the counter moves, and the index is its remainder as \<open>uint32\<close>.\<close>

definition pick_one :: "LoadBalancer \<Rightarrow> LoadBalancer \<times> nat" where
  "pick_one lb = (let rr = lb_rr lb + 1; idx = unat (rr mod of_nat (length (lb_backends lb))) in
     (lb\<lparr>lb_rr := rr\<rparr>, lb_backends lb ! idx))"

fun next_loop :: "nat \<Rightarrow> LoadBalancer \<Rightarrow> LoadBalancer \<times> nat option" where
  "next_loop 0 lb = (lb, None)"
| "next_loop (Suc k) lb = (case pick_one lb of (lb', p) \<Rightarrow>
     if isHealthy (backend_at lb' p) then (lb', Some p) else next_loop k lb')"

definition NextBackend :: "LoadBalancer \<Rightarrow> LoadBalancer \<times> nat option" where
  "NextBackend lb = (let n = length (lb_backends lb) in if n = 0 then (lb, None) else next_loop n lb)"

definition find_backend :: "string \<Rightarrow> LoadBalancer \<Rightarrow> nat option" where
  "find_backend addr lb = List.find (\<lambda>p. be_Host (backend_at lb p) = addr) (lb_backends lb)"

text \<open>A probe's verdict: an error or a status.\<close>

definition probe_healthy :: "int option \<Rightarrow> bool" where
  "probe_healthy resp = (resp = Some 200)"

text \<open>\<open>getEnvInt\<close>: \<open>fmt.Sscanf\<close> (an argument: the number of items it read, or an error) returns how
  many items it assigned, and that count is what the function returns.\<close>

definition getEnv :: "(string \<Rightarrow> string) \<Rightarrow> string \<Rightarrow> string \<Rightarrow> string" where
  "getEnv env key def = (if env key \<noteq> [] then env key else def)"

definition getEnvInt :: "(string \<Rightarrow> int option) \<Rightarrow> (string \<Rightarrow> string) \<Rightarrow> string \<Rightarrow> int \<Rightarrow> int" where
  "getEnvInt Sscanf_d env key def = (let v = env key in
     if v \<noteq> [] then (case Sscanf_d v of Some i \<Rightarrow> i | None \<Rightarrow> def) else def)"

section \<open>Round robin\<close>

lemma backend_at_simps [simp]:
  "backend_at (lb\<lparr>lb_rr := r\<rparr>) p = backend_at lb p"
  "backend_at (lb\<lparr>lb_backends := bs\<rparr>) p = backend_at lb p"
  by (simp_all add: backend_at_def)

lemma pick_one_sel [simp]:
  "lb_heap (fst (pick_one lb)) = lb_heap lb" "lb_backends (fst (pick_one lb)) = lb_backends lb"
  "backend_at (fst (pick_one lb)) p = backend_at lb p"
  "lb_rr (fst (pick_one lb)) = lb_rr lb + 1"
  by (simp_all add: pick_one_def Let_def)

definition healthy_at :: "LoadBalancer \<Rightarrow> nat \<Rightarrow> bool" where
  "healthy_at lb p = isHealthy (backend_at lb p)"

declare next_loop.simps(2) [simp del]

lemma next_loop_Suc:
  "next_loop (Suc k) lb = (let r = pick_one lb in
     if healthy_at lb (snd r) then (fst r, Some (snd r)) else next_loop k (fst r))"
  using pick_one_sel(3) [of lb "snd (pick_one lb)"]
  by (simp add: next_loop.simps(2) Let_def healthy_at_def case_prod_beta)

lemma pick_one_listed:
  assumes "lb_backends lb \<noteq> []" "length (lb_backends lb) < 2 ^ 32"
  shows "snd (pick_one lb) \<in> set (lb_backends lb)"
proof -
  have "unat ((lb_rr lb + 1) mod of_nat (length (lb_backends lb))) < length (lb_backends lb)"
    using assms by (simp add: unat_mod_distrib unat_of_nat take_bit_nat_eq_self)
  then show ?thesis by (simp add: pick_one_def Let_def)
qed

text \<open>The reference: the first healthy backend of the slice rotated to the counter.\<close>

definition rotation :: "LoadBalancer \<Rightarrow> nat list" where
  "rotation lb = rotate (Suc (unat (lb_rr lb))) (lb_backends lb)"

lemma pick_one_rotation:
  assumes "lb_backends lb \<noteq> []" "length (lb_backends lb) < 2 ^ 32" "Suc (unat (lb_rr lb)) < 2 ^ 32"
  shows "snd (pick_one lb) = hd (rotation lb)" "unat (lb_rr (fst (pick_one lb))) = Suc (unat (lb_rr lb))"
proof -
  have rr: "unat (lb_rr lb + 1) = Suc (unat (lb_rr lb))"
    using assms(3) by (simp add: unat_word_ariths take_bit_nat_eq_self)
  then show "unat (lb_rr (fst (pick_one lb))) = Suc (unat (lb_rr lb))" by simp
  have "unat ((lb_rr lb + 1) mod of_nat (length (lb_backends lb))) = Suc (unat (lb_rr lb)) mod length (lb_backends lb)"
    using rr assms by (simp add: unat_mod_distrib unat_of_nat take_bit_nat_eq_self)
  then show "snd (pick_one lb) = hd (rotation lb)"
    using assms by (simp add: pick_one_def Let_def rotation_def hd_rotate_conv_nth del: rotate_Suc)
qed

lemma next_loop_rotation:
  assumes "lb_backends lb \<noteq> []" "length (lb_backends lb) < 2 ^ 32" "unat (lb_rr lb) + k < 2 ^ 32"
    "k \<le> length (lb_backends lb)"
  shows "snd (next_loop k lb) = List.find (healthy_at lb) (take k (rotation lb))"
  using assms
proof (induction k arbitrary: lb)
  case 0
  then show ?case by simp
next
  case (Suc k)
  let ?lb = "fst (pick_one lb)"
  note p = pick_one_rotation [of lb]
  have hd: "snd (pick_one lb) = hd (rotation lb)" "unat (lb_rr ?lb) = Suc (unat (lb_rr lb))"
    using p Suc.prems by simp_all
  have ne: "rotation lb \<noteq> []" using Suc.prems by (simp add: rotation_def)
  have rot: "rotation ?lb = tl (rotation lb) @ [hd (rotation lb)]"
    using ne hd(2) by (simp add: rotation_def rotate1_hd_tl)
  have "k \<le> length (tl (rotation lb))" using Suc.prems by (simp add: rotation_def)
  then have tk: "take (Suc k) (rotation lb) = hd (rotation lb) # take k (rotation ?lb)"
    using ne rot by (cases "rotation lb") simp_all
  have IH: "snd (next_loop k ?lb) = List.find (healthy_at ?lb) (take k (rotation ?lb))"
    using Suc.prems hd(2) by (intro Suc.IH) simp_all
  have h: "healthy_at ?lb = healthy_at lb" by (simp add: healthy_at_def fun_eq_iff)
  show ?case
    using IH hd(1) by (simp add: tk h next_loop_Suc Let_def)
qed

lemma next_loop_sel:
  "lb_heap (fst (next_loop k lb)) = lb_heap lb \<and> lb_backends (fst (next_loop k lb)) = lb_backends lb"
proof (induction k arbitrary: lb)
  case (Suc k)
  then show ?case by (simp add: next_loop_Suc Let_def)
qed simp

text \<open>While the counter does not wrap during the call, a single caller gets the first healthy
  backend after the last one served, and none exactly when no backend is healthy.\<close>

lemma next_loop_sound:
  "lb_backends lb \<noteq> [] \<Longrightarrow> length (lb_backends lb) < 2 ^ 32 \<Longrightarrow> snd (next_loop k lb) = Some p \<Longrightarrow>
   p \<in> set (lb_backends lb) \<and> healthy_at lb p"
proof (induction k arbitrary: lb)
  case (Suc k)
  have "healthy_at (fst (pick_one lb)) = healthy_at lb" by (simp add: fun_eq_iff healthy_at_def)
  with Suc.IH [of "fst (pick_one lb)"] Suc.prems pick_one_listed [OF Suc.prems(1,2)] show ?case
    by (auto simp: next_loop_Suc Let_def split: if_splits)
qed simp

lemma NextBackend_rotation:
  assumes "length (lb_backends lb) < 2 ^ 32" "unat (lb_rr lb) + length (lb_backends lb) < 2 ^ 32"
  shows "snd (NextBackend lb) = List.find (healthy_at lb) (rotation lb)"
proof (cases "lb_backends lb = []")
  case True
  then show ?thesis by (simp add: NextBackend_def rotation_def)
next
  case False
  with next_loop_rotation [OF False assms(1,2)] show ?thesis
    by (simp add: NextBackend_def Let_def rotation_def)
qed

lemma find_in_rotation:
  "List.find P (rotate n xs) = None \<longleftrightarrow> (\<forall>x\<in>set xs. \<not> P x)"
  by (auto simp: find_None_iff)

text \<open>The wrapped counter skips: with three backends the values \<open>2^32 - 1\<close> and \<open>0\<close> both name the
  first one, so a healthy third backend is not found.\<close>

lemma wrap_misses_healthy_backend:
  "\<exists>lb. (\<exists>p\<in>set (lb_backends lb). healthy_at lb p) \<and> snd (NextBackend lb) = None"
proof -
  let ?b = "\<lambda>h. \<lparr>be_Host = [], be_healthy = h, be_connections = 0, be_lastCheck = 0\<rparr>"
  let ?lb = "\<lparr>lb_heap = [?b False, ?b False, ?b True], lb_backends = [0, 1, 2], lb_rr = - 2\<rparr>"
  have "snd (NextBackend ?lb) = None"
    by code_simp
  then show ?thesis by (intro exI [of _ ?lb]) (simp add: healthy_at_def isHealthy_def backend_at_def)
qed

lemma next_loop_last:
  assumes "lb_backends lb \<noteq> []" "length (lb_backends lb) < 2 ^ 32" "unat (lb_rr lb) + k < 2 ^ 32"
    "snd (next_loop k lb) = Some p"
  shows "last (rotation (fst (next_loop k lb))) = p"
  using assms
proof (induction k arbitrary: lb)
  case 0
  then show ?case by simp
next
  case (Suc k)
  let ?lb = "fst (pick_one lb)"
  have hd: "snd (pick_one lb) = hd (rotation lb)" "unat (lb_rr ?lb) = Suc (unat (lb_rr lb))"
    using pick_one_rotation [of lb] Suc.prems by simp_all
  have ne: "rotation lb \<noteq> []" using Suc.prems by (simp add: rotation_def)
  then have rot: "rotation ?lb = tl (rotation lb) @ [hd (rotation lb)]"
    using hd(2) by (simp add: rotation_def rotate1_hd_tl)
  show ?case
  proof (cases "healthy_at lb (snd (pick_one lb))")
    case True
    with Suc.prems rot hd(1) show ?thesis by (simp add: next_loop_Suc Let_def)
  next
    case False
    with Suc.prems Suc.IH [of ?lb] hd(2) show ?thesis by (simp add: next_loop_Suc Let_def)
  qed
qed

section \<open>Requests, probes and drains as goroutines\<close>

text \<open>
  What a goroutine is doing: searching with so many rounds left (holding the read lock), about to
  count itself in, proxying, probing, or draining an address until a deadline.
\<close>

datatype task = Picking nat | Picked nat | Proxying nat | Probing nat | Draining nat string go_time

record cluster =
  cl_lb :: LoadBalancer
  cl_tasks :: "task list"
  cl_unavailable :: nat

definition cluster_start :: cluster where
  "cluster_start = \<lparr>cl_lb = NewLoadBalancer, cl_tasks = [], cl_unavailable = 0\<rparr>"

definition is_picking :: "task \<Rightarrow> bool" where
  "is_picking t = (case t of Picking _ \<Rightarrow> True | _ \<Rightarrow> False)"

definition no_reader :: "task list \<Rightarrow> bool" where
  "no_reader ts = list_all (\<lambda>t. \<not> is_picking t) ts"

text \<open>
  The rules in the order of the code: \<open>AddBackend\<close> and \<open>RemoveBackend\<close> under the write lock;
  \<open>ServeHTTP\<close> from the arrival of a request to its end; \<open>HealthCheck\<close>, which starts one probe per
  backend; \<open>DrainBackend\<close>, which marks the backend, waits, and removes it. Fewer than \<open>2^32\<close>
  backends fit in memory.
\<close>

inductive lb_step :: "cluster \<Rightarrow> cluster \<Rightarrow> bool" where
  add: "no_reader ts \<Longrightarrow> Suc (length (lb_backends lb)) < 2 ^ 32 \<Longrightarrow> AddBackend url_Parse addr lb = (lb', ok) \<Longrightarrow>
    lb_step \<lparr>cl_lb = lb, cl_tasks = ts, cl_unavailable = u\<rparr> \<lparr>cl_lb = lb', cl_tasks = ts, cl_unavailable = u\<rparr>"
| remove: "no_reader ts \<Longrightarrow>
    lb_step \<lparr>cl_lb = lb, cl_tasks = ts, cl_unavailable = u\<rparr> \<lparr>cl_lb = RemoveBackend addr lb, cl_tasks = ts, cl_unavailable = u\<rparr>"
| arrive_none: "lb_backends lb = [] \<Longrightarrow>
    lb_step \<lparr>cl_lb = lb, cl_tasks = ts, cl_unavailable = u\<rparr> \<lparr>cl_lb = lb, cl_tasks = ts, cl_unavailable = Suc u\<rparr>"
| arrive: "lb_backends lb \<noteq> [] \<Longrightarrow>
    lb_step \<lparr>cl_lb = lb, cl_tasks = ts, cl_unavailable = u\<rparr>
      \<lparr>cl_lb = lb, cl_tasks = Picking (length (lb_backends lb)) # ts, cl_unavailable = u\<rparr>"
| pick_hit: "pick_one lb = (lb', p) \<Longrightarrow> healthy_at lb' p \<Longrightarrow>
    lb_step \<lparr>cl_lb = lb, cl_tasks = t1 @ Picking (Suc k) # t2, cl_unavailable = u\<rparr>
      \<lparr>cl_lb = lb', cl_tasks = t1 @ Picked p # t2, cl_unavailable = u\<rparr>"
| pick_miss: "pick_one lb = (lb', p) \<Longrightarrow> \<not> healthy_at lb' p \<Longrightarrow>
    lb_step \<lparr>cl_lb = lb, cl_tasks = t1 @ Picking (Suc k) # t2, cl_unavailable = u\<rparr>
      \<lparr>cl_lb = lb', cl_tasks = t1 @ Picking k # t2, cl_unavailable = u\<rparr>"
| pick_fail:
    "lb_step \<lparr>cl_lb = lb, cl_tasks = t1 @ Picking 0 # t2, cl_unavailable = u\<rparr>
      \<lparr>cl_lb = lb, cl_tasks = t1 @ t2, cl_unavailable = Suc u\<rparr>"
| count_in:
    "lb_step \<lparr>cl_lb = lb, cl_tasks = t1 @ Picked p # t2, cl_unavailable = u\<rparr>
      \<lparr>cl_lb = on_backend p incConn lb, cl_tasks = t1 @ Proxying p # t2, cl_unavailable = u\<rparr>"
| count_out:
    "lb_step \<lparr>cl_lb = lb, cl_tasks = t1 @ Proxying p # t2, cl_unavailable = u\<rparr>
      \<lparr>cl_lb = on_backend p decConn lb, cl_tasks = t1 @ t2, cl_unavailable = u\<rparr>"
| probe:
    "lb_step \<lparr>cl_lb = lb, cl_tasks = ts, cl_unavailable = u\<rparr>
      \<lparr>cl_lb = lb, cl_tasks = map Probing (lb_backends lb) @ ts, cl_unavailable = u\<rparr>"
| probed:
    "lb_step \<lparr>cl_lb = lb, cl_tasks = t1 @ Probing p # t2, cl_unavailable = u\<rparr>
      \<lparr>cl_lb = on_backend p (setHealthy (probe_healthy resp) now) lb, cl_tasks = t1 @ t2, cl_unavailable = u\<rparr>"
| drain: "find_backend addr lb = Some p \<Longrightarrow>
    lb_step \<lparr>cl_lb = lb, cl_tasks = ts, cl_unavailable = u\<rparr>
      \<lparr>cl_lb = on_backend p (setHealthy False now) lb,
       cl_tasks = Draining p addr (add_dur now wait) # ts, cl_unavailable = u\<rparr>"
| drained: "no_reader (t1 @ t2) \<Longrightarrow> \<not> before now deadline \<or> conns (backend_at lb p) = 0 \<Longrightarrow>
    lb_step \<lparr>cl_lb = lb, cl_tasks = t1 @ Draining p addr deadline # t2, cl_unavailable = u\<rparr>
      \<lparr>cl_lb = RemoveBackend addr lb, cl_tasks = t1 @ t2, cl_unavailable = u\<rparr>"

abbreviation lb_steps :: "cluster \<Rightarrow> cluster \<Rightarrow> bool" where
  "lb_steps \<equiv> lb_step\<^sup>*\<^sup>*"

definition proxied :: "nat \<Rightarrow> task list \<Rightarrow> nat" where
  "proxied p ts = length (filter (\<lambda>t. t = Proxying p) ts)"

definition bound_for :: "nat \<Rightarrow> task list \<Rightarrow> nat" where
  "bound_for p ts = length (filter (\<lambda>t. t = Picked p \<or> t = Proxying p) ts)"

fun task_ok :: "nat \<Rightarrow> nat list \<Rightarrow> task \<Rightarrow> bool" where
  "task_ok h ps (Picking k) \<longleftrightarrow> ps \<noteq> [] \<and> k \<le> length ps"
| "task_ok h ps (Picked p) \<longleftrightarrow> p < h"
| "task_ok h ps (Proxying p) \<longleftrightarrow> p < h"
| "task_ok h ps (Probing p) \<longleftrightarrow> p < h"
| "task_ok h ps (Draining p _ _) \<longleftrightarrow> p < h"

text \<open>The invariant: no dangling pointer, a searcher has at most a full turn left, and every
  connection counter is the number of requests being proxied to that backend.\<close>

definition cluster_inv :: "cluster \<Rightarrow> bool" where
  "cluster_inv c \<longleftrightarrow> (let lb = cl_lb c; h = length (lb_heap lb) in
     length (lb_backends lb) < 2 ^ 32 \<and>
     list_all (\<lambda>p. p < h) (lb_backends lb) \<and>
     list_all (task_ok h (lb_backends lb)) (cl_tasks c) \<and>
     (\<forall>p<h. be_connections (backend_at lb p) = of_nat (proxied p (cl_tasks c))))"

lemma proxied_simps [simp]:
  "proxied p [] = 0" "proxied p (t # ts) = (if t = Proxying p then 1 else 0) + proxied p ts"
  "proxied p (xs @ ys) = proxied p xs + proxied p ys" "proxied p (map Probing ps) = 0"
  by (simp_all add: proxied_def)

lemma bound_for_simps [simp]:
  "bound_for p [] = 0" "bound_for p (t # ts) = (if t = Picked p \<or> t = Proxying p then 1 else 0) + bound_for p ts"
  "bound_for p (xs @ ys) = bound_for p xs + bound_for p ys" "bound_for p (map Probing ps) = 0"
  by (simp_all add: bound_for_def)

lemma on_backend_sel [simp]:
  "lb_backends (on_backend p f lb) = lb_backends lb" "length (lb_heap (on_backend p f lb)) = length (lb_heap lb)"
  "backend_at (on_backend p f lb) q = (if q = p \<and> p < length (lb_heap lb) then f (backend_at lb p) else backend_at lb q)"
  by (auto simp: on_backend_def backend_at_def nth_list_update list_update_beyond)

lemma backend_ops_sel [simp]:
  "be_connections (incConn b) = be_connections b + 1" "be_connections (decConn b) = be_connections b - 1"
  "be_connections (setHealthy h now b) = be_connections b"
  by (simp_all add: incConn_def decConn_def setHealthy_def)

lemma set_remove_host: "set (remove_host f ps) \<subseteq> set ps"
  by (induction ps) auto

lemma length_remove_host: "length (remove_host f ps) \<le> length ps"
  by (induction ps) auto

lemma RemoveBackend_sel [simp]:
  "lb_heap (RemoveBackend addr lb) = lb_heap lb" "backend_at (RemoveBackend addr lb) p = backend_at lb p"
  by (simp_all add: RemoveBackend_def)

lemma remove_all:
  assumes "list_all P (lb_backends lb)"
  shows "list_all P (lb_backends (RemoveBackend addr lb))"
  using assms set_remove_host [of _ "lb_backends lb"] by (auto simp: RemoveBackend_def list_all_iff)

lemma RemoveBackend_length: "length (lb_backends (RemoveBackend addr lb)) \<le> length (lb_backends lb)"
  by (simp add: RemoveBackend_def length_remove_host)

lemma AddBackend_cases:
  assumes "AddBackend url_Parse addr lb = (lb', ok)"
  obtains "lb' = lb" "\<not> ok"
  | host where "ok" "lb_heap lb' = lb_heap lb @ [\<lparr>be_Host = host, be_healthy = True, be_connections = 0, be_lastCheck = zero_time\<rparr>]"
      "lb_backends lb' = lb_backends lb @ [length (lb_heap lb)]"
  using assms by (auto simp: AddBackend_def split: option.splits)

lemma task_ok_mono:
  assumes "no_reader ts" "list_all (task_ok h ps) ts" "h \<le> h'"
  shows "list_all (task_ok h' ps') ts"
proof -
  have "task_ok h' ps' t" if "\<not> is_picking t" "task_ok h ps t" for t
    using that assms(3) by (cases t) (simp_all add: is_picking_def)
  with assms(1,2) show ?thesis by (auto simp: no_reader_def list_all_iff)
qed

lemma proxied_fresh: "list_all (task_ok h ps) ts \<Longrightarrow> h \<le> p \<Longrightarrow> proxied p ts = 0"
  by (induction ts) auto

lemma pick_oneD:
  assumes "pick_one lb = (lb', p)"
  shows "lb_heap lb' = lb_heap lb" "lb_backends lb' = lb_backends lb" "backend_at lb' q = backend_at lb q"
    "lb_rr lb' = lb_rr lb + 1" "p = snd (pick_one lb)"
  using pick_one_sel [of lb] assms by simp_all

lemma pick_one_valid:
  assumes "pick_one lb = (lb', p)" "length (lb_backends lb) < 2 ^ 32" "list_all (\<lambda>p. p < h) (lb_backends lb)"
    "lb_backends lb \<noteq> []"
  shows "p < h \<and> p \<in> set (lb_backends lb)"
  using pick_one_listed [of lb] assms by (auto simp: list_all_iff)

lemma find_backend_valid:
  "find_backend addr lb = Some p \<Longrightarrow> p \<in> set (lb_backends lb) \<and> be_Host (backend_at lb p) = addr"
  by (auto simp: find_backend_def find_Some_iff)

lemma cluster_inv_start: "cluster_inv cluster_start"
  by (simp add: cluster_inv_def cluster_start_def NewLoadBalancer_def Let_def)

lemma cluster_inv_remove:
  assumes "no_reader ts" "cluster_inv \<lparr>cl_lb = lb, cl_tasks = ts, cl_unavailable = u\<rparr>"
  shows "cluster_inv \<lparr>cl_lb = RemoveBackend addr lb, cl_tasks = ts, cl_unavailable = u\<rparr>"
proof -
  let ?h = "length (lb_heap lb)"
  have "list_all (task_ok ?h (lb_backends lb)) ts"
    using assms(2) by (simp add: cluster_inv_def Let_def)
  from task_ok_mono [OF assms(1) this order_refl]
  have "list_all (task_ok ?h (lb_backends (RemoveBackend addr lb))) ts" .
  with assms(2) remove_all [of "\<lambda>p. p < ?h" lb addr] RemoveBackend_length [of addr lb] show ?thesis
    by (simp add: cluster_inv_def Let_def)
qed

lemma cluster_inv_step:
  assumes "lb_step c c'" "cluster_inv c"
  shows "cluster_inv c'"
  using assms
proof (induction rule: lb_step.induct)
  case (add ts lb url_Parse addr lb' ok u)
  from add(3) show ?case
  proof (cases rule: AddBackend_cases)
    case 1
    with add show ?thesis by simp
  next
    case (2 host)
    let ?h = "length (lb_heap lb)"
    from add(4) have ok: "list_all (\<lambda>p. p < ?h) (lb_backends lb)" "list_all (task_ok ?h (lb_backends lb)) ts"
      "\<forall>p<?h. be_connections (lb_heap lb ! p) = of_nat (proxied p ts)"
      by (simp_all add: cluster_inv_def Let_def backend_at_def)
    have "list_all (task_ok (Suc ?h) (lb_backends lb')) ts"
      using add(1) ok(2) by (rule task_ok_mono) simp
    moreover have "list_all (\<lambda>p. p < Suc ?h) (lb_backends lb)" using ok(1) by (auto simp: list_all_iff)
    moreover have "be_connections (lb_heap lb' ! p) = of_nat (proxied p ts)" if "p < Suc ?h" for p
      using that ok(3) 2 proxied_fresh [OF ok(2), of p] by (cases "p = ?h") (auto simp: nth_append)
    ultimately show ?thesis using 2 add(2) by (simp add: cluster_inv_def Let_def backend_at_def)
  qed
next
  case (remove ts lb u addr)
  then show ?case by (rule cluster_inv_remove)
next
  case (pick_hit lb lb' p t1 k t2 u)
  then show ?case using pick_oneD [OF pick_hit(1)] pick_one_valid [OF pick_hit(1)]
    by (auto simp: cluster_inv_def Let_def)
next
  case (pick_miss lb lb' p t1 k t2 u)
  then show ?case using pick_oneD [OF pick_miss(1)]
    by (auto simp: cluster_inv_def Let_def)
next
  case (drain addr lb p ts u now wait)
  then show ?case using find_backend_valid [OF drain(1)]
    by (auto simp: cluster_inv_def Let_def list_all_iff)
next
  case (drained t1 t2 now deadline lb p addr u)
  then have "cluster_inv \<lparr>cl_lb = lb, cl_tasks = t1 @ t2, cl_unavailable = u\<rparr>"
    by (simp add: cluster_inv_def Let_def)
  with drained(1) show ?case by (rule cluster_inv_remove)
next
  case (probe lb ts u)
  then show ?case by (simp add: cluster_inv_def Let_def list_all_iff ball_Un)
next
  case (count_in lb t1 p t2 u)
  then show ?case by (simp add: cluster_inv_def Let_def)
next
  case (count_out lb t1 p t2 u)
  then show ?case by (simp add: cluster_inv_def Let_def)
next
  case (probed lb t1 p t2 u resp now)
  then show ?case by (simp add: cluster_inv_def Let_def)
qed (simp_all add: cluster_inv_def Let_def)

lemma cluster_inv_steps: "lb_steps c c' \<Longrightarrow> cluster_inv c \<Longrightarrow> cluster_inv c'"
  by (induction rule: rtranclp_induct) (auto intro: cluster_inv_step)

text \<open>A backend that has left the slice never returns to it, and the requests bound for it only
  become fewer: what a drain waits for.\<close>

lemma gone_step:
  assumes "lb_step c c'" "cluster_inv c" "p < length (lb_heap (cl_lb c))" "p \<notin> set (lb_backends (cl_lb c))"
  shows "p < length (lb_heap (cl_lb c')) \<and> p \<notin> set (lb_backends (cl_lb c')) \<and>
    bound_for p (cl_tasks c') \<le> bound_for p (cl_tasks c)"
  using assms
proof (induction rule: lb_step.induct)
  case (add ts lb url_Parse addr lb' ok u)
  from add(3) show ?case
    by (cases rule: AddBackend_cases) (use add in auto)
next
  case (remove ts lb u addr)
  then show ?case using set_remove_host [of _ "lb_backends lb"] by (auto simp: RemoveBackend_def)
next
  case (pick_hit lb lb' q t1 k t2 u)
  then have "q \<in> set (lb_backends lb)"
    using pick_one_valid [OF pick_hit(1), of "length (lb_heap lb)"] by (simp add: cluster_inv_def Let_def)
  with pick_hit show ?case using pick_oneD [OF pick_hit(1)] by auto
next
  case (pick_miss lb lb' q t1 k t2 u)
  then show ?case using pick_oneD [OF pick_miss(1)] by auto
next
  case (drained t1 t2 now deadline lb q addr u)
  then show ?case using set_remove_host [of _ "lb_backends lb"] by (auto simp: RemoveBackend_def)
qed auto

lemma gone_steps:
  assumes "lb_steps c c'" "cluster_inv c" "p < length (lb_heap (cl_lb c))" "p \<notin> set (lb_backends (cl_lb c))"
  shows "p < length (lb_heap (cl_lb c')) \<and> p \<notin> set (lb_backends (cl_lb c')) \<and>
    bound_for p (cl_tasks c') \<le> bound_for p (cl_tasks c)"
  using assms
proof (induction rule: rtranclp_induct)
  case (step d e)
  with gone_step [OF step(2) cluster_inv_steps [OF step(1,4)], of p] show ?case by fastforce
qed simp

text \<open>With two callers at once the counter is shared, and one of them can land on the same
  unhealthy backend in all its rounds: it answers 503 although the other backend was healthy from
  the first step to the last.\<close>

lemma concurrent_search_misses_healthy:
  "\<exists>c. lb_steps cluster_start c \<and> cl_unavailable c = 1 \<and> healthy_at (cl_lb c) 0 \<and>
     0 \<in> set (lb_backends (cl_lb c))"
proof -
  let ?b = "\<lambda>a h t. \<lparr>be_Host = a, be_healthy = h, be_connections = 0, be_lastCheck = t\<rparr>"
  let ?lb = "\<lambda>rr. \<lparr>lb_heap = [?b ''a'' True 0, ?b ''b'' False 1], lb_backends = [0, 1], lb_rr = rr\<rparr>"
  let ?d = "Draining 1 ''b'' 11"
  let ?c = "\<lambda>rr ts u. \<lparr>cl_lb = ?lb rr, cl_tasks = ts @ [?d], cl_unavailable = u\<rparr>"
  let ?parse = "\<lambda>s :: string. Some (drop 7 s)"
  let ?one = "\<lparr>cl_lb = \<lparr>lb_heap = [?b ''a'' True 0], lb_backends = [0], lb_rr = 0\<rparr>, cl_tasks = [], cl_unavailable = 0\<rparr>"
  let ?two = "\<lparr>cl_lb = \<lparr>lb_heap = [?b ''a'' True 0, ?b ''b'' True 0], lb_backends = [0, 1], lb_rr = 0\<rparr>, cl_tasks = [], cl_unavailable = 0\<rparr>"
  have picks: "pick_one (?lb 0) = (?lb 1, 1)" "pick_one (?lb 1) = (?lb 2, 0)" "pick_one (?lb 2) = (?lb 3, 1)"
    by code_simp+
  have health: "\<not> healthy_at (?lb rr) 1" "healthy_at (?lb rr) 0" for rr
    by (simp_all add: healthy_at_def isHealthy_def backend_at_def)
  have "lb_step cluster_start ?one"
    unfolding cluster_start_def
    by (rule lb_step.add [where url_Parse = ?parse and addr = "''a''" and ok = True])
       (simp_all add: no_reader_def NewLoadBalancer_def AddBackend_def zero_time_def)
  moreover have "lb_step ?one ?two"
    by (rule lb_step.add [where url_Parse = ?parse and addr = "''b''" and ok = True])
       (simp_all add: no_reader_def AddBackend_def zero_time_def)
  moreover have "lb_step ?two (?c 0 [] 0)"
    using lb_step.drain [of "''b''" "cl_lb ?two" 1 "[]" 0 1 10]
    by (simp add: find_backend_def backend_at_def on_backend_def setHealthy_def add_dur_def)
  moreover have "lb_step (?c 0 [] 0) (?c 0 [Picking 2] 0)"
    using lb_step.arrive [of "?lb 0" "[?d]" 0] by (simp add: numeral_2_eq_2)
  moreover have "lb_step (?c 0 [Picking 2] 0) (?c 0 [Picking 2, Picking 2] 0)"
    using lb_step.arrive [of "?lb 0" "[Picking 2, ?d]" 0] by (simp add: numeral_2_eq_2)
  moreover have "lb_step (?c 0 [Picking 2, Picking 2] 0) (?c 1 [Picking 1, Picking 2] 0)"
    using lb_step.pick_miss [OF picks(1) health(1), of "[]" 1 "[Picking 2, ?d]" 0] by (simp add: numeral_2_eq_2)
  moreover have "lb_step (?c 1 [Picking 1, Picking 2] 0) (?c 2 [Picking 1, Picked 0] 0)"
    using lb_step.pick_hit [OF picks(2) health(2), of "[Picking 1]" 1 "[?d]" 0] by (simp add: numeral_2_eq_2)
  moreover have "lb_step (?c 2 [Picking 1, Picked 0] 0) (?c 3 [Picking 0, Picked 0] 0)"
    using lb_step.pick_miss [OF picks(3) health(1), of "[]" 0 "[Picked 0, ?d]" 0] by simp
  moreover have "lb_step (?c 3 [Picking 0, Picked 0] 0) (?c 3 [Picked 0] 1)"
    using lb_step.pick_fail [of "?lb 3" "[]" "[Picked 0, ?d]" 0] by simp
  ultimately have "lb_steps cluster_start (?c 3 [Picked 0] 1)" by (meson converse_rtranclp_into_rtranclp rtranclp.rtrancl_refl)
  with health(2) show ?thesis by (intro exI [of _ "?c 3 [Picked 0] 1"]) simp
qed

text \<open>A probe that answers while its backend drains puts it back into rotation.\<close>

lemma probe_undoes_drain:
  assumes "p < length (lb_heap lb)"
  shows "healthy_at (on_backend p (setHealthy (probe_healthy (Some 200)) t) (on_backend p (setHealthy False now) lb)) p"
  using assms by (simp add: healthy_at_def isHealthy_def setHealthy_def probe_healthy_def)

text \<open>The starting port is the number of items scanned, one, whatever number the variable holds.\<close>

lemma getEnvInt_is_item_count:
  assumes "\<And>v n. Sscanf_d v = Some n \<Longrightarrow> n = 1"
  shows "getEnvInt Sscanf_d env key def \<in> {1, def}"
  using assms by (auto simp: getEnvInt_def Let_def split: option.splits)

section \<open>The properties\<close>

text \<open>C36. A call of \<open>NextBackend\<close> that no other search interleaves with only ever returns a healthy backend
  of the slice and leaves the backends as they are. If besides its 32-bit counter does not wrap during the
  call, it is the reference round robin: it returns the first healthy backend of the slice rotated past
  the last one served, returns none exactly when no backend is healthy, and leaves the counter such
  that the backend it returned comes last in the next turn. (After a wrap, and when searches
  interleave, a healthy backend can be missed: \<open>wrap_misses_healthy_backend\<close>,
  \<open>concurrent_search_misses_healthy\<close>.)\<close>

theorem next_backend_round_robin:
  assumes "length (lb_backends lb) < 2 ^ 32"
  shows "lb_heap (fst (NextBackend lb)) = lb_heap lb \<and> lb_backends (fst (NextBackend lb)) = lb_backends lb \<and>
    (\<forall>p. snd (NextBackend lb) = Some p \<longrightarrow> p \<in> set (lb_backends lb) \<and> healthy_at lb p) \<and>
    (unat (lb_rr lb) + length (lb_backends lb) < 2 ^ 32 \<longrightarrow>
      snd (NextBackend lb) = List.find (healthy_at lb) (rotation lb) \<and>
      (snd (NextBackend lb) = None \<longleftrightarrow> \<not> list_ex (healthy_at lb) (lb_backends lb)) \<and>
      (snd (NextBackend lb) \<noteq> None \<longrightarrow> Some (last (rotation (fst (NextBackend lb)))) = snd (NextBackend lb)))"
proof (intro conjI impI allI)
  show "lb_heap (fst (NextBackend lb)) = lb_heap lb" "lb_backends (fst (NextBackend lb)) = lb_backends lb"
    using next_loop_sel [of "length (lb_backends lb)" lb] by (simp_all add: NextBackend_def Let_def)
  show "p \<in> set (lb_backends lb)" "healthy_at lb p" if "snd (NextBackend lb) = Some p" for p
    using that next_loop_sound [OF _ assms, of "length (lb_backends lb)" p] by (auto simp: NextBackend_def Let_def split: if_splits)
next
  assume nowrap: "unat (lb_rr lb) + length (lb_backends lb) < 2 ^ 32"
  show find: "snd (NextBackend lb) = List.find (healthy_at lb) (rotation lb)" by (rule NextBackend_rotation [OF assms nowrap])
  show "snd (NextBackend lb) = None \<longleftrightarrow> \<not> list_ex (healthy_at lb) (lb_backends lb)"
    by (auto simp: find rotation_def find_None_iff list_ex_iff)
  assume "snd (NextBackend lb) \<noteq> None"
  then obtain p where some: "snd (NextBackend lb) = Some p" by blast
  then have ne: "lb_backends lb \<noteq> []" by (auto simp: NextBackend_def)
  with some next_loop_last [OF ne assms nowrap, of p] show "Some (last (rotation (fst (NextBackend lb)))) = snd (NextBackend lb)"
    by (simp add: NextBackend_def Let_def)
qed

theorem next_backend_round_robin_witness:
  "snd (NextBackend \<lparr>lb_heap = [\<lparr>be_Host = ''a'', be_healthy = True, be_connections = 0, be_lastCheck = 0\<rparr>,
     \<lparr>be_Host = ''b'', be_healthy = False, be_connections = 0, be_lastCheck = 0\<rparr>,
     \<lparr>be_Host = ''c'', be_healthy = True, be_connections = 0, be_lastCheck = 0\<rparr>], lb_backends = [0, 1, 2], lb_rr = 3\<rparr>) = Some 2"
proof -
  let ?lb = "\<lparr>lb_heap = [\<lparr>be_Host = ''a'', be_healthy = True, be_connections = 0, be_lastCheck = 0\<rparr>,
     \<lparr>be_Host = ''b'', be_healthy = False, be_connections = 0, be_lastCheck = 0\<rparr>,
     \<lparr>be_Host = ''c'', be_healthy = True, be_connections = 0, be_lastCheck = 0\<rparr>], lb_backends = [0, 1, 2], lb_rr = 3\<rparr>"
  have "List.find (healthy_at ?lb) (rotation ?lb) = Some 2" by code_simp
  with next_backend_round_robin [of ?lb] show ?thesis by simp
qed

text \<open>C37. However requests, probes, drains and changes of the slice interleave, the connection
  counter a drain reads is exactly the number of requests being proxied to that backend (modulo the
  32 bits of the counter), no goroutine holds a dangling backend, and a backend that has left the
  slice never comes back and never gets another request.\<close>

theorem connections_exact:
  assumes "lb_steps cluster_start c" "p < length (lb_heap (cl_lb c))"
  shows "be_connections (backend_at (cl_lb c) p) = of_nat (proxied p (cl_tasks c)) \<and>
    list_all (task_ok (length (lb_heap (cl_lb c))) (lb_backends (cl_lb c))) (cl_tasks c) \<and>
    (p \<notin> set (lb_backends (cl_lb c)) \<longrightarrow> lb_steps c c' \<longrightarrow>
       p \<notin> set (lb_backends (cl_lb c')) \<and> bound_for p (cl_tasks c') \<le> bound_for p (cl_tasks c))"
proof -
  have inv: "cluster_inv c" using cluster_inv_steps [OF assms(1) cluster_inv_start] .
  with assms(2) gone_steps [OF _ inv, of c' p] show ?thesis by (auto simp: cluster_inv_def Let_def)
qed

theorem connections_exact_witness:
  "let c = \<lparr>cl_lb = \<lparr>lb_heap = [\<lparr>be_Host = ''a'', be_healthy = True, be_connections = 0, be_lastCheck = 0\<rparr>],
       lb_backends = [0], lb_rr = 0\<rparr>, cl_tasks = [], cl_unavailable = 0\<rparr> in
   be_connections (backend_at (cl_lb c) 0) = of_nat (proxied 0 (cl_tasks c))"
proof -
  let ?c = "\<lparr>cl_lb = \<lparr>lb_heap = [\<lparr>be_Host = ''a'', be_healthy = True, be_connections = 0, be_lastCheck = 0\<rparr>],
       lb_backends = [0], lb_rr = 0\<rparr>, cl_tasks = [], cl_unavailable = 0\<rparr>"
  have "lb_step cluster_start ?c"
    unfolding cluster_start_def
    by (rule lb_step.add [where url_Parse = "\<lambda>s. Some (drop 7 s)" and addr = "''a''" and ok = True])
       (simp_all add: no_reader_def NewLoadBalancer_def AddBackend_def zero_time_def)
  then have "lb_steps cluster_start ?c" by blast
  from connections_exact [OF this, of 0 ?c] show ?thesis by (simp only: Let_def) simp
qed

end
