(* ===== verification/Spec2Isabelle.thy ===== *)
theory Spec2Isabelle
  imports Host_Breaker Admission Upstream Prompt Policy Policy_Loading Dispatch Score_Store Server Updater Load_Balancer
begin

text \<open>
  A model of CalvoProxy (\<open>src/\<close>), a proxy that routes chat requests to free language models of several
  providers, and the theorems that make its router and the process around it correct.

  \<^bold>\<open>The program.\<close> A request enters \<open>RouteRequestWithProvider\<close> (\<open>internal/router/router.go\<close>). It takes an
  admission slot, its body is bounded and decoded, a profile is chosen, the policy engine authorizes it,
  and \<open>dispatchChain\<close> plans the attempts of the profile, keeps those that are configured, capable, healthy
  and large enough, ranks them by quota and reliability, reserves quota for the first, possibly sleeping
  until a quota window resets, and runs them one after the other until one answers. Each attempt claims
  its circuit and its quota, calls the provider, and settles both. The state shared by requests is the
  router service (circuits, scores, cooldowns), the quota ledger, the affinity store, the admission
  semaphore, the counters and the ring of recent traces.
  Around the router, the server process (\<open>cmd/main.go\<close>) chooses the key of a request and gates the
  administration pages, the console (\<open>cmd/admin_*.go\<close>) changes the encrypted provider vault
  (\<open>internal/secretstore\<close>), scores are saved and restored, the updater replaces the executable, and a
  load balancer (\<open>cmd/lb\<close>) can stand in front of several instances.

  \<^bold>\<open>Theories and sources\<close> (under \<open>src/internal/router/\<close>).
  \<^item> \<open>Prelude\<close>: 64-bit arithmetic, Go times and durations, strings, association lists as Go maps, stable
    sorting, named lemma collections.
  \<^item> \<open>Quota_Ledger\<close>, \<open>Quota_Spec\<close>, \<open>Ticket_Pool\<close>: \<open>router_quota.go\<close>; the ledger with its heap of buckets, its
    invariant and reachable states, the abstract ledger it refines, and the ticket-pool interface.
  \<^item> \<open>Env_Config\<close>: \<open>router_policy_env.go\<close>; \<open>Router_Types\<close>: \<open>router_types.go\<close>, \<open>router_model_attempts.go\<close>.
  \<^item> \<open>Scoring\<close>: \<open>router_scoring.go\<close>; \<open>Breaker\<close>: \<open>router_breaker.go\<close>, \<open>router_provider_breaker.go\<close>;
    \<open>Host_Breaker\<close>: the transport of \<open>router_breaker.go\<close>.
  \<^item> \<open>Admission\<close>: \<open>router_admission.go\<close>; \<open>Affinity\<close>: \<open>router_affinity.go\<close>; \<open>Capabilities\<close>: \<open>router_capabilities.go\<close>.
  \<^item> \<open>Request_Body\<close>: \<open>router_policy_request.go\<close>, \<open>provider_adapter*.go\<close>, \<open>router_reasoning.go\<close>, \<open>router_compress.go\<close>.
  \<^item> \<open>Registry\<close>: \<open>router_provider_registry.go\<close>, \<open>router_targets.go\<close>, \<open>router_context_window.go\<close>,
    \<open>router_profile_timeout.go\<close> and what the router uses of the vendored model policy.
  \<^item> \<open>Quota_Providers\<close>: \<open>router_quota_providers.go\<close>; \<open>Quota_Routing\<close>: \<open>router_quota_routing.go\<close>.
  \<^item> \<open>Streaming\<close>: \<open>router_stream.go\<close>; \<open>Trace\<close>: \<open>router_trace.go\<close>, \<open>router_trace_ring.go\<close>; \<open>Counters\<close>:
    \<open>router_counters.go\<close>; \<open>Http\<close>: \<open>router_http.go\<close>.
  \<^item> \<open>Fallback\<close>: \<open>router_fallback.go\<close>, \<open>router_provider_error.go\<close>; \<open>Upstream\<close>: \<open>router_upstream.go\<close>.
  \<^item> \<open>Prompt\<close>: \<open>router_policy_prompt.go\<close>; \<open>Policy\<close>: \<open>policyrules/\<close>, \<open>policyvocab/\<close>, \<open>operational_policy.go\<close> and the
    \<open>router_policy_*\<close> files it reads; \<open>Dispatch\<close>: \<open>router.go\<close>, \<open>router_tunnels.go\<close>; \<open>Policy_Loading\<close>:
    \<open>router_policy_model.go\<close>, \<open>ReloadModelPolicy\<close> of \<open>router.go\<close>, \<open>validation.go\<close> and \<open>config.go\<close> of the model policy.

  \<^item> \<open>Score_Store\<close>: \<open>router_scoring_store.go\<close>.
  \<^item> Outside the router: \<open>Vault\<close>: \<open>internal/secretstore/vault.go\<close>, \<open>cmd/provider_credentials.go\<close>,
    \<open>cmd/keystore.go\<close>; \<open>Admin\<close>: \<open>cmd/admin_sessions.go\<close>, \<open>cmd/admin_providers.go\<close>; \<open>Server\<close>: \<open>cmd/main.go\<close>,
    \<open>cmd/security.go\<close>, \<open>cmd/metrics.go\<close>, \<open>cmd/idle.go\<close>, \<open>internal/app/runtime.go\<close>; \<open>Updater\<close>:
    \<open>cmd/update.go\<close>, \<open>cmd/verify.go\<close>, \<open>cmd/version.go\<close>; \<open>Load_Balancer\<close>: \<open>cmd/lb/main.go\<close>.

  \<^bold>\<open>Correspondence.\<close> A struct is a record with the fields of the source (a prefix tells records apart), an
  operation a definition with the name of the Go function; auxiliary definitions name parts of a long
  function. A mutex makes an operation atomic, so an operation is a function of the state it locks. Each
  \<open>time.Now()\<close> is an argument, each \<open>select\<close> takes the case it chooses as an argument, and what a provider
  does is an \<open>exchange\<close>. Errors are values. Machine integers are integers with \<open>wrap64\<close> wherever the source
  can leave the range; ticket numbers are 64-bit words. A \<open>float64\<close> is a real number, without rounding or
  NaN; strings are bytes, trimmed and folded as ASCII; a Go map is an association list and is read in list order, with a remark where
  the order matters.

  \<^bold>\<open>What is shown.\<close> The ledger's counters are exact in every reachable state, reservations never
  oversubscribe a bucket, tickets are settled at most once, and the ledger refines an abstract one. A
  half-open circuit admits one probe, a host's circuit is what the history of the host says, scores and
  counters of every circuit stay in range, also when score files are loaded meanwhile, and the ranking
  is exactly the order of a stable reference sort. The semaphore, the affinity store and the trace ring are bounded and equal to simple
  reference structures. Chains run in order, report honestly, leave no quota claim and answer once; these
  hold first against the contracts of the locales \<open>ticket_pool\<close> and \<open>chain_contract\<close>, then for the router's
  own executor by interpretation. Credentials stay with their provider. Streams are relayed honestly.
  The policy gate fails closed. The dispatch answers every request exactly once (the response writer
  lists every status it is asked to send), returns its slot, runs only capable models, is parked for no
  more than its budget and one settle time and leaves no claim, by interpretations of the locale
  \<open>hold_contract\<close>, the total rule of the hold loop.
  A policy that loads without a warning is the merged configuration, a reload equals a restart or changes
  nothing (what Go's maps yield to each being an argument), and every interleaving of reloads leaves readers a usable policy (\<open>policy_step\<close>, by rule
  induction); normalizing a policy twice is normalizing it once.
  Scores survive a restart. A public instance spends no credential of its operator, and its pages fail
  closed. The vault returns what was stored, is replaced only behind the right key, changes only for an
  authorized administrator, whose sessions all come from a login with the token (by induction over the
  histories of the console), and takes over the old key file without losing it (the locale
  \<open>credential_store\<close>, interpreted on the vault). Logins are rate limited. The updater installs only what it
  verified. The balancer returns healthy backends only, is a round robin while its
  searches do not interleave and its counter does not wrap, and counts connections exactly in every
  interleaving.

  \<^bold>\<open>Loops and bounds.\<close> All definitions are total. The one loop with fuel is \<open>ticket_id_loop\<close> of
  \<open>newTicketIDLocked\<close>, which steps over zero and the numbers of live tickets: its fuel is two more than the
  number of tickets, and lemma \<open>ticket_id_loop_enough\<close> shows that this is always enough. Loops over lists are structural, the
  hold loop ends because its budget decreases (wrap-around included), a stream is a finite list of events
  closed by the end of its context.

  \<^bold>\<open>Parameters.\<close> JSON encoders and decoders, SHA-256, AES-GCM, Ed25519, base64, HTTP dates, URL and address
  parsing, archive readers, the response transform, the facts of the HTTP adapter library, the key source
  of the operating system and the outcome of every file operation. Their laws, where one is needed, are
  the hypotheses \<open>codec_ok\<close> and \<open>set_sane\<close> of the vault.

  \<^bold>\<open>Not modelled.\<close> Logs, the text of metrics and JSON pages, spans; partial writes to the client;
  interleavings inside an operation that takes a lock several times, except where a theory says so; the
  decoding of policy files; the key chains of the operating systems; start-up wiring and signal handling of
  the processes; the terminal programs (setup, login, chat, doctor, launchers) and the dashboard, which
  are input and output around the router.
\<close>

end
